(* ===== verification/Penelope_Prelude.thy ===== *)
theory Penelope_Prelude
  imports Main "HOL-Library.Word"
begin

text \<open>
  Shared vocabulary of the development.

  \<^item> Rust's \<open>Result<T, E>\<close> is the sum \<open>'e + 'a\<close>, \<open>Inl\<close> the error; the \<open>?\<close> operator is
    \<open>bindR\<close> and \<open>Option::ok_or\<close> is \<open>ok_or\<close>.
  \<^item> Machine integers are words; the checked and saturating operations of the standard
    library are written out over \<open>unat\<close>.
  \<^item> Byte encodings: little- and big-endian fixed-width numbers, 32-byte digests.
  \<^item> Two interface locales: an append-only log folded by a fallible step (every history
    of the program is one), and a prefix-free field encoding (every canonical byte string
    of the program is a concatenation of them).
\<close>

section \<open>Results\<close>

named_theorems result_simps \<open>characterisations of successful and failing results\<close>

fun bindR :: "'e + 'a \<Rightarrow> ('a \<Rightarrow> 'e + 'b) \<Rightarrow> 'e + 'b" where
  "bindR (Inl e) f = Inl e"
| "bindR (Inr x) f = f x"

definition ok_or :: "'e \<Rightarrow> 'a option \<Rightarrow> 'e + 'a" where
  "ok_or e x = (case x of None \<Rightarrow> Inl e | Some y \<Rightarrow> Inr y)"

definition map_err :: "('e \<Rightarrow> 'f) \<Rightarrow> 'e + 'a \<Rightarrow> 'f + 'a" where
  "map_err f r = (case r of Inl e \<Rightarrow> Inl (f e) | Inr x \<Rightarrow> Inr x)"

lemma bindR_eq_Inr [result_simps]:
  "bindR m f = Inr b \<longleftrightarrow> (\<exists>a. m = Inr a \<and> f a = Inr b)"
  by (cases m) auto

lemma bindR_eq_Inl [result_simps]:
  "bindR m f = Inl e \<longleftrightarrow> m = Inl e \<or> (\<exists>a. m = Inr a \<and> f a = Inl e)"
  by (cases m) auto

lemma ok_or_eq_Inr [result_simps]: "ok_or e x = Inr y \<longleftrightarrow> x = Some y"
  by (auto simp: ok_or_def split: option.splits)

lemma ok_or_eq_Inl [result_simps]: "ok_or e x = Inl e' \<longleftrightarrow> x = None \<and> e' = e"
  by (auto simp: ok_or_def split: option.splits)

lemma map_err_eq_Inr [result_simps]: "map_err f r = Inr x \<longleftrightarrow> r = Inr x"
  by (auto simp: map_err_def split: sum.splits)

lemma map_err_eq_Inl [result_simps]: "map_err f r = Inl e \<longleftrightarrow> (\<exists>e'. r = Inl e' \<and> e = f e')"
  by (auto simp: map_err_def split: sum.splits)

lemma ok_or_simps [simp]: "ok_or e None = Inl e" "ok_or e (Some y) = Inr y"
  by (simp_all add: ok_or_def)

lemma map_err_simps [simp]: "map_err f (Inl e) = Inl (f e)" "map_err f (Inr x) = Inr x"
  by (simp_all add: map_err_def)

lemma bindR_cong [fundef_cong]:
  "m = m' \<Longrightarrow> (\<And>x. m' = Inr x \<Longrightarrow> f x = f' x) \<Longrightarrow> bindR m f = bindR m' f'"
  by (cases m') auto

lemma bindR_assoc: "bindR (bindR m f) g = bindR m (\<lambda>x. bindR (f x) g)"
  by (cases m) auto

section \<open>Lists\<close>

lemma list_all2_in1: "list_all2 P xs ys \<Longrightarrow> x \<in> set xs \<Longrightarrow> \<exists>y\<in>set ys. P x y"
  by (induction rule: list_all2_induct) auto

lemma list_all2_in2: "list_all2 P xs ys \<Longrightarrow> y \<in> set ys \<Longrightarrow> \<exists>x\<in>set xs. P x y"
  by (induction rule: list_all2_induct) auto

section \<open>Machine integers\<close>

type_synonym u8 = "8 word"
type_synonym u16 = "16 word"
type_synonym u32 = "32 word"
type_synonym u64 = "64 word"

definition checked_add :: "'a::len word \<Rightarrow> 'a word \<Rightarrow> 'a word option" where
  "checked_add a b = (if unat a + unat b < 2 ^ LENGTH('a) then Some (a + b) else None)"

definition checked_sub :: "'a::len word \<Rightarrow> 'a word \<Rightarrow> 'a word option" where
  "checked_sub a b = (if b \<le> a then Some (a - b) else None)"

definition saturating_add :: "'a::len word \<Rightarrow> 'a word \<Rightarrow> 'a word" where
  "saturating_add a b = (if unat a + unat b < 2 ^ LENGTH('a) then a + b else - 1)"

definition saturating_sub :: "'a::len word \<Rightarrow> 'a word \<Rightarrow> 'a word" where
  "saturating_sub a b = (if b \<le> a then a - b else 0)"

lemma unat_less_exp: "unat (x :: 'a::len word) < 2 ^ LENGTH('a)"
  by (rule unsigned_less)

lemma numeral_le_one_word [simp]:
  "(numeral n :: 'a::len word) \<le> 1 \<longleftrightarrow> unat (numeral n :: 'a word) \<le> 1"
  by (simp add: word_le_nat_alt)

lemma checked_add_Some [result_simps]:
  fixes a b c :: "'a::len word"
  shows "checked_add a b = Some c \<longleftrightarrow> unat c = unat a + unat b"
proof
  assume "checked_add a b = Some c"
  then show "unat c = unat a + unat b"
    by (auto simp: checked_add_def unat_word_ariths split: if_splits)
next
  assume *: "unat c = unat a + unat b"
  then have lt: "unat a + unat b < 2 ^ LENGTH('a)" using unat_less_exp [of c] by simp
  then have "unat (a + b) = unat c" using * by (simp add: unat_word_ariths)
  with lt show "checked_add a b = Some c" by (simp add: checked_add_def word_unat_eq_iff)
qed

lemma checked_add_None [result_simps]:
  fixes a b :: "'a::len word"
  shows "checked_add a b = None \<longleftrightarrow> 2 ^ LENGTH('a) \<le> unat a + unat b"
  by (auto simp: checked_add_def)

lemma checked_sub_Some [result_simps]:
  fixes a b c :: "'a::len word"
  shows "checked_sub a b = Some c \<longleftrightarrow> unat a = unat b + unat c"
proof
  assume "checked_sub a b = Some c"
  then show "unat a = unat b + unat c"
    by (auto simp: checked_sub_def unat_sub word_le_nat_alt split: if_splits)
next
  assume *: "unat a = unat b + unat c"
  then have le: "b \<le> a" by (simp add: word_le_nat_alt)
  then have "unat (a - b) = unat c" using * by (simp add: unat_sub)
  with le show "checked_sub a b = Some c" by (simp add: checked_sub_def word_unat_eq_iff)
qed

lemma checked_sub_None [result_simps]:
  "checked_sub a b = None \<longleftrightarrow> unat a < unat b"
  by (auto simp: checked_sub_def word_le_nat_alt)

lemma successor_exists:
  fixes a :: "'a::len word"
  assumes "unat a + 1 < 2 ^ LENGTH('a)"
  shows "\<exists>n :: 'a word. unat n = unat a + 1"
  using assms by (intro exI [of _ "a + 1"]) (simp add: unat_word_ariths)

lemma unat_saturating_add:
  fixes a b :: "'a::len word"
  shows "unat (saturating_add a b) = min (unat a + unat b) (2 ^ LENGTH('a) - 1)"
  by (auto simp: saturating_add_def unat_word_ariths unsigned_minus_1_eq_mask mask_eq_exp_minus_1)

lemma saturating_add_ge:
  fixes a b :: "'a::len word"
  shows "a \<le> saturating_add a b"
proof -
  have "unat a \<le> 2 ^ LENGTH('a) - 1" using unat_less_exp [of a] by linarith
  then show ?thesis by (simp add: word_le_nat_alt unat_saturating_add)
qed

lemma unat_saturating_sub: "unat (saturating_sub a b) = unat a - unat b"
  by (auto simp: saturating_sub_def unat_sub word_le_nat_alt)

text \<open>A sequence number below a limit, and one that leaves the next slot free.\<close>

lemma slot_taken: "(m :: u32) \<le> s \<longleftrightarrow> \<not> unat s < unat m"
  by (simp add: word_le_nat_alt not_less)

lemma slot_reserved: "(m :: u32) \<le> saturating_add s 1 \<longleftrightarrow> \<not> unat s + 1 < unat m"
proof -
  have "unat m \<le> 2 ^ 32 - 1" using unat_less_exp [of m] by simp
  then show ?thesis by (auto simp: word_le_nat_alt unat_saturating_add)
qed

text \<open>\<open>NonZeroU32\<close> and \<open>NonZeroU64\<close>.\<close>

typedef (overloaded) 'a nonzero = "{w :: 'a::len word. w \<noteq> 0}"
  morphisms nz_get NonZero
  by (rule exI [of _ 1]) simp

instantiation nonzero :: (len) equal
begin

definition equal_nonzero :: "'a nonzero \<Rightarrow> 'a nonzero \<Rightarrow> bool" where
  "equal_nonzero a b \<longleftrightarrow> nz_get a = nz_get b"

instance
  by standard (simp add: equal_nonzero_def nz_get_inject)

end

lemma nz_get_positive [simp]: "0 < unat (nz_get n)"
proof -
  have "nz_get n \<noteq> 0" using nz_get [of n] by simp
  then show ?thesis by (simp add: unat_gt_0)
qed

lemma nz_get_NonZero [simp]: "w \<noteq> 0 \<Longrightarrow> nz_get (NonZero w) = w"
  by (simp add: NonZero_inverse)

section \<open>Bytes\<close>

type_synonym byte = u8

text \<open>\<open>to_le_bytes\<close> and \<open>from_le_bytes\<close> of the standard library, on the value read as a number.\<close>

primrec le_bytes :: "nat \<Rightarrow> nat \<Rightarrow> byte list" where
  "le_bytes 0 x = []"
| "le_bytes (Suc n) x = of_nat (x mod 256) # le_bytes n (x div 256)"

primrec le_value :: "byte list \<Rightarrow> nat" where
  "le_value [] = 0"
| "le_value (b # bs) = unat b + 256 * le_value bs"

definition be_bytes :: "nat \<Rightarrow> nat \<Rightarrow> byte list" where
  "be_bytes n x = rev (le_bytes n x)"

lemma length_le_bytes [simp]: "length (le_bytes n x) = n"
  by (induction n arbitrary: x) auto

lemma length_be_bytes [simp]: "length (be_bytes n x) = n"
  by (simp add: be_bytes_def)

lemma le_value_le_bytes: "le_value (le_bytes n x) = x mod 256 ^ n"
proof (induction n arbitrary: x)
  case 0
  then show ?case by simp
next
  case (Suc n)
  have "le_value (le_bytes (Suc n) x) = x mod 256 + 256 * (x div 256 mod 256 ^ n)"
    by (simp add: Suc.IH unat_of_nat take_bit_eq_mod)
  also have "\<dots> = x mod 256 ^ Suc n"
    by (simp add: mod_mult2_eq)
  finally show ?case .
qed

lemma le_bytes_le_value: "le_bytes (length bs) (le_value bs) = bs"
proof (induction bs)
  case Nil
  then show ?case by simp
next
  case (Cons b bs)
  have lt: "unat b < 256" using unsigned_less [of b] by simp
  then show ?case by (simp add: Cons.IH)
qed

lemma le_value_less: "le_value bs < 256 ^ length bs"
proof (induction bs)
  case Nil
  then show ?case by simp
next
  case (Cons b bs)
  have "unat b < 256" using unsigned_less [of b] by simp
  moreover have "256 * Suc (le_value bs) \<le> 256 * 256 ^ length bs"
    using Cons.IH by (intro mult_le_mono2) simp
  ultimately show ?case by simp
qed

lemma le_bytes_inject:
  "x < 256 ^ n \<Longrightarrow> y < 256 ^ n \<Longrightarrow> le_bytes n x = le_bytes n y \<longleftrightarrow> x = y"
  by (metis le_value_le_bytes mod_less)

lemma be_bytes_inject:
  "x < 256 ^ n \<Longrightarrow> y < 256 ^ n \<Longrightarrow> be_bytes n x = be_bytes n y \<longleftrightarrow> x = y"
  by (simp add: be_bytes_def le_bytes_inject)

definition u64_to_le_bytes :: "u64 \<Rightarrow> byte list" where
  "u64_to_le_bytes x = le_bytes 8 (unat x)"

definition u64_from_le_bytes :: "byte list \<Rightarrow> u64" where
  "u64_from_le_bytes bs = of_nat (le_value bs)"

definition u16_to_be_bytes :: "u16 \<Rightarrow> byte list" where
  "u16_to_be_bytes x = be_bytes 2 (unat x)"

definition u32_to_be_bytes :: "u32 \<Rightarrow> byte list" where
  "u32_to_be_bytes x = be_bytes 4 (unat x)"

definition u64_to_be_bytes :: "u64 \<Rightarrow> byte list" where
  "u64_to_be_bytes x = be_bytes 8 (unat x)"

lemma length_number_bytes [simp]:
  "length (u64_to_le_bytes x) = 8" "length (u16_to_be_bytes s) = 2"
  "length (u32_to_be_bytes y) = 4" "length (u64_to_be_bytes z) = 8"
  by (simp_all add: u64_to_le_bytes_def u16_to_be_bytes_def u32_to_be_bytes_def u64_to_be_bytes_def)

lemma u64_from_to_le [simp]: "u64_from_le_bytes (u64_to_le_bytes x) = x"
proof -
  have "unat x < 256 ^ 8" using unsigned_less [of x] by simp
  then show ?thesis
    by (simp add: u64_from_le_bytes_def u64_to_le_bytes_def le_value_le_bytes)
qed

lemma u64_to_from_le: "length bs = 8 \<Longrightarrow> u64_to_le_bytes (u64_from_le_bytes bs) = bs"
proof -
  assume len: "length bs = 8"
  have "le_value bs < 2 ^ 64" using le_value_less [of bs] len by simp
  then have "unat (u64_from_le_bytes bs) = le_value bs"
    by (simp add: u64_from_le_bytes_def unat_of_nat take_bit_eq_mod)
  then show ?thesis using le_bytes_le_value [of bs] len by (simp add: u64_to_le_bytes_def)
qed

lemma u16_to_be_inject [simp]: "u16_to_be_bytes x = u16_to_be_bytes y \<longleftrightarrow> x = y"
proof -
  have "unat x < 256 ^ 2" "unat y < 256 ^ 2"
    using unsigned_less [of x] unsigned_less [of y] by simp_all
  then show ?thesis by (simp add: u16_to_be_bytes_def be_bytes_inject word_unat_eq_iff)
qed

lemma u32_to_be_inject [simp]: "u32_to_be_bytes x = u32_to_be_bytes y \<longleftrightarrow> x = y"
proof -
  have "unat x < 256 ^ 4" "unat y < 256 ^ 4"
    using unsigned_less [of x] unsigned_less [of y] by simp_all
  then show ?thesis by (simp add: u32_to_be_bytes_def be_bytes_inject word_unat_eq_iff)
qed

lemma u64_to_be_inject [simp]: "u64_to_be_bytes x = u64_to_be_bytes y \<longleftrightarrow> x = y"
proof -
  have "unat x < 256 ^ 8" "unat y < 256 ^ 8"
    using unsigned_less [of x] unsigned_less [of y] by simp_all
  then show ?thesis by (simp add: u64_to_be_bytes_def be_bytes_inject word_unat_eq_iff)
qed

text \<open>
  A Rust string is its UTF-8 bytes; a HOL \<open>string\<close> is a list of 8-bit characters, so the two
  coincide byte for byte.
\<close>

definition str_bytes :: "string \<Rightarrow> byte list" where
  "str_bytes s = map (\<lambda>c. of_nat (of_char c)) s"

lemma length_str_bytes [simp]: "length (str_bytes s) = length s"
  by (simp add: str_bytes_def)

lemma str_bytes_inject [simp]: "str_bytes s = str_bytes t \<longleftrightarrow> s = t"
proof -
  have inj: "inj (\<lambda>c::char. of_nat (of_char c) :: byte)"
  proof (rule injI)
    fix c d :: char
    assume "(of_nat (of_char c) :: byte) = of_nat (of_char d)"
    then have "unat (of_nat (of_char c) :: byte) = unat (of_nat (of_char d) :: byte)"
      by simp
    moreover have "(of_char c :: nat) < 256" "(of_char d :: nat) < 256"
      by (simp_all add: of_char_of)
    ultimately have "(of_char c :: nat) = of_char d"
      by (simp add: unat_of_nat take_bit_eq_mod)
    then show "c = d" by simp
  qed
  show ?thesis using inj_map_eq_map [OF inj] by (simp add: str_bytes_def)
qed

section \<open>Digests\<close>

text \<open>A \<open>[u8; 32]\<close>. \<open>digest_fill b\<close> is the array \<open>[b; 32]\<close>.\<close>

typedef digest = "{bs :: byte list. length bs = 32}"
  morphisms digest_bytes Digest
  by (rule exI [of _ "replicate 32 0"]) simp

definition digest_fill :: "byte \<Rightarrow> digest" where
  "digest_fill b = Digest (replicate 32 b)"

definition digest_from_array :: "byte list \<Rightarrow> digest" where
  "digest_from_array bs = Digest (if length bs = 32 then bs else replicate 32 0)"

instantiation digest :: equal
begin

definition equal_digest :: "digest \<Rightarrow> digest \<Rightarrow> bool" where
  "equal_digest a b \<longleftrightarrow> digest_bytes a = digest_bytes b"

instance
  by standard (simp add: equal_digest_def digest_bytes_inject)

end

lemma length_digest_bytes [simp]: "length (digest_bytes d) = 32"
  using digest_bytes [of d] by simp

lemma digest_bytes_fill [simp]: "digest_bytes (digest_fill b) = replicate 32 b"
  by (simp add: digest_fill_def Digest_inverse)

lemma digest_fill_inject [simp]: "digest_fill a = digest_fill b \<longleftrightarrow> a = b"
proof
  assume "digest_fill a = digest_fill b"
  then have "replicate 32 a = replicate 32 b" by (metis digest_bytes_fill)
  then show "a = b" by simp
qed simp

lemma digest_from_bytes [simp]: "digest_from_array (digest_bytes d) = d"
  by (simp add: digest_from_array_def digest_bytes_inverse)

lemma digest_bytes_from: "length bs = 32 \<Longrightarrow> digest_bytes (digest_from_array bs) = bs"
  by (simp add: digest_from_array_def Digest_inverse)

section \<open>Append-only logs\<close>

text \<open>
  \<open>for record in records { state.apply(&record)?; }\<close>: the fold every reconstruction of the
  program performs over a durable history, stopping at the first refusal.
\<close>

fun replay_from :: "('s \<Rightarrow> 'r \<Rightarrow> 'e + 's) \<Rightarrow> 's \<Rightarrow> 'r list \<Rightarrow> 'e + 's" where
  "replay_from step s [] = Inr s"
| "replay_from step s (r # rs) = bindR (step s r) (\<lambda>s'. replay_from step s' rs)"

lemma replay_from_append:
  "replay_from step s (xs @ ys) = bindR (replay_from step s xs) (\<lambda>s'. replay_from step s' ys)"
proof (induction xs arbitrary: s)
  case Nil
  then show ?case by simp
next
  case (Cons x xs)
  then show ?case by (cases "step s x") simp_all
qed

lemma replay_from_snoc:
  "replay_from step s (xs @ [x]) = bindR (replay_from step s xs) (\<lambda>s'. step s' x)"
proof -
  have "bindR m (\<lambda>s. Inr s) = m" for m :: "'a + 'b" by (cases m) auto
  then show ?thesis by (simp add: replay_from_append bindR_assoc)
qed

text \<open>
  The contract of a projection: an invariant kept by every accepted record. A sequenced
  projection also counts its records, up to a bound.
\<close>

locale log_projection =
  fixes step :: "'s \<Rightarrow> 'r \<Rightarrow> 'e + 's"
    and inv :: "'s \<Rightarrow> bool"
  assumes step_inv: "inv s \<Longrightarrow> step s r = Inr s' \<Longrightarrow> inv s'"
begin

lemma replay_inv: "inv s \<Longrightarrow> replay_from step s rs = Inr s' \<Longrightarrow> inv s'"
proof (induction rs arbitrary: s)
  case Nil
  then show ?case by simp
next
  case (Cons r rs)
  then obtain t where "step s r = Inr t" "replay_from step t rs = Inr s'"
    by (auto simp: bindR_eq_Inr)
  with Cons show ?case using step_inv by blast
qed

lemma replay_prefix:
  "inv s \<Longrightarrow> replay_from step s (xs @ ys) = Inr s' \<Longrightarrow>
    \<exists>t. replay_from step s xs = Inr t \<and> inv t \<and> replay_from step t ys = Inr s'"
  by (auto simp: replay_from_append bindR_eq_Inr intro: replay_inv)

lemma replay_split:
  "inv s \<Longrightarrow> replay_from step s (xs @ r # ys) = Inr s' \<Longrightarrow>
    \<exists>t u. replay_from step s xs = Inr t \<and> inv t \<and> step t r = Inr u \<and> inv u
      \<and> replay_from step u ys = Inr s'"
proof -
  assume "inv s" and run: "replay_from step s (xs @ r # ys) = Inr s'"
  then obtain t where t: "replay_from step s xs = Inr t" "inv t"
    "replay_from step t (r # ys) = Inr s'"
    using replay_prefix by blast
  then obtain u where "step t r = Inr u" "replay_from step u ys = Inr s'"
    by (auto simp: bindR_eq_Inr)
  with t step_inv show ?thesis by blast
qed

end

locale sequenced_projection = log_projection +
  fixes seq :: "'a \<Rightarrow> nat"
    and bound :: "'a \<Rightarrow> nat"
  assumes step_seq: "inv s \<Longrightarrow> step s r = Inr s' \<Longrightarrow> seq s' = Suc (seq s)"
    and step_bound: "inv s \<Longrightarrow> step s r = Inr s' \<Longrightarrow> bound s' = bound s"
    and seq_bound: "inv s \<Longrightarrow> seq s \<le> bound s"
begin

lemma replay_seq:
  "inv s \<Longrightarrow> replay_from step s rs = Inr s' \<Longrightarrow> seq s' = seq s + length rs \<and> bound s' = bound s"
proof (induction rs arbitrary: s)
  case Nil
  then show ?case by simp
next
  case (Cons r rs)
  then obtain t where t: "step s r = Inr t" "replay_from step t rs = Inr s'"
    by (auto simp: bindR_eq_Inr)
  with Cons have "inv t" using step_inv by blast
  then show ?case using Cons t step_seq step_bound by fastforce
qed

lemma replay_length:
  "inv s \<Longrightarrow> replay_from step s rs = Inr s' \<Longrightarrow> seq s + length rs \<le> bound s"
  by (metis replay_inv replay_seq seq_bound)

end

section \<open>Prefix-free encodings\<close>

text \<open>
  A field encoding whose values can be told apart whatever bytes follow. Canonical byte
  strings are concatenations of such fields, so they are injective field by field.
\<close>

locale prefix_free =
  fixes enc :: "'a \<Rightarrow> byte list"
    and dom :: "'a \<Rightarrow> bool"
  assumes enc_append: "dom a \<Longrightarrow> dom b \<Longrightarrow> enc a @ r = enc b @ r' \<Longrightarrow> a = b \<and> r = r'"
begin

lemma enc_append_iff: "dom a \<Longrightarrow> dom b \<Longrightarrow> enc a @ r = enc b @ r' \<longleftrightarrow> a = b \<and> r = r'"
  using enc_append by blast

lemma enc_inject: "dom a \<Longrightarrow> dom b \<Longrightarrow> enc a = enc b \<longleftrightarrow> a = b"
  using enc_append [of a b "[]" "[]"] by auto

lemma enc_list_inject:
  "list_all dom as \<Longrightarrow> list_all dom bs \<Longrightarrow> length as = length bs \<Longrightarrow>
    concat (map enc as) @ r = concat (map enc bs) @ r' \<Longrightarrow> as = bs \<and> r = r'"
proof (induction as arbitrary: bs)
  case Nil
  then show ?case by simp
next
  case (Cons a as)
  then obtain b bs' where bs: "bs = b # bs'" by (cases bs) auto
  with Cons.prems have "enc a @ concat (map enc as) @ r = enc b @ concat (map enc bs') @ r'"
    and "dom a" "dom b" by simp_all
  then have "a = b" "concat (map enc as) @ r = concat (map enc bs') @ r'"
    using enc_append by blast+
  with Cons bs show ?case by simp
qed

end

text \<open>A field with a reader that consumes exactly its own bytes is prefix-free.\<close>

locale field_codec =
  fixes enc :: "'a \<Rightarrow> byte list"
    and dec :: "byte list \<Rightarrow> 'e + ('a \<times> byte list)"
    and dom :: "'a \<Rightarrow> bool"
  assumes dec_enc: "dom a \<Longrightarrow> dec (enc a @ rest) = Inr (a, rest)"
    and enc_dec: "dec bs = Inr (a, rest) \<Longrightarrow> dom a \<and> bs = enc a @ rest"
begin

lemma enc_prefix_free: "dom a \<Longrightarrow> dom b \<Longrightarrow> enc a @ r = enc b @ r' \<Longrightarrow> a = b \<and> r = r'"
  by (metis dec_enc prod.inject sum.inject(2))

end

sublocale field_codec \<subseteq> prefix_free enc dom
  by unfold_locales (rule enc_prefix_free)

interpretation u16_be: prefix_free u16_to_be_bytes "\<lambda>_. True"
  by unfold_locales simp

interpretation u32_be: prefix_free u32_to_be_bytes "\<lambda>_. True"
  by unfold_locales simp

interpretation u64_be: prefix_free u64_to_be_bytes "\<lambda>_. True"
  by unfold_locales simp

interpretation digest_raw: prefix_free digest_bytes "\<lambda>_. True"
  by unfold_locales (simp add: digest_bytes_inject)

lemmas field_inject = u16_be.enc_append_iff [OF TrueI TrueI] u32_be.enc_append_iff [OF TrueI TrueI]
  u64_be.enc_append_iff [OF TrueI TrueI] digest_raw.enc_append_iff [OF TrueI TrueI]

end
