(* ===== verification/Task_Contracts.thy ===== *)
theory Task_Contracts
  imports Penelope_Prelude
begin

text \<open>
  The data of recoverable execution: \<open>penelope-core/src/task/identities.rs\<close> and
  \<open>contracts.rs\<close>, in the order of the source. The identity newtypes over a digest and the
  counter newtypes over an integer are type synonyms of their representation; their
  \<open>checked_add\<close> and \<open>saturating_add\<close> are those of the prelude. SHA-256 is a parameter
  \<open>sha\<close> of every definition that hashes: the \<open>sha2\<close> crate is not part of the repository.

  Shown here: the fingerprint preimage of a task definition determines the definition, a
  blob reference built from bytes verifies exactly those bytes' size and digest.
\<close>

section \<open>Identities and counters\<close>

type_synonym sha = "byte list \<Rightarrow> digest"
type_synonym task_tenant_id = digest
type_synonym task_id = digest
type_synonym task_definition_fingerprint = digest
type_synonym task_input_digest = digest
type_synonym task_generation = u32
type_synonym task_sequence = u32
type_synonym task_tick = u64

section \<open>Contracts\<close>

definition digest_of :: "sha \<Rightarrow> byte list \<Rightarrow> digest" where
  "digest_of sha bytes = sha bytes"

datatype recovery_mode =
    RestartFromBeginning
  | RestartFromCheckpoint
  | ReconcileBeforeRestart
  | NeverRestart

datatype effect_contract = PureEffects | ReconcileRequired

record task_recovery_policy =
  mode :: recovery_mode
  max_attempts :: u32
  timeout_ticks :: u64
  restart_delay_ticks :: u64
  max_checkpoint_bytes :: u32

record execution_budget =
  max_input_bytes :: u32
  max_output_bytes :: u32
  max_history_records :: u32
  max_checkpoint_commits :: u32
  cpu_ticks :: u64
  deadline_tick :: task_tick

record task_definition =
  code_digest :: digest
  checkpoint_schema :: u32
  effects :: effect_contract
  recovery :: task_recovery_policy
  budget :: execution_budget

datatype task_error =
    InvalidDefinition
  | UnsupportedVersion
  | ScopeMismatch
  | InvalidOrder
  | StaleGeneration
  | InvalidTransition
  | QuotaExhausted
  | CorruptBlob
  | SchemaMismatch
  | DeadlineExpired

fun effect_tag :: "effect_contract \<Rightarrow> byte" where
  "effect_tag PureEffects = 0"
| "effect_tag ReconcileRequired = 1"

fun mode_tag :: "recovery_mode \<Rightarrow> byte" where
  "mode_tag RestartFromBeginning = 0"
| "mode_tag RestartFromCheckpoint = 1"
| "mode_tag ReconcileBeforeRestart = 2"
| "mode_tag NeverRestart = 3"

text \<open>The bytes fed to the hasher by the successive \<open>update\<close> calls of \<open>fingerprint\<close>.\<close>

definition fingerprint_bytes :: "task_definition \<Rightarrow> byte list" where
  "fingerprint_bytes d =
     str_bytes ''penelope.task-definition.v1'' @ [0] @
     digest_bytes (code_digest d) @
     u32_to_be_bytes (checkpoint_schema d) @
     [effect_tag (effects d)] @
     [mode_tag (mode (recovery d))] @
     u32_to_be_bytes (max_attempts (recovery d)) @
     u64_to_be_bytes (timeout_ticks (recovery d)) @
     u64_to_be_bytes (restart_delay_ticks (recovery d)) @
     u32_to_be_bytes (max_checkpoint_bytes (recovery d)) @
     u32_to_be_bytes (max_input_bytes (budget d)) @
     u32_to_be_bytes (max_output_bytes (budget d)) @
     u32_to_be_bytes (max_history_records (budget d)) @
     u32_to_be_bytes (max_checkpoint_commits (budget d)) @
     u64_to_be_bytes (cpu_ticks (budget d)) @
     u64_to_be_bytes (deadline_tick (budget d))"

definition fingerprint :: "sha \<Rightarrow> task_definition \<Rightarrow> task_definition_fingerprint" where
  "fingerprint sha d = sha (fingerprint_bytes d)"

definition definition_validate :: "task_definition \<Rightarrow> task_error + unit" where
  "definition_validate d =
     (if max_attempts (recovery d) = 0
         \<or> timeout_ticks (recovery d) = 0
         \<or> cpu_ticks (budget d) = 0
         \<or> max_history_records (budget d) < 4
         \<or> deadline_tick (budget d) = 0
         \<or> checkpoint_schema d = 0
      then Inl InvalidDefinition else Inr ())"

record task_scope =
  scope_tenant :: task_tenant_id
  scope_task :: task_id
  scope_definition :: task_definition_fingerprint
  scope_input :: task_input_digest

record blob_ref =
  blob_digest :: digest
  blob_bytes :: u32
  blob_schema :: u32

definition blob_verify :: "sha \<Rightarrow> blob_ref \<Rightarrow> byte list \<Rightarrow> u32 \<Rightarrow> task_error + unit" where
  "blob_verify sha b bytes schema =
     (if blob_schema b \<noteq> schema then Inl SchemaMismatch
      else if unat (blob_bytes b) \<noteq> length bytes \<or> digest_of sha bytes \<noteq> blob_digest b
      then Inl CorruptBlob
      else Inr ())"

datatype task_fault =
    Crash
  | ProtectionViolation
  | WatchdogExpired
  | Timeout
  | DeadlineViolation
  | CpuBudgetExceeded
  | SupervisorInterrupted
  | ApplicationFailure

datatype reconciliation =
    RcCompleted (rc_output: blob_ref) (rc_evidence: digest)
  | RcRestartAuthorized (rc_evidence: digest)
  | RcUnknown (rc_evidence: digest)

datatype task_execution_event =
    IntentCommitted task_definition blob_ref
  | CheckpointMigrated task_scope blob_ref blob_ref digest
  | Started
  | CheckpointCommitted blob_ref
  | FaultObserved task_fault
  | ReconciliationRequired
  | EvReconciled reconciliation
  | RecoveryPlanned "blob_ref option"
  | Restarted
  | EvCompleted blob_ref
  | RecoveryExhausted

record task_record =
  r_version :: u16
  r_scope :: task_scope
  r_sequence :: task_sequence
  r_generation :: task_generation
  r_tick :: task_tick
  r_event :: task_execution_event

datatype task_status =
    StEmpty
  | StPending
  | StRunning
  | StFaulted
  | StReconciling
  | StReconciled
  | StReady
  | StCompleted
  | StExhausted

section \<open>Facts\<close>

lemma effect_tag_inject: "effect_tag a = effect_tag b \<longleftrightarrow> a = b"
  by (cases a; cases b) auto

lemma mode_tag_inject: "mode_tag a = mode_tag b \<longleftrightarrow> a = b"
  by (cases a; cases b) auto

lemma definition_validate_Inr [result_simps]:
  "definition_validate d = Inr u \<longleftrightarrow>
     0 < max_attempts (recovery d) \<and> 0 < timeout_ticks (recovery d) \<and> 0 < cpu_ticks (budget d)
     \<and> 4 \<le> max_history_records (budget d) \<and> 0 < deadline_tick (budget d) \<and> checkpoint_schema d \<noteq> 0"
  by (auto simp: definition_validate_def word_neq_0_conv not_less)

lemma blob_verify_Inr [result_simps]:
  "blob_verify sha b bytes schema = Inr u \<longleftrightarrow>
     blob_schema b = schema \<and> unat (blob_bytes b) = length bytes \<and> sha bytes = blob_digest b"
  by (auto simp: blob_verify_def digest_of_def)

lemma task_definition_eq_iff:
  "(d :: task_definition) = d' \<longleftrightarrow>
     code_digest d = code_digest d' \<and> checkpoint_schema d = checkpoint_schema d' \<and>
     effects d = effects d' \<and> recovery d = recovery d' \<and> budget d = budget d'"
  by (cases d; cases d') simp

lemma task_recovery_policy_eq_iff:
  "(p :: task_recovery_policy) = p' \<longleftrightarrow>
     mode p = mode p' \<and> max_attempts p = max_attempts p' \<and> timeout_ticks p = timeout_ticks p' \<and>
     restart_delay_ticks p = restart_delay_ticks p' \<and> max_checkpoint_bytes p = max_checkpoint_bytes p'"
  by (cases p; cases p') simp

lemma execution_budget_eq_iff:
  "(b :: execution_budget) = b' \<longleftrightarrow>
     max_input_bytes b = max_input_bytes b' \<and> max_output_bytes b = max_output_bytes b' \<and>
     max_history_records b = max_history_records b' \<and>
     max_checkpoint_commits b = max_checkpoint_commits b' \<and> cpu_ticks b = cpu_ticks b' \<and>
     deadline_tick b = deadline_tick b'"
  by (cases b; cases b') simp

lemmas definition_eq_simps =
  task_definition_eq_iff task_recovery_policy_eq_iff execution_budget_eq_iff

lemma fingerprint_bytes_inject: "fingerprint_bytes d = fingerprint_bytes d' \<longleftrightarrow> d = d'"
proof
  assume "fingerprint_bytes d = fingerprint_bytes d'"
  then show "d = d'"
    by (simp add: fingerprint_bytes_def field_inject effect_tag_inject mode_tag_inject
        digest_bytes_inject definition_eq_simps)
qed simp

lemma length_fingerprint_bytes: "length (fingerprint_bytes d) = 122"
  by (simp add: fingerprint_bytes_def)

end
