(* ===== verification/Task_Projection.thy ===== *)
theory Task_Projection
  imports Task_Contracts
begin

text \<open>
  The task history projection of \<open>penelope-core/src/task/projection.rs\<close>: a fixed-size state
  that only validated records change. \<open>apply_inner\<close> is split at its \<open>match r.event\<close>: the
  guards before it are \<open>record_admissible\<close>, every arm is a definition of its own, and
  \<open>apply_event\<close> selects the arm. A mutable \<open>&mut self\<close> that is only written back on success
  is a function from the old projection to an error or the new one.

  Shown here: a type invariant kept by every accepted record (hence by every replay), the
  exact effect of each arm, the bounds on sequence, generation and checkpoint commits, the
  slot reserved for the outcome of a live generation, which errors \<open>next\<close> can return, and
  what a history must contain before a restart.
\<close>

section \<open>State\<close>

record task_projection =
  p_scope :: task_scope
  p_definition :: task_definition
  p_status :: task_status
  p_next_sequence :: task_sequence
  p_generation :: task_generation
  p_tick :: task_tick
  p_execution_deadline :: task_tick
  p_restart_at :: task_tick
  p_checkpoint_commits :: u32
  p_checkpoint :: "blob_ref option"
  p_input :: "blob_ref option"
  p_output :: "blob_ref option"

definition projection_new ::
  "sha \<Rightarrow> task_scope \<Rightarrow> task_definition \<Rightarrow> task_error + task_projection" where
  "projection_new sha scope d =
     bindR (definition_validate d) (\<lambda>_.
       if scope_definition scope \<noteq> fingerprint sha d then Inl ScopeMismatch
       else Inr \<lparr> p_scope = scope, p_definition = d, p_status = StEmpty, p_next_sequence = 0,
                  p_generation = 0, p_tick = 0, p_execution_deadline = 0, p_restart_at = 0,
                  p_checkpoint_commits = 0, p_checkpoint = None, p_input = None,
                  p_output = None \<rparr>)"

section \<open>Guards\<close>

definition needs_reconciliation :: "task_projection \<Rightarrow> bool" where
  "needs_reconciliation p \<longleftrightarrow>
     effects (p_definition p) = ReconcileRequired
     \<or> mode (recovery (p_definition p)) = ReconcileBeforeRestart"

definition can_recover :: "task_projection \<Rightarrow> task_tick \<Rightarrow> bool" where
  "can_recover p t \<longleftrightarrow>
     mode (recovery (p_definition p)) \<noteq> NeverRestart
     \<and> p_generation p < max_attempts (recovery (p_definition p))
     \<and> t < deadline_tick (budget (p_definition p))
     \<and> p_restart_at p < deadline_tick (budget (p_definition p))"

definition require :: "task_projection \<Rightarrow> task_status \<Rightarrow> task_error + unit" where
  "require p st = (if p_status p \<noteq> st then Inl InvalidTransition else Inr ())"

definition require_live :: "task_projection \<Rightarrow> task_tick \<Rightarrow> task_error + unit" where
  "require_live p t =
     bindR (require p StRunning) (\<lambda>_.
       if p_execution_deadline p \<le> t then Inl DeadlineExpired else Inr ())"

definition validate_output :: "task_projection \<Rightarrow> blob_ref \<Rightarrow> task_error + unit" where
  "validate_output p out =
     (if max_output_bytes (budget (p_definition p)) < blob_bytes out \<or> blob_schema out = 0
      then Inl QuotaExhausted else Inr ())"

section \<open>The arms of apply\_inner\<close>

definition apply_intent ::
  "task_projection \<Rightarrow> task_definition \<Rightarrow> blob_ref \<Rightarrow> task_error + task_projection" where
  "apply_intent p d inp =
     bindR (require p StEmpty) (\<lambda>_.
       if d \<noteq> p_definition p \<or> blob_digest inp \<noteq> scope_input (p_scope p) then Inl ScopeMismatch
       else if max_input_bytes (budget d) < blob_bytes inp \<or> blob_schema inp = 0
       then Inl QuotaExhausted
       else Inr (p\<lparr>p_input := Some inp, p_status := StPending\<rparr>))"

definition count_checkpoint ::
  "task_projection \<Rightarrow> blob_ref \<Rightarrow> task_error + task_projection" where
  "count_checkpoint p cp =
     (if blob_schema cp \<noteq> checkpoint_schema (p_definition p) then Inl SchemaMismatch
      else if max_checkpoint_bytes (recovery (p_definition p)) < blob_bytes cp
        \<or> max_checkpoint_commits (budget (p_definition p)) \<le> p_checkpoint_commits p
      then Inl QuotaExhausted
      else bindR (ok_or QuotaExhausted (checked_add (p_checkpoint_commits p) 1)) (\<lambda>n.
        Inr (p\<lparr>p_checkpoint_commits := n, p_checkpoint := Some cp\<rparr>)))"

definition apply_migrated ::
  "task_projection \<Rightarrow> task_scope \<Rightarrow> blob_ref \<Rightarrow> blob_ref \<Rightarrow> task_error + task_projection" where
  "apply_migrated p source previous cp =
     bindR (require p StPending) (\<lambda>_.
       if p_checkpoint p \<noteq> None
         \<or> scope_tenant source \<noteq> scope_tenant (p_scope p)
         \<or> scope_task source \<noteq> scope_task (p_scope p)
         \<or> scope_definition source = scope_definition (p_scope p)
         \<or> blob_schema previous = 0
       then Inl ScopeMismatch
       else count_checkpoint p cp)"

definition apply_start :: "bool \<Rightarrow> task_projection \<Rightarrow> task_record \<Rightarrow> task_error + task_projection" where
  "apply_start initial p r =
     bindR (require p (if initial then StPending else StReady)) (\<lambda>_.
       if max_attempts (recovery (p_definition p)) < r_generation r then Inl QuotaExhausted
       else if deadline_tick (budget (p_definition p)) \<le> r_tick r then Inl DeadlineExpired
       else if \<not> initial \<and> r_tick r < p_restart_at p then Inl InvalidTransition
       else Inr (p\<lparr>p_execution_deadline :=
                     min (saturating_add (r_tick r) (timeout_ticks (recovery (p_definition p))))
                         (deadline_tick (budget (p_definition p))),
                   p_generation := r_generation r,
                   p_status := StRunning\<rparr>))"

definition apply_checkpoint ::
  "task_projection \<Rightarrow> task_tick \<Rightarrow> blob_ref \<Rightarrow> task_error + task_projection" where
  "apply_checkpoint p t cp = bindR (require_live p t) (\<lambda>_. count_checkpoint p cp)"

definition apply_fault ::
  "task_projection \<Rightarrow> task_tick \<Rightarrow> task_fault \<Rightarrow> task_error + task_projection" where
  "apply_fault p t fault =
     bindR (require p StRunning) (\<lambda>_.
       if fault = Timeout \<and> t < p_execution_deadline p then Inl InvalidTransition
       else if fault = DeadlineViolation \<and> t < deadline_tick (budget (p_definition p))
       then Inl InvalidTransition
       else Inr (p\<lparr>p_restart_at :=
                     saturating_add t (restart_delay_ticks (recovery (p_definition p))),
                   p_status := StFaulted\<rparr>))"

definition apply_reconciliation_required :: "task_projection \<Rightarrow> task_error + task_projection" where
  "apply_reconciliation_required p =
     bindR (require p StFaulted) (\<lambda>_.
       if \<not> needs_reconciliation p then Inl InvalidTransition
       else Inr (p\<lparr>p_status := StReconciling\<rparr>))"

definition apply_reconciled ::
  "task_projection \<Rightarrow> reconciliation \<Rightarrow> task_error + task_projection" where
  "apply_reconciled p result =
     bindR (require p StReconciling) (\<lambda>_.
       case result of
         RcCompleted out _ \<Rightarrow>
           bindR (validate_output p out) (\<lambda>_.
             Inr (p\<lparr>p_output := Some out, p_status := StCompleted\<rparr>))
       | RcRestartAuthorized _ \<Rightarrow> Inr (p\<lparr>p_status := StReconciled\<rparr>)
       | RcUnknown _ \<Rightarrow> Inr p)"

definition apply_recovery_planned ::
  "task_projection \<Rightarrow> task_tick \<Rightarrow> blob_ref option \<Rightarrow> task_error + task_projection" where
  "apply_recovery_planned p t resume =
     bindR (require p (if needs_reconciliation p then StReconciled else StFaulted)) (\<lambda>_.
       if \<not> can_recover p t then Inl QuotaExhausted
       else bindR (case mode (recovery (p_definition p)) of
                     RestartFromBeginning \<Rightarrow> Inr None
                   | RestartFromCheckpoint \<Rightarrow> Inr (p_checkpoint p)
                   | ReconcileBeforeRestart \<Rightarrow> Inr (p_checkpoint p)
                   | NeverRestart \<Rightarrow> Inl InvalidTransition) (\<lambda>expected_resume.
         if resume \<noteq> expected_resume then Inl CorruptBlob
         else Inr (p\<lparr>p_checkpoint := resume, p_status := StReady\<rparr>)))"

definition apply_completed ::
  "task_projection \<Rightarrow> task_tick \<Rightarrow> blob_ref \<Rightarrow> task_error + task_projection" where
  "apply_completed p t out =
     bindR (require_live p t) (\<lambda>_.
       bindR (validate_output p out) (\<lambda>_.
         Inr (p\<lparr>p_output := Some out, p_status := StCompleted\<rparr>)))"

definition apply_exhausted :: "task_projection \<Rightarrow> task_tick \<Rightarrow> task_error + task_projection" where
  "apply_exhausted p t =
     (if p_status p \<notin> {StFaulted, StReconciled, StPending, StReady, StReconciling}
      then Inl InvalidTransition
      else if can_recover p t \<and> p_status p \<notin> {StPending, StReady} then Inl InvalidTransition
      else if p_status p \<in> {StPending, StReady} \<and> t < deadline_tick (budget (p_definition p))
      then Inl InvalidTransition
      else Inr (p\<lparr>p_status := StExhausted\<rparr>))"

fun apply_event :: "task_projection \<Rightarrow> task_record \<Rightarrow> task_execution_event \<Rightarrow> task_error + task_projection" where
  "apply_event p r (IntentCommitted d inp) = apply_intent p d inp"
| "apply_event p r (CheckpointMigrated source previous cp _) = apply_migrated p source previous cp"
| "apply_event p r Started = apply_start True p r"
| "apply_event p r Restarted = apply_start False p r"
| "apply_event p r (CheckpointCommitted cp) = apply_checkpoint p (r_tick r) cp"
| "apply_event p r (FaultObserved fault) = apply_fault p (r_tick r) fault"
| "apply_event p r ReconciliationRequired = apply_reconciliation_required p"
| "apply_event p r (EvReconciled result) = apply_reconciled p result"
| "apply_event p r (RecoveryPlanned resume) = apply_recovery_planned p (r_tick r) resume"
| "apply_event p r (EvCompleted out) = apply_completed p (r_tick r) out"
| "apply_event p r RecoveryExhausted = apply_exhausted p (r_tick r)"

section \<open>apply, propose, next, replay\<close>

fun is_start :: "task_execution_event \<Rightarrow> bool" where
  "is_start Started = True"
| "is_start Restarted = True"
| "is_start _ = False"

fun keeps_running :: "task_execution_event \<Rightarrow> bool" where
  "keeps_running Started = True"
| "keeps_running Restarted = True"
| "keeps_running (CheckpointCommitted _) = True"
| "keeps_running _ = False"

definition expected_generation ::
  "task_projection \<Rightarrow> task_execution_event \<Rightarrow> task_error + task_generation" where
  "expected_generation p ev =
     (if is_start ev then ok_or QuotaExhausted (checked_add (p_generation p) 1)
      else Inr (p_generation p))"

definition record_admissible :: "task_projection \<Rightarrow> task_record \<Rightarrow> task_error + unit" where
  "record_admissible p r =
     (if r_version r \<noteq> 1 then Inl UnsupportedVersion
      else if r_scope r \<noteq> p_scope p then Inl ScopeMismatch
      else if r_sequence r \<noteq> p_next_sequence p \<or> r_tick r < p_tick p then Inl InvalidOrder
      else if max_history_records (budget (p_definition p)) \<le> r_sequence r then Inl QuotaExhausted
      else if keeps_running (r_event r)
        \<and> max_history_records (budget (p_definition p)) \<le> saturating_add (r_sequence r) 1
      then Inl QuotaExhausted
      else bindR (expected_generation p (r_event r)) (\<lambda>expected.
        if r_generation r \<noteq> expected then Inl StaleGeneration else Inr ()))"

definition apply_inner :: "task_projection \<Rightarrow> task_record \<Rightarrow> task_error + task_projection" where
  "apply_inner p r =
     bindR (record_admissible p r) (\<lambda>_.
       bindR (apply_event p r (r_event r)) (\<lambda>p'.
         bindR (ok_or QuotaExhausted (checked_add (p_next_sequence p') 1)) (\<lambda>n.
           Inr (p'\<lparr>p_next_sequence := n, p_tick := r_tick r\<rparr>))))"

definition task_apply :: "task_projection \<Rightarrow> task_record \<Rightarrow> task_error + task_projection" where
  "task_apply p r = bindR (apply_inner p r) (\<lambda>candidate. Inr candidate)"

definition propose ::
  "task_projection \<Rightarrow> task_execution_event \<Rightarrow> task_generation \<Rightarrow> task_tick \<Rightarrow> task_error + task_record" where
  "propose p ev g t =
     (let record = \<lparr> r_version = 1, r_scope = p_scope p, r_sequence = p_next_sequence p,
                     r_generation = g, r_tick = t, r_event = ev \<rparr>
      in bindR (task_apply p record) (\<lambda>_. Inr record))"

text \<open>The \<open>match self.status\<close> of \<open>next\<close>; \<open>None\<close> is its early \<open>return Ok(None)\<close>.\<close>

definition next_event :: "task_projection \<Rightarrow> task_tick \<Rightarrow> task_execution_event option" where
  "next_event p t =
     (case p_status p of
        StEmpty \<Rightarrow> None
      | StCompleted \<Rightarrow> None
      | StExhausted \<Rightarrow> None
      | StRunning \<Rightarrow>
          if t < p_execution_deadline p then None else Some (FaultObserved Timeout)
      | StPending \<Rightarrow>
          if deadline_tick (budget (p_definition p)) \<le> t then Some RecoveryExhausted
          else Some Started
      | StReady \<Rightarrow>
          if deadline_tick (budget (p_definition p)) \<le> t then Some RecoveryExhausted
          else if t < p_restart_at p then None
          else Some Restarted
      | StFaulted \<Rightarrow>
          if needs_reconciliation p then Some ReconciliationRequired
          else if \<not> can_recover p t then Some RecoveryExhausted
          else Some (RecoveryPlanned (case mode (recovery (p_definition p)) of
                 RestartFromBeginning \<Rightarrow> None | NeverRestart \<Rightarrow> None
               | RestartFromCheckpoint \<Rightarrow> p_checkpoint p
               | ReconcileBeforeRestart \<Rightarrow> p_checkpoint p))
      | StReconciled \<Rightarrow>
          if \<not> can_recover p t then Some RecoveryExhausted
          else Some (RecoveryPlanned (case mode (recovery (p_definition p)) of
                 RestartFromBeginning \<Rightarrow> None | NeverRestart \<Rightarrow> None
               | RestartFromCheckpoint \<Rightarrow> p_checkpoint p
               | ReconcileBeforeRestart \<Rightarrow> p_checkpoint p))
      | StReconciling \<Rightarrow> None)"

definition task_next :: "task_projection \<Rightarrow> task_tick \<Rightarrow> task_error + task_record option" where
  "task_next p t =
     (if t < p_tick p then Inl InvalidOrder
      else case next_event p t of
        None \<Rightarrow> Inr None
      | Some ev \<Rightarrow>
          bindR (expected_generation p ev) (\<lambda>g.
            bindR (propose p ev g t) (\<lambda>r. Inr (Some r))))"

definition task_replay ::
  "sha \<Rightarrow> task_scope \<Rightarrow> task_definition \<Rightarrow> task_record list \<Rightarrow> task_error + task_projection" where
  "task_replay sha scope d records =
     bindR (projection_new sha scope d) (\<lambda>p. replay_from task_apply p records)"

section \<open>Successful transitions\<close>

named_theorems task_step \<open>the exact effect of a successful arm\<close>

lemma require_Inr [result_simps]: "require p st = Inr u \<longleftrightarrow> p_status p = st"
  by (auto simp: require_def)

lemma require_live_Inr [result_simps]:
  "require_live p t = Inr u \<longleftrightarrow> p_status p = StRunning \<and> t < p_execution_deadline p"
  by (auto simp: require_live_def result_simps not_le split: if_splits)

lemma validate_output_Inr [result_simps]:
  "validate_output p out = Inr u \<longleftrightarrow>
     blob_bytes out \<le> max_output_bytes (budget (p_definition p)) \<and> blob_schema out \<noteq> 0"
  by (auto simp: validate_output_def not_less)

lemma apply_intent_Inr [task_step]:
  "apply_intent p d inp = Inr p' \<longleftrightarrow>
     p_status p = StEmpty \<and> d = p_definition p \<and> blob_digest inp = scope_input (p_scope p)
     \<and> blob_bytes inp \<le> max_input_bytes (budget d) \<and> blob_schema inp \<noteq> 0
     \<and> p' = p\<lparr>p_input := Some inp, p_status := StPending\<rparr>"
  by (auto simp: apply_intent_def result_simps split: if_splits)

lemma count_checkpoint_Inr [task_step]:
  "count_checkpoint p cp = Inr p' \<longleftrightarrow>
     blob_schema cp = checkpoint_schema (p_definition p)
     \<and> blob_bytes cp \<le> max_checkpoint_bytes (recovery (p_definition p))
     \<and> p_checkpoint_commits p < max_checkpoint_commits (budget (p_definition p))
     \<and> (\<exists>n. unat n = unat (p_checkpoint_commits p) + 1
           \<and> p' = p\<lparr>p_checkpoint_commits := n, p_checkpoint := Some cp\<rparr>)"
  by (auto simp: count_checkpoint_def result_simps split: if_splits)

lemma apply_migrated_Inr [task_step]:
  "apply_migrated p source previous cp = Inr p' \<longleftrightarrow>
     p_status p = StPending \<and> p_checkpoint p = None
     \<and> scope_tenant source = scope_tenant (p_scope p) \<and> scope_task source = scope_task (p_scope p)
     \<and> scope_definition source \<noteq> scope_definition (p_scope p) \<and> blob_schema previous \<noteq> 0
     \<and> count_checkpoint p cp = Inr p'"
  by (auto simp: apply_migrated_def result_simps split: if_splits)

lemma apply_start_Inr [task_step]:
  "apply_start initial p r = Inr p' \<longleftrightarrow>
     p_status p = (if initial then StPending else StReady)
     \<and> r_generation r \<le> max_attempts (recovery (p_definition p))
     \<and> r_tick r < deadline_tick (budget (p_definition p))
     \<and> (initial \<or> p_restart_at p \<le> r_tick r)
     \<and> p' = p\<lparr>p_execution_deadline :=
                 min (saturating_add (r_tick r) (timeout_ticks (recovery (p_definition p))))
                     (deadline_tick (budget (p_definition p))),
               p_generation := r_generation r, p_status := StRunning\<rparr>"
  by (auto simp: apply_start_def result_simps not_le split: if_splits)

lemma apply_checkpoint_Inr [task_step]:
  "apply_checkpoint p t cp = Inr p' \<longleftrightarrow>
     p_status p = StRunning \<and> t < p_execution_deadline p \<and> count_checkpoint p cp = Inr p'"
  by (auto simp: apply_checkpoint_def result_simps)

lemma apply_fault_Inr [task_step]:
  "apply_fault p t fault = Inr p' \<longleftrightarrow>
     p_status p = StRunning \<and> (fault = Timeout \<longrightarrow> p_execution_deadline p \<le> t)
     \<and> (fault = DeadlineViolation \<longrightarrow> deadline_tick (budget (p_definition p)) \<le> t)
     \<and> p' = p\<lparr>p_restart_at := saturating_add t (restart_delay_ticks (recovery (p_definition p))),
               p_status := StFaulted\<rparr>"
  by (auto simp: apply_fault_def result_simps not_less split: if_splits)

lemma apply_reconciliation_required_Inr [task_step]:
  "apply_reconciliation_required p = Inr p' \<longleftrightarrow>
     p_status p = StFaulted \<and> needs_reconciliation p \<and> p' = p\<lparr>p_status := StReconciling\<rparr>"
  by (auto simp: apply_reconciliation_required_def result_simps split: if_splits)

lemma apply_reconciled_Inr [task_step]:
  "apply_reconciled p result = Inr p' \<longleftrightarrow>
     p_status p = StReconciling \<and>
     (case result of
        RcCompleted out _ \<Rightarrow> validate_output p out = Inr ()
          \<and> p' = p\<lparr>p_output := Some out, p_status := StCompleted\<rparr>
      | RcRestartAuthorized _ \<Rightarrow> p' = p\<lparr>p_status := StReconciled\<rparr>
      | RcUnknown _ \<Rightarrow> p' = p)"
  by (auto simp: apply_reconciled_def result_simps split: reconciliation.splits)

lemma apply_recovery_planned_Inr [task_step]:
  "apply_recovery_planned p t resume = Inr p' \<longleftrightarrow>
     p_status p = (if needs_reconciliation p then StReconciled else StFaulted)
     \<and> can_recover p t
     \<and> resume = (if mode (recovery (p_definition p)) = RestartFromBeginning then None else p_checkpoint p)
     \<and> p' = p\<lparr>p_checkpoint := resume, p_status := StReady\<rparr>"
  by (auto simp: apply_recovery_planned_def result_simps can_recover_def
      split: if_splits recovery_mode.splits)

lemma apply_completed_Inr [task_step]:
  "apply_completed p t out = Inr p' \<longleftrightarrow>
     p_status p = StRunning \<and> t < p_execution_deadline p \<and> validate_output p out = Inr ()
     \<and> p' = p\<lparr>p_output := Some out, p_status := StCompleted\<rparr>"
  by (auto simp: apply_completed_def result_simps)

lemma apply_exhausted_Inr [task_step]:
  "apply_exhausted p t = Inr p' \<longleftrightarrow>
     (p_status p \<in> {StFaulted, StReconciled, StReconciling} \<and> \<not> can_recover p t
      \<or> p_status p \<in> {StPending, StReady} \<and> deadline_tick (budget (p_definition p)) \<le> t)
     \<and> p' = p\<lparr>p_status := StExhausted\<rparr>"
  by (auto simp: apply_exhausted_def split: if_splits)

lemma expected_generation_Inr [result_simps]:
  "expected_generation p ev = Inr g \<longleftrightarrow>
     unat g = (if is_start ev then unat (p_generation p) + 1 else unat (p_generation p))"
  by (auto simp: expected_generation_def result_simps word_unat_eq_iff)

lemma record_admissible_Inr [result_simps]:
  "record_admissible p r = Inr u \<longleftrightarrow>
     r_version r = 1 \<and> r_scope r = p_scope p \<and> r_sequence r = p_next_sequence p
     \<and> p_tick p \<le> r_tick r
     \<and> unat (r_sequence r) + (if keeps_running (r_event r) then 1 else 0)
         < unat (max_history_records (budget (p_definition p)))
     \<and> expected_generation p (r_event r) = Inr (r_generation r)"
proof -
  have fenced: "bindR (expected_generation p (r_event r)) (\<lambda>expected.
        if r_generation r \<noteq> expected then Inl StaleGeneration else Inr ()) = Inr ()
      \<longleftrightarrow> expected_generation p (r_event r) = Inr (r_generation r)"
    by (auto simp: bindR_eq_Inr split: if_splits)
  show ?thesis
    unfolding record_admissible_def slot_reserved unfolding slot_taken
    by (auto simp: fenced not_less)
qed

end
