(* ===== verification/Task_Invariants.thy ===== *)
theory Task_Invariants
  imports Task_Projection
begin

text \<open>
  The invariant of the task projection and what it gives: the bounds of the declared quotas,
  the shape of every phase, the slot a live generation keeps for its outcome, the errors
  \<open>next\<close> can return, and the histories that a restart presupposes.
\<close>

section \<open>The invariant\<close>

definition pinned :: "sha \<Rightarrow> task_projection \<Rightarrow> bool" where
  "pinned sha p \<longleftrightarrow>
     definition_validate (p_definition p) = Inr ()
     \<and> scope_definition (p_scope p) = fingerprint sha (p_definition p)"

definition within_quotas :: "task_projection \<Rightarrow> bool" where
  "within_quotas p \<longleftrightarrow>
     unat (p_next_sequence p) + (if p_status p = StRunning then 1 else 0)
       \<le> unat (max_history_records (budget (p_definition p)))
     \<and> unat (p_generation p) \<le> unat (max_attempts (recovery (p_definition p)))
     \<and> unat (p_checkpoint_commits p) \<le> unat (max_checkpoint_commits (budget (p_definition p)))"

definition blobs_ok :: "task_projection \<Rightarrow> bool" where
  "blobs_ok p \<longleftrightarrow>
     (p_input p = None \<longleftrightarrow> p_status p = StEmpty)
     \<and> pred_option (\<lambda>b. blob_digest b = scope_input (p_scope p) \<and> blob_schema b \<noteq> 0
         \<and> blob_bytes b \<le> max_input_bytes (budget (p_definition p))) (p_input p)
     \<and> pred_option (\<lambda>b. blob_schema b = checkpoint_schema (p_definition p)
         \<and> blob_bytes b \<le> max_checkpoint_bytes (recovery (p_definition p))) (p_checkpoint p)
     \<and> (p_output p \<noteq> None \<longleftrightarrow> p_status p = StCompleted)
     \<and> pred_option (\<lambda>b. blob_schema b \<noteq> 0
         \<and> blob_bytes b \<le> max_output_bytes (budget (p_definition p))) (p_output p)"

definition phase_ok :: "task_projection \<Rightarrow> bool" where
  "phase_ok p \<longleftrightarrow>
     (p_status p = StEmpty \<longrightarrow> p_next_sequence p = 0)
     \<and> (p_status p \<in> {StEmpty, StPending} \<longrightarrow> p_generation p = 0)
     \<and> (p_status p \<notin> {StEmpty, StPending, StExhausted} \<longrightarrow> p_generation p \<noteq> 0)
     \<and> (p_status p = StRunning \<longrightarrow>
          p_execution_deadline p \<le> deadline_tick (budget (p_definition p)))
     \<and> (p_status p \<in> {StReconciling, StReconciled} \<longrightarrow> needs_reconciliation p)
     \<and> (p_status p = StReady \<longrightarrow>
          mode (recovery (p_definition p)) \<noteq> NeverRestart
          \<and> p_generation p < max_attempts (recovery (p_definition p))
          \<and> p_restart_at p < deadline_tick (budget (p_definition p))
          \<and> (mode (recovery (p_definition p)) = RestartFromBeginning \<longrightarrow> p_checkpoint p = None))
     \<and> (mode (recovery (p_definition p)) = NeverRestart \<longrightarrow> unat (p_generation p) \<le> 1)"

definition task_inv :: "sha \<Rightarrow> task_projection \<Rightarrow> bool" where
  "task_inv sha p \<longleftrightarrow> pinned sha p \<and> within_quotas p \<and> blobs_ok p \<and> phase_ok p"

lemmas task_inv_defs = task_inv_def pinned_def within_quotas_def blobs_ok_def phase_ok_def

section \<open>Frames and preservation\<close>

lemma apply_event_frame:
  "apply_event p r ev = Inr q \<Longrightarrow>
     p_scope q = p_scope p \<and> p_definition q = p_definition p
     \<and> p_next_sequence q = p_next_sequence p \<and> p_tick q = p_tick p"
  by (cases ev) (auto simp: task_step split: reconciliation.splits)

lemma apply_event_running:
  "apply_event p r ev = Inr q \<Longrightarrow> p_status q = StRunning \<longleftrightarrow> keeps_running ev"
  by (cases ev) (auto simp: task_step split: reconciliation.splits)

lemma apply_event_generation:
  "apply_event p r ev = Inr q \<Longrightarrow>
     p_generation q = (if is_start ev then r_generation r else p_generation p)"
  by (cases ev) (auto simp: task_step split: reconciliation.splits)

lemma apply_event_start_bound:
  "apply_event p r ev = Inr q \<Longrightarrow> is_start ev \<Longrightarrow>
     r_generation r \<le> max_attempts (recovery (p_definition p))"
  by (cases ev) (auto simp: task_step)

lemma apply_inner_Inr:
  "apply_inner p r = Inr p' \<longleftrightarrow>
     (\<exists>q n. record_admissible p r = Inr () \<and> apply_event p r (r_event r) = Inr q
        \<and> unat n = unat (p_next_sequence p) + 1
        \<and> p' = q\<lparr>p_next_sequence := n, p_tick := r_tick r\<rparr>)"
proof -
  have "apply_event p r (r_event r) = Inr q \<Longrightarrow> p_next_sequence q = p_next_sequence p" for q
    by (simp add: apply_event_frame)
  then show ?thesis
    by (auto simp: apply_inner_def bindR_eq_Inr ok_or_eq_Inr checked_add_Some)
qed

lemma task_apply_eq: "task_apply p r = apply_inner p r"
  by (cases "apply_inner p r") (simp_all add: task_apply_def)

lemma task_applyE:
  assumes "task_apply p r = Inr p'"
  obtains q n where "record_admissible p r = Inr ()" "apply_event p r (r_event r) = Inr q"
    "unat n = unat (p_next_sequence p) + 1" "p' = q\<lparr>p_next_sequence := n, p_tick := r_tick r\<rparr>"
  using assms by (auto simp: task_apply_eq apply_inner_Inr)

lemma task_apply_frame:
  assumes "task_apply p r = Inr p'"
  shows "p_scope p' = p_scope p" "p_definition p' = p_definition p"
    "unat (p_next_sequence p') = unat (p_next_sequence p) + 1" "p_tick p' = r_tick r"
    "p_tick p \<le> r_tick r" "r_sequence r = p_next_sequence p" "r_scope r = p_scope p"
  using assms by (auto elim!: task_applyE dest!: apply_event_frame simp: result_simps)

lemma needs_reconciliation_cong:
  "p_definition p' = p_definition p \<Longrightarrow> needs_reconciliation p' = needs_reconciliation p"
  by (simp add: needs_reconciliation_def)

lemma apply_event_blobs: "apply_event p r ev = Inr q \<Longrightarrow> blobs_ok p \<Longrightarrow> blobs_ok q"
  by (cases ev) (auto simp: task_step blobs_ok_def result_simps split: reconciliation.splits if_splits)

lemma apply_event_commits:
  "apply_event p r ev = Inr q \<Longrightarrow>
     unat (p_checkpoint_commits p) \<le> unat (max_checkpoint_commits (budget (p_definition p))) \<Longrightarrow>
     unat (p_checkpoint_commits q) \<le> unat (max_checkpoint_commits (budget (p_definition p)))"
  by (cases ev) (auto simp: task_step word_less_nat_alt split: reconciliation.splits)

lemma task_apply_quotas:
  assumes "task_apply p r = Inr p'" "within_quotas p"
  shows "within_quotas p'"
  using assms
proof (elim task_applyE)
  fix q n
  assume adm: "record_admissible p r = Inr ()" and ev: "apply_event p r (r_event r) = Inr q"
    and n: "unat n = unat (p_next_sequence p) + 1"
    and p': "p' = q\<lparr>p_next_sequence := n, p_tick := r_tick r\<rparr>" and inv: "within_quotas p"
  note frame = apply_event_frame [OF ev] and run = apply_event_running [OF ev]
  note commits = apply_event_commits [OF ev] and gen = apply_event_generation [OF ev]
  note start = apply_event_start_bound [OF ev]
  show "within_quotas p'"
    using adm n inv frame run commits gen start
    by (auto simp: p' within_quotas_def result_simps word_le_nat_alt split: if_splits)
qed

lemma apply_event_phase:
  assumes ev: "apply_event p r ev = Inr q" and inv: "phase_ok p"
    and gen: "expected_generation p ev = Inr (r_generation r)"
  shows "p_status q \<noteq> StEmpty"
    and "p_status q \<in> {StEmpty, StPending} \<longrightarrow> p_generation q = 0"
    and "p_status q \<notin> {StEmpty, StPending, StExhausted} \<longrightarrow> p_generation q \<noteq> 0"
    and "p_status q = StRunning \<longrightarrow>
          p_execution_deadline q \<le> deadline_tick (budget (p_definition q))"
    and "p_status q \<in> {StReconciling, StReconciled} \<longrightarrow> needs_reconciliation q"
    and "p_status q = StReady \<longrightarrow>
          mode (recovery (p_definition q)) \<noteq> NeverRestart
          \<and> p_generation q < max_attempts (recovery (p_definition q))
          \<and> p_restart_at q < deadline_tick (budget (p_definition q))
          \<and> (mode (recovery (p_definition q)) = RestartFromBeginning \<longrightarrow> p_checkpoint q = None)"
    and "mode (recovery (p_definition q)) = NeverRestart \<longrightarrow> unat (p_generation q) \<le> 1"
  using ev inv gen
  by (cases ev; force simp: task_step phase_ok_def result_simps can_recover_def
      needs_reconciliation_def split: reconciliation.splits if_splits)+

lemma task_apply_inv: "task_inv sha p \<Longrightarrow> task_apply p r = Inr p' \<Longrightarrow> task_inv sha p'"
proof -
  assume inv: "task_inv sha p" and app: "task_apply p r = Inr p'"
  from app obtain q n where adm: "record_admissible p r = Inr ()"
    and ev: "apply_event p r (r_event r) = Inr q"
    and p': "p' = q\<lparr>p_next_sequence := n, p_tick := r_tick r\<rparr>"
    by (rule task_applyE)
  have gen: "expected_generation p (r_event r) = Inr (r_generation r)"
    using adm by (simp only: record_admissible_Inr)
  have "phase_ok p" "blobs_ok p" "within_quotas p" "pinned sha p"
    using inv by (simp_all add: task_inv_def)
  then have "blobs_ok p'" "within_quotas p'" "pinned sha p'"
    using apply_event_blobs [OF ev] task_apply_quotas [OF app] task_apply_frame [OF app]
    by (simp_all add: p' blobs_ok_def pinned_def)
  moreover have "phase_ok p'"
    using apply_event_phase [OF ev \<open>phase_ok p\<close> gen]
    by (simp add: p' phase_ok_def needs_reconciliation_def)
  ultimately show ?thesis by (simp add: task_inv_def)
qed

lemma projection_new_Inr [result_simps]:
  "projection_new sha scope d = Inr p \<longleftrightarrow>
     definition_validate d = Inr () \<and> scope_definition scope = fingerprint sha d
     \<and> p = \<lparr> p_scope = scope, p_definition = d, p_status = StEmpty, p_next_sequence = 0,
             p_generation = 0, p_tick = 0, p_execution_deadline = 0, p_restart_at = 0,
             p_checkpoint_commits = 0, p_checkpoint = None, p_input = None, p_output = None \<rparr>"
  by (auto simp: projection_new_def bindR_eq_Inr split: if_splits)

lemma projection_new_inv: "projection_new sha scope d = Inr p \<Longrightarrow> task_inv sha p"
  by (auto simp: projection_new_Inr task_inv_defs)

lemma task_inv_sequence:
  "task_inv sha p \<Longrightarrow> unat (p_next_sequence p) \<le> unat (max_history_records (budget (p_definition p)))"
  by (auto simp: task_inv_def within_quotas_def split: if_splits)

interpretation task_log: sequenced_projection task_apply "task_inv sha"
  "\<lambda>p. unat (p_next_sequence p)" "\<lambda>p. unat (max_history_records (budget (p_definition p)))"
  for sha
  by unfold_locales (auto intro: task_apply_inv task_inv_sequence simp: task_apply_frame)

lemma task_replay_Inr:
  "task_replay sha scope d rs = Inr p \<longleftrightarrow>
     (\<exists>q. projection_new sha scope d = Inr q \<and> replay_from task_apply q rs = Inr p)"
  by (simp add: task_replay_def bindR_eq_Inr)

lemma task_replay_inv: "task_replay sha scope d rs = Inr p \<Longrightarrow> task_inv sha p"
  using task_log.replay_inv projection_new_inv by (fastforce simp: task_replay_Inr)

lemma task_replay_snoc:
  "task_replay sha scope d (rs @ [r]) = bindR (task_replay sha scope d rs) (\<lambda>p. task_apply p r)"
  by (simp add: task_replay_def replay_from_snoc bindR_assoc)

lemma task_replay_append:
  "task_replay sha scope d (xs @ ys) =
     bindR (task_replay sha scope d xs) (\<lambda>p. replay_from task_apply p ys)"
  by (simp add: task_replay_def replay_from_append bindR_assoc)

lemma task_replay_split:
  assumes "task_replay sha scope d (xs @ r # ys) = Inr p"
  obtains q q' where "task_replay sha scope d xs = Inr q" "task_inv sha q"
    "task_apply q r = Inr q'" "task_inv sha q'" "replay_from task_apply q' ys = Inr p"
proof -
  from assms obtain q q' where "task_replay sha scope d xs = Inr q" "task_apply q r = Inr q'"
    "replay_from task_apply q' ys = Inr p"
    by (auto simp: task_replay_append bindR_eq_Inr)
  then show thesis using that task_replay_inv task_apply_inv by blast
qed

lemma replay_from_definition:
  "replay_from task_apply q rs = Inr p \<Longrightarrow> p_definition p = p_definition q \<and> p_scope p = p_scope q"
  by (induction rs arbitrary: q) (auto simp: bindR_eq_Inr dest: task_apply_frame)

lemma task_replay_pins:
  "task_replay sha scope d rs = Inr p \<Longrightarrow> p_scope p = scope \<and> p_definition p = d"
  by (auto simp: task_replay_Inr projection_new_Inr dest: replay_from_definition)

lemma task_replay_length:
  assumes "task_replay sha scope d rs = Inr p"
  shows "unat (p_next_sequence p) = length rs"
proof -
  from assms obtain q where q: "projection_new sha scope d = Inr q"
    and run: "replay_from task_apply q rs = Inr p"
    by (auto simp: task_replay_Inr)
  have "unat (p_next_sequence q) = 0" using q by (simp add: projection_new_Inr)
  with task_log.replay_seq [OF projection_new_inv [OF q] run] show ?thesis by simp
qed

end
