(* ===== verification/Task_Control.thy ===== *)
theory Task_Control
  imports Task_Invariants
begin

text \<open>
  The portable supervisor of \<open>penelope-core/src/task/control.rs\<close> over the port traits of
  \<open>runtime.rs\<close>, and its fixed-capacity wrapper of \<open>penelope-executor/src/task.rs\<close>.

  The journal and the runtime are adapters supplied by the application. Their methods are the
  functions of a record \<open>ports\<close>; what a method answers may depend on everything that was asked
  before, so each takes the trace of the earlier calls. A trace entry holds the call, its
  arguments and its answer. A method that fills a caller's buffer returns the byte at every
  index, so a buffer keeps its length as a Rust slice does.

  An operation of the supervisor is a state transformer with errors: \<open>Result\<close> and
  \<open>&mut self\<close> together.
\<close>

section \<open>Ports\<close>

datatype task_port_error = Unavailable | Exhausted | Corrupt | Conflict | Runtime

record task_start =
  start_scope :: task_scope
  start_generation :: task_generation
  start_definition :: task_definition
  start_execution_deadline :: task_tick
  start_input_schema :: u32
  start_input :: "byte list"
  start_checkpoint :: "byte list option"

datatype runtime_progress =
    RpPending
  | RpCheckpoint u32 u32
  | RpComplete u32 u32
  | RpFault task_fault

record task_observation =
  obs_scope :: task_scope
  obs_generation :: task_generation
  obs_progress :: runtime_progress

datatype port_call =
    CRead task_scope task_sequence "task_port_error + task_record option"
  | CCommit task_record "byte list option" "task_port_error + task_record"
  | CReadBlob task_scope blob_ref nat "task_port_error + nat"
  | CStart task_start "task_port_error + unit"
  | CPoll task_scope task_generation nat "task_port_error + task_observation"
  | CAcknowledge task_scope task_generation blob_ref "task_port_error + unit"
  | CFence task_scope task_generation "task_port_error + unit"

type_synonym trace = "port_call list"

record ports =
  journal_read :: "trace \<Rightarrow> task_scope \<Rightarrow> task_sequence \<Rightarrow> task_port_error + task_record option"
  journal_commit :: "trace \<Rightarrow> task_record \<Rightarrow> byte list option \<Rightarrow> task_port_error + task_record"
  journal_read_blob ::
    "trace \<Rightarrow> task_scope \<Rightarrow> blob_ref \<Rightarrow> byte list \<Rightarrow> (task_port_error + nat) \<times> (nat \<Rightarrow> byte)"
  runtime_start :: "trace \<Rightarrow> task_start \<Rightarrow> task_port_error + unit"
  runtime_poll ::
    "trace \<Rightarrow> task_scope \<Rightarrow> task_generation \<Rightarrow> byte list \<Rightarrow>
       (task_port_error + task_observation) \<times> (nat \<Rightarrow> byte)"
  runtime_acknowledge ::
    "trace \<Rightarrow> task_scope \<Rightarrow> task_generation \<Rightarrow> blob_ref \<Rightarrow> task_port_error + unit"
  runtime_fence :: "trace \<Rightarrow> task_scope \<Rightarrow> task_generation \<Rightarrow> task_port_error + unit"

definition refill :: "byte list \<Rightarrow> (nat \<Rightarrow> byte) \<Rightarrow> byte list" where
  "refill buffer contents = map contents [0..<length buffer]"

section \<open>Supervisor state and its monad\<close>

datatype supervisor_error =
    Decision task_error
  | Port task_port_error
  | ReconstructionRequired

record task_control =
  c_trace :: trace
  c_projection :: task_projection
  c_poisoned :: bool

type_synonym 'a ctl = "task_control \<Rightarrow> (supervisor_error + 'a) \<times> task_control"

definition ret :: "'a \<Rightarrow> 'a ctl" where
  "ret x s = (Inr x, s)"

definition throw :: "supervisor_error \<Rightarrow> 'a ctl" where
  "throw e s = (Inl e, s)"

definition bind :: "'a ctl \<Rightarrow> ('a \<Rightarrow> 'b ctl) \<Rightarrow> 'b ctl" where
  "bind m f s = (case m s of (Inl e, s') \<Rightarrow> (Inl e, s') | (Inr x, s') \<Rightarrow> f x s')"

definition decision :: "task_error + 'a \<Rightarrow> 'a ctl" where
  "decision r s = (map_err Decision r, s)"

definition projection :: "task_projection ctl" where
  "projection s = (Inr (c_projection s), s)"

definition poison :: "unit ctl" where
  "poison s = (Inr (), s\<lparr>c_poisoned := True\<rparr>)"

text \<open>One call of a port: the answer, with the call recorded.\<close>

definition log_call :: "port_call \<Rightarrow> task_control \<Rightarrow> task_control" where
  "log_call call s = s\<lparr>c_trace := c_trace s @ [call]\<rparr>"

definition call_commit ::
  "ports \<Rightarrow> task_record \<Rightarrow> byte list option \<Rightarrow> (task_port_error + task_record) ctl" where
  "call_commit P r blob s =
     (let res = journal_commit P (c_trace s) r blob in (Inr res, log_call (CCommit r blob res) s))"

definition call_read_blob ::
  "ports \<Rightarrow> task_scope \<Rightarrow> blob_ref \<Rightarrow> byte list \<Rightarrow> ((task_port_error + nat) \<times> byte list) ctl" where
  "call_read_blob P scope blob buffer s =
     (case journal_read_blob P (c_trace s) scope blob buffer of (res, contents) \<Rightarrow>
       (Inr (res, refill buffer contents), log_call (CReadBlob scope blob (length buffer) res) s))"

definition call_start :: "ports \<Rightarrow> task_start \<Rightarrow> (task_port_error + unit) ctl" where
  "call_start P req s =
     (let res = runtime_start P (c_trace s) req in (Inr res, log_call (CStart req res) s))"

definition call_poll ::
  "ports \<Rightarrow> task_scope \<Rightarrow> task_generation \<Rightarrow> byte list \<Rightarrow>
     ((task_port_error + task_observation) \<times> byte list) ctl" where
  "call_poll P scope g buffer s =
     (case runtime_poll P (c_trace s) scope g buffer of (res, contents) \<Rightarrow>
       (Inr (res, refill buffer contents), log_call (CPoll scope g (length buffer) res) s))"

definition call_acknowledge ::
  "ports \<Rightarrow> task_scope \<Rightarrow> task_generation \<Rightarrow> blob_ref \<Rightarrow> (task_port_error + unit) ctl" where
  "call_acknowledge P scope g cp s =
     (let res = runtime_acknowledge P (c_trace s) scope g cp
      in (Inr res, log_call (CAcknowledge scope g cp res) s))"

definition call_fence :: "ports \<Rightarrow> task_scope \<Rightarrow> task_generation \<Rightarrow> (task_port_error + unit) ctl" where
  "call_fence P scope g s =
     (let res = runtime_fence P (c_trace s) scope g in (Inr res, log_call (CFence scope g res) s))"

text \<open>The \<open>?\<close> operator on a port's answer.\<close>

definition port :: "task_port_error + 'a \<Rightarrow> 'a ctl" where
  "port r s = (map_err Port r, s)"

section \<open>Capacities and references\<close>

definition validate_capacity :: "u32 \<Rightarrow> nat \<Rightarrow> task_error + unit" where
  "validate_capacity required available =
     (if available < unat required then Inl QuotaExhausted else Inr ())"

definition validate_poll_capacity :: "task_definition \<Rightarrow> nat \<Rightarrow> task_error + unit" where
  "validate_poll_capacity d available =
     validate_capacity (max (max_output_bytes (budget d)) (max_checkpoint_bytes (recovery d))) available"

record task_workspace =
  ws_input :: "byte list"
  ws_output :: "byte list"
  ws_checkpoint :: "byte list"

definition workspace_validate :: "task_workspace \<Rightarrow> task_definition \<Rightarrow> task_error + unit" where
  "workspace_validate ws d =
     bindR (validate_capacity (max_input_bytes (budget d)) (length (ws_input ws))) (\<lambda>_.
     bindR (validate_poll_capacity d (length (ws_output ws))) (\<lambda>_.
       validate_capacity (max_checkpoint_bytes (recovery d)) (length (ws_checkpoint ws))))"

definition mk_blob_ref :: "sha \<Rightarrow> byte list \<Rightarrow> u32 \<Rightarrow> u32 \<Rightarrow> task_error + blob_ref" where
  "mk_blob_ref sha bytes schema limit =
     (if 2 ^ 32 \<le> length bytes then Inl QuotaExhausted
      else let len = of_nat (length bytes) :: u32 in
        if limit < len \<or> schema = 0 then Inl QuotaExhausted
        else Inr \<lparr> blob_digest = digest_of sha bytes, blob_bytes = len, blob_schema = schema \<rparr>)"

text \<open>\<open>slice.get(..n)\<close>\<close>

definition get_prefix :: "byte list \<Rightarrow> nat \<Rightarrow> byte list option" where
  "get_prefix xs n = (if n \<le> length xs then Some (take n xs) else None)"

section \<open>Operations\<close>

definition ensure_healthy :: "unit ctl" where
  "ensure_healthy s = (if c_poisoned s then (Inl ReconstructionRequired, s) else (Inr (), s))"

definition ctl_commit :: "ports \<Rightarrow> task_record \<Rightarrow> byte list option \<Rightarrow> unit ctl" where
  "ctl_commit P r blob =
     bind ensure_healthy (\<lambda>_.
     bind (call_commit P r blob) (\<lambda>answer.
       case answer of
         Inr receipt \<Rightarrow>
           if receipt = r then
             bind projection (\<lambda>p.
             bind (decision (task_apply p r)) (\<lambda>p' s. (Inr (), s\<lparr>c_projection := p'\<rparr>)))
           else bind poison (\<lambda>_. throw (Port Corrupt))
       | Inl e \<Rightarrow> bind poison (\<lambda>_. throw (Port e))))"

definition ctl_fence :: "ports \<Rightarrow> task_scope \<Rightarrow> task_generation \<Rightarrow> unit ctl" where
  "ctl_fence P scope g =
     bind (call_fence P scope g) (\<lambda>answer.
       case answer of
         Inr _ \<Rightarrow> ret ()
       | Inl e \<Rightarrow> bind poison (\<lambda>_. throw (Port e)))"

definition reject_live_proposal :: "ports \<Rightarrow> task_error \<Rightarrow> 'a ctl" where
  "reject_live_proposal P e =
     (if e = QuotaExhausted then
        bind projection (\<lambda>p s.
          case ctl_fence P (p_scope p) (p_generation p) s of
            (Inl failure, s') \<Rightarrow> (Inl failure, s'\<lparr>c_poisoned := True\<rparr>)
          | (Inr _, s') \<Rightarrow> (Inl (Decision e), s'\<lparr>c_poisoned := True\<rparr>))
      else throw (Decision e))"

definition ctl_submit :: "ports \<Rightarrow> sha \<Rightarrow> byte list \<Rightarrow> u32 \<Rightarrow> task_tick \<Rightarrow> unit ctl" where
  "ctl_submit P sha inp schema t =
     bind ensure_healthy (\<lambda>_.
     bind projection (\<lambda>p.
     bind (decision (mk_blob_ref sha inp schema (max_input_bytes (budget (p_definition p))))) (\<lambda>blob.
     bind (decision (propose p (IntentCommitted (p_definition p) blob) 0 t)) (\<lambda>r.
       ctl_commit P r (Some inp)))))"

text \<open>Reading a blob into a buffer and verifying it, as \<open>dispatch\<close> does for input and checkpoint.\<close>

definition read_verified ::
  "ports \<Rightarrow> sha \<Rightarrow> task_scope \<Rightarrow> blob_ref \<Rightarrow> u32 \<Rightarrow> byte list \<Rightarrow> byte list ctl" where
  "read_verified P sha scope reference schema buffer =
     bind (call_read_blob P scope reference buffer) (\<lambda>(answer, buffer').
     bind (port answer) (\<lambda>len.
     bind (port (ok_or Corrupt (get_prefix buffer' len))) (\<lambda>bytes.
     bind (decision (blob_verify sha reference bytes schema)) (\<lambda>_.
       ret bytes))))"

definition ctl_dispatch :: "ports \<Rightarrow> sha \<Rightarrow> byte list \<Rightarrow> byte list \<Rightarrow> unit ctl" where
  "ctl_dispatch P sha input_buffer checkpoint_buffer =
     bind projection (\<lambda>p.
     bind (decision (ok_or InvalidTransition (p_input p))) (\<lambda>input_ref.
     bind (read_verified P sha (p_scope p) input_ref (blob_schema input_ref) input_buffer) (\<lambda>input_bytes.
     bind (case p_checkpoint p of
             None \<Rightarrow> ret None
           | Some reference \<Rightarrow>
               bind (read_verified P sha (p_scope p) reference (checkpoint_schema (p_definition p))
                       checkpoint_buffer) (\<lambda>bytes. ret (Some bytes))) (\<lambda>resume.
     bind (call_start P \<lparr> start_scope = p_scope p, start_generation = p_generation p,
                          start_definition = p_definition p,
                          start_execution_deadline = p_execution_deadline p,
                          start_input_schema = blob_schema input_ref,
                          start_input = input_bytes, start_checkpoint = resume \<rparr>) port))))"

text \<open>
  A dispatch workspace is the pair of buffers its provider lends; \<open>poll_capacity\<close> is the length of
  the poll buffer when the caller supplied a full workspace.
\<close>

definition ctl_advance_inner ::
  "ports \<Rightarrow> sha \<Rightarrow> task_tick \<Rightarrow> byte list \<times> byte list \<Rightarrow> nat option \<Rightarrow> bool ctl" where
  "ctl_advance_inner P sha t workspace poll_capacity =
     bind ensure_healthy (\<lambda>_.
     bind projection (\<lambda>p.
     bind (decision (task_next p t)) (\<lambda>proposal.
       case proposal of
         None \<Rightarrow> ret False
       | Some r \<Rightarrow>
           if is_start (r_event r) then
             (case workspace of (input_buffer, checkpoint_buffer) \<Rightarrow>
               bind (decision (validate_capacity (max_input_bytes (budget (p_definition p)))
                       (length input_buffer))) (\<lambda>_.
               bind (decision (validate_capacity (max_checkpoint_bytes (recovery (p_definition p)))
                       (length checkpoint_buffer))) (\<lambda>_.
               bind (case poll_capacity of None \<Rightarrow> ret ()
                     | Some capacity \<Rightarrow> decision (validate_poll_capacity (p_definition p) capacity)) (\<lambda>_.
               bind (ctl_commit P r None) (\<lambda>_ s.
                 case ctl_dispatch P sha input_buffer checkpoint_buffer s of
                   (Inl e, s') \<Rightarrow> (Inl e, s'\<lparr>c_poisoned := True\<rparr>)
                 | (Inr _, s') \<Rightarrow> (Inr True, s'))))))
           else
             bind (case r_event r of FaultObserved _ \<Rightarrow> ctl_fence P (r_scope r) (r_generation r)
                   | _ \<Rightarrow> ret ()) (\<lambda>_.
             bind (ctl_commit P r None) (\<lambda>_. ret True)))))"

definition ctl_advance :: "ports \<Rightarrow> sha \<Rightarrow> task_tick \<Rightarrow> task_workspace \<Rightarrow> bool ctl" where
  "ctl_advance P sha t ws =
     ctl_advance_inner P sha t (ws_input ws, ws_checkpoint ws) (Some (length (ws_output ws)))"

definition ctl_advance_with_workspace ::
  "ports \<Rightarrow> sha \<Rightarrow> task_tick \<Rightarrow> byte list \<times> byte list \<Rightarrow> bool ctl" where
  "ctl_advance_with_workspace P sha t workspace = ctl_advance_inner P sha t workspace None"

definition ctl_advance_with_buffers ::
  "ports \<Rightarrow> sha \<Rightarrow> task_tick \<Rightarrow> byte list \<Rightarrow> byte list \<Rightarrow> bool ctl" where
  "ctl_advance_with_buffers P sha t input_buffer checkpoint_buffer =
     ctl_advance_with_workspace P sha t (input_buffer, checkpoint_buffer)"


text \<open>
  \<open>observe\<close>: the guards, the late branch, and the admission of a proposal. A checkpoint and a
  completion share the code that turns declared bytes into a blob; the limit and the event, which
  the code selects by \<open>matches!\<close> on the progress, are arguments of \<open>admit_blob\<close>. A \<open>usize\<close> holds
  every \<open>u32\<close> here, so the conversion of a declared length cannot fail.
\<close>

definition observe_late :: "ports \<Rightarrow> task_tick \<Rightarrow> bool ctl" where
  "observe_late P t =
     bind projection (\<lambda>p.
     bind (decision (bindR (task_next p t) (ok_or InvalidTransition))) (\<lambda>r.
     bind (ctl_fence P (r_scope r) (r_generation r)) (\<lambda>_.
     bind (ctl_commit P r None) (\<lambda>_.
       throw (Decision DeadlineExpired)))))"

definition admit_proposal ::
  "ports \<Rightarrow> task_observation \<Rightarrow> task_execution_event \<Rightarrow> byte list option \<Rightarrow> task_tick \<Rightarrow> bool ctl" where
  "admit_proposal P obs ev blob t =
     bind projection (\<lambda>p.
       case propose p ev (obs_generation obs) t of
         Inl e \<Rightarrow> reject_live_proposal P e
       | Inr r \<Rightarrow>
           bind (case ev of
                   FaultObserved _ \<Rightarrow> ctl_fence P (obs_scope obs) (obs_generation obs)
                 | EvCompleted _ \<Rightarrow> ctl_fence P (obs_scope obs) (obs_generation obs)
                 | _ \<Rightarrow> ret ()) (\<lambda>_.
           bind (ctl_commit P r blob) (\<lambda>_.
             case ev of
               CheckpointCommitted cp \<Rightarrow>
                 bind (call_acknowledge P (obs_scope obs) (obs_generation obs) cp) (\<lambda>answer.
                   case answer of
                     Inl e \<Rightarrow> bind poison (\<lambda>_. throw (Port e))
                   | Inr _ \<Rightarrow> ret True)
             | _ \<Rightarrow> ret True)))"

definition admit_blob ::
  "ports \<Rightarrow> sha \<Rightarrow> task_observation \<Rightarrow> u32 \<Rightarrow> u32 \<Rightarrow> u32 \<Rightarrow>
     (blob_ref \<Rightarrow> task_execution_event) \<Rightarrow> byte list \<Rightarrow> task_tick \<Rightarrow> bool ctl" where
  "admit_blob P sha obs bytes schema limit event buffer t =
     (if limit < bytes then reject_live_proposal P QuotaExhausted
      else bind (decision (ok_or CorruptBlob (get_prefix buffer (unat bytes)))) (\<lambda>data.
        case mk_blob_ref sha data schema limit of
          Inl e \<Rightarrow> reject_live_proposal P e
        | Inr reference \<Rightarrow> admit_proposal P obs (event reference) (Some data) t))"

definition ctl_observe ::
  "ports \<Rightarrow> sha \<Rightarrow> task_observation \<Rightarrow> byte list \<Rightarrow> task_tick \<Rightarrow> bool ctl" where
  "ctl_observe P sha obs buffer t =
     bind ensure_healthy (\<lambda>_.
     bind projection (\<lambda>p.
       if t < p_tick p then throw (Decision InvalidOrder)
       else if obs_scope obs \<noteq> p_scope p then throw (Decision ScopeMismatch)
       else if obs_generation obs \<noteq> p_generation p then throw (Decision StaleGeneration)
       else if p_status p \<noteq> StRunning then throw (Decision InvalidTransition)
       else if p_execution_deadline p \<le> t
         \<and> (case obs_progress obs of RpFault _ \<Rightarrow> False | _ \<Rightarrow> True)
       then observe_late P t
       else case obs_progress obs of
         RpPending \<Rightarrow> ret False
       | RpFault fault \<Rightarrow> admit_proposal P obs (FaultObserved fault) None t
       | RpCheckpoint bytes schema \<Rightarrow>
           admit_blob P sha obs bytes schema (max_checkpoint_bytes (recovery (p_definition p)))
             CheckpointCommitted buffer t
       | RpComplete bytes schema \<Rightarrow>
           admit_blob P sha obs bytes schema (max_output_bytes (budget (p_definition p)))
             EvCompleted buffer t))"

definition ctl_poll_inner ::
  "ports \<Rightarrow> sha \<Rightarrow> task_tick \<Rightarrow> byte list \<Rightarrow> (nat \<times> nat) option \<Rightarrow> bool ctl" where
  "ctl_poll_inner P sha t buffer dispatch_capacities =
     bind ensure_healthy (\<lambda>_.
     bind projection (\<lambda>p.
       if t < p_tick p then throw (Decision InvalidOrder)
       else if p_status p \<noteq> StRunning then throw (Decision InvalidTransition)
       else if p_execution_deadline p \<le> t then ctl_advance_inner P sha t ([], []) None
       else
         bind (case dispatch_capacities of None \<Rightarrow> ret ()
               | Some (input_capacity, checkpoint_capacity) \<Rightarrow>
                   bind (decision (validate_capacity (max_input_bytes (budget (p_definition p)))
                           input_capacity)) (\<lambda>_.
                     decision (validate_capacity (max_checkpoint_bytes (recovery (p_definition p)))
                           checkpoint_capacity))) (\<lambda>_.
         bind (decision (validate_poll_capacity (p_definition p) (length buffer))) (\<lambda>_.
         bind (call_poll P (p_scope p) (p_generation p) buffer) (\<lambda>(answer, buffer').
           case answer of
             Inl e \<Rightarrow> bind poison (\<lambda>_. throw (Port e))
           | Inr obs \<Rightarrow> ctl_observe P sha obs buffer' t)))))"

definition ctl_poll :: "ports \<Rightarrow> sha \<Rightarrow> task_tick \<Rightarrow> task_workspace \<Rightarrow> bool ctl" where
  "ctl_poll P sha t ws =
     ctl_poll_inner P sha t (ws_output ws) (Some (length (ws_input ws), length (ws_checkpoint ws)))"

definition ctl_poll_with_buffer :: "ports \<Rightarrow> sha \<Rightarrow> task_tick \<Rightarrow> byte list \<Rightarrow> bool ctl" where
  "ctl_poll_with_buffer P sha t buffer = ctl_poll_inner P sha t buffer None"

definition validate_evidence ::
  "sha \<Rightarrow> task_definition \<Rightarrow> reconciliation \<Rightarrow> byte list option \<Rightarrow> task_error + unit" where
  "validate_evidence sha d result out =
     (case result of
        RcCompleted reference _ \<Rightarrow>
          if max_output_bytes (budget d) < blob_bytes reference then Inl QuotaExhausted
          else bindR (ok_or CorruptBlob out) (\<lambda>bytes.
            blob_verify sha reference bytes (blob_schema reference))
      | _ \<Rightarrow> if out \<noteq> None then Inl CorruptBlob else Inr ())"

definition ctl_reconcile ::
  "ports \<Rightarrow> sha \<Rightarrow> task_scope \<Rightarrow> task_generation \<Rightarrow> reconciliation \<Rightarrow> byte list option \<Rightarrow> task_tick \<Rightarrow> unit ctl" where
  "ctl_reconcile P sha scope g result out t =
     bind ensure_healthy (\<lambda>_.
     bind projection (\<lambda>p.
       if scope \<noteq> p_scope p then throw (Decision ScopeMismatch)
       else if g \<noteq> p_generation p then throw (Decision StaleGeneration)
       else
         bind (decision (validate_evidence sha (p_definition p) result out)) (\<lambda>_.
         bind (decision (propose p (EvReconciled result) g t)) (\<lambda>r.
           ctl_commit P r out))))"

definition ctl_import_checkpoint ::
  "ports \<Rightarrow> sha \<Rightarrow> task_scope \<Rightarrow> blob_ref \<Rightarrow> byte list \<Rightarrow> digest \<Rightarrow> task_tick \<Rightarrow> unit ctl" where
  "ctl_import_checkpoint P sha source previous bytes authorization t =
     bind ensure_healthy (\<lambda>_.
     bind projection (\<lambda>p.
     bind (decision (mk_blob_ref sha bytes (checkpoint_schema (p_definition p))
             (max_checkpoint_bytes (recovery (p_definition p))))) (\<lambda>checkpoint.
     bind (decision (propose p (CheckpointMigrated source previous checkpoint authorization) 0 t)) (\<lambda>r.
       ctl_commit P r (Some bytes)))))"

section \<open>Reconstruction\<close>

text \<open>
  \<open>restore_projection\<close> runs before a supervisor exists, so it threads the trace alone. Its read
  loop ends because every accepted record advances a 32-bit sequence without wrapping.
\<close>

function restore_loop ::
  "ports \<Rightarrow> task_scope \<Rightarrow> task_projection \<Rightarrow> trace \<Rightarrow> (supervisor_error + task_projection) \<times> trace" where
  "restore_loop P scope p tr =
     (let answer = journal_read P tr scope (p_next_sequence p);
          tr' = tr @ [CRead scope (p_next_sequence p) answer]
      in case answer of
           Inl e \<Rightarrow> (Inl (Port e), tr')
         | Inr None \<Rightarrow> (Inr p, tr')
         | Inr (Some r) \<Rightarrow>
             (case task_apply p r of
                Inl e \<Rightarrow> (Inl (Decision e), tr')
              | Inr p' \<Rightarrow> restore_loop P scope p' tr'))"
  by pat_completeness auto

termination
proof (relation "measure (\<lambda>(P, scope, p, tr). 2 ^ 32 - unat (p_next_sequence p))", goal_cases)
  case 1
  then show ?case by simp
next
  case (2 P scope p tr answer tr' found r p')
  have "unat (p_next_sequence p') = unat (p_next_sequence p) + 1"
    using task_apply_frame(3) 2 by blast
  moreover have "unat (p_next_sequence p) < 2 ^ 32" using unat_less_exp [of "p_next_sequence p"] by simp
  ultimately show ?case by simp
qed

declare restore_loop.simps [simp del]

definition interrupt_running ::
  "ports \<Rightarrow> task_scope \<Rightarrow> task_projection \<Rightarrow> task_tick \<Rightarrow> trace \<Rightarrow>
     (supervisor_error + task_projection) \<times> trace" where
  "interrupt_running P scope p t tr =
     (let fenced = runtime_fence P tr scope (p_generation p);
          tr1 = tr @ [CFence scope (p_generation p) fenced]
      in case fenced of
           Inl e \<Rightarrow> (Inl (Port e), tr1)
         | Inr _ \<Rightarrow>
             (case propose p (FaultObserved SupervisorInterrupted) (p_generation p) t of
                Inl e \<Rightarrow> (Inl (Decision e), tr1)
              | Inr r \<Rightarrow>
                  (let committed = journal_commit P tr1 r None;
                       tr2 = tr1 @ [CCommit r None committed]
                   in case committed of
                        Inl e \<Rightarrow> (Inl (Port e), tr2)
                      | Inr receipt \<Rightarrow>
                          if receipt \<noteq> r then (Inl (Port Corrupt), tr2)
                          else (map_err Decision (task_apply p r), tr2))))"

definition restore_projection ::
  "ports \<Rightarrow> sha \<Rightarrow> task_scope \<Rightarrow> task_definition \<Rightarrow> task_tick \<Rightarrow> trace \<Rightarrow>
     (supervisor_error + task_projection) \<times> trace" where
  "restore_projection P sha scope d t tr =
     (case projection_new sha scope d of
        Inl e \<Rightarrow> (Inl (Decision e), tr)
      | Inr p0 \<Rightarrow>
          (case restore_loop P scope p0 tr of
             (Inl e, tr') \<Rightarrow> (Inl e, tr')
           | (Inr p, tr') \<Rightarrow>
               if t < p_tick p then (Inl (Decision InvalidOrder), tr')
               else if p_status p = StRunning then interrupt_running P scope p t tr'
               else (Inr p, tr')))"

definition ctl_restore ::
  "ports \<Rightarrow> sha \<Rightarrow> task_scope \<Rightarrow> task_definition \<Rightarrow> task_tick \<Rightarrow> trace \<Rightarrow>
     (supervisor_error + task_control) \<times> trace" where
  "ctl_restore P sha scope d t tr =
     (case restore_projection P sha scope d t tr of
        (Inl e, tr') \<Rightarrow> (Inl e, tr')
      | (Inr p, tr') \<Rightarrow> (Inr \<lparr> c_trace = tr', c_projection = p, c_poisoned = False \<rparr>, tr'))"

section \<open>The fixed-capacity wrapper\<close>

definition capacities_fit :: "nat \<Rightarrow> task_definition \<Rightarrow> bool" where
  "capacities_fit N d \<longleftrightarrow>
     \<not> list_ex (\<lambda>n. N < unat n)
         [max_input_bytes (budget d), max_output_bytes (budget d), max_checkpoint_bytes (recovery d)]"

definition supervisor_restore ::
  "nat \<Rightarrow> ports \<Rightarrow> sha \<Rightarrow> task_scope \<Rightarrow> task_definition \<Rightarrow> task_tick \<Rightarrow> trace \<Rightarrow>
     (supervisor_error + task_control) \<times> trace" where
  "supervisor_restore N P sha scope d t tr =
     (if capacities_fit N d then ctl_restore P sha scope d t tr
      else (Inl (Decision QuotaExhausted), tr))"

definition supervisor_advance :: "nat \<Rightarrow> ports \<Rightarrow> sha \<Rightarrow> task_tick \<Rightarrow> bool ctl" where
  "supervisor_advance N P sha t =
     ctl_advance_with_workspace P sha t (replicate N 0, replicate N 0)"

definition supervisor_poll :: "nat \<Rightarrow> ports \<Rightarrow> sha \<Rightarrow> task_tick \<Rightarrow> bool ctl" where
  "supervisor_poll N P sha t = ctl_poll_with_buffer P sha t (replicate N 0)"

end
