(* ===== verification/Task_Properties.thy ===== *)
theory Task_Properties
  imports Task_Invariants
begin

text \<open>
  What the task history protocol guarantees, stated over whole accepted histories
  (\<open>task_replay\<close>) and over single decisions (\<open>task_next\<close>, \<open>task_apply\<close>), with a concrete
  history for the witnesses.
\<close>

section \<open>Histories\<close>

lemma task_replay_rev_induct [consumes 1, case_names new step]:
  assumes run: "task_replay sha scope d rs = Inr p"
    and new: "\<And>p. projection_new sha scope d = Inr p \<Longrightarrow> P [] p"
    and step: "\<And>rs p r p'. task_replay sha scope d rs = Inr p \<Longrightarrow> task_inv sha p \<Longrightarrow> P rs p \<Longrightarrow>
      task_apply p r = Inr p' \<Longrightarrow> task_inv sha p' \<Longrightarrow> P (rs @ [r]) p'"
  shows "P rs p"
  using run
proof (induction rs arbitrary: p rule: rev_induct)
  case Nil
  then show ?case using new by (simp add: task_replay_Inr)
next
  case (snoc r rs)
  then obtain q where q: "task_replay sha scope d rs = Inr q" "task_apply q r = Inr p"
    by (auto simp: task_replay_snoc bindR_eq_Inr)
  with snoc.IH step [OF q(1) task_replay_inv [OF q(1)]] task_apply_inv show ?case
    using task_replay_inv by blast
qed

definition starts :: "task_record list \<Rightarrow> nat list" where
  "starts rs = map (\<lambda>r. unat (r_generation r)) (filter (\<lambda>r. is_start (r_event r)) rs)"

fun record_checkpoint :: "task_record \<Rightarrow> blob_ref list" where
  "record_checkpoint r = (case r_event r of
     CheckpointCommitted cp \<Rightarrow> [cp] | CheckpointMigrated _ _ cp _ \<Rightarrow> [cp] | _ \<Rightarrow> [])"

definition committed_checkpoints :: "task_record list \<Rightarrow> blob_ref list" where
  "committed_checkpoints rs = concat (map record_checkpoint rs)"

fun authorizes_restart :: "task_generation \<Rightarrow> task_record \<Rightarrow> bool" where
  "authorizes_restart g r =
     (r_generation r = g \<and> (case r_event r of EvReconciled (RcRestartAuthorized _) \<Rightarrow> True | _ \<Rightarrow> False))"

lemma task_replay_starts:
  "task_replay sha scope d rs = Inr p \<Longrightarrow> starts rs = [1..<Suc (unat (p_generation p))]"
proof (induction rule: task_replay_rev_induct)
  case (new p)
  then show ?case by (simp add: starts_def projection_new_Inr)
next
  case (step rs p r p')
  from step.hyps(3) obtain q n where "record_admissible p r = Inr ()"
    "apply_event p r (r_event r) = Inr q" "p' = q\<lparr>p_next_sequence := n, p_tick := r_tick r\<rparr>"
    by (rule task_applyE)
  then show ?case
    using step.IH apply_event_generation
    by (fastforce simp: starts_def record_admissible_Inr expected_generation_Inr)
qed

lemma task_replay_order:
  "task_replay sha scope d rs = Inr p \<Longrightarrow>
     map (\<lambda>r. unat (r_sequence r)) rs = [0..<length rs] \<and> sorted (map r_tick rs)
     \<and> list_all (\<lambda>r. r_scope r = scope \<and> r_tick r \<le> p_tick p) rs"
proof (induction rule: task_replay_rev_induct)
  case (new p)
  then show ?case by simp
next
  case (step rs p r p')
  note frame = task_apply_frame [OF step.hyps(3)]
  have "unat (r_sequence r) = length rs"
    using frame(6) task_replay_length [OF step.hyps(1)] by simp
  moreover have "r_scope r = scope" using frame(7) task_replay_pins [OF step.hyps(1)] by simp
  moreover have "\<forall>x\<in>set rs. r_tick x \<le> r_tick r"
    using step.IH frame(5) by (auto simp: list_all_iff)
  ultimately show ?case
    using step.IH frame(4) by (auto simp: sorted_append list_all_iff)
qed

lemma task_replay_authorized:
  "task_replay sha scope d rs = Inr p \<Longrightarrow>
     p_status p = StReconciled \<or> p_status p = StReady \<and> needs_reconciliation p \<longrightarrow>
     list_ex (authorizes_restart (p_generation p)) rs"
proof (induction rule: task_replay_rev_induct)
  case (new p)
  then show ?case by (simp add: projection_new_Inr)
next
  case (step rs p r p')
  from step.hyps(3) obtain q n where adm: "record_admissible p r = Inr ()"
    and ev: "apply_event p r (r_event r) = Inr q"
    and p': "p' = q\<lparr>p_next_sequence := n, p_tick := r_tick r\<rparr>"
    by (rule task_applyE)
  show ?case
    using ev adm step.IH p'
    by (cases "r_event r") (auto simp: task_step result_simps needs_reconciliation_def word_unat_eq_iff
        split: reconciliation.splits if_splits)
qed

lemma task_replay_checkpoint:
  "task_replay sha scope d rs = Inr p \<Longrightarrow> mode (recovery d) \<noteq> RestartFromBeginning \<longrightarrow>
     p_checkpoint p =
       (if committed_checkpoints rs = [] then None else Some (last (committed_checkpoints rs)))"
proof (induction rule: task_replay_rev_induct)
  case (new p)
  then show ?case by (simp add: projection_new_Inr committed_checkpoints_def)
next
  case (step rs p r p')
  from step.hyps(3) obtain q n where ev: "apply_event p r (r_event r) = Inr q"
    and p': "p' = q\<lparr>p_next_sequence := n, p_tick := r_tick r\<rparr>"
    by (rule task_applyE)
  have "p_definition p = d" using task_replay_pins [OF step.hyps(1)] by simp
  then show ?case
    using ev step.IH p'
    by (cases "r_event r") (auto simp: task_step committed_checkpoints_def
        split: reconciliation.splits)
qed

section \<open>Decisions\<close>

definition proposed :: "task_projection \<Rightarrow> task_execution_event \<Rightarrow> task_generation \<Rightarrow> task_tick \<Rightarrow> task_record" where
  "proposed p ev g t = \<lparr> r_version = 1, r_scope = p_scope p, r_sequence = p_next_sequence p,
     r_generation = g, r_tick = t, r_event = ev \<rparr>"

lemma proposed_simps [simp]:
  "r_version (proposed p ev g t) = 1" "r_scope (proposed p ev g t) = p_scope p"
  "r_sequence (proposed p ev g t) = p_next_sequence p" "r_generation (proposed p ev g t) = g"
  "r_tick (proposed p ev g t) = t" "r_event (proposed p ev g t) = ev"
  by (simp_all add: proposed_def)

lemma propose_Inr:
  "propose p ev g t = Inr r \<longleftrightarrow> r = proposed p ev g t \<and> (\<exists>p'. task_apply p r = Inr p')"
  by (auto simp: propose_def proposed_def Let_def bindR_eq_Inr)

text \<open>Slots of the history a record needs: its own and, while a generation stays live, one more.\<close>

definition has_room :: "task_projection \<Rightarrow> task_execution_event \<Rightarrow> bool" where
  "has_room p ev \<longleftrightarrow>
     unat (p_next_sequence p) + (if keeps_running ev then 1 else 0)
       < unat (max_history_records (budget (p_definition p)))"

lemma propose_applies:
  assumes "p_tick p \<le> t" "has_room p ev" "expected_generation p ev = Inr g"
    and "apply_event p (proposed p ev g t) ev = Inr q"
  shows "\<exists>p'. propose p ev g t = Inr (proposed p ev g t)
    \<and> task_apply p (proposed p ev g t) = Inr p' \<and> p_status p' = p_status q"
proof -
  have adm: "record_admissible p (proposed p ev g t) = Inr ()"
    using assms(1,2,3) by (simp only: record_admissible_Inr proposed_simps has_room_def simp_thms)
  have "unat (p_next_sequence p) + 1 < 2 ^ LENGTH(32)"
    using assms(2) unat_less_exp [of "max_history_records (budget (p_definition p))"]
    by (auto simp: has_room_def split: if_splits)
  then obtain n :: u32 where n: "unat n = unat (p_next_sequence p) + 1"
    using successor_exists by blast
  have "task_apply p (proposed p ev g t) = Inr (q\<lparr>p_next_sequence := n, p_tick := t\<rparr>)"
    using adm assms(4) n by (auto simp: task_apply_eq apply_inner_Inr)
  then show ?thesis by (simp add: propose_Inr)
qed

lemma propose_quota:
  assumes "p_tick p \<le> t" "expected_generation p ev = Inr g"
    and "apply_event p (proposed p ev g t) ev = Inr q" "propose p ev g t = Inl e"
  shows "e = QuotaExhausted"
proof -
  have "\<not> has_room p ev" using propose_applies [OF assms(1) _ assms(2,3)] assms(4) by force
  then have "record_admissible p (proposed p ev g t) = Inl QuotaExhausted"
    using assms(1) unfolding record_admissible_def proposed_simps slot_reserved
    unfolding slot_taken by (auto simp: has_room_def split: if_splits)
  then show ?thesis
    using assms(4) by (simp add: propose_def task_apply_def apply_inner_def proposed_def Let_def)
qed

lemma next_generation:
  assumes "task_inv sha p" "next_event p t = Some ev"
  shows "\<exists>g. expected_generation p ev = Inr g"
proof (cases "is_start ev")
  case True
  have "unat (p_generation p) < unat (max_attempts (recovery (p_definition p)))"
    using assms True
    by (auto simp: next_event_def task_inv_defs result_simps word_less_nat_alt
        split: task_status.splits if_splits)
  then have "unat (p_generation p) + 1 < 2 ^ LENGTH(32)"
    using unat_less_exp [of "max_attempts (recovery (p_definition p))"] by linarith
  then show ?thesis using True by (simp add: expected_generation_def checked_add_def)
next
  case False
  then show ?thesis by (simp add: expected_generation_def)
qed

lemma next_event_applies:
  assumes "task_inv sha p" "next_event p t = Some ev" "expected_generation p ev = Inr g"
  shows "\<exists>q. apply_event p (proposed p ev g t) ev = Inr q"
proof (cases "is_start ev")
  case True
  have "g \<le> max_attempts (recovery (p_definition p))"
    using assms True
    by (auto simp: next_event_def task_inv_defs result_simps word_less_nat_alt word_le_nat_alt
        split: task_status.splits if_splits)
  with assms(2) True show ?thesis
    by (auto simp: next_event_def task_step not_le not_less split: task_status.splits if_splits)
next
  case False
  with assms(1,2) show ?thesis
    by (auto simp: next_event_def task_inv_defs task_step can_recover_def not_less
        split: task_status.splits if_splits recovery_mode.splits)
qed

lemma next_event_step:
  assumes "task_inv sha p" "p_tick p \<le> t" "next_event p t = Some ev" "has_room p ev"
  shows "\<exists>r p' q g. task_next p t = Inr (Some r) \<and> task_apply p r = Inr p' \<and> task_inv sha p'
    \<and> r = proposed p ev g t \<and> apply_event p r ev = Inr q \<and> p_status p' = p_status q"
proof -
  obtain g where g: "expected_generation p ev = Inr g"
    using next_generation [OF assms(1,3)] by blast
  obtain q where q: "apply_event p (proposed p ev g t) ev = Inr q"
    using next_event_applies [OF assms(1,3) g] by blast
  obtain p' where "propose p ev g t = Inr (proposed p ev g t)"
    "task_apply p (proposed p ev g t) = Inr p'" "p_status p' = p_status q"
    using propose_applies [OF assms(2,4) g q] by blast
  then show ?thesis
    using assms g q task_apply_inv by (auto simp: task_next_def not_less)
qed

lemma running_has_room:
  "task_inv sha p \<Longrightarrow> p_status p = StRunning \<Longrightarrow> \<not> keeps_running ev \<Longrightarrow> has_room p ev"
  by (auto simp: task_inv_defs has_room_def)

lemma terminal_refuses:
  "p_status p \<in> {StCompleted, StExhausted} \<Longrightarrow> task_apply p r \<noteq> Inr p'"
  by (cases "r_event r") (auto elim!: task_applyE simp: task_step split: if_splits)

lemma terminal_history_ends:
  "p_status q \<in> {StCompleted, StExhausted} \<Longrightarrow> replay_from task_apply q ys = Inr p \<Longrightarrow> ys = []"
  using terminal_refuses by (cases ys) (fastforce simp: bindR_eq_Inr)+

text \<open>Calling \<open>next\<close> and applying its record, at one instant, until it waits.\<close>

fun supervise :: "nat \<Rightarrow> task_projection \<Rightarrow> task_tick \<Rightarrow> task_error + task_projection" where
  "supervise 0 p t = Inr p"
| "supervise (Suc n) p t =
     bindR (task_next p t) (\<lambda>decision. case decision of
       None \<Rightarrow> Inr p
     | Some r \<Rightarrow> bindR (task_apply p r) (\<lambda>p'. supervise n p' t))"

lemma supervise_step:
  assumes "task_inv sha p" "p_tick p \<le> t" "next_event p t = Some ev" "has_room p ev"
  shows "\<exists>q y g. (\<forall>n. supervise (Suc n) p t = supervise n q t) \<and> task_inv sha q \<and> p_tick q = t
    \<and> p_definition q = p_definition p \<and> unat (p_next_sequence q) = unat (p_next_sequence p) + 1
    \<and> apply_event p (proposed p ev g t) ev = Inr y \<and> p_status q = p_status y"
proof -
  obtain r q y g where r: "task_next p t = Inr (Some r)" "task_apply p r = Inr q" "task_inv sha q"
    "r = proposed p ev g t" "apply_event p r ev = Inr y" "p_status q = p_status y"
    using next_event_step [OF assms] by blast
  then show ?thesis using task_apply_frame [OF r(2)] by auto
qed

lemma supervise_waits:
  "next_event p t = None \<Longrightarrow> p_tick p \<le> t \<Longrightarrow> supervise n p t = Inr p"
  by (cases n) (simp_all add: task_next_def not_less)

text \<open>One decision after the deadline, from any phase but \<open>Running\<close>.\<close>

lemma deadline_decides:
  assumes inv: "task_inv sha p" and t: "p_tick p \<le> t" "deadline_tick (budget (p_definition p)) \<le> t"
    and room: "unat (p_next_sequence p) < unat (max_history_records (budget (p_definition p)))"
    and st: "p_status p \<in> {StPending, StReady, StFaulted, StReconciled}"
  shows "\<exists>q. supervise (Suc n) p t = Inr q
    \<and> p_status q = (if p_status p = StFaulted \<and> needs_reconciliation p then StReconciling else StExhausted)"
proof -
  let ?ev = "if p_status p = StFaulted \<and> needs_reconciliation p then ReconciliationRequired
    else RecoveryExhausted"
  have ev: "next_event p t = Some ?ev"
    using st t(2) by (auto simp: next_event_def can_recover_def not_less)
  have "has_room p ?ev" using room by (simp add: has_room_def)
  then obtain q y g where q: "\<forall>n. supervise (Suc n) p t = supervise n q t" "p_tick q = t"
    "apply_event p (proposed p ?ev g t) ?ev = Inr y" "p_status q = p_status y"
    using supervise_step [OF inv t(1) ev] by blast
  then have status: "p_status q =
      (if p_status p = StFaulted \<and> needs_reconciliation p then StReconciling else StExhausted)"
    by (auto simp: task_step split: if_splits)
  then have "next_event q t = None" by (simp add: next_event_def split: if_splits)
  then show ?thesis using q status supervise_waits [of q t n] by auto
qed

section \<open>A concrete history\<close>

text \<open>
  A pure task with two attempts crashes once, resumes from its checkpoint and completes; and a
  task whose effects need reconciliation restarts after authorisation.
\<close>

definition ex_sha :: sha where
  "ex_sha bs = digest_fill 9"

definition ex_definition :: "effect_contract \<Rightarrow> task_definition" where
  "ex_definition eff = \<lparr> code_digest = digest_fill 1, checkpoint_schema = 3, effects = eff,
     recovery = \<lparr> mode = RestartFromCheckpoint, max_attempts = 2, timeout_ticks = 10,
                  restart_delay_ticks = 5, max_checkpoint_bytes = 64 \<rparr>,
     budget = \<lparr> max_input_bytes = 64, max_output_bytes = 64, max_history_records = 16,
                max_checkpoint_commits = 4, cpu_ticks = 100, deadline_tick = 100 \<rparr> \<rparr>"

definition ex_scope :: task_scope where
  "ex_scope = \<lparr> scope_tenant = digest_fill 2, scope_task = digest_fill 3,
     scope_definition = digest_fill 9, scope_input = digest_fill 4 \<rparr>"

definition ex_blob :: "byte \<Rightarrow> u32 \<Rightarrow> blob_ref" where
  "ex_blob b schema = \<lparr> blob_digest = digest_fill b, blob_bytes = 8, blob_schema = schema \<rparr>"

definition ex_record :: "u32 \<Rightarrow> u32 \<Rightarrow> u64 \<Rightarrow> task_execution_event \<Rightarrow> task_record" where
  "ex_record s g t ev = \<lparr> r_version = 1, r_scope = ex_scope, r_sequence = s, r_generation = g,
     r_tick = t, r_event = ev \<rparr>"

definition ex_prefix :: "effect_contract \<Rightarrow> task_record list" where
  "ex_prefix eff =
     [ex_record 0 0 1 (IntentCommitted (ex_definition eff) (ex_blob 4 1)),
      ex_record 1 1 2 Started,
      ex_record 2 1 3 (CheckpointCommitted (ex_blob 5 3)),
      ex_record 3 1 4 (FaultObserved Crash)]"

definition ex_pure_history :: "task_record list" where
  "ex_pure_history = ex_prefix PureEffects @
     [ex_record 4 1 4 (RecoveryPlanned (Some (ex_blob 5 3))),
      ex_record 5 2 9 Restarted,
      ex_record 6 2 12 (EvCompleted (ex_blob 6 1))]"

definition ex_effect_history :: "task_record list" where
  "ex_effect_history = ex_prefix ReconcileRequired @
     [ex_record 4 1 4 ReconciliationRequired,
      ex_record 5 1 6 (EvReconciled (RcRestartAuthorized (digest_fill 8))),
      ex_record 6 1 7 (RecoveryPlanned (Some (ex_blob 5 3))),
      ex_record 7 2 9 Restarted]"

lemmas ex_defs = ex_sha_def ex_definition_def ex_scope_def ex_blob_def ex_record_def ex_prefix_def
  ex_pure_history_def ex_effect_history_def

lemmas task_eval = task_replay_def projection_new_def definition_validate_def fingerprint_def
  task_apply_def apply_inner_def record_admissible_def expected_generation_def saturating_add_def
  checked_add_def require_def require_live_def validate_output_def apply_intent_def apply_start_def
  apply_checkpoint_def count_checkpoint_def apply_fault_def apply_reconciliation_required_def
  apply_reconciled_def apply_recovery_planned_def apply_completed_def needs_reconciliation_def
  can_recover_def

definition ex_running :: task_projection where
  "ex_running = \<lparr> p_scope = ex_scope, p_definition = ex_definition ReconcileRequired,
     p_status = StRunning, p_next_sequence = 8, p_generation = 2, p_tick = 9,
     p_execution_deadline = 19, p_restart_at = 9, p_checkpoint_commits = 1,
     p_checkpoint = Some (ex_blob 5 3), p_input = Some (ex_blob 4 1), p_output = None \<rparr>"

definition ex_completed :: task_projection where
  "ex_completed = \<lparr> p_scope = ex_scope, p_definition = ex_definition PureEffects,
     p_status = StCompleted, p_next_sequence = 7, p_generation = 2, p_tick = 12,
     p_execution_deadline = 19, p_restart_at = 9, p_checkpoint_commits = 1,
     p_checkpoint = Some (ex_blob 5 3), p_input = Some (ex_blob 4 1),
     p_output = Some (ex_blob 6 1) \<rparr>"

lemma ex_pure_replay:
  "task_replay ex_sha ex_scope (ex_definition PureEffects) ex_pure_history = Inr ex_completed"
  by (simp add: ex_defs ex_completed_def task_eval)

lemma ex_effect_replay:
  "task_replay ex_sha ex_scope (ex_definition ReconcileRequired) ex_effect_history = Inr ex_running"
  by (simp add: ex_defs ex_running_def task_eval)

section \<open>Claims\<close>

text \<open>
  C2. Every history that \<open>replay\<close> accepts yields a projection pinned to the requested scope and
  definition that satisfies the projection invariant: the next sequence is the number of records,
  and the history, the generation and the checkpoint commits stay within the declared quotas.
\<close>

theorem replay_establishes_invariant:
  assumes "task_replay sha scope d rs = Inr p"
  shows "task_inv sha p \<and> p_scope p = scope \<and> p_definition p = d
    \<and> unat (p_next_sequence p) = length rs
    \<and> length rs \<le> unat (max_history_records (budget d))
    \<and> unat (p_generation p) \<le> unat (max_attempts (recovery d))
    \<and> unat (p_checkpoint_commits p) \<le> unat (max_checkpoint_commits (budget d))"
proof -
  note inv = task_replay_inv [OF assms] and pins = task_replay_pins [OF assms]
  then show ?thesis
    using task_replay_length [OF assms] task_inv_sequence [OF inv]
    by (auto simp: task_inv_def within_quotas_def)
qed

theorem replay_establishes_invariant_witness: "task_inv ex_sha ex_completed"
  using replay_establishes_invariant [OF ex_pure_replay] by blast

text \<open>
  A live generation always keeps a free slot of the history for its outcome: whatever accepted
  history led to a running task, at any later instant a fault can be proposed and applied, unless it
  is a timeout or deadline violation reported too early.
\<close>

theorem live_generation_can_record_fault:
  assumes "task_replay sha scope d rs = Inr p" "p_status p = StRunning" "p_tick p \<le> t"
    and "fault = Timeout \<longrightarrow> p_execution_deadline p \<le> t"
    and "fault = DeadlineViolation \<longrightarrow> deadline_tick (budget d) \<le> t"
  shows "\<exists>r p'. propose p (FaultObserved fault) (p_generation p) t = Inr r
    \<and> task_replay sha scope d (rs @ [r]) = Inr p' \<and> p_status p' = StFaulted"
proof -
  let ?ev = "FaultObserved fault"
  have inv: "task_inv sha p" using assms(1) by (rule task_replay_inv)
  have room: "has_room p ?ev" using running_has_room [OF inv assms(2)] by simp
  have gen: "expected_generation p ?ev = Inr (p_generation p)" by (simp add: expected_generation_def)
  have "p_definition p = d" using task_replay_pins [OF assms(1)] by simp
  then obtain q where "apply_event p (proposed p ?ev (p_generation p) t) ?ev = Inr q"
    "p_status q = StFaulted"
    using assms(2,4,5) by (auto simp: task_step)
  then show ?thesis
    using propose_applies [OF assms(3) room gen] assms(1)
    by (fastforce simp: task_replay_snoc)
qed

theorem live_generation_can_record_fault_witness:
  "\<exists>r p'. propose ex_running (FaultObserved Crash) (p_generation ex_running) 10 = Inr r
    \<and> task_replay ex_sha ex_scope (ex_definition ReconcileRequired) (ex_effect_history @ [r]) = Inr p'
    \<and> p_status p' = StFaulted"
  by (rule live_generation_can_record_fault [OF ex_effect_replay]) (simp_all add: ex_running_def)

text \<open>
  C1. No blind restart: when a task's effects or its recovery mode require reconciliation, an accepted
  history restarts a generation only after a restart authorisation recorded for exactly the
  generation that was interrupted.
\<close>

theorem restart_requires_authorization:
  assumes "task_replay sha scope d (xs @ r # ys) = Inr p" "r_event r = Restarted"
    and "effects d = ReconcileRequired \<or> mode (recovery d) = ReconcileBeforeRestart"
  shows "\<exists>g. list_ex (authorizes_restart g) xs \<and> unat (r_generation r) = unat g + 1"
proof -
  obtain q q' where q: "task_replay sha scope d xs = Inr q" "task_apply q r = Inr q'"
    using assms(1) by (rule task_replay_split)
  then have "p_status q = StReady" "unat (r_generation r) = unat (p_generation q) + 1"
    using assms(2) by (auto elim!: task_applyE simp: task_step result_simps)
  moreover have "needs_reconciliation q"
    using assms(3) task_replay_pins [OF q(1)] by (simp add: needs_reconciliation_def)
  ultimately show ?thesis using task_replay_authorized [OF q(1)] by blast
qed

theorem restart_requires_authorization_witness:
  "\<exists>g. list_ex (authorizes_restart g) (butlast ex_effect_history) \<and> unat (2 :: u32) = unat g + 1"
proof -
  have split: "ex_effect_history = butlast ex_effect_history @ ex_record 7 2 9 Restarted # []"
    by (simp add: ex_effect_history_def ex_prefix_def)
  have run: "task_replay ex_sha ex_scope (ex_definition ReconcileRequired)
      (butlast ex_effect_history @ ex_record 7 2 9 Restarted # []) = Inr ex_running"
    using ex_effect_replay by (simp only: split [symmetric])
  have "\<exists>g. list_ex (authorizes_restart g) (butlast ex_effect_history)
      \<and> unat (r_generation (ex_record 7 2 9 Restarted)) = unat g + 1"
    by (rule restart_requires_authorization [OF run]) (simp_all add: ex_record_def ex_definition_def)
  then show ?thesis by (simp add: ex_record_def)
qed

text \<open>
  Generation fencing: the generations started by an accepted history are exactly 1, 2, \<dots> up to
  the projection's generation, each started once and in order, and with \<open>NeverRestart\<close> there is at
  most one.
\<close>

theorem generations_start_once:
  assumes "task_replay sha scope d rs = Inr p"
  shows "starts rs = [1..<Suc (unat (p_generation p))]
    \<and> length (starts rs) \<le> unat (max_attempts (recovery d))
    \<and> (mode (recovery d) = NeverRestart \<longrightarrow> length (starts rs) \<le> 1)"
proof -
  note inv = task_replay_inv [OF assms] and pins = task_replay_pins [OF assms]
  show ?thesis
    using task_replay_starts [OF assms] inv pins
    by (auto simp: task_inv_def within_quotas_def phase_ok_def)
qed

theorem generations_start_once_witness: "starts ex_effect_history = [1, 2]"
proof -
  have "starts ex_effect_history = [1..<Suc (unat (p_generation ex_running))]"
    using generations_start_once [OF ex_effect_replay] by blast
  also have "\<dots> = [1, 2]" by (simp add: ex_running_def upt_rec)
  finally show ?thesis .
qed

text \<open>
  An accepted history is gap-free and ordered: its sequences are 0, 1, \<dots>, its ticks never go
  back, and every record belongs to the replayed scope.
\<close>

theorem history_is_ordered:
  assumes "task_replay sha scope d rs = Inr p"
  shows "map (\<lambda>r. unat (r_sequence r)) rs = [0..<length rs] \<and> sorted (map r_tick rs)
    \<and> list_all (\<lambda>r. r_scope r = scope \<and> r_tick r \<le> p_tick p) rs"
  using assms by (rule task_replay_order)

theorem history_is_ordered_witness: "sorted (map r_tick ex_pure_history)"
  using history_is_ordered [OF ex_pure_replay] by blast

text \<open>
  Terminal phases absorb: once a task is completed or exhausted, \<open>apply\<close> refuses every record
  and \<open>next\<close> proposes nothing.
\<close>

theorem terminal_absorbs:
  assumes "p_status p \<in> {StCompleted, StExhausted}"
  shows "(\<exists>e. task_apply p r = Inl e) \<and> (p_tick p \<le> t \<longrightarrow> task_next p t = Inr None)"
proof -
  have "task_apply p r \<noteq> Inr p'" for p' using terminal_refuses [OF assms] by blast
  then have "\<exists>e. task_apply p r = Inl e" by (cases "task_apply p r") auto
  moreover have "p_tick p \<le> t \<longrightarrow> task_next p t = Inr None"
    using assms by (auto simp: task_next_def next_event_def not_less)
  ultimately show ?thesis by blast
qed

theorem terminal_absorbs_witness: "\<exists>e. task_apply ex_completed (ex_record 7 3 13 Restarted) = Inl e"
  by (rule terminal_absorbs [THEN conjunct1]) (simp add: ex_completed_def)

text \<open>
  The supervisor's decision never proposes what the projection would refuse: on a projection of
  an accepted history and a tick that does not go back, \<open>next\<close> either waits, or returns a record
  that \<open>apply\<close> accepts, or reports the exhausted history quota, the last only when fewer than two
  slots are left and never for a running task.
\<close>

theorem next_is_sound:
  assumes "task_replay sha scope d rs = Inr p" "p_tick p \<le> t"
  shows "task_next p t = Inr None
    \<or> (\<exists>r p'. task_next p t = Inr (Some r) \<and> task_replay sha scope d (rs @ [r]) = Inr p')
    \<or> task_next p t = Inl QuotaExhausted \<and> p_status p \<noteq> StRunning
       \<and> unat (max_history_records (budget d)) \<le> length rs + 1"
proof (cases "next_event p t")
  case None
  then show ?thesis using assms(2) by (simp add: task_next_def not_less)
next
  case (Some ev)
  have inv: "task_inv sha p" using assms(1) by (rule task_replay_inv)
  show ?thesis
  proof (cases "has_room p ev")
    case True
    then show ?thesis
      using next_event_step [OF inv assms(2) Some] assms(1) by (fastforce simp: task_replay_snoc)
  next
    case False
    obtain g q where g: "expected_generation p ev = Inr g"
      and q: "apply_event p (proposed p ev g t) ev = Inr q"
      using next_generation [OF inv Some] next_event_applies [OF inv Some] by blast
    have full: "unat (max_history_records (budget d)) \<le> length rs + 1"
      using False task_replay_length [OF assms(1)] task_replay_pins [OF assms(1)]
      by (auto simp: has_room_def split: if_splits)
    have "p_status p = StRunning \<Longrightarrow> \<not> keeps_running ev"
      using Some by (auto simp: next_event_def split: if_splits)
    then have "p_status p \<noteq> StRunning" using running_has_room [OF inv] False by blast
    moreover have "propose p ev g t = Inl QuotaExhausted"
    proof (cases "propose p ev g t")
      case (Inl e)
      then show ?thesis using propose_quota [OF assms(2) g q] by simp
    next
      case (Inr r)
      then have "record_admissible p r = Inr ()" "r_event r = ev"
        by (auto simp: propose_Inr elim: task_applyE)
      then show ?thesis
        using False by (auto simp: has_room_def record_admissible_Inr split: if_splits)
    qed
    ultimately show ?thesis
      using full Some g assms(2) by (simp add: task_next_def not_less)
  qed
qed

theorem next_is_sound_witness:
  "\<exists>r p'. task_next ex_running 19 = Inr (Some r)
     \<and> task_replay ex_sha ex_scope (ex_definition ReconcileRequired) (ex_effect_history @ [r]) = Inr p'"
proof -
  have "task_next ex_running 19 \<noteq> Inr None"
    by (auto simp: task_next_def next_event_def ex_running_def bindR_eq_Inr)
  then show ?thesis
    using next_is_sound [OF ex_effect_replay, of 19] by (auto simp: ex_running_def)
qed

text \<open>
  Completion is timely and final: in an accepted history a completion reported by the runtime is
  recorded while its generation is running, strictly before the execution deadline, hence before the
  absolute deadline, its output respects the output quota, and no record follows it.
\<close>

theorem completion_is_timely_and_final:
  assumes "task_replay sha scope d (xs @ r # ys) = Inr p" "r_event r = EvCompleted out"
  shows "(\<exists>q. task_replay sha scope d xs = Inr q \<and> p_status q = StRunning
      \<and> r_generation r = p_generation q \<and> r_tick r < p_execution_deadline q)
    \<and> r_tick r < deadline_tick (budget d) \<and> blob_bytes out \<le> max_output_bytes (budget d)
    \<and> ys = [] \<and> p_output p = Some out"
proof -
  obtain q q' where q: "task_replay sha scope d xs = Inr q" "task_inv sha q"
    "task_apply q r = Inr q'" "replay_from task_apply q' ys = Inr p"
    using assms(1) by (rule task_replay_split)
  have step: "p_status q = StRunning" "r_tick r < p_execution_deadline q"
    "blob_bytes out \<le> max_output_bytes (budget d)" "p_status q' = StCompleted" "p_output q' = Some out"
    "r_generation r = p_generation q"
    using q(3) assms(2) task_replay_pins [OF q(1)]
    by (auto elim!: task_applyE simp: task_step result_simps word_unat_eq_iff)
  have "ys = []" using terminal_history_ends [OF _ q(4)] step(4) by simp
  moreover have "p_execution_deadline q \<le> deadline_tick (budget d)"
    using q(2) step(1) task_replay_pins [OF q(1)] by (simp add: task_inv_def phase_ok_def)
  ultimately show ?thesis using q step by auto
qed

theorem completion_is_timely_and_final_witness:
  "(12 :: u64) < deadline_tick (budget (ex_definition PureEffects))"
proof -
  have split: "ex_pure_history = butlast ex_pure_history @ ex_record 6 2 12 (EvCompleted (ex_blob 6 1)) # []"
    by (simp add: ex_pure_history_def ex_prefix_def)
  have run: "task_replay ex_sha ex_scope (ex_definition PureEffects)
      (butlast ex_pure_history @ ex_record 6 2 12 (EvCompleted (ex_blob 6 1)) # []) = Inr ex_completed"
    using ex_pure_replay by (simp only: split [symmetric])
  show ?thesis
    using completion_is_timely_and_final [OF run, of "ex_blob 6 1"] by (simp add: ex_record_def)
qed

text \<open>
  Recovery resumes from the last committed checkpoint: a recovery plan in an accepted history
  names no checkpoint when the mode restarts from the beginning, and otherwise exactly the checkpoint
  of the last checkpoint record before it, if there is one.
\<close>

theorem recovery_resumes_last_checkpoint:
  assumes "task_replay sha scope d (xs @ r # ys) = Inr p" "r_event r = RecoveryPlanned resume"
  shows "resume = (if mode (recovery d) = RestartFromBeginning \<or> committed_checkpoints xs = []
    then None else Some (last (committed_checkpoints xs)))"
proof -
  obtain q q' where q: "task_replay sha scope d xs = Inr q" "task_apply q r = Inr q'"
    using assms(1) by (rule task_replay_split)
  then have "resume = (if mode (recovery d) = RestartFromBeginning then None else p_checkpoint q)"
    using assms(2) task_replay_pins [OF q(1)] by (auto elim!: task_applyE simp: task_step)
  then show ?thesis using task_replay_checkpoint [OF q(1)] by auto
qed

theorem recovery_resumes_last_checkpoint_witness:
  "Some (ex_blob 5 3) = Some (last (committed_checkpoints (ex_prefix PureEffects)))"
proof -
  let ?r = "ex_record 4 1 4 (RecoveryPlanned (Some (ex_blob 5 3)))"
  let ?ys = "[ex_record 5 2 9 Restarted, ex_record 6 2 12 (EvCompleted (ex_blob 6 1))]"
  have run: "task_replay ex_sha ex_scope (ex_definition PureEffects)
      (ex_prefix PureEffects @ ?r # ?ys) = Inr ex_completed"
    using ex_pure_replay by (simp add: ex_pure_history_def)
  have "committed_checkpoints (ex_prefix PureEffects) \<noteq> []"
    by (simp add: committed_checkpoints_def ex_prefix_def ex_record_def)
  then show ?thesis
    using recovery_resumes_last_checkpoint [OF run, of "Some (ex_blob 5 3)"]
    by (simp add: ex_record_def ex_definition_def)
qed

text \<open>
  The absolute deadline ends every execution that needs no external evidence: once it has passed,
  and with two slots left in the history, applying the decisions of \<open>next\<close> at most twice brings a
  submitted, unfinished task to the exhausted phase, or to waiting for reconciliation evidence
  when its contract requires it.
\<close>

theorem deadline_ends_execution:
  assumes "task_inv sha p" "p_tick p \<le> t" "deadline_tick (budget (p_definition p)) \<le> t"
    and "unat (p_next_sequence p) + 2 \<le> unat (max_history_records (budget (p_definition p)))"
    and "p_status p \<notin> {StEmpty, StCompleted, StExhausted}"
  shows "\<exists>p'. supervise 2 p t = Inr p' \<and> p_status p' \<in> {StExhausted, StReconciling}
    \<and> (needs_reconciliation p \<or> p_status p' = StExhausted)"
proof (cases "p_status p = StRunning")
  case True
  have "p_execution_deadline p \<le> t"
    using assms(1,3) True by (auto simp: task_inv_def phase_ok_def)
  then have "next_event p t = Some (FaultObserved Timeout)"
    using True by (simp add: next_event_def)
  moreover have "has_room p (FaultObserved Timeout)" using assms(4) by (simp add: has_room_def)
  ultimately obtain q y g where q: "\<forall>n. supervise (Suc n) p t = supervise n q t" "task_inv sha q"
    "p_tick q = t" "p_definition q = p_definition p"
    "unat (p_next_sequence q) = unat (p_next_sequence p) + 1"
    "apply_event p (proposed p (FaultObserved Timeout) g t) (FaultObserved Timeout) = Inr y"
    "p_status q = p_status y"
    using supervise_step [OF assms(1,2)] by blast
  have "p_status q = StFaulted" using q(6,7) by (simp add: task_step)
  then obtain p' where "supervise (Suc 0) q t = Inr p'"
    "p_status p' = (if needs_reconciliation q then StReconciling else StExhausted)"
    using deadline_decides [OF q(2), of t 0] q(3,4,5) assms(3,4) by auto
  moreover have "supervise 2 p t = supervise (Suc 0) q t"
    using q(1) by (simp only: numeral_2_eq_2)
  ultimately show ?thesis using q(4) needs_reconciliation_cong [of q p] by auto
next
  case False
  show ?thesis
  proof (cases "p_status p = StReconciling")
    case True
    then have "supervise 2 p t = Inr p"
      using assms(2) by (intro supervise_waits) (simp_all add: next_event_def)
    then show ?thesis using True assms(1) by (simp add: task_inv_def phase_ok_def)
  next
    case False
    then have "p_status p \<in> {StPending, StReady, StFaulted, StReconciled}"
      using assms(5) \<open>p_status p \<noteq> StRunning\<close> by (cases "p_status p") auto
    then show ?thesis
      using deadline_decides [OF assms(1-3), of 1] assms(4) by (auto simp: numeral_2_eq_2)
  qed
qed

theorem deadline_ends_execution_witness:
  "\<exists>p'. supervise 2 ex_running 100 = Inr p' \<and> p_status p' \<in> {StExhausted, StReconciling}"
proof -
  have "task_inv ex_sha ex_running" using ex_effect_replay by (rule task_replay_inv)
  then have "\<exists>p'. supervise 2 ex_running 100 = Inr p' \<and> p_status p' \<in> {StExhausted, StReconciling}
      \<and> (needs_reconciliation ex_running \<or> p_status p' = StExhausted)"
    by (rule deadline_ends_execution) (simp_all add: ex_running_def ex_definition_def)
  then show ?thesis by blast
qed

end
