(* ===== verification/Task_Control_Properties.thy ===== *)
theory Task_Control_Properties
  imports Task_Control Task_Properties "HOL-Library.Sublist"
begin

text \<open>
  What the supervisor guarantees about its ports, over every session: a successful
  reconstruction followed by any sequence of public operations, against any journal and any
  runtime. The obligations of the port traits are a monitor over the trace of calls; the
  projection is tied to the records the journal acknowledged; an operation is analysed with a
  weakest precondition computed by \<open>simp\<close>.
\<close>

section \<open>Weakest preconditions\<close>

named_theorems wp \<open>weakest preconditions of supervisor computations\<close>

definition wp :: "'a ctl \<Rightarrow> (supervisor_error + 'a \<Rightarrow> task_control \<Rightarrow> bool) \<Rightarrow> task_control \<Rightarrow> bool" where
  "wp c Q s = (case c s of (r, s') \<Rightarrow> Q r s')"

lemma wp_bind [wp]:
  "wp (bind c f) Q s =
     wp c (\<lambda>r s'. case r of Inl e \<Rightarrow> Q (Inl e) s' | Inr x \<Rightarrow> wp (f x) Q s') s"
  by (auto simp: wp_def bind_def split: prod.splits sum.splits)

lemma wp_basic [wp]:
  "wp (ret x) Q s = Q (Inr x) s"
  "wp (throw e) Q s = Q (Inl e) s"
  "wp projection R s = R (Inr (c_projection s)) s"
  "wp poison S s = S (Inr ()) (s\<lparr>c_poisoned := True\<rparr>)"
  "wp (decision d) T s = T (map_err Decision d) s"
  "wp (port p) U s = U (map_err Port p) s"
  by (simp_all add: wp_def ret_def throw_def projection_def poison_def decision_def port_def)

lemma wp_ensure_healthy [wp]:
  "wp ensure_healthy Q s =
     (if c_poisoned s then Q (Inl ReconstructionRequired) s else Q (Inr ()) s)"
  by (simp add: wp_def ensure_healthy_def)

lemma wp_calls [wp]:
  "wp (call_commit P r blob) Q1 s = (let a = journal_commit P (c_trace s) r blob in
     Q1 (Inr a) (log_call (CCommit r blob a) s))"
  "wp (call_start P req) Q2 s = (let a = runtime_start P (c_trace s) req in
     Q2 (Inr a) (log_call (CStart req a) s))"
  "wp (call_acknowledge P scope g cp) Q3 s = (let a = runtime_acknowledge P (c_trace s) scope g cp in
     Q3 (Inr a) (log_call (CAcknowledge scope g cp a) s))"
  "wp (call_fence P scope g) Q4 s = (let a = runtime_fence P (c_trace s) scope g in
     Q4 (Inr a) (log_call (CFence scope g a) s))"
  "wp (call_read_blob P scope b buffer) Q5 s = (case journal_read_blob P (c_trace s) scope b buffer of
     (a, contents) \<Rightarrow> Q5 (Inr (a, refill buffer contents))
       (log_call (CReadBlob scope b (length buffer) a) s))"
  "wp (call_poll P scope g buffer) Q6 s = (case runtime_poll P (c_trace s) scope g buffer of
     (a, contents) \<Rightarrow> Q6 (Inr (a, refill buffer contents))
       (log_call (CPoll scope g (length buffer) a) s))"
  by (simp_all add: wp_def call_commit_def call_start_def call_acknowledge_def call_fence_def
      call_read_blob_def call_poll_def Let_def split: prod.splits)

lemma wp_mono: "wp c Q s \<Longrightarrow> (\<And>r s'. Q r s' \<Longrightarrow> R r s') \<Longrightarrow> wp c R s"
  by (auto simp: wp_def split: prod.splits)

lemma log_call_simps [simp]:
  "c_trace (log_call c s) = c_trace s @ [c]" "c_projection (log_call c s) = c_projection s"
  "c_poisoned (log_call c s) = c_poisoned s"
  by (simp_all add: log_call_def)

section \<open>The monitor of the port calls\<close>

text \<open>
  \<open>Fenced\<close>: the runtime has just confirmed that the generation cannot execute. \<open>Recorded\<close>: the
  journal has just acknowledged the record. Reading a blob keeps the phase, any other call
  leaves it.
\<close>

datatype port_phase = Idle | Fenced task_scope task_generation | Recorded task_record

fun ends_execution :: "task_execution_event \<Rightarrow> bool" where
  "ends_execution (FaultObserved _) = True"
| "ends_execution (EvCompleted _) = True"
| "ends_execution _ = False"

fun phase_step :: "port_phase \<Rightarrow> port_call \<Rightarrow> port_phase" where
  "phase_step ph (CReadBlob _ _ _ _) = ph"
| "phase_step ph (CFence scope g (Inr _)) = Fenced scope g"
| "phase_step ph (CCommit r _ (Inr receipt)) = (if receipt = r then Recorded r else Idle)"
| "phase_step ph _ = Idle"

fun allowed :: "port_phase \<Rightarrow> port_call \<Rightarrow> bool" where
  "allowed ph (CCommit r _ _) \<longleftrightarrow>
     (ends_execution (r_event r) \<longrightarrow> ph = Fenced (r_scope r) (r_generation r))"
| "allowed ph (CStart req _) \<longleftrightarrow>
     (\<exists>r. ph = Recorded r \<and> is_start (r_event r)
        \<and> r_scope r = start_scope req \<and> r_generation r = start_generation req)"
| "allowed ph (CAcknowledge scope g cp _) \<longleftrightarrow>
     (\<exists>r. ph = Recorded r \<and> r_event r = CheckpointCommitted cp
        \<and> r_scope r = scope \<and> r_generation r = g)"
| "allowed ph _ \<longleftrightarrow> True"

fun conforms :: "port_phase \<Rightarrow> trace \<Rightarrow> bool" where
  "conforms ph [] \<longleftrightarrow> True"
| "conforms ph (c # cs) \<longleftrightarrow> allowed ph c \<and> conforms (phase_step ph c) cs"

definition phase_after :: "trace \<Rightarrow> port_phase" where
  "phase_after tr = foldl phase_step Idle tr"

lemma conforms_snoc: "conforms ph (cs @ [c]) \<longleftrightarrow> conforms ph cs \<and> allowed (foldl phase_step ph cs) c"
  by (induction cs arbitrary: ph) auto

lemma conforms_Idle_snoc [simp]:
  "conforms Idle (cs @ [c]) \<longleftrightarrow> conforms Idle cs \<and> allowed (phase_after cs) c"
  by (simp add: conforms_snoc phase_after_def)

lemma phase_after_snoc [simp]: "phase_after (cs @ [c]) = phase_step (phase_after cs) c"
  by (simp add: phase_after_def)

text \<open>The records the journal vouched for: read back, or committed with an exact receipt.\<close>

fun acked_call :: "port_call \<Rightarrow> task_record list" where
  "acked_call (CRead _ _ (Inr (Some r))) = [r]"
| "acked_call (CCommit r _ (Inr receipt)) = (if receipt = r then [r] else [])"
| "acked_call _ = []"

definition acked :: "trace \<Rightarrow> task_record list" where
  "acked tr = concat (map acked_call tr)"

lemma acked_append [simp]: "acked (tr @ tr') = acked tr @ acked tr'"
  by (simp add: acked_def)

lemma acked_Cons: "acked (c # tr) = acked_call c @ acked tr"
  by (simp add: acked_def)

lemma acked_one [simp]: "acked [c] = acked_call c"
  by (simp add: acked_def)

lemma acked_Nil [simp]: "acked [] = []"
  by (simp add: acked_def)

text \<open>A call whose outcome is known to the supervisor.\<close>

fun clean_call :: "port_call \<Rightarrow> bool" where
  "clean_call (CRead _ _ a) = (\<not> isl a)"
| "clean_call (CCommit r _ a) = (a = Inr r)"
| "clean_call (CReadBlob _ _ _ a) = (\<not> isl a)"
| "clean_call (CStart _ a) = (\<not> isl a)"
| "clean_call (CPoll _ _ _ a) = (\<not> isl a)"
| "clean_call (CAcknowledge _ _ _ a) = (\<not> isl a)"
| "clean_call (CFence _ _ a) = (\<not> isl a)"

text \<open>What a start request may hand to the runtime, given the trace before it.\<close>

definition last_checkpoint :: "task_record list \<Rightarrow> blob_ref option" where
  "last_checkpoint rs =
     (if committed_checkpoints rs = [] then None else Some (last (committed_checkpoints rs)))"

definition start_ok :: "sha \<Rightarrow> task_scope \<Rightarrow> task_definition \<Rightarrow> trace \<Rightarrow> task_start \<Rightarrow> bool" where
  "start_ok sha scope d tr req \<longleftrightarrow>
     start_scope req = scope \<and> start_definition req = d
     \<and> sha (start_input req) = scope_input scope
     \<and> length (start_input req) \<le> unat (max_input_bytes (budget d))
     \<and> start_execution_deadline req \<le> deadline_tick (budget d)
     \<and> (mode (recovery d) \<noteq> RestartFromBeginning \<longrightarrow>
          map_option sha (start_checkpoint req) = map_option blob_digest (last_checkpoint (acked tr)))"

fun call_ok :: "sha \<Rightarrow> task_scope \<Rightarrow> task_definition \<Rightarrow> trace \<Rightarrow> port_call \<Rightarrow> bool" where
  "call_ok sha scope d tr (CStart req _) = start_ok sha scope d tr req"
| "call_ok sha scope d tr _ = True"

fun starts_ok :: "sha \<Rightarrow> task_scope \<Rightarrow> task_definition \<Rightarrow> trace \<Rightarrow> trace \<Rightarrow> bool" where
  "starts_ok sha scope d pre [] = True"
| "starts_ok sha scope d pre (c # cs) =
     (call_ok sha scope d pre c \<and> starts_ok sha scope d (pre @ [c]) cs)"

lemma starts_ok_snoc [simp]:
  "starts_ok sha scope d pre (cs @ [c]) \<longleftrightarrow>
     starts_ok sha scope d pre cs \<and> call_ok sha scope d (pre @ cs) c"
  by (induction cs arbitrary: pre) auto

section \<open>The session invariant\<close>

definition session_inv :: "sha \<Rightarrow> task_scope \<Rightarrow> task_definition \<Rightarrow> task_control \<Rightarrow> bool" where
  "session_inv sha scope d s \<longleftrightarrow>
     task_replay sha scope d (acked (c_trace s)) = Inr (c_projection s)
     \<and> conforms Idle (c_trace s)
     \<and> starts_ok sha scope d [] (c_trace s)
     \<and> (c_poisoned s \<or> list_all clean_call (c_trace s))"

lemma wp_ctl_commit:
  assumes "\<not> c_poisoned s" "task_apply (c_projection s) r = Inr p'"
  shows "wp (ctl_commit P r blob) Q s =
    (let a = journal_commit P (c_trace s) r blob; s1 = log_call (CCommit r blob a) s in
     case a of
       Inl e \<Rightarrow> Q (Inl (Port e)) (s1\<lparr>c_poisoned := True\<rparr>)
     | Inr receipt \<Rightarrow> if receipt = r then Q (Inr ()) (s1\<lparr>c_projection := p'\<rparr>)
         else Q (Inl (Port Corrupt)) (s1\<lparr>c_poisoned := True\<rparr>))"
  using assms by (auto simp: ctl_commit_def wp Let_def split: sum.splits)
    (simp_all add: wp_def)

lemma wp_ctl_fence [wp]:
  "wp (ctl_fence P scope g) Q s =
    (let a = runtime_fence P (c_trace s) scope g; s1 = log_call (CFence scope g a) s in
     case a of Inl e \<Rightarrow> Q (Inl (Port e)) (s1\<lparr>c_poisoned := True\<rparr>) | Inr _ \<Rightarrow> Q (Inr ()) s1)"
  by (auto simp: ctl_fence_def wp Let_def split: sum.splits)

lemma commit_inv:
  assumes "session_inv sha scope d s" "\<not> c_poisoned s" "task_apply (c_projection s) r = Inr p'"
    and "ends_execution (r_event r) \<longrightarrow>
      phase_after (c_trace s) = Fenced (r_scope r) (r_generation r)"
  shows "wp (ctl_commit P r blob) (\<lambda>a s'. session_inv sha scope d s'
    \<and> (a = Inr () \<longrightarrow> c_projection s' = p' \<and> \<not> c_poisoned s'
         \<and> phase_after (c_trace s') = Recorded r)) s"
  using assms by (auto simp: wp_ctl_commit Let_def session_inv_def task_replay_snoc split: sum.splits)

lemma fence_inv:
  assumes "session_inv sha scope d s" "\<not> c_poisoned s"
  shows "wp (ctl_fence P sc g) (\<lambda>a s'. session_inv sha scope d s' \<and> c_projection s' = c_projection s
    \<and> (a = Inr () \<longrightarrow> \<not> c_poisoned s' \<and> phase_after (c_trace s') = Fenced sc g)) s"
  using assms by (auto simp: wp Let_def session_inv_def split: sum.splits)

lemma session_inv_poison:
  "session_inv sha scope d s \<Longrightarrow> session_inv sha scope d (s\<lparr>c_poisoned := True\<rparr>)"
  by (simp add: session_inv_def)

lemma wp_poisoning:
  "wp (\<lambda>s. case c s of (Inl e, s') \<Rightarrow> (Inl (f e), s'\<lparr>c_poisoned := True\<rparr>) | (Inr x, s') \<Rightarrow> g x s') Q s =
     wp c (\<lambda>a s'. case a of Inl e \<Rightarrow> Q (Inl (f e)) (s'\<lparr>c_poisoned := True\<rparr>)
       | Inr x \<Rightarrow> wp (g x) Q s') s"
  by (auto simp: wp_def split: prod.splits sum.splits)

lemma reject_inv:
  assumes "session_inv sha scope d s" "\<not> c_poisoned s"
  shows "wp (reject_live_proposal P e) (\<lambda>a s'. session_inv sha scope d s'
    \<and> c_projection s' = c_projection s) s"
  using assms
  by (auto simp: reject_live_proposal_def wp wp_def ctl_fence_def bind_def projection_def throw_def
      call_fence_def poison_def ret_def session_inv_def Let_def split: sum.splits prod.splits)

text \<open>A proposed record applies; what \<open>next\<close> proposes belongs to the projection.\<close>

lemma task_next_Some:
  "task_next p t = Inr (Some r) \<Longrightarrow>
     \<exists>ev g. next_event p t = Some ev \<and> r = proposed p ev g t \<and> (\<exists>p'. task_apply p r = Inr p')"
  by (auto simp: task_next_def bindR_eq_Inr propose_Inr split: if_splits option.splits)

lemma start_applied:
  assumes "task_apply p r = Inr p'" "is_start (r_event r)"
  shows "p_generation p' = r_generation r" "p_status p' = StRunning"
  using assms by (cases "r_event r"; auto elim!: task_applyE simp: task_step)+

text \<open>What a dispatch may rely on: the acknowledged start record of the running generation.\<close>

definition dispatchable :: "task_control \<Rightarrow> bool" where
  "dispatchable s \<longleftrightarrow> \<not> c_poisoned s \<and> p_status (c_projection s) = StRunning
     \<and> (\<exists>r. phase_after (c_trace s) = Recorded r \<and> is_start (r_event r)
          \<and> r_scope r = p_scope (c_projection s) \<and> r_generation r = p_generation (c_projection s))"

lemma dispatch_start_ok:
  assumes inv: "session_inv sha scope d s" and run: "p_status (c_projection s) = StRunning"
    and inp: "p_input (c_projection s) = Some ref" "blob_verify sha ref bytes (blob_schema ref) = Inr ()"
    and cp: "rel_option (\<lambda>b c. sha b = blob_digest c) resume (p_checkpoint (c_projection s))"
    and tr: "acked tr = acked (c_trace s)"
  shows "start_ok sha scope d tr
    \<lparr> start_scope = p_scope (c_projection s), start_generation = p_generation (c_projection s),
      start_definition = p_definition (c_projection s),
      start_execution_deadline = p_execution_deadline (c_projection s),
      start_input_schema = blob_schema ref, start_input = bytes, start_checkpoint = resume \<rparr>"
proof -
  have rep: "task_replay sha scope d (acked (c_trace s)) = Inr (c_projection s)"
    using inv by (simp add: session_inv_def)
  note pins = task_replay_pins [OF rep] and ti = task_replay_inv [OF rep]
  have "map_option sha resume = map_option blob_digest (p_checkpoint (c_projection s))"
    using cp by (cases resume; cases "p_checkpoint (c_projection s)") auto
  moreover have "p_execution_deadline (c_projection s) \<le> deadline_tick (budget d)"
    using ti run pins by (simp add: task_inv_def phase_ok_def)
  ultimately show ?thesis
    using pins ti inp task_replay_checkpoint [OF rep]
    by (auto simp: start_ok_def tr last_checkpoint_def task_inv_def blobs_ok_def blob_verify_Inr
        word_le_nat_alt)
qed


lemma wp_bindI:
  assumes "wp c R s" "\<And>e s'. R (Inl e) s' \<Longrightarrow> Q (Inl e) s'"
    and "\<And>x s'. R (Inr x) s' \<Longrightarrow> wp (f x) Q s'"
  shows "wp (bind c f) Q s"
  using assms by (auto simp: wp_bind intro: wp_mono split: sum.splits)

lemma start_inv:
  assumes "session_inv sha scope d s" "dispatchable s"
    and "start_ok sha scope d (c_trace s) req"
    and "start_scope req = p_scope (c_projection s)"
    and "start_generation req = p_generation (c_projection s)"
  shows "wp (bind (call_start P req) port)
    (\<lambda>a s'. session_inv sha scope d (s'\<lparr>c_poisoned := isl a\<rparr>)) s"
  using assms by (auto simp: wp Let_def session_inv_def dispatchable_def map_err_def split: sum.splits)

lemma read_verified_inv:
  assumes "session_inv sha scope d s" "dispatchable s"
  shows "wp (read_verified P sha sc ref schema buffer) (\<lambda>a s'.
    session_inv sha scope d (s'\<lparr>c_poisoned := isl a\<rparr>) \<and> dispatchable s'
    \<and> c_projection s' = c_projection s \<and> acked (c_trace s') = acked (c_trace s)
    \<and> (\<forall>bytes. a = Inr bytes \<longrightarrow> blob_verify sha ref bytes schema = Inr ())) s"
  using assms
  by (auto simp: read_verified_def wp Let_def session_inv_def dispatchable_def map_err_def
      ok_or_def split: sum.splits prod.splits option.splits)

lemma session_inv_healthy [simp]:
  "dispatchable s \<Longrightarrow> session_inv sha scope d (s\<lparr>c_poisoned := False\<rparr>) \<longleftrightarrow> session_inv sha scope d s"
  by (auto simp: dispatchable_def session_inv_def)

lemma wp_bind_projection [simp]: "wp (bind projection f) Q s = wp (f (c_projection s)) Q s"
  by (simp add: wp)

lemma wp_bind_decision_Inr [simp]: "wp (bind (decision (Inr x)) f) Q s = wp (f x) Q s"
  by (simp add: wp)

lemma dispatch_inv:
  assumes inv: "session_inv sha scope d s" and dis: "dispatchable s"
  shows "wp (ctl_dispatch P sha ib cb) (\<lambda>a s'. session_inv sha scope d (s'\<lparr>c_poisoned := isl a\<rparr>)) s"
proof (cases "p_input (c_projection s)")
  case None
  then show ?thesis using session_inv_poison [OF inv] by (simp add: ctl_dispatch_def wp)
next
  case (Some ref)
  let ?p = "c_projection s"
  let ?Q = "\<lambda>a s'. session_inv sha scope d (s'\<lparr>c_poisoned := isl a\<rparr>)"
  have run: "p_status ?p = StRunning" using dis by (simp add: dispatchable_def)
  have start: "wp (bind (call_start P \<lparr> start_scope = p_scope ?p, start_generation = p_generation ?p,
        start_definition = p_definition ?p, start_execution_deadline = p_execution_deadline ?p,
        start_input_schema = blob_schema ref, start_input = bytes, start_checkpoint = resume \<rparr>) port) ?Q s'"
    if "session_inv sha scope d s'" "dispatchable s'" "c_projection s' = ?p"
      "acked (c_trace s') = acked (c_trace s)" "blob_verify sha ref bytes (blob_schema ref) = Inr ()"
      "rel_option (\<lambda>b c. sha b = blob_digest c) resume (p_checkpoint ?p)" for bytes resume s'
    using dispatch_start_ok [OF inv run Some that(5,6), of "c_trace s'"] that(3,4)
    by (intro start_inv that(1,2)) simp_all
  let ?R = "\<lambda>a s'. session_inv sha scope d (s'\<lparr>c_poisoned := isl a\<rparr>) \<and> dispatchable s'
    \<and> c_projection s' = ?p \<and> acked (c_trace s') = acked (c_trace s)
    \<and> (\<forall>resume. a = Inr resume \<longrightarrow> rel_option (\<lambda>b c. sha b = blob_digest c) resume (p_checkpoint ?p))"
  have resume: "wp (case p_checkpoint ?p of None \<Rightarrow> ret None
        | Some reference \<Rightarrow> bind (read_verified P sha (p_scope ?p) reference
            (checkpoint_schema (p_definition ?p)) cb) (\<lambda>bytes. ret (Some bytes))) ?R s'"
    if s': "session_inv sha scope d s'" "dispatchable s'" "c_projection s' = ?p"
      "acked (c_trace s') = acked (c_trace s)" for s'
  proof (cases "p_checkpoint ?p")
    case None
    then show ?thesis using s' by (simp add: wp)
  next
    case (Some reference)
    show ?thesis
      unfolding Some option.case
      by (rule wp_bindI [OF read_verified_inv [OF s'(1,2)]])
        (auto simp: wp Some s'(3,4) blob_verify_Inr)
  qed
  have "wp (bind (read_verified P sha (p_scope ?p) ref (blob_schema ref) ib) (\<lambda>input_bytes.
      bind (case p_checkpoint ?p of None \<Rightarrow> ret None
        | Some reference \<Rightarrow> bind (read_verified P sha (p_scope ?p) reference
            (checkpoint_schema (p_definition ?p)) cb) (\<lambda>bytes. ret (Some bytes))) (\<lambda>resume.
      bind (call_start P \<lparr> start_scope = p_scope ?p, start_generation = p_generation ?p,
        start_definition = p_definition ?p, start_execution_deadline = p_execution_deadline ?p,
        start_input_schema = blob_schema ref, start_input = input_bytes, start_checkpoint = resume \<rparr>)
        port))) ?Q s"
    by (rule wp_bindI [OF read_verified_inv [OF inv dis]], simp,
        rule wp_bindI [OF resume]) (auto intro: start)
  then show ?thesis by (simp add: ctl_dispatch_def Some)
qed

section \<open>Every operation keeps the invariant\<close>

lemma wp_guards [simp]:
  "wp (bind (decision r) f) Q s =
     (case r of Inl e \<Rightarrow> Q (Inl (Decision e)) s | Inr x \<Rightarrow> wp (f x) Q s)"
  "wp (bind ensure_healthy g) Q s =
     (if c_poisoned s then Q (Inl ReconstructionRequired) s else wp (g ()) Q s)"
  "wp (bind (ret x) h) Q s = wp (h x) Q s"
  by (auto simp: wp split: sum.splits)

lemma bind_assoc [simp]: "bind (bind c k) l = bind c (\<lambda>x. bind (k x) l)"
  by (rule ext) (auto simp: bind_def split: sum.splits prod.splits)

lemma reject_keeps:
  "session_inv sha scope d s \<Longrightarrow> \<not> c_poisoned s \<Longrightarrow>
     wp (reject_live_proposal P e) (\<lambda>_. session_inv sha scope d) s"
  by (rule wp_mono [OF reject_inv]) auto

lemma session_inv_unpoison:
  "session_inv sha scope d (s\<lparr>c_poisoned := False\<rparr>) \<Longrightarrow> session_inv sha scope d s"
  by (auto simp: session_inv_def)

lemma advance_inv:
  assumes inv: "session_inv sha scope d s"
  shows "wp (ctl_advance_inner P sha t ws cap) (\<lambda>_. session_inv sha scope d) s"
proof -
  have start: "wp (bind (ctl_commit P r None) (\<lambda>_ s. case ctl_dispatch P sha ib cb s of
        (Inl e, s') \<Rightarrow> (Inl e, s'\<lparr>c_poisoned := True\<rparr>) | (Inr _, s') \<Rightarrow> (Inr True, s')))
      (\<lambda>_. session_inv sha scope d) s"
    if r: "\<not> c_poisoned s" "task_next (c_projection s) t = Inr (Some r)" "is_start (r_event r)" for r ib cb
  proof -
    obtain p' where p': "task_apply (c_projection s) r = Inr p'" "r_scope r = p_scope (c_projection s)"
      using task_next_Some [OF r(2)] by auto
    note frame = task_apply_frame [OF p'(1)] and started = start_applied [OF p'(1) r(3)]
    have "\<not> ends_execution (r_event r)" using r(3) by (cases "r_event r") auto
    then have commit: "wp (ctl_commit P r None) (\<lambda>a s'. session_inv sha scope d s'
        \<and> (a = Inr () \<longrightarrow> dispatchable s')) s"
      using r(3) p'(2) frame started
      by (intro wp_mono [OF commit_inv [OF inv r(1) p'(1)]]) (auto simp: dispatchable_def)
    show ?thesis
    proof (rule wp_bindI [OF commit], simp)
      fix x :: unit and s'
      assume "session_inv sha scope d s' \<and> (Inr x = Inr () \<longrightarrow> dispatchable s')"
      then have "wp (ctl_dispatch P sha ib cb)
          (\<lambda>a s''. session_inv sha scope d (s''\<lparr>c_poisoned := isl a\<rparr>)) s'"
        by (intro dispatch_inv) simp_all
      then show "wp (\<lambda>s. case ctl_dispatch P sha ib cb s of
          (Inl e, s') \<Rightarrow> (Inl e, s'\<lparr>c_poisoned := True\<rparr>) | (Inr _, s') \<Rightarrow> (Inr True, s'))
          (\<lambda>_. session_inv sha scope d) s'"
        using session_inv_unpoison by (auto simp: wp_def split: prod.splits sum.splits)
    qed
  qed
  have other: "wp (bind (case r_event r of FaultObserved _ \<Rightarrow> ctl_fence P (r_scope r) (r_generation r)
        | _ \<Rightarrow> ret ()) (\<lambda>_. bind (ctl_commit P r None) (\<lambda>_. ret True))) (\<lambda>_. session_inv sha scope d) s"
    if r: "\<not> c_poisoned s" "task_next (c_projection s) t = Inr (Some r)" for r
  proof -
    obtain p' ev g where p': "task_apply (c_projection s) r = Inr p'" "r = proposed (c_projection s) ev g t"
      "next_event (c_projection s) t = Some ev"
      using task_next_Some [OF r(2)] by auto
    have "ends_execution (r_event r) \<longrightarrow> (\<exists>f. r_event r = FaultObserved f)"
      using p'(2,3) by (auto simp: next_event_def split: task_status.splits if_splits)
    then have "wp (case r_event r of FaultObserved _ \<Rightarrow> ctl_fence P (r_scope r) (r_generation r)
        | _ \<Rightarrow> ret ()) (\<lambda>a s'. session_inv sha scope d s' \<and> c_projection s' = c_projection s
          \<and> (a = Inr () \<longrightarrow> \<not> c_poisoned s' \<and> (ends_execution (r_event r) \<longrightarrow>
               phase_after (c_trace s') = Fenced (r_scope r) (r_generation r)))) s"
      using inv r(1)
      by (cases "r_event r") (auto simp: wp_basic intro: wp_mono [OF fence_inv [OF inv r(1)]])
    then show ?thesis
      by (rule wp_bindI) (auto intro!: wp_bindI [OF commit_inv] simp: wp_basic p'(1))
  qed
  show ?thesis
    using inv
    by (auto simp: ctl_advance_inner_def wp_basic split: sum.splits option.splits prod.splits
        intro: start other)
qed

lemma observe_late_inv:
  assumes inv: "session_inv sha scope d s" and ok: "\<not> c_poisoned s"
  shows "wp (observe_late P t) (\<lambda>_. session_inv sha scope d) s"
proof -
  have "wp (bind (ctl_fence P (r_scope r) (r_generation r)) (\<lambda>_.
      bind (ctl_commit P r None) (\<lambda>_. throw (Decision DeadlineExpired)))) (\<lambda>_. session_inv sha scope d) s"
    if r: "task_next (c_projection s) t = Inr (Some r)" for r
  proof -
    obtain p' where "task_apply (c_projection s) r = Inr p'" using task_next_Some [OF r] by blast
    then show ?thesis
      by (intro wp_bindI [OF fence_inv [OF inv ok]] wp_bindI [OF commit_inv]) (auto simp: wp_basic)
  qed
  then show ?thesis
    using inv by (auto simp: observe_late_def bindR_eq_Inr ok_or_eq_Inr split: sum.splits)
qed

lemma admit_proposal_inv:
  assumes inv: "session_inv sha scope d s" and ok: "\<not> c_poisoned s"
    and obs: "obs_scope obs = p_scope (c_projection s)"
  shows "wp (admit_proposal P obs ev blob t) (\<lambda>_. session_inv sha scope d) s"
proof (cases "propose (c_projection s) ev (obs_generation obs) t")
  case (Inl e)
  then show ?thesis
    using reject_keeps [OF inv ok] by (simp add: admit_proposal_def)
next
  case (Inr r)
  then obtain p' where r: "r = proposed (c_projection s) ev (obs_generation obs) t"
    and p': "task_apply (c_projection s) r = Inr p'"
    by (auto simp: propose_Inr)
  let ?R = "\<lambda>a s'. session_inv sha scope d s' \<and> c_projection s' = c_projection s
    \<and> (a = Inr () \<longrightarrow> \<not> c_poisoned s' \<and> (ends_execution (r_event r) \<longrightarrow>
         phase_after (c_trace s') = Fenced (r_scope r) (r_generation r)))"
  have fence: "wp (case ev of FaultObserved _ \<Rightarrow> ctl_fence P (obs_scope obs) (obs_generation obs)
      | EvCompleted _ \<Rightarrow> ctl_fence P (obs_scope obs) (obs_generation obs) | _ \<Rightarrow> ret ()) ?R s"
    using inv ok obs
    by (cases ev) (auto simp: wp_basic r intro: wp_mono [OF fence_inv [OF inv ok]])
  have ack: "wp (case ev of CheckpointCommitted cp \<Rightarrow>
        bind (call_acknowledge P (obs_scope obs) (obs_generation obs) cp) (\<lambda>answer. case answer of
          Inl e \<Rightarrow> bind poison (\<lambda>_. throw (Port e)) | Inr _ \<Rightarrow> ret True)
      | _ \<Rightarrow> ret True) (\<lambda>_. session_inv sha scope d) s'"
    if "session_inv sha scope d s'" "\<not> c_poisoned s'" "phase_after (c_trace s') = Recorded r" for s'
    using that obs
    by (cases ev) (auto simp: wp Let_def session_inv_def r split: sum.splits)
  have "wp (bind (case ev of FaultObserved _ \<Rightarrow> ctl_fence P (obs_scope obs) (obs_generation obs)
      | EvCompleted _ \<Rightarrow> ctl_fence P (obs_scope obs) (obs_generation obs) | _ \<Rightarrow> ret ()) (\<lambda>_.
      bind (ctl_commit P r blob) (\<lambda>_. case ev of CheckpointCommitted cp \<Rightarrow>
        bind (call_acknowledge P (obs_scope obs) (obs_generation obs) cp) (\<lambda>answer. case answer of
          Inl e \<Rightarrow> bind poison (\<lambda>_. throw (Port e)) | Inr _ \<Rightarrow> ret True)
      | _ \<Rightarrow> ret True))) (\<lambda>_. session_inv sha scope d) s"
    by (intro wp_bindI [OF fence] wp_bindI [OF commit_inv]) (auto simp: p' intro: ack)
  then show ?thesis by (simp add: admit_proposal_def Inr)
qed

lemma admit_blob_inv:
  assumes "session_inv sha scope d s" "\<not> c_poisoned s" "obs_scope obs = p_scope (c_projection s)"
  shows "wp (admit_blob P sha obs bytes schema limit event buffer t) (\<lambda>_. session_inv sha scope d) s"
  using assms reject_keeps
  by (auto simp: admit_blob_def intro: admit_proposal_inv split: sum.splits)

lemma observe_inv:
  assumes "session_inv sha scope d s"
  shows "wp (ctl_observe P sha obs buffer t) (\<lambda>_. session_inv sha scope d) s"
  using assms
  by (auto simp: ctl_observe_def wp_basic intro: observe_late_inv admit_proposal_inv admit_blob_inv
      split: runtime_progress.splits)

lemma poll_inv:
  assumes "session_inv sha scope d s"
  shows "wp (ctl_poll_inner P sha t buffer caps) (\<lambda>_. session_inv sha scope d) s"
proof -
  have "wp (bind (call_poll P sc g buffer) (\<lambda>(answer, buffer'). case answer of
      Inl e \<Rightarrow> bind poison (\<lambda>_. throw (Port e))
    | Inr obs \<Rightarrow> ctl_observe P sha obs buffer' t)) (\<lambda>_. session_inv sha scope d) s"
    if "\<not> c_poisoned s" for sc g
    using assms that
    by (auto simp: wp session_inv_def split: prod.splits sum.splits intro!: observe_inv)
  then show ?thesis
    using assms advance_inv [OF assms]
    by (auto simp: ctl_poll_inner_def wp_basic split: option.splits sum.splits)
qed

lemma submit_inv:
  assumes "session_inv sha scope d s"
  shows "wp (ctl_submit P sha inp schema t) (\<lambda>_. session_inv sha scope d) s"
  using assms
  by (auto simp: ctl_submit_def propose_Inr split: sum.splits intro!: wp_mono [OF commit_inv])

lemma reconcile_inv:
  assumes "session_inv sha scope d s"
  shows "wp (ctl_reconcile P sha sc g result out t) (\<lambda>_. session_inv sha scope d) s"
  using assms
  by (auto simp: ctl_reconcile_def wp_basic propose_Inr split: sum.splits intro!: wp_mono [OF commit_inv])

lemma import_inv:
  assumes "session_inv sha scope d s"
  shows "wp (ctl_import_checkpoint P sha source previous bytes auth t) (\<lambda>_. session_inv sha scope d) s"
  using assms
  by (auto simp: ctl_import_checkpoint_def propose_Inr split: sum.splits intro!: wp_mono [OF commit_inv])

section \<open>Sessions\<close>

abbreviation control :: "trace \<Rightarrow> task_projection \<Rightarrow> task_control" where
  "control tr p \<equiv> \<lparr> c_trace = tr, c_projection = p, c_poisoned = False \<rparr>"

lemma restore_loop_inv:
  assumes "session_inv sha scope d (control tr p)" "restore_loop P scope p tr = (Inr p', tr')"
  shows "session_inv sha scope d (control tr' p')"
  using assms
proof (induction P scope p tr rule: restore_loop.induct)
  case (1 P scope p tr)
  let ?a = "journal_read P tr scope (p_next_sequence p)"
  note run = "1.prems"(2) [unfolded restore_loop.simps [of P scope p tr] Let_def]
  show ?case
  proof (cases ?a)
    case (Inl e)
    then show ?thesis using run by simp
  next
    case (Inr found)
    show ?thesis
    proof (cases found)
      case None
      then show ?thesis using run Inr "1.prems"(1) by (auto simp: session_inv_def)
    next
      case (Some r)
      then obtain q where q: "task_apply p r = Inr q"
        "restore_loop P scope q (tr @ [CRead scope (p_next_sequence p) ?a]) = (Inr p', tr')"
        using run Inr by (auto split: sum.splits)
      have "session_inv sha scope d (control (tr @ [CRead scope (p_next_sequence p) ?a]) q)"
        using "1.prems"(1) q(1) Inr Some by (auto simp: session_inv_def task_replay_snoc)
      then show ?thesis using "1.IH" [OF refl refl Inr Some q(1)] q(2) by blast
    qed
  qed
qed

lemma interrupt_inv:
  assumes "session_inv sha scope d (control tr p)" "interrupt_running P scope p t tr = (Inr p', tr')"
  shows "session_inv sha scope d (control tr' p') \<and> p_status p' = StFaulted"
proof -
  let ?f = "CFence scope (p_generation p) (runtime_fence P tr scope (p_generation p))"
  obtain r where r: "propose p (FaultObserved SupervisorInterrupted) (p_generation p) t = Inr r"
    "task_apply p r = Inr p'" "tr' = (tr @ [?f]) @ [CCommit r None (Inr r)]"
    "runtime_fence P tr scope (p_generation p) = Inr ()"
    using assms(2)
    by (auto simp: interrupt_running_def Let_def map_err_eq_Inr split: sum.splits if_splits)
  have "p_scope p = scope"
    using assms(1) by (auto simp: session_inv_def dest: task_replay_pins)
  moreover have "p_status p' = StFaulted"
    using r(1,2) by (auto simp: propose_Inr elim!: task_applyE simp: task_step)
  ultimately show ?thesis
    using assms(1) r by (auto simp: session_inv_def task_replay_snoc propose_Inr simp del: append_assoc)
qed

lemma restore_inv:
  assumes "ctl_restore P sha scope d t [] = (Inr s, tr)"
  shows "session_inv sha scope d s \<and> \<not> c_poisoned s \<and> c_trace s = tr
    \<and> p_status (c_projection s) \<noteq> StRunning"
proof -
  obtain p where p: "restore_projection P sha scope d t [] = (Inr p, tr)" "s = control tr p"
    using assms by (auto simp: ctl_restore_def split: prod.splits sum.splits)
  obtain p0 q tr' where new: "projection_new sha scope d = Inr p0"
    and loop: "restore_loop P scope p0 [] = (Inr q, tr')"
    and rest: "(p_status q = StRunning \<and> interrupt_running P scope q t tr' = (Inr p, tr))
      \<or> (p_status q \<noteq> StRunning \<and> p = q \<and> tr = tr')"
    using p(1) by (auto simp: restore_projection_def split: sum.splits prod.splits if_splits)
  have "session_inv sha scope d (control [] p0)"
    using new by (simp add: session_inv_def task_replay_def)
  from restore_loop_inv [OF this loop] rest show ?thesis
    using interrupt_inv p(2) by auto
qed

inductive session :: "ports \<Rightarrow> sha \<Rightarrow> task_scope \<Rightarrow> task_definition \<Rightarrow> task_control \<Rightarrow> bool"
  for P sha scope d where
  restored: "ctl_restore P sha scope d t [] = (Inr s, tr) \<Longrightarrow> session P sha scope d s"
| submitted: "session P sha scope d s \<Longrightarrow> ctl_submit P sha inp schema t s = (a, s') \<Longrightarrow>
    session P sha scope d s'"
| advanced: "session P sha scope d s \<Longrightarrow> ctl_advance_inner P sha t ws cap s = (b, s') \<Longrightarrow>
    session P sha scope d s'"
| polled: "session P sha scope d s \<Longrightarrow> ctl_poll_inner P sha t buffer caps s = (b, s') \<Longrightarrow>
    session P sha scope d s'"
| observed: "session P sha scope d s \<Longrightarrow> ctl_observe P sha obs buffer t s = (b, s') \<Longrightarrow>
    session P sha scope d s'"
| reconciled: "session P sha scope d s \<Longrightarrow> ctl_reconcile P sha sc g result out t s = (a, s') \<Longrightarrow>
    session P sha scope d s'"
| imported: "session P sha scope d s \<Longrightarrow>
    ctl_import_checkpoint P sha source previous bytes auth t s = (a, s') \<Longrightarrow> session P sha scope d s'"

lemma wpD: "wp c (\<lambda>_. I) s \<Longrightarrow> c s = (a, s') \<Longrightarrow> I s'"
  by (simp add: wp_def)

lemma session_invariant: "session P sha scope d s \<Longrightarrow> session_inv sha scope d s"
proof (induction rule: session.induct)
  case (restored t s tr)
  then show ?case using restore_inv by blast
qed (erule wpD [rotated], erule submit_inv advance_inv poll_inv observe_inv reconcile_inv import_inv)+
section \<open>A concrete session\<close>

text \<open>
  A journal that holds \<open>history\<close> and acknowledges every commit, and a runtime that always
  succeeds and reports the progress it is given.
\<close>

definition ex_ports :: "task_record list \<Rightarrow> runtime_progress \<Rightarrow> ports" where
  "ex_ports history progress = \<lparr>
     journal_read = (\<lambda>tr scope n. Inr (if unat n < length history then Some (history ! unat n) else None)),
     journal_commit = (\<lambda>tr r blob. Inr r),
     journal_read_blob = (\<lambda>tr scope b buffer. (Inr (unat (blob_bytes b)), \<lambda>i. 0)),
     runtime_start = (\<lambda>tr req. Inr ()),
     runtime_poll = (\<lambda>tr scope g buffer. (Inr \<lparr> obs_scope = scope, obs_generation = g,
        obs_progress = progress \<rparr>, \<lambda>i. 0)),
     runtime_acknowledge = (\<lambda>tr scope g cp. Inr ()),
     runtime_fence = (\<lambda>tr scope g. Inr ()) \<rparr>"

definition ex_task_scope :: task_scope where
  "ex_task_scope = \<lparr> scope_tenant = digest_fill 2, scope_task = digest_fill 3,
     scope_definition = digest_fill 9, scope_input = digest_fill 9 \<rparr>"

abbreviation "ex_def \<equiv> ex_definition PureEffects"
abbreviation "ex_p \<equiv> ex_ports [] RpPending"

definition ex_fresh :: task_projection where
  "ex_fresh = \<lparr> p_scope = ex_task_scope, p_definition = ex_def,
     p_status = StEmpty, p_next_sequence = 0, p_generation = 0, p_tick = 0,
     p_execution_deadline = 0, p_restart_at = 0, p_checkpoint_commits = 0,
     p_checkpoint = None, p_input = None, p_output = None \<rparr>"

definition ex_input :: blob_ref where
  "ex_input = \<lparr> blob_digest = digest_fill 9, blob_bytes = 2, blob_schema = 1 \<rparr>"

definition ex_intent :: task_record where
  "ex_intent = \<lparr> r_version = 1, r_scope = ex_task_scope, r_sequence = 0, r_generation = 0, r_tick = 1,
     r_event = IntentCommitted ex_def ex_input \<rparr>"

definition ex_pending :: task_projection where
  "ex_pending = ex_fresh\<lparr>p_status := StPending, p_next_sequence := 1, p_tick := 1, p_input := Some ex_input\<rparr>"

definition ex_start :: task_record where
  "ex_start = \<lparr> r_version = 1, r_scope = ex_task_scope, r_sequence = 1, r_generation = 1, r_tick = 2,
     r_event = Started \<rparr>"

definition ex_live :: task_projection where
  "ex_live = ex_pending\<lparr>p_status := StRunning, p_next_sequence := 2, p_tick := 2, p_generation := 1,
     p_execution_deadline := 12\<rparr>"

definition ex_request :: task_start where
  "ex_request = \<lparr> start_scope = ex_task_scope, start_generation = 1, start_definition = ex_def,
     start_execution_deadline = 12, start_input_schema = 1, start_input = [0, 0], start_checkpoint = None \<rparr>"

lemmas ex_session_defs = ex_ports_def ex_task_scope_def ex_definition_def ex_sha_def ex_fresh_def
  ex_input_def ex_intent_def ex_pending_def ex_start_def ex_live_def ex_request_def

definition ex_trace :: "trace" where
  "ex_trace = [CRead ex_task_scope 0 (Inr None), CCommit ex_intent (Some [1, 2]) (Inr ex_intent),
     CCommit ex_start None (Inr ex_start), CReadBlob ex_task_scope ex_input 64 (Inr 2),
     CStart ex_request (Inr ())]"

lemmas ctl_eval = bind_def ret_def throw_def decision_def projection_def poison_def port_def
  log_call_def call_commit_def call_read_blob_def call_start_def call_poll_def call_acknowledge_def
  call_fence_def ensure_healthy_def refill_def get_prefix_def Let_def

lemma ex_restored: "ctl_restore ex_p ex_sha ex_task_scope ex_def 0 [] =
    (Inr (control (take 1 ex_trace) ex_fresh), take 1 ex_trace)"
  by (simp add: ctl_restore_def restore_projection_def restore_loop.simps task_eval ex_session_defs
      ex_trace_def)

lemma ex_submitted: "ctl_submit ex_p ex_sha [1, 2] 1 1 (control (take 1 ex_trace) ex_fresh) =
    (Inr (), control (take 2 ex_trace) ex_pending)"
  by (simp add: ctl_submit_def ctl_commit_def ctl_eval mk_blob_ref_def propose_def digest_of_def
      task_eval ex_session_defs ex_trace_def)

lemma ex_advanced: "ctl_advance_inner ex_p ex_sha 2 (replicate 64 0, replicate 64 0) None
    (control (take 2 ex_trace) ex_pending) = (Inr True, control ex_trace ex_live)"
  by (simp add: ctl_advance_inner_def ctl_commit_def ctl_dispatch_def read_verified_def ctl_eval
      blob_verify_def task_next_def next_event_def validate_capacity_def propose_def digest_of_def
      task_eval ex_session_defs ex_trace_def upt_rec)

lemma ex_session: "session ex_p ex_sha ex_task_scope ex_def (control ex_trace ex_live)"
  by (rule session.advanced [OF session.submitted [OF session.restored [OF ex_restored]
        ex_submitted] ex_advanced])

section \<open>Consequences\<close>

definition started_generations :: "trace \<Rightarrow> nat list" where
  "started_generations tr =
     concat (map (\<lambda>c. case c of CStart req _ \<Rightarrow> [unat (start_generation req)] | _ \<Rightarrow> []) tr)"

fun pending_start :: "port_phase \<Rightarrow> nat list" where
  "pending_start (Recorded r) = (if is_start (r_event r) then [unat (r_generation r)] else [])"
| "pending_start _ = []"

lemma starts_append: "starts (xs @ ys) = starts xs @ starts ys"
  by (simp add: starts_def)

lemma starts_one: "starts [r] = (if is_start (r_event r) then [unat (r_generation r)] else [])"
  by (simp add: starts_def)

lemma phase_step_pending:
  "pending_start (phase_step ph c) = pending_start ph \<and> acked_call c = []
   \<or> pending_start (phase_step ph c) = starts (acked_call c)
   \<or> pending_start (phase_step ph c) = []"
  by (cases "(ph, c)" rule: phase_step.cases) (auto simp: starts_one)

lemma conforms_starts:
  "conforms ph tr \<Longrightarrow> subseq (started_generations tr) (pending_start ph @ starts (acked tr))"
proof (induction tr arbitrary: ph)
  case Nil
  then show ?case by (simp add: started_generations_def)
next
  case (Cons c tr)
  then have ok: "allowed ph c" and IH: "subseq (started_generations tr)
      (pending_start (phase_step ph c) @ starts (acked tr))"
    by auto
  have skip: "subseq xs ys \<Longrightarrow> subseq xs (zs @ ys)" for xs ys zs :: "nat list"
    by (simp add: list_emb_append2)
  have acked: "starts (acked (c # tr)) = starts (acked_call c) @ starts (acked tr)"
    by (simp add: acked_Cons starts_append)
  show ?case
  proof (cases "\<exists>req a. c = CStart req a")
    case True
    then obtain req a where "c = CStart req a" by blast
    then show ?thesis
      using ok IH by (auto simp: acked_Cons started_generations_def)
  next
    case False
    then have same: "started_generations (c # tr) = started_generations tr"
      by (cases c) (auto simp: started_generations_def)
    have nil: "starts [] = []" by (simp add: starts_def)
    show ?thesis
      unfolding same acked using IH phase_step_pending [of ph c]
      by (elim disjE) (auto simp: nil intro!: skip)
  qed
qed

lemma starts_ok_split:
  "starts_ok sha scope d acc (pre @ c # post) \<Longrightarrow> call_ok sha scope d (acc @ pre) c"
  by (induction pre arbitrary: acc) (auto, fastforce)

lemma sorted_wrt_subseq:
  "subseq xs ys \<Longrightarrow> sorted_wrt R ys \<Longrightarrow> sorted_wrt R xs"
  by (induction rule: list_emb.induct) (auto dest: list_emb_set)

lemma restore_loop_reads:
  "started_generations (snd (restore_loop P scope p tr)) = started_generations tr"
proof (induction P scope p tr rule: restore_loop.induct)
  case (1 P scope p tr)
  have one: "started_generations (tr @ [CRead scope k a]) = started_generations tr" for k a
    by (simp add: started_generations_def)
  show ?case
    using one "1.IH" [OF refl refl]
    by (subst restore_loop.simps) (auto simp: Let_def split: sum.splits option.splits)
qed

lemma session_starts:
  assumes "session P sha scope d s"
  shows "subseq (started_generations (c_trace s)) [1..<Suc (unat (p_generation (c_projection s)))]"
proof -
  have inv: "session_inv sha scope d s" using assms by (rule session_invariant)
  then have "subseq (started_generations (c_trace s)) (starts (acked (c_trace s)))"
    using conforms_starts [of Idle "c_trace s"] by (simp add: session_inv_def)
  with inv task_replay_starts show ?thesis by (auto simp: session_inv_def)
qed

text \<open>Reading a whole history back, when the journal answers from one.\<close>

definition serves :: "ports \<Rightarrow> task_scope \<Rightarrow> task_record list \<Rightarrow> bool" where
  "serves P scope h \<longleftrightarrow> (\<forall>tr n. journal_read P tr scope n =
     Inr (if unat n < length h then Some (h ! unat n) else None))"

lemma restore_loop_serves:
  assumes "serves P scope h" "task_replay sha scope d (take n h) = Inr p" "n \<le> length h"
    and "task_replay sha scope d h = Inr q"
  shows "\<exists>tr'. restore_loop P scope p tr = (Inr q, tr') \<and> (\<forall>c\<in>set tr' - set tr. \<exists>k a. c = CRead scope k a)"
  using assms(2,3)
proof (induction "length h - n" arbitrary: n p tr)
  case 0
  then have "n = length h" "unat (p_next_sequence p) = length h" "p = q"
    using task_replay_length [OF 0(2)] assms(4) by auto
  then show ?case
    using assms(1) by (subst restore_loop.simps) (auto simp: serves_def Let_def)
next
  case (Suc k)
  then have lt: "n < length h" and num: "unat (p_next_sequence p) = n"
    using task_replay_length [OF Suc.prems(1)] by auto
  have "task_replay sha scope d (take (Suc n) h @ drop (Suc n) h) = Inr q" using assms(4) by simp
  then obtain p' where p': "task_replay sha scope d (take (Suc n) h) = Inr p'"
    unfolding task_replay_append by (auto simp: bindR_eq_Inr)
  then have app: "task_apply p (h ! n) = Inr p'"
    using Suc.prems(1) lt by (simp add: take_Suc_conv_app_nth task_replay_snoc)
  let ?c = "CRead scope (p_next_sequence p) (Inr (Some (h ! n)))"
  have "\<exists>tr'. restore_loop P scope p' (tr @ [?c]) = (Inr q, tr')
      \<and> (\<forall>c\<in>set tr' - set (tr @ [?c]). \<exists>k a. c = CRead scope k a)"
    using Suc.hyps(1) [OF _ p', of "tr @ [?c]"] Suc.hyps(2) lt by simp
  moreover have "restore_loop P scope p tr = restore_loop P scope p' (tr @ [?c])"
    using assms(1) lt num app by (subst restore_loop.simps) (simp add: serves_def Let_def)
  ultimately show ?case by auto
qed

section \<open>Claims\<close>

text \<open>
  C4. The supervisor's projection refines the journal: after a successful reconstruction and any
  sequence of operations, against any journal and runtime, the in-memory projection is exactly the
  replay of the records the journal vouched for, in order: those read back, then those whose commit
  was acknowledged with the same record.
\<close>

theorem session_projection_refines_journal:
  assumes "session P sha scope d s"
  shows "task_replay sha scope d (acked (c_trace s)) = Inr (c_projection s)"
  using session_invariant [OF assms] by (simp add: session_inv_def)

theorem session_projection_refines_journal_witness:
  "task_replay ex_sha ex_task_scope ex_def [ex_intent, ex_start] = Inr ex_live"
  using session_projection_refines_journal [OF ex_session] by (simp add: ex_trace_def acked_def)

text \<open>
  C3. The order of the port calls: in every session a start request follows, with only blob reads in
  between, the acknowledged start record of the same scope and generation; a fault or a completion is
  recorded only directly after the runtime confirmed the fence of that generation; a checkpoint is
  acknowledged to the runtime only directly after the journal acknowledged its record.
\<close>

theorem session_obeys_port_order:
  assumes "session P sha scope d s"
  shows "conforms Idle (c_trace s)"
  using session_invariant [OF assms] by (simp add: session_inv_def)

theorem session_obeys_port_order_witness: "conforms Idle ex_trace"
  using session_obeys_port_order [OF ex_session] by simp

text \<open>
  C5. No generation is started twice: the generations passed to the runtime in a session are strictly
  increasing and each is the generation of a start record of the acknowledged history.
\<close>

theorem session_starts_each_generation_once:
  assumes "session P sha scope d s"
  shows "sorted_wrt (<) (started_generations (c_trace s))
    \<and> set (started_generations (c_trace s)) \<subseteq> set (starts (acked (c_trace s)))"
proof -
  note sub = session_starts [OF assms]
  have "starts (acked (c_trace s)) = [1..<Suc (unat (p_generation (c_projection s)))]"
    using session_invariant [OF assms] task_replay_starts by (auto simp: session_inv_def)
  moreover have "sorted_wrt (<) (started_generations (c_trace s))"
    using sub by (rule sorted_wrt_subseq) (simp only: sorted_wrt_upt)
  ultimately show ?thesis using list_emb_set [OF sub] by auto
qed

theorem session_starts_each_generation_once_witness: "sorted_wrt (<) (started_generations ex_trace)"
  using session_starts_each_generation_once [OF ex_session] by simp

text \<open>
  The runtime receives only verified data: every start request of a session names the session's
  scope and definition, its input bytes have the digest pinned by the scope and respect the input
  quota, its deadline does not pass the absolute one, and unless the mode restarts from the beginning
  its checkpoint bytes have the digest of the last checkpoint committed before.
\<close>

theorem session_starts_are_verified:
  assumes "session P sha scope d s" "c_trace s = pre @ CStart req a # post"
  shows "start_ok sha scope d pre req"
proof -
  have "starts_ok sha scope d [] (pre @ CStart req a # post)"
    using session_invariant [OF assms(1)] assms(2) by (simp add: session_inv_def)
  from starts_ok_split [OF this] show ?thesis by simp
qed

theorem session_starts_are_verified_witness:
  "start_ok ex_sha ex_task_scope ex_def (take 4 ex_trace) ex_request"
proof (rule session_starts_are_verified [OF ex_session])
  show "c_trace (control ex_trace ex_live) = take 4 ex_trace @ CStart ex_request (Inr ()) # []"
    by (simp add: ex_trace_def)
qed

text \<open>
  C6. Ambiguity fails closed: in a session that is not poisoned every port call so far succeeded and
  every receipt matched its record; a poisoned supervisor answers each operation with
  \<open>ReconstructionRequired\<close>, calls no port and changes nothing.
\<close>

theorem ambiguity_fails_closed:
  assumes "session P sha scope d s"
  shows "if c_poisoned s then
      ctl_submit P sha inp schema t s = (Inl ReconstructionRequired, s)
      \<and> ctl_advance_inner P sha t ws cap s = (Inl ReconstructionRequired, s)
      \<and> ctl_poll_inner P sha t buffer caps s = (Inl ReconstructionRequired, s)
      \<and> ctl_observe P sha obs buffer t s = (Inl ReconstructionRequired, s)
      \<and> ctl_reconcile P sha sc g result out t s = (Inl ReconstructionRequired, s)
      \<and> ctl_import_checkpoint P sha source previous bytes auth t s = (Inl ReconstructionRequired, s)
    else list_all clean_call (c_trace s)"
  using session_invariant [OF assms]
  by (auto simp: session_inv_def ctl_submit_def ctl_advance_inner_def ctl_poll_inner_def
      ctl_observe_def ctl_reconcile_def ctl_import_checkpoint_def bind_def ensure_healthy_def)

theorem ambiguity_fails_closed_witness: "list_all clean_call ex_trace"
  using ambiguity_fails_closed [OF ex_session] by simp

text \<open>
  Timeout wins over a late report: when a running generation's observation arrives at or after its
  execution deadline and is not a fault, and fence and commit succeed, the supervisor fences the
  generation, records the timeout and nothing else, and returns \<open>DeadlineExpired\<close>.
\<close>

theorem late_observation_times_out:
  assumes "session P sha scope d s" "\<not> c_poisoned s" "p_status (c_projection s) = StRunning"
    and "p_tick (c_projection s) \<le> t" "p_execution_deadline (c_projection s) \<le> t"
    and "obs_scope obs = scope" "obs_generation obs = p_generation (c_projection s)"
    and "\<forall>f. obs_progress obs \<noteq> RpFault f"
    and "\<forall>tr g. runtime_fence P tr scope g = Inr ()" "\<forall>tr r. journal_commit P tr r None = Inr r"
  shows "\<exists>r s'. ctl_observe P sha obs buffer t s = (Inl (Decision DeadlineExpired), s')
    \<and> r = proposed (c_projection s) (FaultObserved Timeout) (p_generation (c_projection s)) t
    \<and> c_trace s' = c_trace s @ [CFence scope (p_generation (c_projection s)) (Inr ()), CCommit r None (Inr r)]
    \<and> p_status (c_projection s') = StFaulted"
proof -
  let ?p = "c_projection s" and ?ev = "FaultObserved Timeout"
  have rep: "task_replay sha scope d (acked (c_trace s)) = Inr ?p"
    using session_invariant [OF assms(1)] by (simp add: session_inv_def)
  note inv = task_replay_inv [OF rep] and pins = task_replay_pins [OF rep]
  have ev: "next_event ?p t = Some ?ev" using assms(3,5) by (simp add: next_event_def)
  have "has_room ?p ?ev" using running_has_room [OF inv assms(3)] by simp
  then obtain r p' q g where r: "task_next ?p t = Inr (Some r)" "task_apply ?p r = Inr p'"
    "r = proposed ?p ?ev g t" "apply_event ?p r ?ev = Inr q" "p_status p' = p_status q"
    using next_event_step [OF inv assms(4) ev] by blast
  have g: "g = p_generation ?p"
    using r(2,3) by (auto elim!: task_applyE simp: record_admissible_Inr expected_generation_Inr
        word_unat_eq_iff)
  have "p_status p' = StFaulted" using r(4,5) by (simp add: task_step)
  then show ?thesis
    using assms r(1,2,3) g pins
    by (cases "obs_progress obs")
      (auto simp: ctl_observe_def observe_late_def ctl_fence_def ctl_commit_def ctl_eval)
qed

text \<open>The concrete session again, with a completion reported at its deadline.\<close>

theorem late_observation_times_out_witness:
  "\<exists>s'. ctl_observe ex_p ex_sha \<lparr> obs_scope = ex_task_scope, obs_generation = 1,
      obs_progress = RpComplete 2 1 \<rparr> [0, 0] 12 (control ex_trace ex_live)
      = (Inl (Decision DeadlineExpired), s') \<and> p_status (c_projection s') = StFaulted"
  using late_observation_times_out [OF ex_session, where t = 12 and buffer = "[0, 0]" and
      obs = "\<lparr> obs_scope = ex_task_scope, obs_generation = 1, obs_progress = RpComplete 2 1 \<rparr>"]
  by (auto simp: ex_live_def ex_pending_def ex_fresh_def ex_ports_def)

text \<open>
  Reconstruction returns the durable history: when the journal serves an accepted history whose
  task is not running, \<open>restore\<close> at a later tick succeeds with exactly the replayed projection, after
  nothing but reads; no runtime is touched.
\<close>

theorem restore_returns_history:
  assumes "serves P scope h" "task_replay sha scope d h = Inr p" "p_tick p \<le> t"
    and "p_status p \<noteq> StRunning"
  shows "\<exists>tr. ctl_restore P sha scope d t [] = (Inr (control tr p), tr)
    \<and> (\<forall>c\<in>set tr. \<exists>k a. c = CRead scope k a)"
proof -
  obtain p0 where p0: "projection_new sha scope d = Inr p0"
    using assms(2) by (auto simp: task_replay_Inr)
  then have "task_replay sha scope d (take 0 h) = Inr p0" by (simp add: task_replay_def)
  then obtain tr where "restore_loop P scope p0 [] = (Inr p, tr)" "\<forall>c\<in>set tr. \<exists>k a. c = CRead scope k a"
    using restore_loop_serves [OF assms(1) _ _ assms(2), of 0 p0 "[]"] by auto
  then show ?thesis
    using p0 assms(3,4) by (auto simp: ctl_restore_def restore_projection_def)
qed

theorem restore_returns_history_witness:
  "\<exists>tr. ctl_restore (ex_ports ex_pure_history RpPending) ex_sha ex_scope (ex_definition PureEffects) 20 []
     = (Inr (control tr ex_completed), tr)"
  using restore_returns_history [OF _ ex_pure_replay, of "ex_ports ex_pure_history RpPending" 20]
  by (auto simp: serves_def ex_ports_def ex_completed_def)

text \<open>
  A restored task never executes: whatever the journal and the runtime answer, a successful
  \<open>restore\<close> leaves the task in a phase other than \<open>Running\<close> and issues no start request; its projection
  replays the records the journal vouched for, and an interruption it records follows the confirmed
  fence of that generation.
\<close>

theorem restore_never_executes:
  assumes "ctl_restore P sha scope d t [] = (Inr s, tr)"
  shows "p_status (c_projection s) \<noteq> StRunning \<and> started_generations tr = []
    \<and> task_replay sha scope d (acked tr) = Inr (c_projection s) \<and> conforms Idle tr"
proof -
  obtain p0 where loop: "tr = snd (restore_loop P scope p0 [])
      \<or> (\<exists>q. tr = snd (interrupt_running P scope q t (snd (restore_loop P scope p0 []))))"
    using assms
    by (auto simp: ctl_restore_def restore_projection_def split: sum.splits prod.splits if_splits)
      (metis snd_conv)+
  have "started_generations (snd (interrupt_running P scope q t tr')) = started_generations tr'" for q tr'
    by (auto simp: interrupt_running_def Let_def started_generations_def split: sum.splits)
  moreover have "started_generations [] = []" by (simp add: started_generations_def)
  ultimately have "started_generations tr = []" using loop restore_loop_reads by metis
  then show ?thesis using restore_inv [OF assms] by (auto simp: session_inv_def)
qed

theorem restore_never_executes_witness: "started_generations (take 1 ex_trace) = []"
  using restore_never_executes [OF ex_restored] by simp

end
