(* ===== verification/Saga_Domain.thy ===== *)
theory Saga_Domain
  imports Penelope_Prelude "HOL-Library.List_Lexorder" "HOL-Library.Char_ord"
begin

text \<open>
  The protocol values of \<open>penelope-domain/src/implementation.rs\<close>: identifiers, the immutable
  records of a process, their canonical byte strings, and the checks that admit them.

  An identifier is a datatype over its text; \<open>IdentifierText\<close>, the storage that keeps a short
  text inline, is modelled beside it and shown to store exactly the text. Bytes fed to SHA-256
  are computed here; the hash itself, of the sha2 crate, is a parameter. JSON forms come from
  serde and are not modelled.
\<close>

section \<open>Limits and errors\<close>

definition MAX_IDENTIFIER_LENGTH :: nat where "MAX_IDENTIFIER_LENGTH = 128"
definition MAX_DEFINITION_STEPS :: nat where "MAX_DEFINITION_STEPS = 128"
definition MAX_ACTION_ATTEMPTS_PER_STEP :: u32 where "MAX_ACTION_ATTEMPTS_PER_STEP = 64"
definition MAX_CANONICAL_RESOURCE_IDS :: nat where "MAX_CANONICAL_RESOURCE_IDS = 64"

datatype domain_error =
    InvalidTenantId | InvalidProcessId | InvalidDefinitionId | InvalidDefinitionVersion
  | InvalidStepId | InvalidInputId | InvalidOutcomeId | InvalidActionId | InvalidReviewId
  | InvalidPrincipalId | InvalidCanonicalEventId | InvalidCanonicalCommitId | InvalidResourceId
  | InvalidOperationId | InvalidExternalReferenceId | InvalidMigrationId
  | EmptyDefinitionSteps | DefinitionStepLimitExceeded | DuplicateStepId
  | CanonicalResourceLimitExceeded | DuplicateCanonicalResourceId | OutcomeScopeMismatch

datatype definition_compatibility = Exact | RequiresMigration | Incompatible

datatype definition_compatibility_error =
    DcIdentityMismatch | DcRequiresMigration | DcDigestMismatch

datatype definition_migration_error = DmIdentityMismatch | NoOp | InvalidDestination | InvalidSource

section \<open>Identifiers\<close>

definition identifier_byte :: "char \<Rightarrow> bool" where
  "identifier_byte c \<longleftrightarrow>
     CHR ''0'' \<le> c \<and> c \<le> CHR ''9'' \<or> CHR ''A'' \<le> c \<and> c \<le> CHR ''Z''
     \<or> CHR ''a'' \<le> c \<and> c \<le> CHR ''z'' \<or> c \<in> {CHR ''_'', CHR ''-'', CHR ''.''}"

definition validate_identifier :: "string \<Rightarrow> string \<Rightarrow> bool" where
  "validate_identifier prefix value \<longleftrightarrow>
     take (length prefix) value = prefix
     \<and> length prefix < length value
     \<and> length value \<le> MAX_IDENTIFIER_LENGTH
     \<and> list_all identifier_byte (drop (length prefix) value)"

definition encode_identifier :: "string \<Rightarrow> byte list" where
  "encode_identifier value =
     u16_to_be_bytes (if length value < 2 ^ 16 then of_nat (length value) else - 1) @ str_bytes value"

text \<open>\<open>size_of::<String>()\<close> is 24 on the 64-bit hosts the code is measured on.\<close>

definition INLINE_CAPACITY :: nat where "INLINE_CAPACITY = 24 - 2"

datatype identifier_text = Inline string u8 | Heap string

definition text_from :: "string \<Rightarrow> identifier_text" where
  "text_from value =
     (if length value \<le> INLINE_CAPACITY \<and> length value < 2 ^ 8
      then Inline (value @ replicate (INLINE_CAPACITY - length value) (CHR 0x00)) (of_nat (length value))
      else Heap value)"

fun text_bytes :: "identifier_text \<Rightarrow> string" where
  "text_bytes (Inline bytes len) = (if unat len \<le> length bytes then take (unat len) bytes else [])"
| "text_bytes (Heap text) = text"

datatype tenant_id = TenantId (tenant_str: string)
datatype process_id = ProcessId (process_str: string)
datatype definition_id = DefinitionId (definition_str: string)
datatype definition_version = DefinitionVersion (version_str: string)
datatype step_id = StepId (step_str: string)
datatype input_id = InputId (input_str: string)
datatype outcome_id = OutcomeId (outcome_str: string)
datatype action_id = ActionId (action_str: string)
datatype review_id = ReviewId (review_str: string)
datatype principal_id = PrincipalId (principal_str: string)
datatype canonical_event_id = CanonicalEventId (canonical_event_str: string)
datatype canonical_commit_id = CanonicalCommitId (canonical_commit_str: string)
datatype resource_id = ResourceId (resource_str: string)
datatype operation_id = OperationId (operation_str: string)
datatype external_reference_id = ExternalReferenceId (external_reference_str: string)
datatype migration_id = MigrationId (migration_str: string)

text \<open>\<open>$name::new\<close> and \<open>from_str\<close> of the \<open>identifier!\<close> macro, for one prefix and error.\<close>

definition identifier_new :: "string \<Rightarrow> domain_error \<Rightarrow> (string \<Rightarrow> 'a) \<Rightarrow> string \<Rightarrow> domain_error + 'a" where
  "identifier_new prefix err con value =
     (if validate_identifier prefix value then Inr (con value) else Inl err)"

definition tenant_id_new :: "string \<Rightarrow> domain_error + tenant_id" where
  "tenant_id_new = identifier_new ''tnt_'' InvalidTenantId TenantId"

definition process_id_new :: "string \<Rightarrow> domain_error + process_id" where
  "process_id_new = identifier_new ''prc_'' InvalidProcessId ProcessId"

definition definition_id_new :: "string \<Rightarrow> domain_error + definition_id" where
  "definition_id_new = identifier_new ''def_'' InvalidDefinitionId DefinitionId"

definition definition_version_new :: "string \<Rightarrow> domain_error + definition_version" where
  "definition_version_new = identifier_new ''dfv_'' InvalidDefinitionVersion DefinitionVersion"

definition step_id_new :: "string \<Rightarrow> domain_error + step_id" where
  "step_id_new = identifier_new ''stp_'' InvalidStepId StepId"

definition input_id_new :: "string \<Rightarrow> domain_error + input_id" where
  "input_id_new = identifier_new ''inp_'' InvalidInputId InputId"

definition outcome_id_new :: "string \<Rightarrow> domain_error + outcome_id" where
  "outcome_id_new = identifier_new ''out_'' InvalidOutcomeId OutcomeId"

definition action_id_new :: "string \<Rightarrow> domain_error + action_id" where
  "action_id_new = identifier_new ''act_'' InvalidActionId ActionId"

definition review_id_new :: "string \<Rightarrow> domain_error + review_id" where
  "review_id_new = identifier_new ''rev_'' InvalidReviewId ReviewId"

definition principal_id_new :: "string \<Rightarrow> domain_error + principal_id" where
  "principal_id_new = identifier_new ''pri_'' InvalidPrincipalId PrincipalId"

definition canonical_event_id_new :: "string \<Rightarrow> domain_error + canonical_event_id" where
  "canonical_event_id_new = identifier_new ''cev_'' InvalidCanonicalEventId CanonicalEventId"

definition canonical_commit_id_new :: "string \<Rightarrow> domain_error + canonical_commit_id" where
  "canonical_commit_id_new = identifier_new ''cmt_'' InvalidCanonicalCommitId CanonicalCommitId"

definition resource_id_new :: "string \<Rightarrow> domain_error + resource_id" where
  "resource_id_new = identifier_new ''res_'' InvalidResourceId ResourceId"

definition operation_id_new :: "string \<Rightarrow> domain_error + operation_id" where
  "operation_id_new = identifier_new ''op_'' InvalidOperationId OperationId"

definition external_reference_id_new :: "string \<Rightarrow> domain_error + external_reference_id" where
  "external_reference_id_new = identifier_new ''ext_'' InvalidExternalReferenceId ExternalReferenceId"

definition migration_id_new :: "string \<Rightarrow> domain_error + migration_id" where
  "migration_id_new = identifier_new ''mig_'' InvalidMigrationId MigrationId"

text \<open>\<open>Ord\<close> of an identifier compares the bytes of its text.\<close>

instantiation step_id :: linorder
begin

definition less_eq_step_id :: "step_id \<Rightarrow> step_id \<Rightarrow> bool" where
  "less_eq_step_id a b \<longleftrightarrow> step_str a \<le> step_str b"

definition less_step_id :: "step_id \<Rightarrow> step_id \<Rightarrow> bool" where
  "less_step_id a b \<longleftrightarrow> step_str a < step_str b"

instance
  by standard (auto simp: less_eq_step_id_def less_step_id_def step_id.expand)

end

section \<open>Records\<close>

type_synonym content_digest = digest
type_synonym logical_time = u64

datatype process_input_kind = IkCanonicalEvent | IkTimerFired | IkManualResolution | IkTaskEffectResult

datatype process_outcome_kind =
    OkStarted | OkInputAccepted | OkActionPlanned | OkActionAttempted | OkCommandCommitted
  | OkActionSucceeded | OkActionFailed | OkActionOutcomeUnknown | OkRetryScheduled | OkTimerFired
  | OkCompensationPlanned | OkReviewOpened | OkManualResolutionApplied | OkCompleted | OkCancelled
  | OkCompensated | OkEscalated

datatype process_action_kind = CanonicalCommandKind | TimerKind | ExternalEffectKind | ManualReviewKind

datatype causation_id = CausedByInput input_id | CausedByAction action_id

datatype outcome_actor = System | Principal principal_id

record process_outcome_fact =
  pf_outcome_id :: outcome_id
  pf_causation_id :: causation_id
  pf_actor :: outcome_actor
  pf_occurred_at :: logical_time
  pf_kind :: process_outcome_kind
  pf_payload_digest :: content_digest

record process_definition =
  pd_definition_id :: definition_id
  pd_definition_version :: definition_version
  pd_definition_digest :: content_digest
  pd_step_ids :: "step_id list"

record definition_migration =
  dm_migration_id :: migration_id
  dm_definition_id :: definition_id
  dm_from_version :: definition_version
  dm_from_digest :: content_digest
  dm_to_version :: definition_version
  dm_to_digest :: content_digest

record process_input =
  pi_tenant_id :: tenant_id
  pi_process_id :: process_id
  pi_input_id :: input_id
  pi_kind :: process_input_kind
  pi_payload_digest :: content_digest

record process_scope =
  ps_tenant_id :: tenant_id
  ps_process_id :: process_id
  ps_definition_id :: definition_id
  ps_definition_version :: definition_version
  ps_definition_digest :: content_digest

record process_outcome =
  po_tenant_id :: tenant_id
  po_process_id :: process_id
  po_definition_id :: definition_id
  po_definition_version :: definition_version
  po_definition_digest :: content_digest
  po_sequence :: u64
  po_outcome_id :: outcome_id
  po_causation_id :: causation_id
  po_actor :: outcome_actor
  po_occurred_at :: logical_time
  po_kind :: process_outcome_kind
  po_payload_digest :: content_digest

record process_action =
  pa_tenant_id :: tenant_id
  pa_process_id :: process_id
  pa_definition_id :: definition_id
  pa_definition_version :: definition_version
  pa_definition_digest :: content_digest
  pa_action_id :: action_id
  pa_step_id :: step_id
  pa_attempt :: u32
  pa_kind :: process_action_kind
  pa_payload_digest :: content_digest

record effect_key =
  ek_tenant_id :: tenant_id
  ek_process_id :: process_id
  ek_definition_id :: definition_id
  ek_definition_version :: definition_version
  ek_definition_digest :: content_digest
  ek_step_id :: step_id
  ek_attempt :: u32
  ek_kind :: process_action_kind
  ek_payload_digest :: content_digest

record canonical_command =
  cc_tenant_id :: tenant_id
  cc_action_id :: action_id
  cc_operation :: operation_id
  cc_resource_ids :: "resource_id list"
  cc_payload_digest :: content_digest

record canonical_event =
  ce_tenant_id :: tenant_id
  ce_source_event_id :: canonical_event_id
  ce_action_id :: action_id
  ce_commit_id :: canonical_commit_id
  ce_commit_sequence :: u64
  ce_operation :: operation_id
  ce_resource_ids :: "resource_id list"
  ce_payload_digest :: content_digest

record manual_review =
  mr_tenant_id :: tenant_id
  mr_process_id :: process_id
  mr_definition_id :: definition_id
  mr_definition_version :: definition_version
  mr_definition_digest :: content_digest
  mr_review_id :: review_id
  mr_opened_at_sequence :: u64
  mr_expires_at :: "logical_time option"
  mr_evidence_digest :: content_digest

section \<open>Operations\<close>

definition scope_canonical_bytes :: "process_scope \<Rightarrow> byte list" where
  "scope_canonical_bytes s =
     encode_identifier (tenant_str (ps_tenant_id s)) @
     encode_identifier (process_str (ps_process_id s)) @
     encode_identifier (definition_str (ps_definition_id s)) @
     encode_identifier (version_str (ps_definition_version s)) @
     digest_bytes (ps_definition_digest s)"

fun action_kind_tag :: "process_action_kind \<Rightarrow> byte" where
  "action_kind_tag CanonicalCommandKind = 0"
| "action_kind_tag TimerKind = 1"
| "action_kind_tag ExternalEffectKind = 2"
| "action_kind_tag ManualReviewKind = 3"

definition canonical_effect_key_bytes ::
  "string \<times> string \<times> string \<times> string \<times> string \<Rightarrow> content_digest \<Rightarrow> u32 \<Rightarrow> process_action_kind \<Rightarrow>
     content_digest \<Rightarrow> byte list" where
  "canonical_effect_key_bytes ids definition_digest attempt kind payload =
     (case ids of (tenant, process, definition, version, step) \<Rightarrow>
        encode_identifier tenant @ encode_identifier process @ encode_identifier definition @
        encode_identifier version @ digest_bytes definition_digest @ encode_identifier step @
        u32_to_be_bytes attempt @ [action_kind_tag kind] @ digest_bytes payload)"

definition effect_key_bytes :: "effect_key \<Rightarrow> byte list" where
  "effect_key_bytes k =
     canonical_effect_key_bytes
       (tenant_str (ek_tenant_id k), process_str (ek_process_id k), definition_str (ek_definition_id k),
        version_str (ek_definition_version k), step_str (ek_step_id k))
       (ek_definition_digest k) (ek_attempt k) (ek_kind k) (ek_payload_digest k)"

definition action_new ::
  "process_scope \<Rightarrow> action_id \<Rightarrow> step_id \<Rightarrow> u32 \<Rightarrow> process_action_kind \<Rightarrow> content_digest \<Rightarrow> process_action" where
  "action_new s a step attempt kind payload =
     \<lparr> pa_tenant_id = ps_tenant_id s, pa_process_id = ps_process_id s,
       pa_definition_id = ps_definition_id s, pa_definition_version = ps_definition_version s,
       pa_definition_digest = ps_definition_digest s, pa_action_id = a, pa_step_id = step,
       pa_attempt = attempt, pa_kind = kind, pa_payload_digest = payload \<rparr>"

definition action_scope :: "process_action \<Rightarrow> process_scope" where
  "action_scope a =
     \<lparr> ps_tenant_id = pa_tenant_id a, ps_process_id = pa_process_id a,
       ps_definition_id = pa_definition_id a, ps_definition_version = pa_definition_version a,
       ps_definition_digest = pa_definition_digest a \<rparr>"

definition action_effect_key_bytes :: "process_action \<Rightarrow> byte list" where
  "action_effect_key_bytes a =
     canonical_effect_key_bytes
       (tenant_str (pa_tenant_id a), process_str (pa_process_id a), definition_str (pa_definition_id a),
        version_str (pa_definition_version a), step_str (pa_step_id a))
       (pa_definition_digest a) (pa_attempt a) (pa_kind a) (pa_payload_digest a)"

definition effect_key_of :: "process_action \<Rightarrow> effect_key" where
  "effect_key_of a =
     \<lparr> ek_tenant_id = pa_tenant_id a, ek_process_id = pa_process_id a,
       ek_definition_id = pa_definition_id a, ek_definition_version = pa_definition_version a,
       ek_definition_digest = pa_definition_digest a, ek_step_id = pa_step_id a,
       ek_attempt = pa_attempt a, ek_kind = pa_kind a, ek_payload_digest = pa_payload_digest a \<rparr>"

definition outcome_new :: "process_scope \<Rightarrow> u64 \<Rightarrow> process_outcome_fact \<Rightarrow> process_outcome" where
  "outcome_new s n f =
     \<lparr> po_tenant_id = ps_tenant_id s, po_process_id = ps_process_id s,
       po_definition_id = ps_definition_id s, po_definition_version = ps_definition_version s,
       po_definition_digest = ps_definition_digest s, po_sequence = n,
       po_outcome_id = pf_outcome_id f, po_causation_id = pf_causation_id f, po_actor = pf_actor f,
       po_occurred_at = pf_occurred_at f, po_kind = pf_kind f,
       po_payload_digest = pf_payload_digest f \<rparr>"

definition outcome_scope :: "process_outcome \<Rightarrow> process_scope" where
  "outcome_scope x =
     \<lparr> ps_tenant_id = po_tenant_id x, ps_process_id = po_process_id x,
       ps_definition_id = po_definition_id x, ps_definition_version = po_definition_version x,
       ps_definition_digest = po_definition_digest x \<rparr>"

definition validate_for_scope :: "process_outcome \<Rightarrow> process_scope \<Rightarrow> domain_error + unit" where
  "validate_for_scope x expected =
     (if po_tenant_id x = ps_tenant_id expected
         \<and> po_process_id x = ps_process_id expected
         \<and> po_definition_id x = ps_definition_id expected
         \<and> po_definition_version x = ps_definition_version expected
         \<and> po_definition_digest x = ps_definition_digest expected
      then Inr () else Inl OutcomeScopeMismatch)"

definition review_new ::
  "process_scope \<Rightarrow> review_id \<Rightarrow> u64 \<Rightarrow> logical_time option \<Rightarrow> content_digest \<Rightarrow> manual_review" where
  "review_new s rid opened expires evidence =
     \<lparr> mr_tenant_id = ps_tenant_id s, mr_process_id = ps_process_id s,
       mr_definition_id = ps_definition_id s, mr_definition_version = ps_definition_version s,
       mr_definition_digest = ps_definition_digest s, mr_review_id = rid,
       mr_opened_at_sequence = opened, mr_expires_at = expires, mr_evidence_digest = evidence \<rparr>"

definition review_scope :: "manual_review \<Rightarrow> process_scope" where
  "review_scope x =
     \<lparr> ps_tenant_id = mr_tenant_id x, ps_process_id = mr_process_id x,
       ps_definition_id = mr_definition_id x, ps_definition_version = mr_definition_version x,
       ps_definition_digest = mr_definition_digest x \<rparr>"

text \<open>
  \<open>iter().enumerate().any(|(i, x)| iter().skip(i + 1).any(|y| y == x))\<close>: the quadratic search
  for a repeated element, as the code writes it in four places.
\<close>

definition has_duplicate :: "'a list \<Rightarrow> bool" where
  "has_duplicate xs \<longleftrightarrow>
     list_ex (\<lambda>(i, x). list_ex (\<lambda>y. y = x) (drop (i + 1) xs)) (zip [0..<length xs] xs)"

definition process_definition_validate :: "process_definition \<Rightarrow> domain_error + unit" where
  "process_definition_validate d =
     (if pd_step_ids d = [] then Inl EmptyDefinitionSteps
      else if MAX_DEFINITION_STEPS < length (pd_step_ids d) then Inl DefinitionStepLimitExceeded
      else if has_duplicate (pd_step_ids d) then Inl DuplicateStepId
      else Inr ())"

definition process_definition_new ::
  "definition_id \<Rightarrow> definition_version \<Rightarrow> content_digest \<Rightarrow> step_id list \<Rightarrow> domain_error + process_definition" where
  "process_definition_new i v g steps =
     (let d = \<lparr> pd_definition_id = i, pd_definition_version = v, pd_definition_digest = g,
                pd_step_ids = steps \<rparr>
      in bindR (process_definition_validate d) (\<lambda>_. Inr d))"

definition definition_canonical_bytes :: "process_definition \<Rightarrow> byte list" where
  "definition_canonical_bytes d =
     encode_identifier (definition_str (pd_definition_id d)) @
     encode_identifier (version_str (pd_definition_version d)) @
     u32_to_be_bytes (if length (pd_step_ids d) < 2 ^ 32 then of_nat (length (pd_step_ids d)) else - 1) @
     concat (map (\<lambda>s. encode_identifier (step_str s)) (pd_step_ids d))"

definition computed_digest :: "(byte list \<Rightarrow> digest) \<Rightarrow> process_definition \<Rightarrow> content_digest" where
  "computed_digest sha d = sha (definition_canonical_bytes d)"

definition require_canonical_digest ::
  "(byte list \<Rightarrow> digest) \<Rightarrow> process_definition \<Rightarrow> definition_compatibility_error + unit" where
  "require_canonical_digest sha d =
     (if pd_definition_digest d = computed_digest sha d then Inr () else Inl DcDigestMismatch)"

definition compatibility_with ::
  "process_definition \<Rightarrow> process_definition \<Rightarrow> definition_compatibility" where
  "compatibility_with d pinned =
     (if pd_definition_id d \<noteq> pd_definition_id pinned
         \<or> pd_definition_version d \<noteq> pd_definition_version pinned then Incompatible
      else if pd_definition_digest d \<noteq> pd_definition_digest pinned
         \<or> pd_step_ids d \<noteq> pd_step_ids pinned then RequiresMigration
      else Exact)"

definition require_exact_compatibility ::
  "process_definition \<Rightarrow> process_definition \<Rightarrow> definition_compatibility_error + unit" where
  "require_exact_compatibility d pinned =
     (case compatibility_with d pinned of
        Exact \<Rightarrow> Inr ()
      | RequiresMigration \<Rightarrow> Inl DcRequiresMigration
      | Incompatible \<Rightarrow> Inl DcIdentityMismatch)"

definition migration_validate :: "definition_migration \<Rightarrow> definition_migration_error + unit" where
  "migration_validate mig =
     (if dm_from_version mig = dm_to_version mig \<and> dm_from_digest mig = dm_to_digest mig
      then Inl NoOp else Inr ())"

definition migration_new ::
  "migration_id \<Rightarrow> definition_id \<Rightarrow> definition_version \<Rightarrow> content_digest \<Rightarrow> definition_version \<Rightarrow>
     content_digest \<Rightarrow> definition_migration_error + definition_migration" where
  "migration_new i d fv fd tv td =
     (let mig = \<lparr> dm_migration_id = i, dm_definition_id = d, dm_from_version = fv,
                  dm_from_digest = fd, dm_to_version = tv, dm_to_digest = td \<rparr>
      in bindR (migration_validate mig) (\<lambda>_. Inr mig))"

definition validate_destination ::
  "definition_migration \<Rightarrow> process_definition \<Rightarrow> definition_migration_error + unit" where
  "validate_destination mig candidate =
     (if isl (process_definition_validate candidate) then Inl InvalidDestination
      else if pd_definition_id candidate \<noteq> dm_definition_id mig
         \<or> pd_definition_version candidate \<noteq> dm_to_version mig
         \<or> pd_definition_digest candidate \<noteq> dm_to_digest mig then Inl DmIdentityMismatch
      else Inr ())"

definition validate_source_and_destination ::
  "definition_migration \<Rightarrow> process_definition \<Rightarrow> process_definition \<Rightarrow> definition_migration_error + unit" where
  "validate_source_and_destination mig source destination =
     (if isl (process_definition_validate source) then Inl InvalidSource
      else if pd_definition_id source \<noteq> dm_definition_id mig
         \<or> pd_definition_version source \<noteq> dm_from_version mig
         \<or> pd_definition_digest source \<noteq> dm_from_digest mig then Inl DmIdentityMismatch
      else validate_destination mig destination)"

definition validate_canonical_resource_scope :: "resource_id list \<Rightarrow> domain_error + unit" where
  "validate_canonical_resource_scope ids =
     (if MAX_CANONICAL_RESOURCE_IDS < length ids then Inl CanonicalResourceLimitExceeded
      else if has_duplicate ids then Inl DuplicateCanonicalResourceId
      else Inr ())"

definition canonical_command_new ::
  "tenant_id \<Rightarrow> action_id \<Rightarrow> operation_id \<Rightarrow> resource_id list \<Rightarrow> content_digest \<Rightarrow> domain_error + canonical_command" where
  "canonical_command_new t a op ids payload =
     (let c = \<lparr> cc_tenant_id = t, cc_action_id = a, cc_operation = op, cc_resource_ids = ids,
                cc_payload_digest = payload \<rparr>
      in bindR (validate_canonical_resource_scope (cc_resource_ids c)) (\<lambda>_. Inr c))"

definition canonical_event_new ::
  "tenant_id \<Rightarrow> canonical_event_id \<Rightarrow> action_id \<Rightarrow> canonical_commit_id \<Rightarrow> u64 \<Rightarrow> operation_id \<Rightarrow>
     resource_id list \<Rightarrow> content_digest \<Rightarrow> domain_error + canonical_event" where
  "canonical_event_new t e a c n op ids payload =
     (let ev = \<lparr> ce_tenant_id = t, ce_source_event_id = e, ce_action_id = a, ce_commit_id = c,
                 ce_commit_sequence = n, ce_operation = op, ce_resource_ids = ids,
                 ce_payload_digest = payload \<rparr>
      in bindR (validate_canonical_resource_scope (ce_resource_ids ev)) (\<lambda>_. Inr ev))"

section \<open>Well-formed values\<close>

text \<open>What the constructors of the identifier types guarantee of a record's fields.\<close>

definition scope_wf :: "process_scope \<Rightarrow> bool" where
  "scope_wf s \<longleftrightarrow>
     validate_identifier ''tnt_'' (tenant_str (ps_tenant_id s))
     \<and> validate_identifier ''prc_'' (process_str (ps_process_id s))
     \<and> validate_identifier ''def_'' (definition_str (ps_definition_id s))
     \<and> validate_identifier ''dfv_'' (version_str (ps_definition_version s))"

definition step_wf :: "step_id \<Rightarrow> bool" where
  "step_wf i \<longleftrightarrow> validate_identifier ''stp_'' (step_str i)"

definition action_wf :: "process_action \<Rightarrow> bool" where
  "action_wf a \<longleftrightarrow> scope_wf (action_scope a) \<and> step_wf (pa_step_id a)"

definition process_definition_wf :: "process_definition \<Rightarrow> bool" where
  "process_definition_wf d \<longleftrightarrow>
     validate_identifier ''def_'' (definition_str (pd_definition_id d))
     \<and> validate_identifier ''dfv_'' (version_str (pd_definition_version d))
     \<and> list_all step_wf (pd_step_ids d)"

section \<open>Facts\<close>

lemma has_duplicate_iff [simp]: "has_duplicate xs \<longleftrightarrow> \<not> distinct xs"
proof -
  have "has_duplicate xs \<longleftrightarrow> (\<exists>i<length xs. xs ! i \<in> set (drop (i + 1) xs))"
  proof -
    have "set (zip [0..<length xs] xs) = (\<lambda>i. (i, xs ! i)) ` {..<length xs}"
      by (auto simp: set_zip image_iff intro!: exI)
    then show ?thesis by (auto simp: has_duplicate_def list_ex_iff)
  qed
  also have "\<dots> \<longleftrightarrow> \<not> distinct xs"
  proof (induction xs)
    case Nil
    then show ?case by simp
  next
    case (Cons x xs)
    have "(\<exists>i<length (x # xs). (x # xs) ! i \<in> set (drop (i + 1) (x # xs)))
        \<longleftrightarrow> x \<in> set xs \<or> (\<exists>i<length xs. xs ! i \<in> set (drop (i + 1) xs))"
      by (auto simp: less_Suc_eq_0_disj)
    then show ?case using Cons by simp
  qed
  finally show ?thesis .
qed

lemma validate_identifier_length: "validate_identifier prefix value \<Longrightarrow> length value \<le> 128"
  by (simp add: validate_identifier_def MAX_IDENTIFIER_LENGTH_def)

lemma text_from_inverse: "text_bytes (text_from value) = value"
  by (auto simp: text_from_def INLINE_CAPACITY_def unat_of_nat take_bit_eq_mod)

interpretation identifier_field: prefix_free encode_identifier "\<lambda>s. length s \<le> 128"
proof
  fix a b :: string and r r' :: "byte list"
  assume len: "length a \<le> 128" "length b \<le> 128"
    and eq: "encode_identifier a @ r = encode_identifier b @ r'"
  from eq len have "(of_nat (length a) :: u16) = of_nat (length b)" "str_bytes a @ r = str_bytes b @ r'"
    by (simp_all add: encode_identifier_def field_inject)
  moreover from this(1) have "length a = length b"
    using len by (simp add: word_of_nat_eq_iff take_bit_eq_mod)
  ultimately show "a = b \<and> r = r'" by simp
qed


lemmas identifier_append_iff =
  identifier_field.enc_append_iff [OF validate_identifier_length validate_identifier_length]
  identifier_field.enc_inject [OF validate_identifier_length validate_identifier_length]

lemma action_kind_tag_inject [simp]: "action_kind_tag a = action_kind_tag b \<longleftrightarrow> a = b"
  by (cases a; cases b) simp_all

lemma scope_bytes_inject:
  assumes "scope_wf s" "scope_wf s'" "scope_canonical_bytes s = scope_canonical_bytes s'"
  shows "s = s'"
  using assms
  by (cases s; cases s')
    (auto simp: scope_wf_def scope_canonical_bytes_def digest_bytes_inject
      identifier_append_iff tenant_id.expand process_id.expand definition_id.expand
      definition_version.expand)

lemma effect_bytes_inject:
  assumes "action_wf a" "action_wf b" "action_effect_key_bytes a = action_effect_key_bytes b"
  shows "effect_key_of a = effect_key_of b"
  using assms
  by (auto simp: action_wf_def scope_wf_def step_wf_def action_scope_def action_effect_key_bytes_def
      canonical_effect_key_bytes_def effect_key_of_def field_inject digest_bytes_inject
      identifier_append_iff tenant_id.expand process_id.expand definition_id.expand
      definition_version.expand step_id.expand)

lemma definition_bytes_inject:
  assumes wf: "process_definition_wf d" "process_definition_wf d'"
    and len: "length (pd_step_ids d) < 2 ^ 32" "length (pd_step_ids d') < 2 ^ 32"
    and eq: "definition_canonical_bytes d = definition_canonical_bytes d'"
  shows "pd_definition_id d = pd_definition_id d' \<and> pd_definition_version d = pd_definition_version d'
    \<and> pd_step_ids d = pd_step_ids d'"
proof -
  let ?enc = "\<lambda>d. concat (map encode_identifier (map step_str (pd_step_ids d)))"
  have parts: "definition_str (pd_definition_id d) = definition_str (pd_definition_id d')"
    "version_str (pd_definition_version d) = version_str (pd_definition_version d')"
    "(of_nat (length (pd_step_ids d)) :: u32) = of_nat (length (pd_step_ids d'))"
    "?enc d @ [] = ?enc d' @ []"
    using wf len eq
    by (auto simp: process_definition_wf_def definition_canonical_bytes_def identifier_append_iff
        field_inject comp_def)
  have count: "length (map step_str (pd_step_ids d)) = length (map step_str (pd_step_ids d'))"
    using parts(3) len by (simp add: word_of_nat_eq_iff take_bit_eq_mod)
  have bounded: "list_all (\<lambda>s. length s \<le> 128) (map step_str (pd_step_ids d))"
    "list_all (\<lambda>s. length s \<le> 128) (map step_str (pd_step_ids d'))"
    using wf by (auto simp: process_definition_wf_def step_wf_def list_all_iff
        dest: validate_identifier_length)
  have "map step_str (pd_step_ids d) = map step_str (pd_step_ids d')"
    using identifier_field.enc_list_inject [OF bounded count parts(4)] by blast
  moreover have "inj step_str" by (auto intro: injI step_id.expand)
  ultimately show ?thesis
    using parts by (auto simp: inj_map_eq_map definition_id.expand definition_version.expand)
qed

section \<open>Claims\<close>

definition ex_action :: "action_id \<Rightarrow> u32 \<Rightarrow> process_action" where
  "ex_action i attempt = \<lparr> pa_tenant_id = TenantId ''tnt_a'', pa_process_id = ProcessId ''prc_b'',
     pa_definition_id = DefinitionId ''def_c'', pa_definition_version = DefinitionVersion ''dfv_1'',
     pa_definition_digest = digest_fill 7, pa_action_id = i, pa_step_id = StepId ''stp_d'',
     pa_attempt = attempt, pa_kind = ExternalEffectKind, pa_payload_digest = digest_fill 8 \<rparr>"

definition ex_process_definition :: process_definition where
  "ex_process_definition = \<lparr> pd_definition_id = DefinitionId ''def_c'',
     pd_definition_version = DefinitionVersion ''dfv_1'', pd_definition_digest = digest_fill 7,
     pd_step_ids = [StepId ''stp_d'', StepId ''stp_e''] \<rparr>"

lemmas ex_identifier_eval = validate_identifier_def MAX_IDENTIFIER_LENGTH_def identifier_byte_def

lemma ex_action_wf: "action_wf (ex_action i n)"
  by (simp add: action_wf_def scope_wf_def step_wf_def action_scope_def ex_action_def
      ex_identifier_eval less_eq_char_def)

lemma ex_process_definition_wf: "process_definition_wf ex_process_definition"
  by (simp add: process_definition_wf_def step_wf_def ex_process_definition_def
      ex_identifier_eval less_eq_char_def)

text \<open>
  The canonical effect key bytes are a collision-free semantic idempotency key: for actions with
  well-formed identifiers, the bytes computed from the action are those of its effect key, and two
  actions have the same bytes exactly when tenant, process, definition, version, digest, step,
  attempt, kind and payload all agree, whatever their action identities.
\<close>

theorem effect_key_bytes_identify:
  assumes "action_wf a" "action_wf b"
  shows "action_effect_key_bytes a = effect_key_bytes (effect_key_of a)
    \<and> (action_effect_key_bytes a = action_effect_key_bytes b \<longleftrightarrow> effect_key_of a = effect_key_of b)"
proof -
  have key: "action_effect_key_bytes x = effect_key_bytes (effect_key_of x)" for x
    by (simp add: action_effect_key_bytes_def effect_key_bytes_def effect_key_of_def)
  then show ?thesis using effect_bytes_inject [OF assms] by auto
qed

theorem effect_key_bytes_identify_witness:
  "action_effect_key_bytes (ex_action (ActionId ''act_1'') 0)
     \<noteq> action_effect_key_bytes (ex_action (ActionId ''act_1'') 1)"
proof -
  have "effect_key_of (ex_action (ActionId ''act_1'') 0) \<noteq> effect_key_of (ex_action (ActionId ''act_1'') 1)"
    by (simp add: effect_key_of_def ex_action_def)
  then show ?thesis
    using effect_key_bytes_identify [OF ex_action_wf ex_action_wf, THEN conjunct2] by blast
qed

text \<open>
  A canonical definition digest pins the definition: when two definitions with well-formed
  identifiers both pass validation and the digest check, carry the same digest, and SHA-256 does not
  collide on their two canonical byte strings, then each is exactly compatible with the other.
\<close>

theorem canonical_digest_pins_definition:
  assumes "process_definition_wf d" "process_definition_wf d'"
    and "process_definition_validate d = Inr ()" "process_definition_validate d' = Inr ()"
    and "require_canonical_digest sha d = Inr ()" "require_canonical_digest sha d' = Inr ()"
    and "pd_definition_digest d = pd_definition_digest d'"
    and "sha (definition_canonical_bytes d) = sha (definition_canonical_bytes d') \<longrightarrow>
      definition_canonical_bytes d = definition_canonical_bytes d'"
  shows "d = d' \<and> require_exact_compatibility d d' = Inr ()"
proof -
  have len: "length (pd_step_ids d) < 2 ^ 32" "length (pd_step_ids d') < 2 ^ 32"
    using assms(3,4) by (auto simp: process_definition_validate_def MAX_DEFINITION_STEPS_def split: if_splits)
  have "definition_canonical_bytes d = definition_canonical_bytes d'"
    using assms(5-8) by (auto simp: require_canonical_digest_def computed_digest_def split: if_splits)
  then have "d = d'"
    using definition_bytes_inject [OF assms(1,2) len] assms(7) by (cases d; cases d') auto
  then show ?thesis by (simp add: require_exact_compatibility_def compatibility_with_def)
qed

theorem canonical_digest_pins_definition_witness:
  "require_exact_compatibility ex_process_definition ex_process_definition = Inr ()"
  by (rule canonical_digest_pins_definition [where sha = "\<lambda>_. digest_fill 7", THEN conjunct2])
    (use ex_process_definition_wf in \<open>simp_all add: process_definition_validate_def
      require_canonical_digest_def computed_digest_def ex_process_definition_def MAX_DEFINITION_STEPS_def\<close>)

end
