(* ===== verification/Saga_Engine.thy ===== *)
theory Saga_Engine
  imports Saga_Domain
begin

text \<open>
  The linear saga engine of \<open>penelope-executor/src/engine.rs\<close>: retry timing, definitions and their
  validation, the pure decision function with its five transitions, the outcome plan of a
  decision, and replay of an ordered process log.

  A \<open>usize\<close> index is a \<open>nat\<close>. A struct update with \<open>..projection.clone()\<close> is a record update.
  The transitions repeat the check of the pinned definition; it is \<open>definition_matches\<close> here.
\<close>

unbundle bit_operations_syntax

section \<open>Errors\<close>

datatype engine_error =
    ManualReviewNotRequired | OutcomeInputCausationMismatch | EngineOutcomeScopeMismatch
  | OutcomeSequenceOverflow | OutcomeKindPlanMismatch | InvalidRetryBackoff | RetryDueTimeOverflow
  | EmptyDefinition | EngineStepLimitExceeded | EngineDuplicateStepId | RetryAttemptLimitExceeded
  | InvalidProjection | TerminalProjection | AttemptOverflow | UnexpectedAction | MissingNextAction
  | ReusedActionId | MissingStart | DuplicateStart | DuplicateInput | InvalidEventSequence
  | EventSequenceOverflow | DefinitionMismatch | MissingProjection | StartWithProjection
  | RetryTimerRequired | RetryTimerNotConfigured | RetryTimerNotRequired
  | RetryTimerRequiresRetryableFailure | RetryTimerMustFire | UnexpectedRetryTimer
  | RetryTimerFiredEarly | ManualResolutionRequiresEscalation

section \<open>Retry timing\<close>

type_synonym retry_jitter = "64 nonzero"
type_synonym retry_jitter_seed = content_digest

record retry_backoff =
  bo_base_delay_millis :: "64 nonzero"
  bo_max_delay_millis :: "64 nonzero"
  bo_jitter :: "retry_jitter option"

record retry_policy =
  rp_max_attempts :: "32 nonzero"
  rp_backoff :: "retry_backoff option"

definition retry_backoff_new :: "64 nonzero \<Rightarrow> 64 nonzero \<Rightarrow> engine_error + retry_backoff" where
  "retry_backoff_new base cap =
     (if nz_get cap < nz_get base then Inl InvalidRetryBackoff
      else Inr \<lparr> bo_base_delay_millis = base, bo_max_delay_millis = cap, bo_jitter = None \<rparr>)"

definition with_jitter :: "retry_backoff \<Rightarrow> retry_jitter \<Rightarrow> retry_backoff" where
  "with_jitter b j = b\<lparr>bo_jitter := Some j\<rparr>"

definition retry_policy_new :: "32 nonzero \<Rightarrow> retry_policy" where
  "retry_policy_new n = \<lparr> rp_max_attempts = n, rp_backoff = None \<rparr>"

definition no_retry :: retry_policy where
  "no_retry = \<lparr> rp_max_attempts = NonZero 1, rp_backoff = None \<rparr>"

definition with_backoff :: "retry_policy \<Rightarrow> retry_backoff \<Rightarrow> retry_policy" where
  "with_backoff p b = p\<lparr>rp_backoff := Some b\<rparr>"

text \<open>\<open>u64::checked_shl\<close>: only the shift amount is checked, bits pushed out are lost.\<close>

definition checked_shl :: "u64 \<Rightarrow> u32 \<Rightarrow> u64 option" where
  "checked_shl x n = (if unat n < 64 then Some (push_bit (unat n) x) else None)"

definition deterministic_jitter :: "retry_jitter \<Rightarrow> retry_jitter_seed \<Rightarrow> u32 \<Rightarrow> u64" where
  "deterministic_jitter limit seed ordinal =
     (let m0 = u64_from_le_bytes (take 8 (digest_bytes seed));
          m1 = m0 XOR (ucast ordinal * 0x9E3779B97F4A7C15);
          m2 = m1 XOR drop_bit 30 m1;
          m3 = m2 * 0xBF58476D1CE4E5B9;
          m4 = m3 XOR drop_bit 27 m3;
          m5 = m4 * 0x94D049BB133111EB;
          m6 = m5 XOR drop_bit 31 m5
      in m6 mod nz_get limit)"

definition retry_delay :: "retry_backoff \<Rightarrow> u32 \<Rightarrow> u64" where
  "retry_delay b ordinal =
     min (case checked_shl (nz_get (bo_base_delay_millis b)) ordinal of Some x \<Rightarrow> x | None \<Rightarrow> - 1)
         (nz_get (bo_max_delay_millis b))"

definition retry_due_at ::
  "retry_policy \<Rightarrow> logical_time \<Rightarrow> u32 \<Rightarrow> retry_jitter_seed \<Rightarrow> engine_error + logical_time option" where
  "retry_due_at p now ordinal seed =
     (case rp_backoff p of
        None \<Rightarrow> Inr None
      | Some b \<Rightarrow>
          (let delay = retry_delay b ordinal;
               jitter = (case bo_jitter b of None \<Rightarrow> 0 | Some j \<Rightarrow> deterministic_jitter j seed ordinal)
           in bindR (ok_or RetryDueTimeOverflow
                (case checked_add now delay of None \<Rightarrow> None | Some due \<Rightarrow> checked_add due jitter))
              (\<lambda>due. Inr (Some due))))"

section \<open>Definitions\<close>

record compensation_plan =
  cp_action_kind :: process_action_kind
  cp_payload_digest :: content_digest
  cp_retry_policy :: retry_policy

record step_plan =
  sp_step_id :: step_id
  sp_action_kind :: process_action_kind
  sp_payload_digest :: content_digest
  sp_retry_policy :: retry_policy
  sp_compensation :: "compensation_plan option"

definition compensation_command :: "content_digest \<Rightarrow> retry_policy \<Rightarrow> compensation_plan" where
  "compensation_command payload policy =
     \<lparr> cp_action_kind = CanonicalCommandKind, cp_payload_digest = payload, cp_retry_policy = policy \<rparr>"

definition step_command :: "step_id \<Rightarrow> content_digest \<Rightarrow> retry_policy \<Rightarrow> step_plan" where
  "step_command i payload policy =
     \<lparr> sp_step_id = i, sp_action_kind = CanonicalCommandKind, sp_payload_digest = payload,
       sp_retry_policy = policy, sp_compensation = None \<rparr>"

definition with_compensation :: "step_plan \<Rightarrow> compensation_plan \<Rightarrow> step_plan" where
  "with_compensation s c = s\<lparr>sp_compensation := Some c\<rparr>"

record linear_saga_definition =
  ls_definition_id :: definition_id
  ls_definition_version :: definition_version
  ls_definition_digest :: content_digest
  ls_steps :: "step_plan list"

text \<open>The scratch array of identities, its strict-descent shortcut, and the sorted scan.\<close>

definition large_linear_steps_have_duplicate_ids :: "step_plan list \<Rightarrow> engine_error + bool" where
  "large_linear_steps_have_duplicate_ids steps =
     (if steps = [] then Inl EmptyDefinition
      else if MAX_DEFINITION_STEPS < length steps then Inl EngineStepLimitExceeded
      else let ids = map sp_step_id steps in
        if list_all (\<lambda>(left, right). right < left) (zip ids (drop 1 ids)) then Inr False
        else let sorted_ids = sort ids in
          Inr (list_ex (\<lambda>(left, right). left = right) (zip sorted_ids (drop 1 sorted_ids))))"

definition attempts_exceeded :: "step_plan \<Rightarrow> bool" where
  "attempts_exceeded s \<longleftrightarrow>
     MAX_ACTION_ATTEMPTS_PER_STEP < nz_get (rp_max_attempts (sp_retry_policy s))
     \<or> (case sp_compensation s of None \<Rightarrow> False
        | Some c \<Rightarrow> MAX_ACTION_ATTEMPTS_PER_STEP < nz_get (rp_max_attempts (cp_retry_policy c)))"

definition saga_validate :: "linear_saga_definition \<Rightarrow> engine_error + unit" where
  "saga_validate d =
     bindR (let n = length (ls_steps d) in
        if n = 0 then Inl EmptyDefinition
        else if n \<le> 16 then
          Inr (list_ex (\<lambda>(i, s). list_ex (\<lambda>s'. sp_step_id s' = sp_step_id s) (drop (i + 1) (ls_steps d)))
                 (zip [0..<n] (ls_steps d)))
        else if n \<le> MAX_DEFINITION_STEPS then large_linear_steps_have_duplicate_ids (ls_steps d)
        else Inl EngineStepLimitExceeded) (\<lambda>duplicate.
       if duplicate then Inl EngineDuplicateStepId
       else if list_ex attempts_exceeded (ls_steps d) then Inl RetryAttemptLimitExceeded
       else Inr ())"

section \<open>State, inputs, events\<close>

datatype saga_status = SgRunning | SgCompleted | SgEscalated | SgCancelled | SgCompensated | SgCompensating

record linear_saga_projection =
  sg_definition_id :: definition_id
  sg_definition_version :: definition_version
  sg_definition_digest :: content_digest
  sg_next_step_index :: nat
  sg_current_attempt :: u32
  sg_retry_due_at :: "logical_time option"
  sg_active_action_id :: "action_id option"
  sg_issued_action_ids :: "action_id list"
  sg_compensable_step_indices :: "nat list"
  sg_status :: saga_status

datatype action_result = ArSucceeded | ArRetryableFailure | ArTerminalFailure | ArUnknown

datatype manual_review_resolution = RetryAction | Compensate | Cancel | Escalate

record action_result_observation =
  ob_action_id :: action_id
  ob_result :: action_result

record retry_timer_schedule_request =
  rq_observation :: action_result_observation
  rq_next_action_id :: "action_id option"
  rq_observed_at :: logical_time
  rq_jitter_seed :: retry_jitter_seed
  rq_retry_deadline :: "logical_time option"

definition schedule_request_new ::
  "action_result_observation \<Rightarrow> action_id option \<Rightarrow> logical_time \<Rightarrow> retry_jitter_seed \<Rightarrow> retry_timer_schedule_request" where
  "schedule_request_new obs next_id observed_at seed =
     \<lparr> rq_observation = obs, rq_next_action_id = next_id, rq_observed_at = observed_at,
       rq_jitter_seed = seed, rq_retry_deadline = None \<rparr>"

definition with_optional_deadline ::
  "retry_timer_schedule_request \<Rightarrow> logical_time option \<Rightarrow> retry_timer_schedule_request" where
  "with_optional_deadline rq deadline = rq\<lparr>rq_retry_deadline := deadline\<rparr>"

datatype linear_saga_input =
    InStart input_id action_id
  | InActionResult input_id action_result_observation "action_id option"
  | InRetryTimerScheduled input_id action_result_observation "action_id option" logical_time
      retry_jitter_seed "logical_time option"
  | InRetryTimerFired input_id action_id logical_time action_id
  | InManualResolution input_id manual_review_resolution "action_id option"

datatype linear_saga_event =
    EvStarted input_id definition_id definition_version content_digest action_id
  | EvActionResultObserved input_id action_result_observation "action_id option"
  | EvRetryTimerScheduled input_id action_result_observation "action_id option" logical_time
      retry_jitter_seed "logical_time option"
  | EvRetryTimerFired input_id action_id logical_time action_id
  | EvManualResolutionApplied input_id manual_review_resolution "action_id option"

record linear_saga_event_envelope =
  env_sequence :: u64
  env_event :: linear_saga_event

definition event_started :: "linear_saga_definition \<Rightarrow> input_id \<Rightarrow> action_id \<Rightarrow> linear_saga_event" where
  "event_started d i a =
     EvStarted i (ls_definition_id d) (ls_definition_version d) (ls_definition_digest d) a"

fun to_event :: "linear_saga_definition \<Rightarrow> linear_saga_input \<Rightarrow> linear_saga_event" where
  "to_event d (InStart i a) = event_started d i a"
| "to_event d (InActionResult i obs nxt) = EvActionResultObserved i obs nxt"
| "to_event d (InRetryTimerScheduled i obs nxt at seed deadline) =
     EvRetryTimerScheduled i obs nxt at seed deadline"
| "to_event d (InRetryTimerFired i timer at nxt) = EvRetryTimerFired i timer at nxt"
| "to_event d (InManualResolution i r nxt) = EvManualResolutionApplied i r nxt"

fun event_input_id :: "linear_saga_event \<Rightarrow> input_id option" where
  "event_input_id (EvStarted i _ _ _ _) = Some i"
| "event_input_id (EvActionResultObserved i _ _) = Some i"
| "event_input_id (EvRetryTimerScheduled i _ _ _ _ _) = Some i"
| "event_input_id (EvRetryTimerFired i _ _ _) = Some i"
| "event_input_id (EvManualResolutionApplied i _ _) = Some i"

fun observed_outcome_kinds :: "linear_saga_event \<Rightarrow> process_outcome_kind list" where
  "observed_outcome_kinds (EvStarted _ _ _ _ _) = [OkInputAccepted, OkStarted]"
| "observed_outcome_kinds (EvActionResultObserved _ obs _) =
     (case ob_result obs of
        ArSucceeded \<Rightarrow> [OkInputAccepted, OkActionSucceeded]
      | ArRetryableFailure \<Rightarrow> [OkInputAccepted, OkActionFailed]
      | ArTerminalFailure \<Rightarrow> [OkInputAccepted, OkActionFailed]
      | ArUnknown \<Rightarrow> [OkInputAccepted, OkActionOutcomeUnknown])"
| "observed_outcome_kinds (EvRetryTimerScheduled _ _ _ _ _ _) = [OkInputAccepted, OkActionFailed]"
| "observed_outcome_kinds (EvRetryTimerFired _ _ _ _) = [OkInputAccepted, OkTimerFired]"
| "observed_outcome_kinds (EvManualResolutionApplied _ _ _) =
     [OkInputAccepted, OkManualResolutionApplied]"

record saga_decision =
  sd_projection :: linear_saga_projection
  sd_next_action :: "process_action option"

section \<open>Transitions\<close>

definition get_step :: "linear_saga_definition \<Rightarrow> nat \<Rightarrow> step_plan option" where
  "get_step d i = (if i < length (ls_steps d) then Some (ls_steps d ! i) else None)"

definition last_index :: "nat list \<Rightarrow> nat option" where
  "last_index xs = (if xs = [] then None else Some (last xs))"

definition fresh_action_id ::
  "linear_saga_projection \<Rightarrow> action_id option \<Rightarrow> engine_error + action_id" where
  "fresh_action_id p next_id =
     bindR (ok_or MissingNextAction next_id) (\<lambda>a.
       if a \<in> set (sg_issued_action_ids p) then Inl ReusedActionId else Inr a)"

definition issued_ids_after :: "linear_saga_projection \<Rightarrow> action_id \<Rightarrow> action_id list" where
  "issued_ids_after p a = sg_issued_action_ids p @ [a]"

definition terminal_projection ::
  "linear_saga_projection \<Rightarrow> nat \<Rightarrow> nat list \<Rightarrow> saga_status \<Rightarrow> linear_saga_projection" where
  "terminal_projection p next_index compensable st =
     p\<lparr>sg_next_step_index := next_index, sg_active_action_id := None,
       sg_compensable_step_indices := compensable, sg_status := st\<rparr>"

definition action_for ::
  "linear_saga_definition \<Rightarrow> linear_saga_projection \<Rightarrow> tenant_id \<Rightarrow> process_id \<Rightarrow> engine_error + process_action" where
  "action_for d p tenant process =
     bindR (if sg_retry_due_at p \<noteq> None then
              bindR (ok_or InvalidProjection (get_step d (sg_next_step_index p))) (\<lambda>step.
                Inr (sp_step_id step, TimerKind, sp_payload_digest step))
            else if sg_status p = SgCompensating then
              bindR (ok_or InvalidProjection (last_index (sg_compensable_step_indices p))) (\<lambda>i.
              bindR (ok_or InvalidProjection (get_step d i)) (\<lambda>step.
              bindR (ok_or InvalidProjection (sp_compensation step)) (\<lambda>c.
                Inr (sp_step_id step, cp_action_kind c, cp_payload_digest c))))
            else
              bindR (ok_or InvalidProjection (get_step d (sg_next_step_index p))) (\<lambda>step.
                Inr (sp_step_id step, sp_action_kind step, sp_payload_digest step)))
       (\<lambda>(step, kind, payload).
         bindR (ok_or InvalidProjection (sg_active_action_id p)) (\<lambda>a.
           Inr (action_new
             \<lparr> ps_tenant_id = tenant, ps_process_id = process,
               ps_definition_id = sg_definition_id p, ps_definition_version = sg_definition_version p,
               ps_definition_digest = sg_definition_digest p \<rparr>
             a step (sg_current_attempt p) kind payload)))"

text \<open>\<open>SagaDecision { next_action: Some(action_for(..)?), projection }\<close>\<close>

definition plan ::
  "linear_saga_definition \<Rightarrow> tenant_id \<Rightarrow> process_id \<Rightarrow> linear_saga_projection \<Rightarrow> engine_error + saga_decision" where
  "plan d tenant process p =
     bindR (action_for d p tenant process) (\<lambda>a. Inr \<lparr> sd_projection = p, sd_next_action = Some a \<rparr>)"

definition stop :: "linear_saga_projection \<Rightarrow> engine_error + saga_decision" where
  "stop p = Inr \<lparr> sd_projection = p, sd_next_action = None \<rparr>"

definition compensation_for ::
  "linear_saga_definition \<Rightarrow> linear_saga_projection \<Rightarrow> engine_error + compensation_plan" where
  "compensation_for d p =
     bindR (ok_or InvalidProjection (last_index (sg_compensable_step_indices p))) (\<lambda>i.
     bindR (ok_or InvalidProjection (get_step d i)) (\<lambda>step.
       ok_or InvalidProjection (sp_compensation step)))"

definition begin_compensation ::
  "linear_saga_definition \<Rightarrow> linear_saga_projection \<Rightarrow> tenant_id \<Rightarrow> process_id \<Rightarrow> action_id option \<Rightarrow>
     engine_error + saga_decision" where
  "begin_compensation d p tenant process next_id =
     (if sg_compensable_step_indices p = [] then
        stop (terminal_projection p (sg_next_step_index p) [] SgEscalated)
      else bindR (fresh_action_id p next_id) (\<lambda>a.
        plan d tenant process
          (p\<lparr>sg_current_attempt := 0, sg_active_action_id := Some a,
             sg_issued_action_ids := issued_ids_after p a, sg_status := SgCompensating\<rparr>)))"

definition apply_forward_result ::
  "linear_saga_definition \<Rightarrow> linear_saga_projection \<Rightarrow> tenant_id \<Rightarrow> process_id \<Rightarrow> action_result \<Rightarrow>
     action_id option \<Rightarrow> engine_error + saga_decision" where
  "apply_forward_result d p tenant process result next_id =
     (case result of
        ArSucceeded \<Rightarrow>
          bindR (ok_or InvalidProjection (get_step d (sg_next_step_index p))) (\<lambda>step.
            let compensable = sg_compensable_step_indices p
                  @ (if sp_compensation step \<noteq> None then [sg_next_step_index p] else []);
                next_index = sg_next_step_index p + 1
            in if next_index = length (ls_steps d) then
                 stop (terminal_projection p next_index compensable SgCompleted)
               else bindR (fresh_action_id p next_id) (\<lambda>a.
                 plan d tenant process
                   (p\<lparr>sg_next_step_index := next_index, sg_current_attempt := 0,
                      sg_active_action_id := Some a, sg_issued_action_ids := issued_ids_after p a,
                      sg_compensable_step_indices := compensable, sg_status := SgRunning\<rparr>)))
      | ArRetryableFailure \<Rightarrow>
          bindR (ok_or InvalidProjection (get_step d (sg_next_step_index p))) (\<lambda>step.
          bindR (ok_or AttemptOverflow (checked_add (sg_current_attempt p) 1)) (\<lambda>attempt.
            if nz_get (rp_max_attempts (sp_retry_policy step)) \<le> attempt then
              begin_compensation d p tenant process next_id
            else if rp_backoff (sp_retry_policy step) \<noteq> None then Inl RetryTimerRequired
            else bindR (fresh_action_id p next_id) (\<lambda>a.
              plan d tenant process
                (p\<lparr>sg_current_attempt := attempt, sg_active_action_id := Some a,
                   sg_issued_action_ids := issued_ids_after p a, sg_status := SgRunning\<rparr>))))
      | ArTerminalFailure \<Rightarrow> begin_compensation d p tenant process next_id
      | ArUnknown \<Rightarrow>
          stop (terminal_projection p (sg_next_step_index p) (sg_compensable_step_indices p) SgEscalated))"

definition apply_compensation_result ::
  "linear_saga_definition \<Rightarrow> linear_saga_projection \<Rightarrow> tenant_id \<Rightarrow> process_id \<Rightarrow> action_result \<Rightarrow>
     action_id option \<Rightarrow> engine_error + saga_decision" where
  "apply_compensation_result d p tenant process result next_id =
     bindR (compensation_for d p) (\<lambda>compensation.
       case result of
         ArSucceeded \<Rightarrow>
           (let remaining = butlast (sg_compensable_step_indices p)
            in if remaining = [] then
                 stop (terminal_projection p (sg_next_step_index p) remaining SgCompensated)
               else bindR (fresh_action_id p next_id) (\<lambda>a.
                 plan d tenant process
                   (p\<lparr>sg_current_attempt := 0, sg_active_action_id := Some a,
                      sg_issued_action_ids := issued_ids_after p a,
                      sg_compensable_step_indices := remaining, sg_status := SgCompensating\<rparr>)))
       | ArRetryableFailure \<Rightarrow>
           bindR (ok_or AttemptOverflow (checked_add (sg_current_attempt p) 1)) (\<lambda>attempt.
             if nz_get (rp_max_attempts (cp_retry_policy compensation)) \<le> attempt then
               stop (terminal_projection p (sg_next_step_index p) (sg_compensable_step_indices p)
                 SgEscalated)
             else if rp_backoff (cp_retry_policy compensation) \<noteq> None then Inl RetryTimerRequired
             else bindR (fresh_action_id p next_id) (\<lambda>a.
               plan d tenant process
                 (p\<lparr>sg_current_attempt := attempt, sg_active_action_id := Some a,
                    sg_issued_action_ids := issued_ids_after p a, sg_status := SgCompensating\<rparr>)))
       | ArTerminalFailure \<Rightarrow>
           stop (terminal_projection p (sg_next_step_index p) (sg_compensable_step_indices p) SgEscalated)
       | ArUnknown \<Rightarrow>
           stop (terminal_projection p (sg_next_step_index p) (sg_compensable_step_indices p) SgEscalated))"

definition definition_matches :: "linear_saga_definition \<Rightarrow> linear_saga_projection \<Rightarrow> bool" where
  "definition_matches d p \<longleftrightarrow>
     sg_definition_id p = ls_definition_id d \<and> sg_definition_version p = ls_definition_version d
     \<and> sg_definition_digest p = ls_definition_digest d"

definition saga_start ::
  "linear_saga_definition \<Rightarrow> tenant_id \<Rightarrow> process_id \<Rightarrow> action_id \<Rightarrow> engine_error + saga_decision" where
  "saga_start d tenant process a =
     bindR (saga_validate d) (\<lambda>_.
       plan d tenant process
         \<lparr> sg_definition_id = ls_definition_id d, sg_definition_version = ls_definition_version d,
           sg_definition_digest = ls_definition_digest d, sg_next_step_index = 0,
           sg_current_attempt = 0, sg_retry_due_at = None, sg_active_action_id = Some a,
           sg_issued_action_ids = [a], sg_compensable_step_indices = [], sg_status = SgRunning \<rparr>)"

definition apply_action_result ::
  "linear_saga_definition \<Rightarrow> linear_saga_projection \<Rightarrow> tenant_id \<Rightarrow> process_id \<Rightarrow>
     action_result_observation \<Rightarrow> action_id option \<Rightarrow> engine_error + saga_decision" where
  "apply_action_result d p tenant process obs next_id =
     bindR (saga_validate d) (\<lambda>_.
       if \<not> definition_matches d p then Inl DefinitionMismatch
       else if sg_status p \<noteq> SgRunning \<and> sg_status p \<noteq> SgCompensating then Inl TerminalProjection
       else if length (ls_steps d) \<le> sg_next_step_index p then Inl InvalidProjection
       else if sg_active_action_id p \<noteq> Some (ob_action_id obs) then Inl UnexpectedAction
       else if sg_retry_due_at p \<noteq> None then Inl RetryTimerMustFire
       else if sg_status p = SgRunning then
         apply_forward_result d p tenant process (ob_result obs) next_id
       else apply_compensation_result d p tenant process (ob_result obs) next_id)"

definition schedule_retry_timer ::
  "linear_saga_definition \<Rightarrow> linear_saga_projection \<Rightarrow> tenant_id \<Rightarrow> process_id \<Rightarrow>
     retry_timer_schedule_request \<Rightarrow> engine_error + saga_decision" where
  "schedule_retry_timer d p tenant process rq =
     bindR (saga_validate d) (\<lambda>_.
       if \<not> definition_matches d p then Inl DefinitionMismatch
       else if sg_status p \<noteq> SgRunning then Inl TerminalProjection
       else if length (ls_steps d) \<le> sg_next_step_index p then Inl InvalidProjection
       else if sg_active_action_id p \<noteq> Some (ob_action_id (rq_observation rq)) then Inl UnexpectedAction
       else if sg_retry_due_at p \<noteq> None then Inl RetryTimerMustFire
       else if ob_result (rq_observation rq) \<noteq> ArRetryableFailure
       then Inl RetryTimerRequiresRetryableFailure
       else bindR (ok_or InvalidProjection (get_step d (sg_next_step_index p))) (\<lambda>step.
         if rp_backoff (sp_retry_policy step) = None then Inl RetryTimerNotConfigured
         else bindR (ok_or AttemptOverflow (checked_add (sg_current_attempt p) 1)) (\<lambda>attempt.
           if nz_get (rp_max_attempts (sp_retry_policy step)) \<le> attempt then Inl RetryTimerNotRequired
           else bindR (retry_due_at (sp_retry_policy step) (rq_observed_at rq) (sg_current_attempt p)
                         (rq_jitter_seed rq)) (\<lambda>due_opt.
             bindR (ok_or RetryTimerNotConfigured due_opt) (\<lambda>due.
               if (case rq_retry_deadline rq of None \<Rightarrow> False | Some deadline \<Rightarrow> deadline < due) then
                 begin_compensation d p tenant process (rq_next_action_id rq)
               else bindR (fresh_action_id p (rq_next_action_id rq)) (\<lambda>a.
                 plan d tenant process
                   (p\<lparr>sg_current_attempt := attempt, sg_retry_due_at := Some due,
                      sg_active_action_id := Some a,
                      sg_issued_action_ids := issued_ids_after p a\<rparr>)))))))"

definition fire_retry_timer ::
  "linear_saga_definition \<Rightarrow> linear_saga_projection \<Rightarrow> tenant_id \<Rightarrow> process_id \<Rightarrow> action_id \<Rightarrow>
     logical_time \<Rightarrow> action_id \<Rightarrow> engine_error + saga_decision" where
  "fire_retry_timer d p tenant process timer fired_at next_id =
     bindR (saga_validate d) (\<lambda>_.
       if \<not> definition_matches d p then Inl DefinitionMismatch
       else if sg_status p \<noteq> SgRunning then Inl TerminalProjection
       else if length (ls_steps d) \<le> sg_next_step_index p then Inl InvalidProjection
       else if sg_active_action_id p \<noteq> Some timer then Inl UnexpectedRetryTimer
       else bindR (ok_or UnexpectedRetryTimer (sg_retry_due_at p)) (\<lambda>due.
         if fired_at < due then Inl RetryTimerFiredEarly
         else bindR (fresh_action_id p (Some next_id)) (\<lambda>a.
           plan d tenant process
             (p\<lparr>sg_retry_due_at := None, sg_active_action_id := Some a,
                sg_issued_action_ids := issued_ids_after p a\<rparr>))))"

definition apply_manual_resolution ::
  "linear_saga_definition \<Rightarrow> linear_saga_projection \<Rightarrow> tenant_id \<Rightarrow> process_id \<Rightarrow>
     manual_review_resolution \<Rightarrow> action_id option \<Rightarrow> engine_error + saga_decision" where
  "apply_manual_resolution d p tenant process resolution next_id =
     bindR (saga_validate d) (\<lambda>_.
       if \<not> definition_matches d p then Inl DefinitionMismatch
       else if sg_status p \<noteq> SgEscalated then Inl ManualResolutionRequiresEscalation
       else if length (ls_steps d) \<le> sg_next_step_index p then Inl InvalidProjection
       else case resolution of
         RetryAction \<Rightarrow>
           bindR (fresh_action_id p next_id) (\<lambda>a.
             plan d tenant process
               (p\<lparr>sg_active_action_id := Some a, sg_issued_action_ids := issued_ids_after p a,
                  sg_status := SgRunning\<rparr>))
       | Compensate \<Rightarrow>
           if sg_compensable_step_indices p = [] then
             stop (terminal_projection p (sg_next_step_index p) [] SgCancelled)
           else bindR (fresh_action_id p next_id) (\<lambda>a.
             plan d tenant process
               (p\<lparr>sg_current_attempt := 0, sg_active_action_id := Some a,
                  sg_issued_action_ids := issued_ids_after p a, sg_status := SgCompensating\<rparr>))
       | Cancel \<Rightarrow>
           stop (terminal_projection p (sg_next_step_index p) (sg_compensable_step_indices p) SgCancelled)
       | Escalate \<Rightarrow> stop p)"

fun decide ::
  "linear_saga_definition \<Rightarrow> linear_saga_projection option \<Rightarrow> tenant_id \<Rightarrow> process_id \<Rightarrow>
     linear_saga_input \<Rightarrow> engine_error + saga_decision" where
  "decide d p tenant process (InStart _ a) =
     (if p \<noteq> None then Inl StartWithProjection else saga_start d tenant process a)"
| "decide d p tenant process (InActionResult _ obs nxt) =
     bindR (ok_or MissingProjection p) (\<lambda>q. apply_action_result d q tenant process obs nxt)"
| "decide d p tenant process (InRetryTimerScheduled _ obs nxt at seed deadline) =
     bindR (ok_or MissingProjection p) (\<lambda>q. schedule_retry_timer d q tenant process
       (with_optional_deadline (schedule_request_new obs nxt at seed) deadline))"
| "decide d p tenant process (InRetryTimerFired _ timer at nxt) =
     bindR (ok_or MissingProjection p) (\<lambda>q. fire_retry_timer d q tenant process timer at nxt)"
| "decide d p tenant process (InManualResolution _ resolution nxt) =
     bindR (ok_or MissingProjection p) (\<lambda>q. apply_manual_resolution d q tenant process resolution nxt)"

section \<open>Replay\<close>

text \<open>
  The body of the replay loop: the set of accepted inputs and the current decision. The
  \<open>BTreeSet\<close> is used for membership only.
\<close>

fun replay_event ::
  "linear_saga_definition \<Rightarrow> tenant_id \<Rightarrow> process_id \<Rightarrow> saga_decision option \<Rightarrow> linear_saga_event \<Rightarrow>
     engine_error + saga_decision" where
  "replay_event d tenant process cur (EvStarted _ di dv dd a) =
     (if cur \<noteq> None then Inl DuplicateStart
      else if di \<noteq> ls_definition_id d \<or> dv \<noteq> ls_definition_version d \<or> dd \<noteq> ls_definition_digest d
      then Inl DefinitionMismatch
      else saga_start d tenant process a)"
| "replay_event d tenant process cur (EvActionResultObserved _ obs nxt) =
     bindR (ok_or MissingStart cur) (\<lambda>c.
       apply_action_result d (sd_projection c) tenant process obs nxt)"
| "replay_event d tenant process cur (EvRetryTimerScheduled _ obs nxt at seed deadline) =
     bindR (ok_or MissingStart cur) (\<lambda>c.
       schedule_retry_timer d (sd_projection c) tenant process
         (with_optional_deadline (schedule_request_new obs nxt at seed) deadline))"
| "replay_event d tenant process cur (EvRetryTimerFired _ timer at nxt) =
     bindR (ok_or MissingStart cur) (\<lambda>c.
       fire_retry_timer d (sd_projection c) tenant process timer at nxt)"
| "replay_event d tenant process cur (EvManualResolutionApplied _ resolution nxt) =
     bindR (ok_or MissingStart cur) (\<lambda>c.
       apply_manual_resolution d (sd_projection c) tenant process resolution nxt)"

type_synonym replay_state = "saga_decision option \<times> input_id list"

definition replay_step ::
  "linear_saga_definition \<Rightarrow> tenant_id \<Rightarrow> process_id \<Rightarrow> replay_state \<Rightarrow> linear_saga_event \<Rightarrow>
     engine_error + replay_state" where
  "replay_step d tenant process st ev =
     (case st of (cur, accepted) \<Rightarrow>
        bindR (ok_or InvalidProjection (event_input_id ev)) (\<lambda>i.
          if i \<in> set accepted then Inl DuplicateInput
          else bindR (replay_event d tenant process cur ev) (\<lambda>c. Inr (Some c, i # accepted))))"

definition saga_replay ::
  "linear_saga_definition \<Rightarrow> tenant_id \<Rightarrow> process_id \<Rightarrow> linear_saga_event list \<Rightarrow> engine_error + saga_decision" where
  "saga_replay d tenant process events =
     bindR (replay_from (replay_step d tenant process) (None, []) events) (\<lambda>(cur, _).
       ok_or MissingStart cur)"

fun ordered_events ::
  "u64 \<Rightarrow> linear_saga_event_envelope list \<Rightarrow> engine_error + linear_saga_event list" where
  "ordered_events expected [] = Inr []"
| "ordered_events expected (e # es) =
     (if env_sequence e \<noteq> expected then Inl InvalidEventSequence
      else bindR (ok_or EventSequenceOverflow (checked_add expected 1)) (\<lambda>n.
        bindR (ordered_events n es) (\<lambda>evs. Inr (env_event e # evs))))"

definition saga_replay_ordered ::
  "linear_saga_definition \<Rightarrow> tenant_id \<Rightarrow> process_id \<Rightarrow> linear_saga_event_envelope list \<Rightarrow>
     engine_error + saga_decision" where
  "saga_replay_ordered d tenant process envelopes =
     bindR (ordered_events 0 envelopes) (saga_replay d tenant process)"

section \<open>What a decision requires of the outcome log\<close>

record timer_schedule =
  ts_action :: process_action
  ts_due_at :: logical_time

definition retry_timer_schedule :: "saga_decision \<Rightarrow> timer_schedule option" where
  "retry_timer_schedule dec =
     (case (sd_next_action dec, sg_retry_due_at (sd_projection dec)) of
        (Some a, Some due) \<Rightarrow> Some \<lparr> ts_action = a, ts_due_at = due \<rparr>
      | _ \<Rightarrow> None)"

definition scope_matches_projection :: "process_scope \<Rightarrow> linear_saga_projection \<Rightarrow> bool" where
  "scope_matches_projection s p \<longleftrightarrow>
     ps_definition_id s = sg_definition_id p \<and> ps_definition_version s = sg_definition_version p
     \<and> ps_definition_digest s = sg_definition_digest p"

definition manual_review_request ::
  "saga_decision \<Rightarrow> process_scope \<Rightarrow> review_id \<Rightarrow> u64 \<Rightarrow> logical_time option \<Rightarrow> content_digest \<Rightarrow>
     engine_error + manual_review" where
  "manual_review_request dec s rid opened expires evidence =
     (if sg_status (sd_projection dec) \<noteq> SgEscalated then Inl ManualReviewNotRequired
      else if \<not> scope_matches_projection s (sd_projection dec) then Inl EngineOutcomeScopeMismatch
      else Inr (review_new s rid opened expires evidence))"

definition planned_outcome_kinds :: "saga_decision \<Rightarrow> process_outcome_kind list" where
  "planned_outcome_kinds dec =
     (let p = sd_projection dec in
      if sd_next_action dec \<noteq> None then
        if sg_retry_due_at p \<noteq> None then [OkRetryScheduled, OkActionPlanned]
        else if sg_status p = SgCompensating then [OkCompensationPlanned]
        else [OkActionPlanned]
      else case sg_status p of
        SgCompleted \<Rightarrow> [OkCompleted]
      | SgCancelled \<Rightarrow> [OkCancelled]
      | SgCompensated \<Rightarrow> [OkCompensated]
      | SgEscalated \<Rightarrow> [OkEscalated]
      | SgRunning \<Rightarrow> []
      | SgCompensating \<Rightarrow> [])"

definition validate_required_outcomes ::
  "saga_decision \<Rightarrow> linear_saga_event \<Rightarrow> process_outcome list \<Rightarrow> engine_error + unit" where
  "validate_required_outcomes dec ev outcomes =
     (if map po_kind outcomes \<noteq> observed_outcome_kinds ev @ planned_outcome_kinds dec
      then Inl OutcomeKindPlanMismatch else Inr ())"

fun number_outcomes ::
  "process_scope \<Rightarrow> u64 \<Rightarrow> nat \<Rightarrow> process_outcome_fact list \<Rightarrow> engine_error + process_outcome list" where
  "number_outcomes s first index [] = Inr []"
| "number_outcomes s first index (f # fs) =
     bindR (if index < 2 ^ 64 then Inr (of_nat index :: u64) else Inl OutcomeSequenceOverflow) (\<lambda>offset.
     bindR (ok_or OutcomeSequenceOverflow (checked_add first offset)) (\<lambda>n.
     bindR (number_outcomes s first (index + 1) fs) (\<lambda>rest.
       Inr (outcome_new s n f # rest))))"

definition build_required_outcomes ::
  "saga_decision \<Rightarrow> linear_saga_event \<Rightarrow> process_scope \<Rightarrow> u64 \<Rightarrow> process_outcome_fact list \<Rightarrow>
     engine_error + process_outcome list" where
  "build_required_outcomes dec ev s first facts =
     (if \<not> scope_matches_projection s (sd_projection dec) then Inl EngineOutcomeScopeMismatch
      else if map pf_kind facts \<noteq> observed_outcome_kinds ev @ planned_outcome_kinds dec
      then Inl OutcomeKindPlanMismatch
      else if \<not> list_all (\<lambda>f. pf_kind f = OkInputAccepted \<longrightarrow>
                 (case event_input_id ev of None \<Rightarrow> False
                  | Some i \<Rightarrow> pf_causation_id f = CausedByInput i)) facts
      then Inl OutcomeInputCausationMismatch
      else number_outcomes s first 0 facts)"

end
