(* ===== verification/Saga_Invariants.thy ===== *)
theory Saga_Invariants
  imports Saga_Engine
begin

text \<open>
  The validation of a saga definition against its specification, the invariant of the saga
  projection, and its preservation by every transition of \<open>decide\<close>: each accepted input issues
  at most one fresh action identity, and the planned action is the one the projection awaits.
\<close>

section \<open>Validation\<close>

lemma list_all_adjacent: "list_all (\<lambda>(a, b). P a b) (zip xs (drop 1 xs)) \<longleftrightarrow> successively P xs"
  by (induction P xs rule: successively.induct) simp_all

lemma strict_descent_distinct:
  "successively (\<lambda>a b. b < a) xs \<Longrightarrow> distinct (xs :: 'a::linorder list)"
proof -
  assume "successively (\<lambda>a b. b < a) xs"
  then have "sorted_wrt (\<lambda>a b. b < a) xs"
    by (subst successively_conv_sorted_wrt [symmetric]) (auto simp: transp_def)
  then show "distinct xs" by (induction xs) auto
qed

lemma sorted_adjacent_duplicate:
  "sorted (xs :: 'a::linorder list) \<Longrightarrow>
     list_ex (\<lambda>(a, b). a = b) (zip xs (drop 1 xs)) \<longleftrightarrow> \<not> distinct xs"
proof (induction xs)
  case Nil
  then show ?case by simp
next
  case (Cons x xs)
  show ?case
  proof (cases xs)
    case Nil
    then show ?thesis by simp
  next
    case (Cons y ys)
    have "x \<in> set xs \<longleftrightarrow> x = y"
      using Cons Cons.prems by auto
    then show ?thesis using Cons.IH Cons.prems Cons by auto
  qed
qed

lemma large_duplicates:
  assumes "steps \<noteq> []" "length steps \<le> MAX_DEFINITION_STEPS"
  shows "large_linear_steps_have_duplicate_ids steps = Inr (\<not> distinct (map sp_step_id steps))"
  using assms strict_descent_distinct [of "map sp_step_id steps"]
    sorted_adjacent_duplicate [of "sort (map sp_step_id steps)"]
  unfolding large_linear_steps_have_duplicate_ids_def Let_def list_all_adjacent by auto

lemma small_duplicates:
  "list_ex (\<lambda>(i, s). list_ex (\<lambda>s'. f s' = f s) (drop (i + 1) xs)) (zip [0..<length xs] xs)
     \<longleftrightarrow> \<not> distinct (map f xs)"
proof -
  have "has_duplicate (map f xs) \<longleftrightarrow>
      list_ex (\<lambda>(i, s). list_ex (\<lambda>s'. f s' = f s) (drop (i + 1) xs)) (zip [0..<length xs] xs)"
    unfolding has_duplicate_def by (simp add: zip_map2 drop_map list_ex_iff split_beta del: has_duplicate_iff)
      (metis (no_types, lifting) imageE imageI)
  then show ?thesis by simp
qed

lemma saga_validate_eq:
  "saga_validate d =
     (if ls_steps d = [] then Inl EmptyDefinition
      else if 128 < length (ls_steps d) then Inl EngineStepLimitExceeded
      else if \<not> distinct (map sp_step_id (ls_steps d)) then Inl EngineDuplicateStepId
      else if list_ex attempts_exceeded (ls_steps d) then Inl RetryAttemptLimitExceeded
      else Inr ())"
proof -
  note small = small_duplicates [of sp_step_id "ls_steps d"]
  note large = large_duplicates [of "ls_steps d", unfolded MAX_DEFINITION_STEPS_def]
  show ?thesis
    unfolding saga_validate_def Let_def small MAX_DEFINITION_STEPS_def
    using large by (auto simp: length_0_conv)
qed


section \<open>The projection invariant\<close>

definition compensation_at :: "linear_saga_definition \<Rightarrow> nat \<Rightarrow> compensation_plan option" where
  "compensation_at d i = (if i < length (ls_steps d) then sp_compensation (ls_steps d ! i) else None)"

definition saga_inv :: "linear_saga_definition \<Rightarrow> linear_saga_projection \<Rightarrow> bool" where
  "saga_inv d p \<longleftrightarrow>
     saga_validate d = Inr () \<and> definition_matches d p
     \<and> distinct (sg_issued_action_ids p) \<and> sg_issued_action_ids p \<noteq> []
     \<and> sg_active_action_id p =
         (if sg_status p \<in> {SgRunning, SgCompensating} then Some (last (sg_issued_action_ids p)) else None)
     \<and> sg_next_step_index p \<le> length (ls_steps d)
     \<and> (sg_next_step_index p = length (ls_steps d) \<longleftrightarrow> sg_status p = SgCompleted)
     \<and> sorted_wrt (<) (sg_compensable_step_indices p)
     \<and> list_all (\<lambda>i. i < sg_next_step_index p \<and> compensation_at d i \<noteq> None) (sg_compensable_step_indices p)
     \<and> (sg_status p = SgCompensating \<longrightarrow> sg_compensable_step_indices p \<noteq> [])
     \<and> (sg_retry_due_at p \<noteq> None \<longrightarrow> sg_status p = SgRunning)
     \<and> unat (sg_current_attempt p) < 64"

text \<open>What a projection that awaits a result requires as its action.\<close>

definition planned_action :: "linear_saga_definition \<Rightarrow> linear_saga_projection \<Rightarrow> process_action \<Rightarrow> bool" where
  "planned_action d p a \<longleftrightarrow>
     sg_active_action_id p = Some (pa_action_id a) \<and> pa_attempt a = sg_current_attempt p
     \<and> pa_definition_id a = ls_definition_id d \<and> pa_definition_version a = ls_definition_version d
     \<and> pa_definition_digest a = ls_definition_digest d
     \<and> (if sg_status p = SgCompensating then
          (let i = last (sg_compensable_step_indices p) in
             pa_step_id a = sp_step_id (ls_steps d ! i)
             \<and> (\<exists>c. compensation_at d i = Some c \<and> pa_kind a = cp_action_kind c
                  \<and> pa_payload_digest a = cp_payload_digest c))
        else
          (let step = ls_steps d ! sg_next_step_index p in
             pa_step_id a = sp_step_id step \<and> pa_payload_digest a = sp_payload_digest step
             \<and> pa_kind a = (if sg_retry_due_at p \<noteq> None then TimerKind else sp_action_kind step)))"

definition decision_ok :: "linear_saga_definition \<Rightarrow> saga_decision \<Rightarrow> bool" where
  "decision_ok d dec \<longleftrightarrow>
     saga_inv d (sd_projection dec)
     \<and> (case sd_next_action dec of
          None \<Rightarrow> sg_status (sd_projection dec) \<notin> {SgRunning, SgCompensating}
        | Some a \<Rightarrow> sg_status (sd_projection dec) \<in> {SgRunning, SgCompensating}
            \<and> planned_action d (sd_projection dec) a)"

lemma get_step_Some [simp]: "get_step d i = Some s \<longleftrightarrow> i < length (ls_steps d) \<and> s = ls_steps d ! i"
  by (auto simp: get_step_def)

lemma fresh_action_id_Inr [result_simps]:
  "fresh_action_id p next_id = Inr a \<longleftrightarrow> next_id = Some a \<and> a \<notin> set (sg_issued_action_ids p)"
  by (auto simp: fresh_action_id_def bindR_eq_Inr ok_or_eq_Inr split: if_splits)

lemma action_for_ok:
  assumes "saga_inv d p" "sg_status p \<in> {SgRunning, SgCompensating}"
  shows "\<exists>a. action_for d p tenant process = Inr a \<and> planned_action d p a
    \<and> pa_tenant_id a = tenant \<and> pa_process_id a = process"
proof -
  have idx: "sg_next_step_index p < length (ls_steps d)"
    using assms by (auto simp: saga_inv_def)
  show ?thesis
  proof (cases "sg_status p = SgCompensating")
    case True
    then have "sg_compensable_step_indices p \<noteq> []" "sg_retry_due_at p = None"
      using assms(1) by (auto simp: saga_inv_def)
    moreover from this have "compensation_at d (last (sg_compensable_step_indices p)) \<noteq> None"
      using assms(1) by (auto simp: saga_inv_def list_all_iff)
    ultimately show ?thesis
      using True assms(1)
      by (auto simp: action_for_def last_index_def compensation_at_def planned_action_def saga_inv_def
          definition_matches_def action_new_def get_step_def Let_def split: if_splits)
  next
    case False
    then show ?thesis
      using assms idx
      by (auto simp: action_for_def planned_action_def saga_inv_def definition_matches_def
          action_new_def get_step_def Let_def)
  qed
qed

lemma plan_ok:
  assumes "saga_inv d p" "sg_status p \<in> {SgRunning, SgCompensating}"
  shows "\<exists>a. plan d tenant process p = Inr \<lparr> sd_projection = p, sd_next_action = Some a \<rparr>
    \<and> planned_action d p a"
  using action_for_ok [OF assms, of tenant process] by (auto simp: plan_def)

lemma plan_decision:
  assumes "plan d tenant process p = Inr dec" "saga_inv d p" "sg_status p \<in> {SgRunning, SgCompensating}"
  shows "decision_ok d dec \<and> sd_projection dec = p"
  using plan_ok [OF assms(2,3), of tenant process] assms by (auto simp: decision_ok_def)

lemma stop_decision:
  assumes "stop p = Inr dec" "saga_inv d p" "sg_status p \<notin> {SgRunning, SgCompensating}"
  shows "decision_ok d dec \<and> sd_projection dec = p"
  using assms by (auto simp: stop_def decision_ok_def)

lemma validated_attempts:
  assumes "saga_validate d = Inr ()" "i < length (ls_steps d)"
  shows "unat (nz_get (rp_max_attempts (sp_retry_policy (ls_steps d ! i)))) \<le> 64"
    and "compensation_at d i = Some c \<Longrightarrow> unat (nz_get (rp_max_attempts (cp_retry_policy c))) \<le> 64"
proof -
  have "\<not> attempts_exceeded (ls_steps d ! i)"
    using assms by (auto simp: saga_validate_eq list_ex_iff split: if_splits)
  then show "unat (nz_get (rp_max_attempts (sp_retry_policy (ls_steps d ! i)))) \<le> 64"
    and "compensation_at d i = Some c \<Longrightarrow> unat (nz_get (rp_max_attempts (cp_retry_policy c))) \<le> 64"
    using assms(2)
    by (auto simp: attempts_exceeded_def MAX_ACTION_ATTEMPTS_PER_STEP_def not_less word_le_nat_alt
        compensation_at_def split: option.splits)
qed


section \<open>Transitions keep it\<close>

text \<open>
  Every accepted transition either issues one fresh action identity and plans its action, or
  issues none and stops.
\<close>

definition extends :: "linear_saga_projection \<Rightarrow> saga_decision \<Rightarrow> bool" where
  "extends p dec \<longleftrightarrow>
     sg_issued_action_ids (sd_projection dec) =
       sg_issued_action_ids p @ (case sd_next_action dec of None \<Rightarrow> [] | Some a \<Rightarrow> [pa_action_id a])"

definition accepted :: "linear_saga_definition \<Rightarrow> linear_saga_projection \<Rightarrow> saga_decision \<Rightarrow> bool" where
  "accepted d p dec \<longleftrightarrow> decision_ok d dec \<and> extends p dec"

lemma accepted_plan:
  assumes "plan d tenant process q = Inr dec" "saga_inv d q" "sg_status q \<in> {SgRunning, SgCompensating}"
    and "sg_active_action_id q = Some a" "sg_issued_action_ids q = sg_issued_action_ids p @ [a]"
  shows "accepted d p dec"
  using plan_ok [OF assms(2,3), of tenant process] assms
  by (auto simp: accepted_def decision_ok_def extends_def planned_action_def)

lemma accepted_stop:
  assumes "stop q = Inr dec" "saga_inv d q" "sg_status q \<notin> {SgRunning, SgCompensating}"
    and "sg_issued_action_ids q = sg_issued_action_ids p"
  shows "accepted d p dec"
  using assms by (auto simp: accepted_def decision_ok_def extends_def stop_def)

lemma sorted_wrt_butlast: "sorted_wrt R xs \<Longrightarrow> sorted_wrt R (butlast xs)"
  by (simp add: butlast_conv_take sorted_wrt_take)

lemma terminal_inv:
  assumes "saga_inv d p" "sg_status p \<noteq> SgCompleted" "sg_retry_due_at p = None"
    and "st \<in> {SgEscalated, SgCancelled, SgCompensated}"
    and "c = sg_compensable_step_indices p \<or> c = butlast (sg_compensable_step_indices p) \<or> c = []"
  shows "saga_inv d (terminal_projection p (sg_next_step_index p) c st)"
  using assms by (auto simp: saga_inv_def terminal_projection_def definition_matches_def list_all_iff
      sorted_wrt_butlast dest: in_set_butlastD)

lemma accepted_terminal:
  assumes "stop (terminal_projection p (sg_next_step_index p) c st) = Inr dec"
    and "saga_inv d p" "sg_status p \<noteq> SgCompleted" "sg_retry_due_at p = None"
    and "st \<in> {SgEscalated, SgCancelled, SgCompensated}"
    and "c = sg_compensable_step_indices p \<or> c = butlast (sg_compensable_step_indices p) \<or> c = []"
  shows "accepted d p dec"
  using accepted_stop [OF assms(1) terminal_inv [OF assms(2-6)]] assms(5)
  by (auto simp: terminal_projection_def)

text \<open>A new action for the same step, or for the next compensation.\<close>

lemma accepted_reissue:
  assumes "plan d tenant process q = Inr dec" "saga_inv d p" "sg_status p \<noteq> SgCompleted"
    and "a \<notin> set (sg_issued_action_ids p)"
    and "definition_matches d q" "sg_next_step_index q = sg_next_step_index p"
    and "sg_active_action_id q = Some a" "sg_issued_action_ids q = sg_issued_action_ids p @ [a]"
    and "sg_status q \<in> {SgRunning, SgCompensating}" "unat (sg_current_attempt q) < 64"
    and "sg_compensable_step_indices q = sg_compensable_step_indices p
      \<or> sg_compensable_step_indices q = butlast (sg_compensable_step_indices p)"
    and "sg_status q = SgCompensating \<longrightarrow> sg_compensable_step_indices q \<noteq> []"
    and "sg_retry_due_at q \<noteq> None \<longrightarrow> sg_status q = SgRunning"
  shows "accepted d p dec"
proof -
  have "sorted_wrt (<) (sg_compensable_step_indices p)"
    "list_all (\<lambda>i. i < sg_next_step_index p \<and> compensation_at d i \<noteq> None) (sg_compensable_step_indices p)"
    using assms(2) by (simp_all add: saga_inv_def)
  then have "sorted_wrt (<) (sg_compensable_step_indices q)"
    "list_all (\<lambda>i. i < sg_next_step_index p \<and> compensation_at d i \<noteq> None) (sg_compensable_step_indices q)"
    using assms(11) by (metis sorted_wrt_butlast, metis (no_types, lifting) list_all_iff in_set_butlastD)
  moreover have "sg_status q \<noteq> SgCompleted" using assms(9) by auto
  ultimately have "saga_inv d q"
    using assms(2-10,12,13) by (simp add: saga_inv_def)
  then show ?thesis using accepted_plan [OF assms(1) _ assms(9,7,8)] by blast
qed

lemma saga_inv_matches: "saga_inv d p \<Longrightarrow> definition_matches d p"
  by (simp add: saga_inv_def)

lemma definition_matches_fields:
  "definition_matches d p \<Longrightarrow> sg_definition_id q = sg_definition_id p \<Longrightarrow>
     sg_definition_version q = sg_definition_version p \<Longrightarrow>
     sg_definition_digest q = sg_definition_digest p \<Longrightarrow> definition_matches d q"
  by (simp add: definition_matches_def)

lemma begin_compensation_accepted:
  assumes "begin_compensation d p tenant process nxt = Inr dec" "saga_inv d p" "sg_status p = SgRunning"
    and "sg_retry_due_at p = None"
  shows "accepted d p dec"
proof (cases "sg_compensable_step_indices p = []")
  case True
  then have "stop (terminal_projection p (sg_next_step_index p) [] SgEscalated) = Inr dec"
    using assms(1) by (simp add: begin_compensation_def)
  then show ?thesis by (rule accepted_terminal) (use assms in simp_all)
next
  case False
  then obtain a where a: "a \<notin> set (sg_issued_action_ids p)"
    "plan d tenant process (p\<lparr>sg_current_attempt := 0, sg_active_action_id := Some a,
       sg_issued_action_ids := issued_ids_after p a, sg_status := SgCompensating\<rparr>) = Inr dec"
    using assms(1) by (auto simp: begin_compensation_def result_simps)
  show ?thesis
    by (rule accepted_reissue [OF a(2) assms(2) _ a(1)])
      (use assms False saga_inv_matches [OF assms(2)] in
        \<open>simp_all add: issued_ids_after_def definition_matches_def\<close>)
qed

lemma retry_attempt_bound:
  assumes "checked_add (n :: u32) 1 = Some m" "\<not> nz_get k \<le> m" "unat (nz_get k) \<le> 64"
  shows "unat m < 64"
  using assms by (simp add: not_le word_less_nat_alt)

lemma apply_forward_accepted:
  assumes "apply_forward_result d p tenant process result nxt = Inr dec" "saga_inv d p"
    and "sg_status p = SgRunning" "sg_retry_due_at p = None" "sg_next_step_index p < length (ls_steps d)"
  shows "accepted d p dec"
proof (cases result)
  case ArSucceeded
  let ?i = "sg_next_step_index p" and ?step = "ls_steps d ! sg_next_step_index p"
  let ?c = "sg_compensable_step_indices p @ (if sp_compensation ?step \<noteq> None then [?i] else [])"
  have comp: "sorted_wrt (<) ?c" "list_all (\<lambda>i. i < ?i + 1 \<and> compensation_at d i \<noteq> None) ?c"
    using assms(2,5) by (auto simp: saga_inv_def sorted_wrt_append list_all_iff compensation_at_def less_Suc_eq)
  show ?thesis
  proof (cases "?i + 1 = length (ls_steps d)")
    case True
    then have "stop (terminal_projection p (?i + 1) ?c SgCompleted) = Inr dec"
      using assms(1,5) ArSucceeded by (simp add: apply_forward_result_def get_step_def Let_def)
    moreover have "saga_inv d (terminal_projection p (?i + 1) ?c SgCompleted)"
      using assms(2-4) comp True by (simp add: saga_inv_def terminal_projection_def definition_matches_def)
    ultimately show ?thesis by (rule accepted_stop) (simp_all add: terminal_projection_def)
  next
    case False
    let ?q = "\<lambda>a. p\<lparr>sg_next_step_index := ?i + 1, sg_current_attempt := 0, sg_active_action_id := Some a,
      sg_issued_action_ids := issued_ids_after p a, sg_compensable_step_indices := ?c, sg_status := SgRunning\<rparr>"
    obtain a where a: "a \<notin> set (sg_issued_action_ids p)" "plan d tenant process (?q a) = Inr dec"
      using assms(1,5) ArSucceeded False
      by (auto simp: apply_forward_result_def get_step_def Let_def result_simps split: if_splits)
    have "saga_inv d (?q a)"
      using assms(2-5) a(1) comp False
      by (simp add: saga_inv_def issued_ids_after_def definition_matches_def)
    from accepted_plan [OF a(2) this] show ?thesis by (simp add: issued_ids_after_def)
  qed
next
  case ArRetryableFailure
  let ?policy = "sp_retry_policy (ls_steps d ! sg_next_step_index p)"
  have bound: "unat (nz_get (rp_max_attempts ?policy)) \<le> 64"
    using validated_attempts(1) [OF _ assms(5)] assms(2) by (simp add: saga_inv_def)
  obtain n where n: "checked_add (sg_current_attempt p) 1 = Some n"
    using assms(1,5) ArRetryableFailure by (auto simp: apply_forward_result_def get_step_def result_simps)
  show ?thesis
  proof (cases "nz_get (rp_max_attempts ?policy) \<le> n")
    case True
    then show ?thesis
      using assms ArRetryableFailure n begin_compensation_accepted
      by (simp add: apply_forward_result_def get_step_def)
  next
    case False
    then obtain a where a: "a \<notin> set (sg_issued_action_ids p)"
      "plan d tenant process (p\<lparr>sg_current_attempt := n, sg_active_action_id := Some a,
         sg_issued_action_ids := issued_ids_after p a, sg_status := SgRunning\<rparr>) = Inr dec"
      using assms(1,5) ArRetryableFailure n
      by (auto simp: apply_forward_result_def get_step_def result_simps split: if_splits)
    show ?thesis
      by (rule accepted_reissue [OF a(2) assms(2) _ a(1)])
        (use assms retry_attempt_bound [OF n False bound] saga_inv_matches [OF assms(2)] in
          \<open>simp_all add: issued_ids_after_def definition_matches_def\<close>)
  qed
next
  case ArTerminalFailure
  then show ?thesis using assms begin_compensation_accepted by (simp add: apply_forward_result_def)
next
  case ArUnknown
  then have "stop (terminal_projection p (sg_next_step_index p) (sg_compensable_step_indices p)
      SgEscalated) = Inr dec"
    using assms(1) by (simp add: apply_forward_result_def)
  then show ?thesis by (rule accepted_terminal) (use assms in simp_all)
qed


lemma apply_compensation_accepted:
  assumes "apply_compensation_result d p tenant process result nxt = Inr dec" "saga_inv d p"
    and "sg_status p = SgCompensating" "sg_retry_due_at p = None"
  shows "accepted d p dec"
proof -
  let ?c = "sg_compensable_step_indices p"
  obtain comp where comp: "compensation_for d p = Inr comp"
    using assms(1) by (auto simp: apply_compensation_result_def bindR_eq_Inr)
  then have "compensation_at d (last ?c) = Some comp" "last ?c < length (ls_steps d)"
    by (auto simp: compensation_for_def result_simps last_index_def compensation_at_def split: if_splits)
  then have bound: "unat (nz_get (rp_max_attempts (cp_retry_policy comp))) \<le> 64"
    using validated_attempts(2) [of d "last ?c" comp] assms(2) by (auto simp: saga_inv_def)
  note matches = saga_inv_matches [OF assms(2)]
  show ?thesis
  proof (cases result)
    case ArSucceeded
    show ?thesis
    proof (cases "butlast ?c = []")
      case True
      then have "stop (terminal_projection p (sg_next_step_index p) [] SgCompensated) = Inr dec"
        using assms(1) comp ArSucceeded by (simp add: apply_compensation_result_def)
      then show ?thesis by (rule accepted_terminal) (use assms in simp_all)
    next
      case False
      then obtain a where a: "a \<notin> set (sg_issued_action_ids p)"
        "plan d tenant process (p\<lparr>sg_current_attempt := 0, sg_active_action_id := Some a,
           sg_issued_action_ids := issued_ids_after p a, sg_compensable_step_indices := butlast ?c,
           sg_status := SgCompensating\<rparr>) = Inr dec"
        using assms(1) comp ArSucceeded
        by (auto simp: apply_compensation_result_def Let_def result_simps)
      show ?thesis
        by (rule accepted_reissue [OF a(2) assms(2) _ a(1)])
          (use assms False matches in \<open>simp_all add: issued_ids_after_def definition_matches_def\<close>)
    qed
  next
    case ArRetryableFailure
    obtain n where n: "checked_add (sg_current_attempt p) 1 = Some n"
      using assms(1) comp ArRetryableFailure by (auto simp: apply_compensation_result_def result_simps)
    show ?thesis
    proof (cases "nz_get (rp_max_attempts (cp_retry_policy comp)) \<le> n")
      case True
      then have "stop (terminal_projection p (sg_next_step_index p) ?c SgEscalated) = Inr dec"
        using assms(1) comp n ArRetryableFailure by (simp add: apply_compensation_result_def)
      then show ?thesis by (rule accepted_terminal) (use assms in simp_all)
    next
      case False
      then obtain a where a: "a \<notin> set (sg_issued_action_ids p)"
        "plan d tenant process (p\<lparr>sg_current_attempt := n, sg_active_action_id := Some a,
           sg_issued_action_ids := issued_ids_after p a, sg_status := SgCompensating\<rparr>) = Inr dec"
        using assms(1) comp n ArRetryableFailure
        by (auto simp: apply_compensation_result_def result_simps split: if_splits)
      have "?c \<noteq> []" using assms(2,3) by (simp add: saga_inv_def)
      then show ?thesis
        by (intro accepted_reissue [OF a(2) assms(2) _ a(1)])
          (use assms matches retry_attempt_bound [OF n False bound] in
            \<open>simp_all add: issued_ids_after_def definition_matches_def\<close>)
    qed
  qed (use assms comp in \<open>auto simp: apply_compensation_result_def intro: accepted_terminal\<close>)
qed

lemma apply_action_result_accepted:
  assumes "apply_action_result d p tenant process obs nxt = Inr dec" "saga_inv d p"
  shows "accepted d p dec"
  using assms apply_forward_accepted apply_compensation_accepted
  by (auto simp: apply_action_result_def bindR_eq_Inr not_le split: if_splits)

lemma schedule_accepted:
  assumes "schedule_retry_timer d p tenant process rq = Inr dec" "saga_inv d p"
  shows "accepted d p dec"
proof -
  let ?policy = "sp_retry_policy (ls_steps d ! sg_next_step_index p)"
  have run: "sg_status p = SgRunning" "sg_retry_due_at p = None" "sg_next_step_index p < length (ls_steps d)"
    using assms(1) by (auto simp: schedule_retry_timer_def bindR_eq_Inr split: if_splits)
  have bound: "unat (nz_get (rp_max_attempts ?policy)) \<le> 64"
    using validated_attempts(1) [OF _ run(3)] assms(2) by (simp add: saga_inv_def)
  obtain n due where n: "checked_add (sg_current_attempt p) 1 = Some n"
    "\<not> nz_get (rp_max_attempts ?policy) \<le> n"
    and cases: "begin_compensation d p tenant process (rq_next_action_id rq) = Inr dec
      \<or> bindR (fresh_action_id p (rq_next_action_id rq)) (\<lambda>a. plan d tenant process
          (p\<lparr>sg_current_attempt := n, sg_retry_due_at := Some due, sg_active_action_id := Some a,
             sg_issued_action_ids := issued_ids_after p a\<rparr>)) = Inr dec"
    using assms(1) run
    by (auto simp: schedule_retry_timer_def bindR_eq_Inr ok_or_eq_Inr get_step_def split: if_splits)
  from cases show ?thesis
  proof
    assume "begin_compensation d p tenant process (rq_next_action_id rq) = Inr dec"
    then show ?thesis using begin_compensation_accepted assms(2) run by blast
  next
    assume "bindR (fresh_action_id p (rq_next_action_id rq)) (\<lambda>a. plan d tenant process
          (p\<lparr>sg_current_attempt := n, sg_retry_due_at := Some due, sg_active_action_id := Some a,
             sg_issued_action_ids := issued_ids_after p a\<rparr>)) = Inr dec"
    then obtain a where a: "a \<notin> set (sg_issued_action_ids p)" "plan d tenant process
          (p\<lparr>sg_current_attempt := n, sg_retry_due_at := Some due, sg_active_action_id := Some a,
             sg_issued_action_ids := issued_ids_after p a\<rparr>) = Inr dec"
      by (auto simp: result_simps)
    show ?thesis
      by (rule accepted_reissue [OF a(2) assms(2) _ a(1)])
        (use run saga_inv_matches [OF assms(2)] retry_attempt_bound [OF n bound] in
          \<open>simp_all add: issued_ids_after_def definition_matches_def\<close>)
  qed
qed

lemma fire_accepted:
  assumes "fire_retry_timer d p tenant process timer at nxt = Inr dec" "saga_inv d p"
  shows "accepted d p dec"
proof -
  obtain a where run: "sg_status p = SgRunning" and a: "a \<notin> set (sg_issued_action_ids p)"
    "plan d tenant process (p\<lparr>sg_retry_due_at := None, sg_active_action_id := Some a,
       sg_issued_action_ids := issued_ids_after p a\<rparr>) = Inr dec"
    using assms(1) by (auto simp: fire_retry_timer_def result_simps split: if_splits)
  have "unat (sg_current_attempt p) < 64" using assms(2) by (simp add: saga_inv_def)
  then show ?thesis
    by (intro accepted_reissue [OF a(2) assms(2) _ a(1)])
      (use run saga_inv_matches [OF assms(2)] in
        \<open>simp_all add: issued_ids_after_def definition_matches_def\<close>)
qed

lemma manual_accepted:
  assumes "apply_manual_resolution d p tenant process resolution nxt = Inr dec" "saga_inv d p"
  shows "accepted d p dec"
proof -
  have esc: "sg_status p = SgEscalated" "sg_retry_due_at p = None" "unat (sg_current_attempt p) < 64"
    using assms by (auto simp: apply_manual_resolution_def bindR_eq_Inr saga_inv_def split: if_splits)
  note matches = saga_inv_matches [OF assms(2)]
  show ?thesis
  proof (cases resolution)
    case RetryAction
    then obtain a where a: "a \<notin> set (sg_issued_action_ids p)"
      "plan d tenant process (p\<lparr>sg_active_action_id := Some a,
         sg_issued_action_ids := issued_ids_after p a, sg_status := SgRunning\<rparr>) = Inr dec"
      using assms(1) by (auto simp: apply_manual_resolution_def result_simps split: if_splits)
    show ?thesis
      by (rule accepted_reissue [OF a(2) assms(2) _ a(1)])
        (use esc matches in \<open>simp_all add: issued_ids_after_def definition_matches_def\<close>)
  next
    case Compensate
    show ?thesis
    proof (cases "sg_compensable_step_indices p = []")
      case True
      then have "stop (terminal_projection p (sg_next_step_index p) [] SgCancelled) = Inr dec"
        using assms(1) Compensate by (auto simp: apply_manual_resolution_def bindR_eq_Inr split: if_splits)
      then show ?thesis by (rule accepted_terminal) (use assms esc in simp_all)
    next
      case False
      then obtain a where a: "a \<notin> set (sg_issued_action_ids p)"
        "plan d tenant process (p\<lparr>sg_current_attempt := 0, sg_active_action_id := Some a,
           sg_issued_action_ids := issued_ids_after p a, sg_status := SgCompensating\<rparr>) = Inr dec"
        using assms(1) Compensate by (auto simp: apply_manual_resolution_def result_simps split: if_splits)
      show ?thesis
        by (rule accepted_reissue [OF a(2) assms(2) _ a(1)])
          (use esc False matches in \<open>simp_all add: issued_ids_after_def definition_matches_def\<close>)
    qed
  next
    case Cancel
    then have "stop (terminal_projection p (sg_next_step_index p) (sg_compensable_step_indices p)
        SgCancelled) = Inr dec"
      using assms(1) by (auto simp: apply_manual_resolution_def bindR_eq_Inr split: if_splits)
    then show ?thesis by (rule accepted_terminal) (use assms esc in simp_all)
  next
    case Escalate
    then have "stop p = Inr dec"
      using assms(1) by (auto simp: apply_manual_resolution_def bindR_eq_Inr split: if_splits)
    then show ?thesis by (rule accepted_stop) (use assms esc in simp_all)
  qed
qed

lemma start_decision:
  assumes "saga_start d tenant process a = Inr dec"
  shows "decision_ok d dec \<and> sg_issued_action_ids (sd_projection dec) = [a]
    \<and> (\<exists>act. sd_next_action dec = Some act \<and> pa_action_id act = a)"
proof -
  let ?p = "\<lparr> sg_definition_id = ls_definition_id d, sg_definition_version = ls_definition_version d,
     sg_definition_digest = ls_definition_digest d, sg_next_step_index = 0,
     sg_current_attempt = 0, sg_retry_due_at = None, sg_active_action_id = Some a,
     sg_issued_action_ids = [a], sg_compensable_step_indices = [], sg_status = SgRunning \<rparr>"
  have v: "saga_validate d = Inr ()" and run: "plan d tenant process ?p = Inr dec"
    using assms by (auto simp: saga_start_def bindR_eq_Inr)
  have "saga_inv d ?p"
    using v by (auto simp: saga_inv_def definition_matches_def saga_validate_eq split: if_splits)
  then show ?thesis
    using plan_ok [of d ?p tenant process] run by (auto simp: decision_ok_def planned_action_def)
qed

lemma decide_accepted:
  assumes "decide d (Some p) tenant process inp = Inr dec" "saga_inv d p"
  shows "accepted d p dec"
  using assms apply_action_result_accepted schedule_accepted fire_accepted manual_accepted
  by (cases inp) auto

end
