(* ===== verification/Saga_Properties.thy ===== *)
theory Saga_Properties
  imports Saga_Invariants "HOL-Library.Sublist"
begin

text \<open>
  What the saga engine guarantees of a process: over its whole log (\<open>saga_replay\<close>), over single
  decisions (\<open>decide\<close>), over runs that report only successes, and of the outcome batch and the retry
  timing of a decision.
\<close>

section \<open>Logs\<close>

lemma to_event_eq:
  "EvStarted i di dv dd a = to_event d inp \<longleftrightarrow>
     inp = InStart i a \<and> di = ls_definition_id d \<and> dv = ls_definition_version d
     \<and> dd = ls_definition_digest d"
  "EvActionResultObserved i obs nxt = to_event d inp \<longleftrightarrow> inp = InActionResult i obs nxt"
  "EvRetryTimerScheduled i obs nxt at seed deadline = to_event d inp \<longleftrightarrow>
     inp = InRetryTimerScheduled i obs nxt at seed deadline"
  "EvRetryTimerFired i timer at next_id = to_event d inp \<longleftrightarrow> inp = InRetryTimerFired i timer at next_id"
  "EvManualResolutionApplied i r nxt = to_event d inp \<longleftrightarrow> inp = InManualResolution i r nxt"
  by (cases inp; auto simp: event_started_def)+

lemma replay_event_iff:
  "replay_event d tenant process cur ev = Inr dec \<longleftrightarrow>
     (\<exists>inp. ev = to_event d inp \<and> decide d (map_option sd_projection cur) tenant process inp = Inr dec)"
  by (cases ev) (auto simp: to_event_eq bindR_eq_Inr ok_or_eq_Inr)

definition input_ids :: "linear_saga_event list \<Rightarrow> input_id list" where
  "input_ids evs = concat (map (\<lambda>ev. case event_input_id ev of None \<Rightarrow> [] | Some i \<Rightarrow> [i]) evs)"

definition replay_inv :: "linear_saga_definition \<Rightarrow> replay_state \<Rightarrow> bool" where
  "replay_inv d st \<longleftrightarrow> distinct (snd st) \<and>
     (case fst st of None \<Rightarrow> snd st = [] | Some dec \<Rightarrow> decision_ok d dec)"

lemma replay_step_Inr:
  "replay_step d tenant process (cur, acc) ev = Inr st \<longleftrightarrow>
     (\<exists>i dec inp. event_input_id ev = Some i \<and> i \<notin> set acc \<and> ev = to_event d inp
        \<and> decide d (map_option sd_projection cur) tenant process inp = Inr dec
        \<and> st = (Some dec, i # acc))"
  by (auto simp: replay_step_def bindR_eq_Inr ok_or_eq_Inr replay_event_iff split: if_splits)

lemma decide_ok:
  assumes "decide d (map_option sd_projection cur) tenant process inp = Inr dec"
    and "pred_option (decision_ok d) cur"
  shows "decision_ok d dec"
proof (cases cur)
  case None
  then show ?thesis using assms(1) start_decision by (cases inp) auto
next
  case (Some c)
  then have "saga_inv d (sd_projection c)" using assms(2) by (simp add: decision_ok_def)
  then show ?thesis using decide_accepted assms(1) Some by (fastforce simp: accepted_def)
qed

interpretation saga_log: log_projection "replay_step d tenant process" "replay_inv d"
  for d tenant process
proof
  fix s r s'
  assume inv: "replay_inv d s" and step: "replay_step d tenant process s r = Inr s'"
  obtain cur acc where s: "s = (cur, acc)" by (cases s)
  have "pred_option (decision_ok d) cur" "distinct acc"
    using inv by (auto simp: replay_inv_def s split: option.splits)
  then show "replay_inv d s'"
    using step decide_ok by (auto simp: s replay_step_Inr replay_inv_def)
qed

lemma replay_accepted:
  "replay_from (replay_step d tenant process) (None, []) evs = Inr (cur, acc) \<Longrightarrow>
     acc = rev (input_ids evs) \<and> (cur = None \<longleftrightarrow> evs = []) \<and> pred_option (decision_ok d) cur \<and> distinct acc"
proof (induction evs arbitrary: cur acc rule: rev_induct)
  case Nil
  then show ?case by (simp add: input_ids_def)
next
  case (snoc ev evs)
  then obtain c a where "replay_from (replay_step d tenant process) (None, []) evs = Inr (c, a)"
    "replay_step d tenant process (c, a) ev = Inr (cur, acc)"
    by (auto simp: replay_from_snoc bindR_eq_Inr)
  with snoc.IH obtain i dec inp where step: "a = rev (input_ids evs)" "pred_option (decision_ok d) c"
    "distinct a" "event_input_id ev = Some i" "i \<notin> set a"
    "decide d (map_option sd_projection c) tenant process inp = Inr dec" "cur = Some dec" "acc = i # a"
    by (auto simp: replay_step_Inr)
  then show ?case using decide_ok [OF step(6,2)] by (simp add: input_ids_def)
qed

lemma saga_replay_Inr:
  "saga_replay d tenant process evs = Inr dec \<longleftrightarrow>
     replay_from (replay_step d tenant process) (None, []) evs = Inr (Some dec, rev (input_ids evs))"
  by (auto simp: saga_replay_def bindR_eq_Inr ok_or_eq_Inr dest: replay_accepted)

lemma saga_replay_snoc:
  "saga_replay d tenant process (evs @ [ev]) = Inr dec' \<longleftrightarrow>
     (\<exists>i inp. event_input_id ev = Some i \<and> i \<notin> set (input_ids evs) \<and> ev = to_event d inp
        \<and> (if evs = [] then decide d None tenant process inp = Inr dec'
           else \<exists>dec. saga_replay d tenant process evs = Inr dec
             \<and> decide d (Some (sd_projection dec)) tenant process inp = Inr dec'))"
  (is "?l \<longleftrightarrow> ?r")
proof -
  let ?run = "replay_from (replay_step d tenant process) (None, [])"
  have "?l \<longleftrightarrow> (\<exists>cur acc. ?run evs = Inr (cur, acc)
      \<and> replay_step d tenant process (cur, acc) ev = Inr (Some dec', rev (input_ids (evs @ [ev]))))"
    by (auto simp: saga_replay_Inr replay_from_snoc bindR_eq_Inr)
  also have "\<dots> \<longleftrightarrow> (\<exists>cur. ?run evs = Inr (cur, rev (input_ids evs)) \<and> (\<exists>i inp. event_input_id ev = Some i
      \<and> i \<notin> set (input_ids evs) \<and> ev = to_event d inp
      \<and> decide d (map_option sd_projection cur) tenant process inp = Inr dec'))"
    using replay_accepted [of d tenant process evs]
    by (fastforce simp: replay_step_Inr input_ids_def)
  also have "\<dots> \<longleftrightarrow> ?r"
  proof (cases "evs = []")
    case True
    then show ?thesis by (auto simp: input_ids_def)
  next
    case False
    have "?run evs = Inr (cur, acc) \<Longrightarrow> cur \<noteq> None" for cur acc
      using replay_accepted [of d tenant process evs cur acc] False by blast
    then show ?thesis using False by (fastforce simp: saga_replay_Inr)
  qed
  finally show ?thesis .
qed

lemma saga_replay_ok: "saga_replay d tenant process evs = Inr dec \<Longrightarrow> decision_ok d dec \<and> distinct (input_ids evs)"
  using replay_accepted by (fastforce simp: saga_replay_Inr)

lemma replay_issued_prefix:
  assumes "saga_replay d tenant process xs = Inr dec" "saga_replay d tenant process (xs @ ys) = Inr dec'"
  shows "prefix (sg_issued_action_ids (sd_projection dec)) (sg_issued_action_ids (sd_projection dec'))"
  using assms(2)
proof (induction ys arbitrary: dec' rule: rev_induct)
  case Nil
  then show ?case using assms(1) by simp
next
  case (snoc y ys)
  have "xs \<noteq> []" using assms(1) by (auto simp: saga_replay_def)
  then obtain dec1 inp where run: "saga_replay d tenant process (xs @ ys) = Inr dec1"
    "decide d (Some (sd_projection dec1)) tenant process inp = Inr dec'"
    using snoc.prems saga_replay_snoc [of d tenant process "xs @ ys" y dec'] by auto
  then have "accepted d (sd_projection dec1) dec'"
    using saga_replay_ok [OF run(1)] decide_accepted by (auto simp: decision_ok_def)
  then show ?case
    using snoc.IH [OF run(1)] by (auto simp: accepted_def extends_def intro: prefix_order.trans split: option.splits)
qed

lemma replay_accepts:
  assumes "saga_replay d tenant process (xs @ [y]) = Inr dec'" "saga_replay d tenant process xs = Inr dec"
  shows "accepted d (sd_projection dec) dec'"
proof -
  have "xs \<noteq> []" using assms(2) by (auto simp: saga_replay_def)
  then obtain inp where "decide d (Some (sd_projection dec)) tenant process inp = Inr dec'"
    using assms by (auto simp: saga_replay_snoc)
  then show ?thesis
    using saga_replay_ok [OF assms(2)] decide_accepted by (auto simp: decision_ok_def)
qed

lemma replay_prefix_runs:
  assumes "saga_replay d tenant process (xs @ ys) = Inr dec" "xs \<noteq> []"
  shows "\<exists>dec1. saga_replay d tenant process xs = Inr dec1"
  using assms(1)
proof (induction ys arbitrary: dec rule: rev_induct)
  case Nil
  then show ?case by simp
next
  case (snoc y ys)
  then show ?case using saga_replay_snoc [of d tenant process "xs @ ys" y dec] assms(2) by auto
qed

text \<open>The identity planned after any proper prefix is gone by the end of the log.\<close>

lemma replay_action_ids:
  assumes "saga_replay d tenant process xs = Inr dec" "sd_next_action dec = Some a"
    and "saga_replay d tenant process (xs @ y # ys) = Inr dec'" "sd_next_action dec' = Some a'"
  shows "pa_action_id a \<noteq> pa_action_id a'"
proof -
  let ?ids = "\<lambda>dec. sg_issued_action_ids (sd_projection dec)"
  obtain zs z where snoc: "y # ys = zs @ [z]" by (metis append_butlast_last_id list.distinct(1))
  have "xs \<noteq> []" using assms(1) by (auto simp: saga_replay_def)
  then obtain dec1 where dec1: "saga_replay d tenant process (xs @ zs) = Inr dec1"
    using replay_prefix_runs [of d tenant process "xs @ zs" "[z]" dec'] assms(3) snoc by auto
  have acc: "accepted d (sd_projection dec1) dec'"
    using replay_accepts [of d tenant process "xs @ zs" z dec' dec1] assms(3) dec1 snoc by simp
  then have "?ids dec' = ?ids dec1 @ [pa_action_id a']" "distinct (?ids dec')"
    using assms(4) by (auto simp: accepted_def extends_def decision_ok_def saga_inv_def)
  moreover have "pa_action_id a \<in> set (?ids dec1)"
  proof -
    have "planned_action d (sd_projection dec) a" "saga_inv d (sd_projection dec)"
      using saga_replay_ok [OF assms(1)] assms(2) by (auto simp: decision_ok_def)
    then have "pa_action_id a \<in> set (?ids dec)"
      by (auto simp: planned_action_def saga_inv_def split: if_splits)
    then show ?thesis using set_mono_prefix [OF replay_issued_prefix [OF assms(1) dec1]] by blast
  qed
  ultimately show ?thesis by auto
qed

section \<open>Runs that succeed\<close>

text \<open>Report success of the awaited action, offering one fresh identity per step.\<close>

fun succeed_all ::
  "linear_saga_definition \<Rightarrow> tenant_id \<Rightarrow> process_id \<Rightarrow> linear_saga_projection \<Rightarrow> action_id list \<Rightarrow>
     engine_error + saga_decision list" where
  "succeed_all d tenant process p [] = Inr []"
| "succeed_all d tenant process p (i # ids) =
     (case sg_active_action_id p of
        None \<Rightarrow> Inl UnexpectedAction
      | Some a \<Rightarrow>
          bindR (apply_action_result d p tenant process \<lparr> ob_action_id = a, ob_result = ArSucceeded \<rparr> (Some i))
            (\<lambda>dec. bindR (succeed_all d tenant process (sd_projection dec) ids) (\<lambda>decs. Inr (dec # decs))))"

definition action_steps :: "saga_decision list \<Rightarrow> step_id list" where
  "action_steps decs = concat (map (\<lambda>dec. case sd_next_action dec of None \<Rightarrow> [] | Some a \<Rightarrow> [pa_step_id a]) decs)"

definition steps_at :: "linear_saga_definition \<Rightarrow> nat list \<Rightarrow> step_id list" where
  "steps_at d is = map (\<lambda>i. sp_step_id (ls_steps d ! i)) is"

lemma active_guards:
  assumes "saga_inv d p" "sg_status p \<in> {SgRunning, SgCompensating}" "sg_retry_due_at p = None"
    and "sg_active_action_id p = Some a"
  shows "apply_action_result d p tenant process \<lparr> ob_action_id = a, ob_result = r \<rparr> nxt =
    (if sg_status p = SgRunning then apply_forward_result d p tenant process r nxt
     else apply_compensation_result d p tenant process r nxt)"
proof -
  have "sg_next_step_index p < length (ls_steps d)" using assms(1,2) by (auto simp: saga_inv_def)
  then show ?thesis using assms by (auto simp: apply_action_result_def saga_inv_def)
qed

lemma active_exists:
  "saga_inv d p \<Longrightarrow> sg_status p \<in> {SgRunning, SgCompensating} \<Longrightarrow>
     sg_active_action_id p = Some (last (sg_issued_action_ids p))"
  by (simp add: saga_inv_def)

lemma compensation_succeeds:
  assumes inv: "saga_inv d p" and st: "sg_status p = SgCompensating" and i: "i \<notin> set (sg_issued_action_ids p)"
  shows "\<exists>dec. apply_compensation_result d p tenant process ArSucceeded (Some i) = Inr dec
    \<and> accepted d p dec
    \<and> set (sg_issued_action_ids (sd_projection dec)) \<subseteq> insert i (set (sg_issued_action_ids p))
    \<and> sg_compensable_step_indices (sd_projection dec) = butlast (sg_compensable_step_indices p)
    \<and> (if butlast (sg_compensable_step_indices p) = []
       then sg_status (sd_projection dec) = SgCompensated \<and> sd_next_action dec = None
       else sg_status (sd_projection dec) = SgCompensating)"
proof -
  let ?c = "sg_compensable_step_indices p"
  have due: "sg_retry_due_at p = None" and c: "?c \<noteq> []" using inv st by (auto simp: saga_inv_def)
  then have "compensation_at d (last ?c) \<noteq> None" using inv by (simp add: saga_inv_def list_all_iff)
  then obtain comp where comp: "compensation_for d p = Inr comp"
    using c by (auto simp: compensation_for_def last_index_def compensation_at_def get_step_def split: if_splits)
  show ?thesis
  proof (cases "butlast ?c = []")
    case True
    then have run: "apply_compensation_result d p tenant process ArSucceeded (Some i) =
        stop (terminal_projection p (sg_next_step_index p) [] SgCompensated)"
      by (simp add: apply_compensation_result_def comp Let_def)
    then obtain dec where dec: "apply_compensation_result d p tenant process ArSucceeded (Some i) = Inr dec"
      by (simp add: stop_def)
    show ?thesis
      using apply_compensation_accepted [OF dec inv st due] dec run True due
      by (auto simp: stop_def terminal_projection_def)
  next
    case False
    let ?q = "p\<lparr>sg_current_attempt := 0, sg_active_action_id := Some i,
      sg_issued_action_ids := issued_ids_after p i, sg_compensable_step_indices := butlast ?c,
      sg_status := SgCompensating\<rparr>"
    have run: "apply_compensation_result d p tenant process ArSucceeded (Some i) = plan d tenant process ?q"
      using False i by (simp add: apply_compensation_result_def comp Let_def fresh_action_id_def)
    have "saga_inv d ?q"
      using inv False i st due
      by (auto simp: saga_inv_def issued_ids_after_def definition_matches_def list_all_iff
          sorted_wrt_butlast dest: in_set_butlastD)
    then obtain a where dec: "plan d tenant process ?q = Inr \<lparr> sd_projection = ?q, sd_next_action = Some a \<rparr>"
      using plan_ok [of d ?q tenant process] by auto
    show ?thesis
      using apply_compensation_accepted [OF _ inv st due] dec run False by (auto simp: issued_ids_after_def)
  qed
qed

lemma succeed_all_compensates:
  assumes "saga_inv d p" "sg_status p = SgCompensating"
    and "length ids = length (sg_compensable_step_indices p)"
    and "distinct ids" "set ids \<inter> set (sg_issued_action_ids p) = {}"
  shows "\<exists>decs. succeed_all d tenant process p ids = Inr decs \<and> decs \<noteq> []
    \<and> sg_status (sd_projection (last decs)) = SgCompensated
    \<and> action_steps decs = steps_at d (rev (butlast (sg_compensable_step_indices p)))"
  using assms
proof (induction ids arbitrary: p)
  case Nil
  then show ?case by (simp add: saga_inv_def)
next
  case (Cons i ids)
  let ?c = "sg_compensable_step_indices p"
  obtain dec where dec: "apply_compensation_result d p tenant process ArSucceeded (Some i) = Inr dec"
    "accepted d p dec" "sg_compensable_step_indices (sd_projection dec) = butlast ?c"
    and issued: "set (sg_issued_action_ids (sd_projection dec)) \<subseteq> insert i (set (sg_issued_action_ids p))"
    and st: "if butlast ?c = [] then sg_status (sd_projection dec) = SgCompensated \<and> sd_next_action dec = None
       else sg_status (sd_projection dec) = SgCompensating"
    using compensation_succeeds [OF Cons.prems(1,2), of i tenant process] Cons.prems(5) by auto
  have due: "sg_retry_due_at p = None" using Cons.prems(1,2) by (auto simp: saga_inv_def)
  note act = active_exists [OF Cons.prems(1)]
  have step: "succeed_all d tenant process p (i # ids) =
      bindR (succeed_all d tenant process (sd_projection dec) ids) (\<lambda>decs. Inr (dec # decs))"
    using active_guards [OF Cons.prems(1) _ due, of _ tenant process ArSucceeded "Some i"] act Cons.prems(2) dec(1)
    by simp
  show ?case
  proof (cases "butlast ?c = []")
    case True
    then have "ids = []" using Cons.prems(3) by (cases ?c) (auto split: if_splits)
    then show ?thesis using step st True by (simp add: action_steps_def steps_at_def)
  next
    case False
    let ?p = "sd_projection dec"
    have ok: "saga_inv d ?p" "sg_status ?p = SgCompensating"
      using dec(2) st False by (auto simp: accepted_def decision_ok_def)
    obtain a where a: "sd_next_action dec = Some a" "planned_action d ?p a"
      using dec(2) ok by (auto simp: accepted_def decision_ok_def split: option.splits)
    then have step_id: "pa_step_id a = sp_step_id (ls_steps d ! last (butlast ?c))"
      using ok dec(3) by (simp add: planned_action_def Let_def)
    have "length ids = length (sg_compensable_step_indices ?p)" using Cons.prems(3) dec(3) by simp
    moreover have "set ids \<inter> set (sg_issued_action_ids ?p) = {}" using Cons.prems(4,5) issued by auto
    moreover have "distinct ids" using Cons.prems(4) by simp
    ultimately obtain decs where decs: "succeed_all d tenant process ?p ids = Inr decs" "decs \<noteq> []"
      "sg_status (sd_projection (last decs)) = SgCompensated"
      "action_steps decs = steps_at d (rev (butlast (butlast ?c)))"
      using Cons.IH [OF ok] dec(3) by auto
    have "rev (butlast ?c) = last (butlast ?c) # rev (butlast (butlast ?c))"
      using False by (metis append_butlast_last_id rev.simps(2) rev_rev_ident rev_append append_Cons append_Nil)
    then have "steps_at d (rev (butlast ?c)) =
        sp_step_id (ls_steps d ! last (butlast ?c)) # steps_at d (rev (butlast (butlast ?c)))"
      by (simp only: steps_at_def list.map)
    then show ?thesis
      using step decs a(1) step_id by (auto simp: action_steps_def)
  qed
qed

lemma forward_succeeds:
  assumes inv: "saga_inv d p" and st: "sg_status p = SgRunning" "sg_retry_due_at p = None"
    and i: "i \<notin> set (sg_issued_action_ids p)"
  shows "\<exists>dec. apply_forward_result d p tenant process ArSucceeded (Some i) = Inr dec
    \<and> accepted d p dec
    \<and> set (sg_issued_action_ids (sd_projection dec)) \<subseteq> insert i (set (sg_issued_action_ids p))
    \<and> sg_next_step_index (sd_projection dec) = Suc (sg_next_step_index p)
    \<and> (if Suc (sg_next_step_index p) = length (ls_steps d)
       then sg_status (sd_projection dec) = SgCompleted \<and> sd_next_action dec = None
       else sg_status (sd_projection dec) = SgRunning \<and> sg_retry_due_at (sd_projection dec) = None)"
proof -
  have idx: "sg_next_step_index p < length (ls_steps d)" using inv st by (auto simp: saga_inv_def)
  let ?step = "ls_steps d ! sg_next_step_index p"
  let ?c = "sg_compensable_step_indices p @ (if sp_compensation ?step \<noteq> None then [sg_next_step_index p] else [])"
  have acc: "apply_forward_result d p tenant process ArSucceeded (Some i) = Inr dec \<Longrightarrow> accepted d p dec" for dec
    using apply_forward_accepted inv st idx by blast
  show ?thesis
  proof (cases "Suc (sg_next_step_index p) = length (ls_steps d)")
    case True
    then have "apply_forward_result d p tenant process ArSucceeded (Some i) =
        stop (terminal_projection p (Suc (sg_next_step_index p)) ?c SgCompleted)"
      using idx by (simp add: apply_forward_result_def get_step_def Let_def)
    then show ?thesis using acc True by (auto simp: stop_def terminal_projection_def)
  next
    case False
    let ?q = "p\<lparr>sg_next_step_index := Suc (sg_next_step_index p), sg_current_attempt := 0,
      sg_active_action_id := Some i, sg_issued_action_ids := issued_ids_after p i,
      sg_compensable_step_indices := ?c, sg_status := SgRunning\<rparr>"
    have run: "apply_forward_result d p tenant process ArSucceeded (Some i) = plan d tenant process ?q"
      using False idx i by (simp add: apply_forward_result_def get_step_def Let_def fresh_action_id_def)
    have "get_step d (Suc (sg_next_step_index p)) = Some (ls_steps d ! Suc (sg_next_step_index p))"
      using False idx by (simp add: get_step_def)
    then obtain a where "plan d tenant process ?q = Inr \<lparr> sd_projection = ?q, sd_next_action = Some a \<rparr>"
      using st(2) by (auto simp: plan_def action_for_def)
    then show ?thesis using acc run False st by (auto simp: issued_ids_after_def)
  qed
qed

lemma succeed_all_completes:
  assumes "saga_inv d p" "sg_status p = SgRunning" "sg_retry_due_at p = None"
    and "length ids = length (ls_steps d) - sg_next_step_index p"
    and "distinct ids" "set ids \<inter> set (sg_issued_action_ids p) = {}"
  shows "\<exists>decs. succeed_all d tenant process p ids = Inr decs \<and> decs \<noteq> []
    \<and> sg_status (sd_projection (last decs)) = SgCompleted
    \<and> action_steps decs = steps_at d [Suc (sg_next_step_index p)..<length (ls_steps d)]"
  using assms
proof (induction ids arbitrary: p)
  case Nil
  then show ?case by (auto simp: saga_inv_def)
next
  case (Cons i ids)
  let ?i = "sg_next_step_index p" and ?n = "length (ls_steps d)"
  obtain dec where dec: "apply_forward_result d p tenant process ArSucceeded (Some i) = Inr dec"
    "accepted d p dec" "sg_next_step_index (sd_projection dec) = Suc ?i"
    and issued: "set (sg_issued_action_ids (sd_projection dec)) \<subseteq> insert i (set (sg_issued_action_ids p))"
    and st: "if Suc ?i = ?n then sg_status (sd_projection dec) = SgCompleted \<and> sd_next_action dec = None
       else sg_status (sd_projection dec) = SgRunning \<and> sg_retry_due_at (sd_projection dec) = None"
    using forward_succeeds [OF Cons.prems(1-3), of i tenant process] Cons.prems(6) by auto
  have step: "succeed_all d tenant process p (i # ids) =
      bindR (succeed_all d tenant process (sd_projection dec) ids) (\<lambda>decs. Inr (dec # decs))"
    using active_guards [OF Cons.prems(1) _ Cons.prems(3), of _ tenant process ArSucceeded "Some i"]
      active_exists [OF Cons.prems(1)] Cons.prems(2) dec(1)
    by simp
  show ?case
  proof (cases "Suc ?i = ?n")
    case True
    then have "length ids = 0" using Cons.prems(4) unfolding list.size by linarith
    then have "ids = []" by simp
    then show ?thesis using step st True by (simp add: action_steps_def steps_at_def)
  next
    case False
    let ?p = "sd_projection dec"
    have ok: "saga_inv d ?p" "sg_status ?p = SgRunning" "sg_retry_due_at ?p = None"
      using dec(2) st False by (auto simp: accepted_def decision_ok_def)
    obtain a where a: "sd_next_action dec = Some a" "planned_action d ?p a"
      using dec(2) ok by (auto simp: accepted_def decision_ok_def split: option.splits)
    then have step_id: "pa_step_id a = sp_step_id (ls_steps d ! Suc ?i)"
      using ok dec(3) by (simp add: planned_action_def Let_def)
    have "length ids = ?n - sg_next_step_index ?p" using Cons.prems(4) dec(3) by simp
    moreover have "set ids \<inter> set (sg_issued_action_ids ?p) = {}" using Cons.prems(5,6) issued by auto
    moreover have "distinct ids" using Cons.prems(5) by simp
    ultimately obtain decs where decs: "succeed_all d tenant process ?p ids = Inr decs" "decs \<noteq> []"
      "sg_status (sd_projection (last decs)) = SgCompleted"
      "action_steps decs = steps_at d [Suc (Suc ?i)..<?n]"
      using Cons.IH [OF ok] dec(3) by auto
    have "Suc ?i < ?n" using ok(1,2) dec(3) by (auto simp: saga_inv_def)
    then have "steps_at d [Suc ?i..<?n] = sp_step_id (ls_steps d ! Suc ?i) # steps_at d [Suc (Suc ?i)..<?n]"
      by (simp add: steps_at_def upt_conv_Cons)
    then show ?thesis using step decs a(1) step_id by (auto simp: action_steps_def)
  qed
qed


section \<open>A concrete process\<close>

text \<open>Three steps, the first two compensable; the third fails terminally.\<close>

definition ex_policy :: retry_policy where
  "ex_policy = \<lparr> rp_max_attempts = NonZero 2, rp_backoff = None \<rparr>"

definition ex_step :: "string \<Rightarrow> step_plan" where
  "ex_step name = step_command (StepId name) (digest_fill 1) ex_policy"

definition ex_saga :: linear_saga_definition where
  "ex_saga = \<lparr> ls_definition_id = DefinitionId ''def_x'', ls_definition_version = DefinitionVersion ''dfv_1'',
     ls_definition_digest = digest_fill 3,
     ls_steps = [with_compensation (ex_step ''stp_a'') (compensation_command (digest_fill 2) ex_policy),
                 with_compensation (ex_step ''stp_b'') (compensation_command (digest_fill 2) ex_policy),
                 ex_step ''stp_c''] \<rparr>"

definition ex_log :: "linear_saga_event list" where
  "ex_log = [event_started ex_saga (InputId ''inp_0'') (ActionId ''act_0''),
     EvActionResultObserved (InputId ''inp_1'') \<lparr> ob_action_id = ActionId ''act_0'', ob_result = ArSucceeded \<rparr>
       (Some (ActionId ''act_1'')),
     EvActionResultObserved (InputId ''inp_2'') \<lparr> ob_action_id = ActionId ''act_1'', ob_result = ArSucceeded \<rparr>
       (Some (ActionId ''act_2'')),
     EvActionResultObserved (InputId ''inp_3'') \<lparr> ob_action_id = ActionId ''act_2'', ob_result = ArTerminalFailure \<rparr>
       (Some (ActionId ''act_3''))]"

definition ex_projection :: "nat \<Rightarrow> action_id list \<Rightarrow> nat list \<Rightarrow> saga_status \<Rightarrow> linear_saga_projection" where
  "ex_projection i ids pending st = \<lparr> sg_definition_id = DefinitionId ''def_x'',
     sg_definition_version = DefinitionVersion ''dfv_1'', sg_definition_digest = digest_fill 3,
     sg_next_step_index = i, sg_current_attempt = 0, sg_retry_due_at = None,
     sg_active_action_id = Some (last ids), sg_issued_action_ids = ids,
     sg_compensable_step_indices = pending, sg_status = st \<rparr>"

abbreviation "ex_tenant \<equiv> TenantId ''tnt_t''"
abbreviation "ex_process \<equiv> ProcessId ''prc_p''"

definition ex_start_decision :: saga_decision where
  "ex_start_decision = \<lparr> sd_projection = ex_projection 0 [ActionId ''act_0''] [] SgRunning,
     sd_next_action = Some (action_new \<lparr> ps_tenant_id = ex_tenant, ps_process_id = ex_process,
        ps_definition_id = DefinitionId ''def_x'', ps_definition_version = DefinitionVersion ''dfv_1'',
        ps_definition_digest = digest_fill 3 \<rparr>
        (ActionId ''act_0'') (StepId ''stp_a'') 0 CanonicalCommandKind (digest_fill 1)) \<rparr>"

definition ex_final_decision :: saga_decision where
  "ex_final_decision = \<lparr>
     sd_projection = ex_projection 2 [ActionId ''act_0'', ActionId ''act_1'', ActionId ''act_2'', ActionId ''act_3'']
       [0, 1] SgCompensating,
     sd_next_action = Some (action_new \<lparr> ps_tenant_id = ex_tenant, ps_process_id = ex_process,
        ps_definition_id = DefinitionId ''def_x'', ps_definition_version = DefinitionVersion ''dfv_1'',
        ps_definition_digest = digest_fill 3 \<rparr>
        (ActionId ''act_3'') (StepId ''stp_b'') 0 CanonicalCommandKind (digest_fill 2)) \<rparr>"

lemmas ex_saga_defs = ex_policy_def ex_step_def ex_saga_def ex_log_def ex_projection_def
  ex_start_decision_def ex_final_decision_def with_compensation_def step_command_def
  compensation_command_def event_started_def

lemmas saga_eval = saga_replay_def replay_step_def saga_start_def saga_validate_eq plan_def stop_def
  action_for_def get_step_def last_index_def fresh_action_id_def issued_ids_after_def
  apply_action_result_def definition_matches_def apply_forward_result_def begin_compensation_def
  apply_compensation_result_def terminal_projection_def compensation_for_def
  attempts_exceeded_def MAX_ACTION_ATTEMPTS_PER_STEP_def Let_def

lemma ex_start_replay:
  "saga_replay ex_saga ex_tenant ex_process (take 1 ex_log) = Inr ex_start_decision"
  by (simp add: ex_saga_defs saga_eval)

lemma ex_replay: "saga_replay ex_saga ex_tenant ex_process ex_log = Inr ex_final_decision"
  by (simp add: ex_saga_defs saga_eval)

text \<open>The same process with backoff timing on its first step, waiting for the timer of a retry.\<close>

definition ex_timed_policy :: retry_policy where
  "ex_timed_policy = \<lparr> rp_max_attempts = NonZero 3, rp_backoff = Some \<lparr> bo_base_delay_millis = NonZero 1000,
     bo_max_delay_millis = NonZero 60000, bo_jitter = None \<rparr> \<rparr>"

definition ex_timed :: linear_saga_definition where
  "ex_timed = ex_saga\<lparr>ls_steps := [step_command (StepId ''stp_a'') (digest_fill 1) ex_timed_policy]\<rparr>"

definition ex_waiting :: linear_saga_projection where
  "ex_waiting = (ex_projection 0 [ActionId ''act_0'', ActionId ''act_1''] [] SgRunning)
     \<lparr>sg_current_attempt := 1, sg_retry_due_at := Some 1500\<rparr>"

text \<open>A process that compensates its first step under backoff timing.\<close>

definition ex_stuck :: linear_saga_definition where
  "ex_stuck = ex_saga\<lparr>ls_steps := [with_compensation (ex_step ''stp_a'')
     (compensation_command (digest_fill 2) ex_timed_policy), ex_step ''stp_b'']\<rparr>"

definition ex_compensating :: linear_saga_projection where
  "ex_compensating = ex_projection 1 [ActionId ''act_0'', ActionId ''act_1'', ActionId ''act_2''] [0] SgCompensating"

lemmas ex_timed_defs = ex_timed_policy_def ex_timed_def ex_waiting_def ex_stuck_def ex_compensating_def


lemma upt_count: "[a..<a + Suc n] = a # [Suc a..<Suc a + n]"
  by (simp add: upt_conv_Cons del: upt_Suc)

lemma number_outcomes_Inr:
  "number_outcomes s first k facts = Inr outs \<Longrightarrow>
     map po_kind outs = map pf_kind facts \<and> map po_causation_id outs = map pf_causation_id facts
     \<and> list_all (\<lambda>x. outcome_scope x = s) outs
     \<and> map (\<lambda>x. unat (po_sequence x)) outs = [unat first + k..<unat first + k + length facts]"
proof (induction facts arbitrary: k outs)
  case Nil
  then show ?case by simp
next
  case (Cons f fs)
  then obtain n rest where n: "k < 2 ^ 64" "unat n = unat first + unat (of_nat k :: u64)"
    and rest: "number_outcomes s first (k + 1) fs = Inr rest" "outs = outcome_new s n f # rest"
    by (auto simp: result_simps split: if_splits)
  have "unat n = unat first + k" using n by (simp add: unat_of_nat take_bit_eq_mod)
  moreover have up: "[unat first + k..<unat first + k + length (f # fs)] =
      (unat first + k) # [unat first + (k + 1)..<unat first + (k + 1) + length fs]"
    using upt_count [of "unat first + k" "length fs"] by (simp del: upt_Suc)
  ultimately show ?case
    unfolding up using Cons.IH [OF rest(1)] rest(2)
    by (simp add: outcome_new_def outcome_scope_def del: upt_Suc)
qed

lemma number_outcomes_total:
  "unat first + k + length facts \<le> 2 ^ 64 \<Longrightarrow> \<exists>outs. number_outcomes s first k facts = Inr outs"
proof (induction facts arbitrary: k)
  case Nil
  then show ?case by simp
next
  case (Cons f fs)
  have k: "k < 2 ^ 64" "unat first + k < 2 ^ 64" using Cons.prems by simp_all
  obtain rest where "number_outcomes s first (k + 1) fs = Inr rest"
    using Cons.IH [of "k + 1"] Cons.prems by auto
  then show ?case
    using k by (simp add: checked_add_def unat_of_nat take_bit_eq_mod)
qed

lemma ordered_events_Inr:
  "ordered_events n es = Inr evs \<longleftrightarrow>
     map (\<lambda>e. unat (env_sequence e)) es = [unat n..<unat n + length es]
     \<and> unat n + length es < 2 ^ 64 \<and> evs = map env_event es"
proof (induction es arbitrary: n evs)
  case Nil
  then show ?case using unat_less_exp [of n] by auto
next
  case (Cons e es)
  show ?case
  proof (cases "unat n + 1 < 2 ^ 64")
    case True
    then have next_n: "checked_add n 1 = Some (n + 1)" "unat (n + 1) = unat n + 1"
      by (simp_all add: checked_add_def unat_word_ariths)
    have "ordered_events n (e # es) = Inr evs \<longleftrightarrow>
        env_sequence e = n \<and> (\<exists>evs'. ordered_events (n + 1) es = Inr evs' \<and> evs = env_event e # evs')"
      by (auto simp: next_n bindR_eq_Inr)
    also have "\<dots> \<longleftrightarrow> unat (env_sequence e) = unat n
        \<and> map (\<lambda>e. unat (env_sequence e)) es = [Suc (unat n)..<Suc (unat n) + length es]
        \<and> Suc (unat n) + length es < 2 ^ 64 \<and> evs = env_event e # map env_event es"
      by (auto simp: Cons.IH next_n(2) word_unat_eq_iff)
    finally have step: "ordered_events n (e # es) = Inr evs \<longleftrightarrow> unat (env_sequence e) = unat n
        \<and> map (\<lambda>e. unat (env_sequence e)) es = [Suc (unat n)..<Suc (unat n) + length es]
        \<and> Suc (unat n) + length es < 2 ^ 64 \<and> evs = env_event e # map env_event es" .
    have up: "[unat n..<unat n + length (e # es)] = unat n # [Suc (unat n)..<Suc (unat n) + length es]"
      using upt_count [of "unat n" "length es"] by (simp del: upt_Suc)
    show ?thesis unfolding step up by (auto simp del: upt_Suc)
  next
    case False
    then show ?thesis by (auto simp: checked_add_def)
  qed
qed

definition validate_reference :: "linear_saga_definition \<Rightarrow> engine_error + unit" where
  "validate_reference d =
     (if ls_steps d = [] then Inl EmptyDefinition
      else if 128 < length (ls_steps d) then Inl EngineStepLimitExceeded
      else if \<not> distinct (map sp_step_id (ls_steps d)) then Inl EngineDuplicateStepId
      else if list_all (\<lambda>s. nz_get (rp_max_attempts (sp_retry_policy s)) \<le> 64
             \<and> pred_option (\<lambda>c. nz_get (rp_max_attempts (cp_retry_policy c)) \<le> 64) (sp_compensation s))
           (ls_steps d) then Inr ()
      else Inl RetryAttemptLimitExceeded)"

definition ex_fact :: "process_outcome_kind \<Rightarrow> process_outcome_fact" where
  "ex_fact k = \<lparr> pf_outcome_id = OutcomeId ''out_1'', pf_causation_id = CausedByInput (InputId ''inp_0''),
     pf_actor = System, pf_occurred_at = 7, pf_kind = k, pf_payload_digest = digest_fill 5 \<rparr>"

definition ex_scope_of_process :: process_scope where
  "ex_scope_of_process = \<lparr> ps_tenant_id = ex_tenant, ps_process_id = ex_process,
     ps_definition_id = DefinitionId ''def_x'', ps_definition_version = DefinitionVersion ''dfv_1'',
     ps_definition_digest = digest_fill 3 \<rparr>"

section \<open>Claims\<close>

text \<open>
  C8. Every log that replays yields a consistent decision: the projection satisfies its invariant
  (pinned definition, distinct action identities, compensable steps in success order, fewer than 64
  attempts), an action is planned exactly while the process is running or compensating, it is the
  action of the awaited step, and no earlier pending action carried the same identity.
\<close>

theorem saga_log_is_consistent:
  assumes "saga_replay d tenant process (xs @ ys) = Inr dec"
    and "saga_replay d tenant process xs = Inr dec0"
  shows "decision_ok d dec \<and> distinct (input_ids (xs @ ys))
    \<and> distinct (sg_issued_action_ids (sd_projection dec))
    \<and> (ys \<noteq> [] \<and> sd_next_action dec0 = Some a \<and> sd_next_action dec = Some b \<longrightarrow>
         pa_action_id a \<noteq> pa_action_id b)"
  using saga_replay_ok [OF assms(1)] replay_action_ids [OF assms(2)] assms(1)
  by (cases ys) (auto simp: decision_ok_def saga_inv_def)

theorem saga_log_is_consistent_witness: "decision_ok ex_saga ex_final_decision"
proof -
  have "saga_replay ex_saga ex_tenant ex_process (take 1 ex_log @ drop 1 ex_log) = Inr ex_final_decision"
    using ex_replay by simp
  from saga_log_is_consistent [OF this ex_start_replay] show ?thesis by blast
qed

text \<open>
  C7. Crash recovery loses nothing: replaying a log extended by the event of an input yields a
  decision exactly when the input's identity is new to the log and the pure decision function,
  applied to the projection replayed from the log (or to none for an empty log), yields that decision.
\<close>

theorem replay_agrees_with_decide:
  "saga_replay d tenant process (evs @ [to_event d inp]) = Inr dec' \<longleftrightarrow>
     (\<forall>i. event_input_id (to_event d inp) = Some i \<longrightarrow> i \<notin> set (input_ids evs))
     \<and> (if evs = [] then decide d None tenant process inp = Inr dec'
        else \<exists>dec. saga_replay d tenant process evs = Inr dec
          \<and> decide d (Some (sd_projection dec)) tenant process inp = Inr dec')"
proof -
  have inject: "to_event d inp = to_event d inp' \<longleftrightarrow> inp' = inp" for inp'
    by (cases inp) (auto simp: to_event_eq event_started_def)
  have "\<exists>i. event_input_id (to_event d inp) = Some i"
    by (cases inp) (simp_all add: event_started_def)
  then show ?thesis unfolding saga_replay_snoc inject by auto
qed

theorem replay_agrees_with_decide_witness:
  "decide ex_saga None ex_tenant ex_process (InStart (InputId ''inp_0'') (ActionId ''act_0'')) = Inr ex_start_decision"
proof -
  have "saga_replay ex_saga ex_tenant ex_process
      ([] @ [to_event ex_saga (InStart (InputId ''inp_0'') (ActionId ''act_0''))]) = Inr ex_start_decision"
    using ex_start_replay by (simp add: ex_log_def)
  then show ?thesis using replay_agrees_with_decide [of ex_saga ex_tenant ex_process "[]"
      "InStart (InputId ''inp_0'') (ActionId ''act_0'')" ex_start_decision] by simp
qed

text \<open>
  No automatic progress past a stop: a completed, cancelled or compensated process refuses every
  input, an escalated one accepts only a manual resolution, and an action result reported as unknown
  always escalates without planning an action.
\<close>

theorem stopped_process_needs_authority:
  assumes "decide d (Some p) tenant process inp = Inr dec"
  shows "sg_status p \<notin> {SgCompleted, SgCancelled, SgCompensated}
    \<and> (sg_status p = SgEscalated \<longrightarrow> (\<exists>i r nxt. inp = InManualResolution i r nxt))
    \<and> ((\<exists>i obs nxt. inp = InActionResult i obs nxt \<and> ob_result obs = ArUnknown) \<longrightarrow>
         sg_status (sd_projection dec) = SgEscalated \<and> sd_next_action dec = None)"
  using assms
  by (cases inp) (auto simp: apply_action_result_def schedule_retry_timer_def fire_retry_timer_def
      apply_manual_resolution_def bindR_eq_Inr apply_forward_result_def apply_compensation_result_def
      stop_def terminal_projection_def split: if_splits)

theorem stopped_process_needs_authority_witness:
  "\<exists>dec. decide ex_saga (Some (sd_projection ex_start_decision)) ex_tenant ex_process
      (InActionResult (InputId ''inp_1'') \<lparr> ob_action_id = ActionId ''act_0'', ob_result = ArUnknown \<rparr> None) = Inr dec
    \<and> sg_status (sd_projection dec) = SgEscalated"
proof -
  let ?inp = "InActionResult (InputId ''inp_1'') \<lparr> ob_action_id = ActionId ''act_0'', ob_result = ArUnknown \<rparr> None"
  have "\<exists>dec. decide ex_saga (Some (sd_projection ex_start_decision)) ex_tenant ex_process ?inp = Inr dec"
    by (simp add: ex_saga_defs saga_eval)
  then show ?thesis using stopped_process_needs_authority by fastforce
qed

text \<open>
  C9. Compensation runs in reverse order of success and ends: while a process compensates, reporting
  success for each awaited compensation, with a fresh identity each time, plans the remaining
  compensable steps from last to first and then records the process as compensated.
\<close>

theorem compensation_is_lifo:
  assumes "saga_inv d p" "sg_status p = SgCompensating"
    and "length ids = length (sg_compensable_step_indices p)"
    and "distinct ids" "set ids \<inter> set (sg_issued_action_ids p) = {}"
  shows "\<exists>decs. succeed_all d tenant process p ids = Inr decs
    \<and> action_steps decs = steps_at d (rev (butlast (sg_compensable_step_indices p)))
    \<and> sg_status (sd_projection (last decs)) = SgCompensated"
  using succeed_all_compensates [OF assms] by blast

theorem compensation_is_lifo_witness:
  "\<exists>decs. succeed_all ex_saga ex_tenant ex_process (sd_projection ex_final_decision)
       [ActionId ''act_4'', ActionId ''act_5''] = Inr decs
     \<and> action_steps decs = [StepId ''stp_a'']
     \<and> sg_status (sd_projection (last decs)) = SgCompensated"
proof -
  have "saga_inv ex_saga (sd_projection ex_final_decision)"
    using saga_replay_ok [OF ex_replay] by (simp add: decision_ok_def)
  from compensation_is_lifo [OF this, of "[ActionId ''act_4'', ActionId ''act_5'']" ex_tenant ex_process]
  show ?thesis by (simp add: ex_saga_defs steps_at_def)
qed

text \<open>
  C11. A process whose actions all succeed completes: from a running projection with no pending timer,
  one success per remaining step, with fresh identities, plans the remaining steps in order and
  reaches completion.
\<close>

theorem successes_complete_the_saga:
  assumes "saga_inv d p" "sg_status p = SgRunning" "sg_retry_due_at p = None"
    and "length ids = length (ls_steps d) - sg_next_step_index p"
    and "distinct ids" "set ids \<inter> set (sg_issued_action_ids p) = {}"
  shows "\<exists>decs. succeed_all d tenant process p ids = Inr decs
    \<and> action_steps decs = steps_at d [Suc (sg_next_step_index p)..<length (ls_steps d)]
    \<and> sg_status (sd_projection (last decs)) = SgCompleted"
  using succeed_all_completes [OF assms] by blast

theorem successes_complete_the_saga_witness:
  "\<exists>decs. succeed_all ex_saga ex_tenant ex_process (sd_projection ex_start_decision)
       [ActionId ''act_4'', ActionId ''act_5'', ActionId ''act_6''] = Inr decs
     \<and> sg_status (sd_projection (last decs)) = SgCompleted"
proof -
  have "saga_inv ex_saga (sd_projection ex_start_decision)"
    using saga_replay_ok [OF ex_start_replay] by (simp add: decision_ok_def)
  from successes_complete_the_saga [OF this, of "[ActionId ''act_4'', ActionId ''act_5'', ActionId ''act_6'']"
      ex_tenant ex_process]
  show ?thesis by (auto simp: ex_saga_defs)
qed

text \<open>
  C10. A pending retry timer is the only way forward and never fires early: while a retry is due at a
  recorded time, the only accepted input is the firing of exactly that timer action, at or after the
  due time, and it plans the awaited step's own action again.
\<close>

theorem pending_timer_gates_retry:
  assumes "saga_inv d p" "sg_retry_due_at p = Some due" "decide d (Some p) tenant process inp = Inr dec"
  shows "\<exists>i at nxt. inp = InRetryTimerFired i (last (sg_issued_action_ids p)) at nxt \<and> due \<le> at
    \<and> sg_retry_due_at (sd_projection dec) = None
    \<and> (\<exists>a. sd_next_action dec = Some a \<and> pa_action_id a = nxt
         \<and> pa_step_id a = sp_step_id (ls_steps d ! sg_next_step_index p)
         \<and> pa_attempt a = sg_current_attempt p)"
proof -
  have run: "sg_status p = SgRunning" using assms(1,2) by (auto simp: saga_inv_def)
  then have act: "sg_active_action_id p = Some (last (sg_issued_action_ids p))"
    using assms(1) by (simp add: saga_inv_def)
  obtain i at nxt where inp: "inp = InRetryTimerFired i (last (sg_issued_action_ids p)) at nxt"
    "fire_retry_timer d p tenant process (last (sg_issued_action_ids p)) at nxt = Inr dec" "due \<le> at"
    using assms(2,3) run act
    by (cases inp) (auto simp: apply_action_result_def schedule_retry_timer_def fire_retry_timer_def
        apply_manual_resolution_def bindR_eq_Inr ok_or_eq_Inr not_less split: if_splits)
  then have "sg_retry_due_at (sd_projection dec) = None" "sg_status (sd_projection dec) = SgRunning"
    "sg_active_action_id (sd_projection dec) = Some nxt"
    "sg_next_step_index (sd_projection dec) = sg_next_step_index p"
    "sg_current_attempt (sd_projection dec) = sg_current_attempt p"
    using run by (auto simp: fire_retry_timer_def result_simps plan_def split: if_splits)
  moreover have "decision_ok d dec" using fire_accepted [OF inp(2) assms(1)] by (simp add: accepted_def)
  ultimately show ?thesis
    using inp by (auto simp: decision_ok_def planned_action_def Let_def split: option.splits)
qed


theorem pending_timer_gates_retry_witness:
  "\<exists>dec. decide ex_timed (Some ex_waiting) ex_tenant ex_process
      (InRetryTimerFired (InputId ''inp_2'') (ActionId ''act_1'') 2000 (ActionId ''act_2'')) = Inr dec
    \<and> sg_retry_due_at (sd_projection dec) = None"
proof -
  let ?inp = "InRetryTimerFired (InputId ''inp_2'') (ActionId ''act_1'') 2000 (ActionId ''act_2'')"
  have inv: "saga_inv ex_timed ex_waiting"
    by (simp add: saga_inv_def ex_timed_defs saga_eval ex_saga_defs)
  obtain dec where dec: "decide ex_timed (Some ex_waiting) ex_tenant ex_process ?inp = Inr dec"
    by (simp add: fire_retry_timer_def ex_timed_defs saga_eval ex_saga_defs)
  have "sg_retry_due_at ex_waiting = Some 1500" by (simp add: ex_waiting_def)
  from pending_timer_gates_retry [OF inv this dec] show ?thesis using dec by blast
qed

section \<open>Due times\<close>

unbundle bit_operations_syntax
















abbreviation "awaited_step d p \<equiv> ls_steps d ! sg_next_step_index p"






















text \<open>
  The doubling is not saturating: \<open>checked_shl\<close> checks only the shift amount, so with a base of
  1000 ms and a cap of 60 s the delay of the retry with ordinal 61, which a policy of 64 attempts
  reaches, is zero: the retry is due at once although the documented delay is the cap.
\<close>

theorem retry_backoff_collapses:
  "\<exists>b. retry_backoff_new (NonZero 1000) (NonZero 60000) = Inr b
     \<and> retry_delay b 10 = 60000 \<and> retry_delay b 61 = 0
     \<and> retry_due_at \<lparr> rp_max_attempts = NonZero 64, rp_backoff = Some b \<rparr> 5 61 seed = Inr (Some 5)"
  by (simp add: retry_backoff_new_def retry_delay_def checked_shl_def retry_due_at_def checked_add_def
      push_bit_eq_mult)

text \<open>
  A compensation with retry backoff cannot be retried: while a process compensates, the
  compensating action's policy has backoff timing and attempts are left, no input that reports a
  retryable failure is accepted; the only accepted inputs report success, terminal failure or an
  unknown outcome of the awaited action.
\<close>

theorem compensation_backoff_has_no_retry:
  assumes "saga_inv d p" "sg_status p = SgCompensating"
    and "compensation_at d (last (sg_compensable_step_indices p)) = Some c"
    and "rp_backoff (cp_retry_policy c) \<noteq> None"
    and "unat (sg_current_attempt p) + 1 < unat (nz_get (rp_max_attempts (cp_retry_policy c)))"
    and "decide d (Some p) tenant process inp = Inr dec"
  shows "\<exists>i obs nxt. inp = InActionResult i obs nxt \<and> ob_result obs \<noteq> ArRetryableFailure"
proof -
  have comp: "compensation_for d p = Inr c"
    using assms(1-3) by (auto simp: compensation_for_def last_index_def compensation_at_def get_step_def
        saga_inv_def split: if_splits)
  have "apply_compensation_result d p tenant process ArRetryableFailure nxt \<noteq> Inr dec" for nxt
  proof
    assume run: "apply_compensation_result d p tenant process ArRetryableFailure nxt = Inr dec"
    then obtain n where n: "checked_add (sg_current_attempt p) 1 = Some n"
      using comp by (auto simp: apply_compensation_result_def bindR_eq_Inr ok_or_eq_Inr)
    then have "\<not> nz_get (rp_max_attempts (cp_retry_policy c)) \<le> n"
      using assms(5) by (simp add: checked_add_Some not_le word_less_nat_alt)
    then show False using run comp n assms(4) by (simp add: apply_compensation_result_def)
  qed
  then show ?thesis
    using assms(2,6)
    by (cases inp) (auto simp: apply_action_result_def schedule_retry_timer_def fire_retry_timer_def
        apply_manual_resolution_def bindR_eq_Inr split: if_splits)
qed

theorem compensation_backoff_has_no_retry_witness:
  "\<forall>dec. decide ex_stuck (Some ex_compensating) ex_tenant ex_process
     (InActionResult (InputId ''inp_3'') \<lparr> ob_action_id = ActionId ''act_2'', ob_result = ArRetryableFailure \<rparr>
       (Some (ActionId ''act_3''))) \<noteq> Inr dec"
proof -
  have inv: "saga_inv ex_stuck ex_compensating"
    by (simp add: saga_inv_def compensation_at_def ex_timed_defs saga_eval ex_saga_defs)
  show ?thesis
    using compensation_backoff_has_no_retry [OF inv, of "compensation_command (digest_fill 2) ex_timed_policy"
        ex_tenant ex_process "InActionResult (InputId ''inp_3'')
          \<lparr> ob_action_id = ActionId ''act_2'', ob_result = ArRetryableFailure \<rparr> (Some (ActionId ''act_3''))"]
    by (auto simp: compensation_at_def ex_timed_defs ex_saga_defs)
qed

text \<open>
  The two-path validation of a saga definition, with its quadratic search for up to 16 steps, its
  strict-descent shortcut and its sorted scan for more, is the plain specification: non-empty, at
  most 128 steps, distinct step identities, at most 64 attempts per step and compensation, with the
  errors in that order.
\<close>

theorem saga_validate_is_reference: "saga_validate d = validate_reference d"
proof -
  have "attempts_exceeded s \<longleftrightarrow> \<not> (nz_get (rp_max_attempts (sp_retry_policy s)) \<le> 64
      \<and> pred_option (\<lambda>c. nz_get (rp_max_attempts (cp_retry_policy c)) \<le> 64) (sp_compensation s))" for s
    by (cases "sp_compensation s")
      (auto simp: attempts_exceeded_def MAX_ACTION_ATTEMPTS_PER_STEP_def not_le)
  then have "list_ex attempts_exceeded (ls_steps d) \<longleftrightarrow>
      \<not> list_all (\<lambda>s. nz_get (rp_max_attempts (sp_retry_policy s)) \<le> 64
         \<and> pred_option (\<lambda>c. nz_get (rp_max_attempts (cp_retry_policy c)) \<le> 64) (sp_compensation s)) (ls_steps d)"
    by (simp add: list_ex_iff list_all_iff)
  then show ?thesis by (simp add: saga_validate_eq validate_reference_def)
qed

text \<open>
  The outcome batch built for a decision is the required one: whenever \<open>build_required_outcomes\<close>
  succeeds its batch passes \<open>validate_required_outcomes\<close>, every outcome is pinned to the given
  scope, sequences are contiguous from the first one without wrap-around, and accepted-input
  outcomes are caused by the event's input.
\<close>

theorem outcome_batch_is_required:
  assumes "build_required_outcomes dec ev s first facts = Inr outs"
  shows "validate_required_outcomes dec ev outs = Inr ()
    \<and> list_all (\<lambda>x. outcome_scope x = s \<and> validate_for_scope x s = Inr ()
        \<and> (po_kind x = OkInputAccepted \<longrightarrow> (\<exists>i. event_input_id ev = Some i \<and> po_causation_id x = CausedByInput i))) outs
    \<and> map (\<lambda>x. unat (po_sequence x)) outs = [unat first..<unat first + length facts]"
proof -
  have kinds: "map pf_kind facts = observed_outcome_kinds ev @ planned_outcome_kinds dec"
    and cause: "list_all (\<lambda>f. pf_kind f = OkInputAccepted \<longrightarrow> (case event_input_id ev of None \<Rightarrow> False
        | Some i \<Rightarrow> pf_causation_id f = CausedByInput i)) facts"
    and run: "number_outcomes s first 0 facts = Inr outs"
    using assms by (auto simp: build_required_outcomes_def split: if_splits)
  note num = number_outcomes_Inr [OF run]
  have same: "length outs = length facts" using num by (metis length_map)
  have at: "po_kind (outs ! k) = pf_kind (facts ! k)" "po_causation_id (outs ! k) = pf_causation_id (facts ! k)"
    if "k < length outs" for k
    using num that same by (metis nth_map)+
  have "list_all (\<lambda>x. po_kind x = OkInputAccepted \<longrightarrow>
      (\<exists>i. event_input_id ev = Some i \<and> po_causation_id x = CausedByInput i)) outs"
    using cause at same by (auto simp: list_all_length split: option.splits)
  moreover have "outcome_scope x = s \<Longrightarrow> validate_for_scope x s = Inr ()" for x
    by (auto simp: validate_for_scope_def outcome_scope_def)
  ultimately show ?thesis
    using num kinds by (auto simp: validate_required_outcomes_def list_all_iff)
qed

theorem outcome_batch_is_required_witness:
  "\<exists>outs. build_required_outcomes ex_start_decision (hd ex_log) ex_scope_of_process 4
      (map ex_fact [OkInputAccepted, OkStarted, OkActionPlanned]) = Inr outs
    \<and> map (\<lambda>x. unat (po_sequence x)) outs = [4, 5, 6]"
proof -
  let ?facts = "map ex_fact [OkInputAccepted, OkStarted, OkActionPlanned]"
  have build: "build_required_outcomes ex_start_decision (hd ex_log) ex_scope_of_process 4 ?facts =
      number_outcomes ex_scope_of_process 4 0 ?facts"
    by (simp add: build_required_outcomes_def scope_matches_projection_def planned_outcome_kinds_def
        ex_saga_defs ex_fact_def ex_scope_of_process_def del: number_outcomes.simps)
  have "unat (4 :: u64) + 0 + length ?facts \<le> 2 ^ 64" by simp
  then have "\<exists>outs. number_outcomes ex_scope_of_process 4 0 ?facts = Inr outs" by (rule number_outcomes_total)
  then obtain outs where outs: "build_required_outcomes ex_start_decision (hd ex_log)
      ex_scope_of_process 4 ?facts = Inr outs"
    unfolding build by (rule exE)
  have "map (\<lambda>x. unat (po_sequence x)) outs = [unat (4 :: u64)..<unat (4 :: u64) + length ?facts]"
    by (rule outcome_batch_is_required [OF outs, THEN conjunct2, THEN conjunct2])
  then have "map (\<lambda>x. unat (po_sequence x)) outs = [4..<4 + 3]" by simp
  also have "[4..<4 + 3::nat] = [4, 5, 6]" by code_simp
  finally have seq: "map (\<lambda>x. unat (po_sequence x)) outs = [4, 5, 6]" .
  show ?thesis by (rule exI [of _ outs], rule conjI [OF outs seq])
qed

text \<open>
  An ordered log is accepted exactly when its sequence numbers are 0, 1, \<dots> without gap or
  wrap-around and its events replay, and then with the same decision.
\<close>

theorem ordered_replay_checks_sequence:
  "saga_replay_ordered d tenant process es = Inr dec \<longleftrightarrow>
     map (\<lambda>e. unat (env_sequence e)) es = [0..<length es] \<and> length es < 2 ^ 64
     \<and> saga_replay d tenant process (map env_event es) = Inr dec"
  by (auto simp: saga_replay_ordered_def bindR_eq_Inr ordered_events_Inr)

end
