(* ===== verification/Graph_Engine.thy ===== *)
theory Graph_Engine
  imports Saga_Engine
begin

text \<open>
  Process graphs: the definition and its validation (the graph part of
  \<open>penelope-executor/src/engine.rs\<close>), the transitions, replay (\<open>graph.rs\<close>) and the outcome
  plan (\<open>graph_outcomes.rs\<close>).

  The fixed scratch arrays of the validation are lists of length \<open>MAX_DEFINITION_STEPS\<close>, with
  their checked accesses; the \<open>Vec\<close> of pending indices is a list whose last element is the
  top. \<open>slice::binary_search\<close> of the standard library is written out as a bisection.
\<close>

section \<open>Definitions\<close>

definition MAX_GRAPH_TRANSITIONS :: nat where
  "MAX_GRAPH_TRANSITIONS = 512"

datatype graph_transition_outcome = GoSucceeded | GoRetryableFailure | GoTerminalFailure

record graph_transition =
  gt_from_step :: step_id
  gt_on :: graph_transition_outcome
  gt_to_step :: "step_id option"

record process_graph_definition =
  pg_definition_id :: definition_id
  pg_definition_version :: definition_version
  pg_definition_digest :: content_digest
  pg_steps :: "step_plan list"
  pg_entry_step_id :: step_id
  pg_transitions :: "graph_transition list"
  pg_max_step_visits :: "32 nonzero"

datatype graph_definition_error =
    EmptySteps | GraphStepLimitExceeded | TransitionLimitExceeded | DuplicateStep | UnknownEntryStep
  | UnknownSourceStep | UnknownDestinationStep | DuplicateTransition | MissingDestination
  | UnreachableStep

section \<open>Validation\<close>

text \<open>\<open>slice::binary_search\<close> on the half-open range from \<open>lo\<close> to \<open>hi\<close>.\<close>

function bisect :: "'a::linorder list \<Rightarrow> 'a \<Rightarrow> nat \<Rightarrow> nat \<Rightarrow> nat option" where
  "bisect xs key lo hi =
     (if lo < hi then
        let mid = (lo + hi) div 2 in
        if xs ! mid = key then Some mid
        else if xs ! mid < key then bisect xs key (mid + 1) hi
        else bisect xs key lo mid
      else None)"
  by pat_completeness auto
termination by (relation "measure (\<lambda>(_, _, lo, hi). hi - lo)") auto

declare bisect.simps [simp del]

definition binary_search :: "'a::linorder list \<Rightarrow> 'a \<Rightarrow> nat option" where
  "binary_search xs key = bisect xs key 0 (length xs)"

fun outcome_mask :: "graph_transition_outcome \<Rightarrow> u8" where
  "outcome_mask GoSucceeded = 1"
| "outcome_mask GoRetryableFailure = 2"
| "outcome_mask GoTerminalFailure = 4"

definition check_destination :: "step_id list \<Rightarrow> graph_transition \<Rightarrow> graph_definition_error + unit" where
  "check_destination ids t =
     (case gt_to_step t of
        Some to_step \<Rightarrow> if binary_search ids to_step = None then Inl UnknownDestinationStep else Inr ()
      | None \<Rightarrow> if gt_on t = GoRetryableFailure then Inl MissingDestination else Inr ())"

fun scan_transitions ::
  "step_id list \<Rightarrow> u8 list \<Rightarrow> graph_transition list \<Rightarrow> graph_definition_error + u8 list" where
  "scan_transitions ids keys [] = Inr keys"
| "scan_transitions ids keys (t # ts) =
     bindR (ok_or UnknownSourceStep (binary_search ids (gt_from_step t))) (\<lambda>source.
     bindR (check_destination ids t) (\<lambda>_.
       if length keys \<le> source then Inl UnknownSourceStep
       else if (keys ! source) AND outcome_mask (gt_on t) \<noteq> 0 then Inl DuplicateTransition
       else scan_transitions ids (keys[source := (keys ! source) OR outcome_mask (gt_on t)]) ts))"

text \<open>The edges of one popped step: mark and push the destinations not reached before.\<close>

fun visit_edges ::
  "step_id list \<Rightarrow> bool list \<Rightarrow> nat list \<Rightarrow> graph_transition list \<Rightarrow>
     graph_definition_error + (bool list \<times> nat list)" where
  "visit_edges ids reachable pending [] = Inr (reachable, pending)"
| "visit_edges ids reachable pending (t # ts) =
     (case gt_to_step t of
        None \<Rightarrow> visit_edges ids reachable pending ts
      | Some nxt \<Rightarrow>
          bindR (ok_or UnknownDestinationStep (binary_search ids nxt)) (\<lambda>i.
            if length reachable \<le> i then Inl UnknownDestinationStep
            else if reachable ! i then visit_edges ids reachable pending ts
            else visit_edges ids (reachable[i := True]) (pending @ [i]) ts))"

definition edges_from :: "process_graph_definition \<Rightarrow> step_id \<Rightarrow> graph_transition list" where
  "edges_from g s = filter (\<lambda>t. gt_from_step t = s) (pg_transitions g)"

lemma count_list_update_True:
  "i < length xs \<Longrightarrow> \<not> xs ! i \<Longrightarrow> Suc (count_list (xs[i := True]) False) = count_list xs False"
proof (induction xs arbitrary: i)
  case (Cons x xs)
  then show ?case by (cases i) auto
qed simp

lemma visit_edges_measure:
  "visit_edges ids reachable pending ts = Inr (r, p) \<Longrightarrow>
     count_list r False + length p = count_list reachable False + length pending"
proof (induction ts arbitrary: reachable pending)
  case (Cons t ts)
  then show ?case
    using count_list_update_True [of _ reachable]
    by (fastforce simp: result_simps not_le split: option.splits if_splits)
qed simp

text \<open>Each iteration pops one index; a push is paid for by a mark.\<close>

function reach_loop ::
  "process_graph_definition \<Rightarrow> step_id list \<Rightarrow> bool list \<Rightarrow> nat list \<Rightarrow> graph_definition_error + bool list" where
  "reach_loop g ids reachable pending =
     (if pending = [] then Inr reachable
      else let i = last pending in
        if length ids \<le> i then Inl UnknownSourceStep
        else bindR (visit_edges ids reachable (butlast pending) (edges_from g (ids ! i))) (\<lambda>(r, p).
               reach_loop g ids r p))"
  by pat_completeness auto
termination
proof (relation "measure (\<lambda>(_, _, r, p). count_list r False + length p)", goal_cases)
  case (2 g ids reachable pending i x r p)
  then have "count_list r False + length p = count_list reachable False + length (butlast pending)"
    using visit_edges_measure by auto
  with 2 show ?case by (cases pending rule: rev_cases) auto
qed simp

declare reach_loop.simps [simp del]

definition graph_validate :: "process_graph_definition \<Rightarrow> graph_definition_error + unit" where
  "graph_validate g =
     (if pg_steps g = [] then Inl EmptySteps
      else if MAX_DEFINITION_STEPS < length (pg_steps g) then Inl GraphStepLimitExceeded
      else if MAX_GRAPH_TRANSITIONS < length (pg_transitions g) then Inl TransitionLimitExceeded
      else let ids = sort (map sp_step_id (pg_steps g)) in
        if list_ex (\<lambda>(left, right). left = right) (zip ids (drop 1 ids)) then Inl DuplicateStep
        else bindR (ok_or UnknownEntryStep (binary_search ids (pg_entry_step_id g))) (\<lambda>entry.
          bindR (scan_transitions ids (replicate MAX_DEFINITION_STEPS 0) (pg_transitions g)) (\<lambda>_.
            if MAX_DEFINITION_STEPS \<le> entry then Inl UnknownEntryStep
            else bindR (reach_loop g ids ((replicate MAX_DEFINITION_STEPS False)[entry := True]) [entry])
              (\<lambda>reachable.
                if list_ex Not (take (length ids) reachable) then Inl UnreachableStep else Inr ()))))"

section \<open>State, inputs, events\<close>

definition MAX_GRAPH_REPLAY_EVENTS :: nat where
  "MAX_GRAPH_REPLAY_EVENTS = 4096"

record graph_saga_projection =
  gp_scope :: process_scope
  gp_current_step_id :: "step_id option"
  gp_step_visits :: u32
  gp_active_action_id :: "action_id option"
  gp_issued_action_ids :: "action_id list"
  gp_status :: saga_status

datatype graph_saga_input =
    GiStart input_id action_id
  | GiActionResult input_id action_result_observation "action_id option"

datatype graph_saga_event =
    GeStarted input_id action_id
  | GeActionResultObserved input_id action_result_observation "action_id option"

record graph_saga_event_envelope =
  ge_sequence :: u64
  ge_event :: graph_saga_event

datatype graph_engine_error =
    GraphInvalidDefinition graph_definition_error | GraphAlreadyStarted | GraphNotRunning
  | GraphActionMismatch | GraphDuplicateInput | GraphActionIdentityMismatch | GraphDuplicateActionId
  | MissingTransition | VisitLimitExceeded | GraphScopeMismatch | GraphSequenceMismatch
  | ReplayLimitExceeded

record graph_saga_decision =
  gd_projection :: graph_saga_projection
  gd_next_action :: "process_action option"
  gd_event :: graph_saga_event

section \<open>Transitions\<close>

definition graph_action_for ::
  "process_graph_definition \<Rightarrow> process_scope \<Rightarrow> step_id \<Rightarrow> action_id \<Rightarrow> u32 \<Rightarrow>
     graph_engine_error + process_action" where
  "graph_action_for g scope step_id action_id visit =
     bindR (ok_or GraphActionIdentityMismatch (find (\<lambda>s. sp_step_id s = step_id) (pg_steps g))) (\<lambda>step.
       Inr (action_new scope action_id (sp_step_id step) (saturating_sub visit 1)
              (sp_action_kind step) (sp_payload_digest step)))"

fun transition_outcome :: "action_result \<Rightarrow> graph_transition_outcome" where
  "transition_outcome ArSucceeded = GoSucceeded"
| "transition_outcome ArRetryableFailure = GoRetryableFailure"
| "transition_outcome ArTerminalFailure = GoTerminalFailure"
| "transition_outcome ArUnknown = GoTerminalFailure"

definition ensure_new_action ::
  "graph_saga_projection \<Rightarrow> action_id option \<Rightarrow> graph_engine_error + action_id" where
  "ensure_new_action p next_id =
     bindR (ok_or GraphActionIdentityMismatch next_id) (\<lambda>a.
       if a \<in> set (gp_issued_action_ids p) then Inl GraphDuplicateActionId else Inr a)"

definition inactive_projection :: "graph_saga_projection \<Rightarrow> graph_saga_projection" where
  "inactive_projection p = p\<lparr>gp_current_step_id := None, gp_active_action_id := None\<rparr>"

definition start_graph ::
  "process_graph_definition \<Rightarrow> tenant_id \<Rightarrow> process_id \<Rightarrow> graph_saga_input \<Rightarrow>
     graph_engine_error + graph_saga_decision" where
  "start_graph g tenant process input =
     bindR (map_err GraphInvalidDefinition (graph_validate g)) (\<lambda>_.
       case input of
         GiStart input_id action_id \<Rightarrow>
           let scope = \<lparr> ps_tenant_id = tenant, ps_process_id = process,
                 ps_definition_id = pg_definition_id g, ps_definition_version = pg_definition_version g,
                 ps_definition_digest = pg_definition_digest g \<rparr>
           in bindR (graph_action_for g scope (pg_entry_step_id g) action_id 1) (\<lambda>action.
                Inr \<lparr> gd_projection =
                        \<lparr> gp_scope = scope, gp_current_step_id = Some (pg_entry_step_id g),
                          gp_step_visits = 1, gp_active_action_id = Some action_id,
                          gp_issued_action_ids = [action_id], gp_status = SgRunning \<rparr>,
                      gd_next_action = Some action,
                      gd_event = GeStarted input_id action_id \<rparr>)
       | _ \<Rightarrow> Inl GraphAlreadyStarted)"

text \<open>Following an edge to another step, and ending at an edge without destination.\<close>

definition follow_edge ::
  "process_graph_definition \<Rightarrow> graph_saga_projection \<Rightarrow> step_id \<Rightarrow> action_id option \<Rightarrow>
     graph_engine_error + (graph_saga_projection \<times> process_action option)" where
  "follow_edge g p to_step next_id =
     bindR (ensure_new_action p next_id) (\<lambda>a.
     bindR (ok_or VisitLimitExceeded (checked_add (gp_step_visits p) 1)) (\<lambda>visits.
       if nz_get (pg_max_step_visits g) < visits then Inl VisitLimitExceeded
       else bindR (graph_action_for g (gp_scope p) to_step a visits) (\<lambda>action.
         Inr ((inactive_projection p)\<lparr>gp_current_step_id := Some to_step, gp_step_visits := visits,
                gp_active_action_id := Some a, gp_issued_action_ids := gp_issued_action_ids p @ [a]\<rparr>,
              Some action))))"

definition end_edge ::
  "graph_saga_projection \<Rightarrow> action_result \<Rightarrow> action_id option \<Rightarrow>
     graph_engine_error + (graph_saga_projection \<times> process_action option)" where
  "end_edge p result next_id =
     (if next_id \<noteq> None then Inl GraphActionIdentityMismatch
      else Inr ((inactive_projection p)\<lparr>gp_status := if result = ArSucceeded then SgCompleted else SgEscalated\<rparr>,
                None))"

definition apply_graph_result ::
  "process_graph_definition \<Rightarrow> graph_saga_projection \<Rightarrow> graph_saga_input \<Rightarrow>
     graph_engine_error + graph_saga_decision" where
  "apply_graph_result g p input =
     bindR (map_err GraphInvalidDefinition (graph_validate g)) (\<lambda>_.
       case input of
         GiActionResult input_id obs next_id \<Rightarrow>
           if gp_status p \<noteq> SgRunning then Inl GraphNotRunning
           else if gp_active_action_id p \<noteq> Some (ob_action_id obs) then Inl GraphActionMismatch
           else bindR (ok_or GraphNotRunning (gp_current_step_id p)) (\<lambda>step.
             if ob_result obs = ArUnknown then
               if next_id \<noteq> None then Inl GraphActionIdentityMismatch
               else Inr \<lparr> gd_projection = (inactive_projection p)\<lparr>gp_status := SgEscalated\<rparr>,
                          gd_next_action = None,
                          gd_event = GeActionResultObserved input_id obs next_id \<rparr>
             else bindR (ok_or MissingTransition
                           (find (\<lambda>t. gt_from_step t = step \<and> gt_on t = transition_outcome (ob_result obs))
                                 (pg_transitions g))) (\<lambda>t.
               bindR (case gt_to_step t of
                        Some to_step \<Rightarrow> follow_edge g p to_step next_id
                      | None \<Rightarrow> end_edge p (ob_result obs) next_id) (\<lambda>(q, action).
                 Inr \<lparr> gd_projection = q, gd_next_action = action,
                       gd_event = GeActionResultObserved input_id obs next_id \<rparr>)))
       | _ \<Rightarrow> Inl GraphNotRunning)"

section \<open>Replay\<close>

fun graph_event_input_id :: "graph_saga_event \<Rightarrow> input_id" where
  "graph_event_input_id (GeStarted i _) = i"
| "graph_event_input_id (GeActionResultObserved i _ _) = i"

text \<open>\<open>match (projection, event)\<close>\<close>

fun replay_graph_event ::
  "process_graph_definition \<Rightarrow> tenant_id \<Rightarrow> process_id \<Rightarrow> graph_saga_projection option \<Rightarrow> graph_saga_event \<Rightarrow>
     graph_engine_error + graph_saga_decision" where
  "replay_graph_event g tenant process None (GeStarted i a) = start_graph g tenant process (GiStart i a)"
| "replay_graph_event g tenant process (Some p) (GeActionResultObserved i obs nxt) =
     apply_graph_result g p (GiActionResult i obs nxt)"
| "replay_graph_event g tenant process _ _ = Inl GraphAlreadyStarted"

type_synonym graph_replay_state = "graph_saga_projection option \<times> input_id list"

definition replay_graph_step ::
  "process_graph_definition \<Rightarrow> tenant_id \<Rightarrow> process_id \<Rightarrow> graph_replay_state \<Rightarrow> graph_saga_event \<Rightarrow>
     graph_engine_error + graph_replay_state" where
  "replay_graph_step g tenant process st ev =
     (case st of (p, accepted) \<Rightarrow>
        if graph_event_input_id ev \<in> set accepted then Inl GraphDuplicateInput
        else bindR (replay_graph_event g tenant process p ev) (\<lambda>d.
               Inr (Some (gd_projection d), graph_event_input_id ev # accepted)))"

definition replay_graph ::
  "process_graph_definition \<Rightarrow> tenant_id \<Rightarrow> process_id \<Rightarrow> graph_saga_event list \<Rightarrow>
     graph_engine_error + graph_saga_projection" where
  "replay_graph g tenant process events =
     (if MAX_GRAPH_REPLAY_EVENTS < length events then Inl ReplayLimitExceeded
      else bindR (replay_from (replay_graph_step g tenant process) (None, []) events) (\<lambda>(p, _).
             ok_or GraphNotRunning p))"

fun check_sequence :: "nat \<Rightarrow> graph_saga_event_envelope list \<Rightarrow> graph_engine_error + unit" where
  "check_sequence expected [] = Inr ()"
| "check_sequence expected (e # es) =
     (if ge_sequence e \<noteq> of_nat expected then Inl GraphSequenceMismatch
      else check_sequence (expected + 1) es)"

definition replay_graph_ordered ::
  "process_graph_definition \<Rightarrow> tenant_id \<Rightarrow> process_id \<Rightarrow> graph_saga_event_envelope list \<Rightarrow>
     graph_engine_error + graph_saga_projection" where
  "replay_graph_ordered g tenant process envelopes =
     (if MAX_GRAPH_REPLAY_EVENTS < length envelopes then Inl ReplayLimitExceeded
      else bindR (check_sequence 0 envelopes) (\<lambda>_.
             replay_graph g tenant process (map ge_event envelopes)))"

section \<open>Outcome plan\<close>

fun graph_observed_outcome_kinds :: "graph_saga_event \<Rightarrow> process_outcome_kind list" where
  "graph_observed_outcome_kinds (GeStarted _ _) = [OkInputAccepted, OkStarted]"
| "graph_observed_outcome_kinds (GeActionResultObserved _ obs _) =
     (case ob_result obs of
        ArSucceeded \<Rightarrow> [OkInputAccepted, OkActionSucceeded]
      | ArRetryableFailure \<Rightarrow> [OkInputAccepted, OkActionFailed]
      | ArTerminalFailure \<Rightarrow> [OkInputAccepted, OkActionFailed]
      | ArUnknown \<Rightarrow> [OkInputAccepted, OkActionOutcomeUnknown])"

definition graph_planned_outcome_kinds :: "graph_saga_decision \<Rightarrow> process_outcome_kind list" where
  "graph_planned_outcome_kinds d =
     (if gd_next_action d \<noteq> None then [OkActionPlanned]
      else case gp_status (gd_projection d) of
        SgCompleted \<Rightarrow> [OkCompleted]
      | SgEscalated \<Rightarrow> [OkEscalated]
      | SgCancelled \<Rightarrow> [OkCancelled]
      | SgCompensated \<Rightarrow> [OkCompensated]
      | SgRunning \<Rightarrow> []
      | SgCompensating \<Rightarrow> [])"

definition graph_build_required_outcomes ::
  "graph_saga_decision \<Rightarrow> process_scope \<Rightarrow> u64 \<Rightarrow> process_outcome_fact list \<Rightarrow>
     engine_error + process_outcome list" where
  "graph_build_required_outcomes d scope first facts =
     (if scope \<noteq> gp_scope (gd_projection d) then Inl EngineOutcomeScopeMismatch
      else if map pf_kind facts \<noteq> graph_observed_outcome_kinds (gd_event d) @ graph_planned_outcome_kinds d
      then Inl OutcomeKindPlanMismatch
      else if \<not> list_all (\<lambda>f. pf_kind f = OkInputAccepted \<longrightarrow>
                 pf_causation_id f = CausedByInput (graph_event_input_id (gd_event d))) facts
      then Inl OutcomeInputCausationMismatch
      else number_outcomes scope first 0 facts)"

end
