(* ===== verification/Graph_Validation.thy ===== *)
theory Graph_Validation
  imports Graph_Engine Saga_Invariants
begin

text \<open>
  The graph validation decides its specification: bounds, distinct step identities, declared
  references, one edge per step and outcome, and reachability of every step from the entry in
  the sense of the transitive closure of the edges.
\<close>

section \<open>Binary search\<close>

lemma bisect_Some:
  "bisect xs key lo hi = Some i \<Longrightarrow> lo \<le> i \<and> i < hi \<and> xs ! i = key"
proof (induction xs key lo hi rule: bisect.induct)
  case (1 xs key lo hi)
  then show ?case
    by (subst (asm) (3) bisect.simps) (fastforce simp: Let_def split: if_splits)
qed

lemma bisect_None:
  "bisect xs key lo hi = None \<Longrightarrow> sorted xs \<Longrightarrow> hi \<le> length xs \<Longrightarrow> lo \<le> j \<Longrightarrow> j < hi \<Longrightarrow> xs ! j \<noteq> key"
proof (induction xs key lo hi rule: bisect.induct)
  case (1 xs key lo hi)
  let ?mid = "(lo + hi) div 2"
  have lt: "lo < hi" and mid: "?mid < hi" using "1.prems"(4,5) by auto
  from "1.prems"(1) lt have ne: "xs ! ?mid \<noteq> key"
    by (subst (asm) bisect.simps) (auto simp: Let_def split: if_splits)
  show ?case
  proof (cases "xs ! ?mid < key")
    case True
    then have rec: "bisect xs key (?mid + 1) hi = None"
      using "1.prems"(1) lt ne by (subst (asm) bisect.simps) (auto simp: Let_def)
    show ?thesis
    proof (cases "j \<le> ?mid")
      case le: True
      then have "xs ! j \<le> xs ! ?mid" using "1.prems"(2,3) mid by (intro sorted_nth_mono) auto
      then show ?thesis using True by auto
    next
      case False
      then show ?thesis using "1.IH"(1) [OF lt refl ne True rec] "1.prems" by simp
    qed
  next
    case False
    then have rec: "bisect xs key lo ?mid = None"
      using "1.prems"(1) lt ne by (subst (asm) bisect.simps) (auto simp: Let_def)
    show ?thesis
    proof (cases "j < ?mid")
      case True
      then show ?thesis using "1.IH"(2) [OF lt refl ne False rec] "1.prems" mid by simp
    next
      case ge: False
      then have "xs ! ?mid \<le> xs ! j" using "1.prems"(2,3,5) by (intro sorted_nth_mono) auto
      then show ?thesis using False ne by auto
    qed
  qed
qed

lemma binary_search_None: "sorted xs \<Longrightarrow> binary_search xs key = None \<longleftrightarrow> key \<notin> set xs"
proof
  assume "sorted xs" "binary_search xs key = None"
  then show "key \<notin> set xs" using bisect_None [of xs key 0 "length xs"]
    by (auto simp: binary_search_def in_set_conv_nth)
next
  assume "key \<notin> set xs"
  then show "binary_search xs key = None"
    using bisect_Some [of xs key 0 "length xs"]
    by (cases "binary_search xs key") (auto simp: binary_search_def)
qed

lemma binary_search_Some:
  assumes "sorted xs" "distinct xs"
  shows "binary_search xs key = Some i \<longleftrightarrow> i < length xs \<and> xs ! i = key"
proof
  assume "binary_search xs key = Some i"
  then show "i < length xs \<and> xs ! i = key" using bisect_Some by (fastforce simp: binary_search_def)
next
  assume i: "i < length xs \<and> xs ! i = key"
  then obtain j where j: "binary_search xs key = Some j"
    using binary_search_None [OF assms(1)] by (metis not_None_eq nth_mem)
  then have "j < length xs" "xs ! j = key" using bisect_Some by (fastforce simp: binary_search_def)+
  with i j assms(2) show "binary_search xs key = Some i" by (metis nth_eq_iff_index_eq)
qed

section \<open>Edge keys\<close>

lemma mask_and: "(x OR outcome_mask a) AND outcome_mask b \<noteq> 0 \<longleftrightarrow> x AND outcome_mask b \<noteq> 0 \<or> a = b"
  by (cases a; cases b) (simp_all add: bit.conj_disj_distrib2 or_eq_0_iff)

text \<open>The steps and outcomes whose bit is set.\<close>

definition seen_keys :: "step_id list \<Rightarrow> u8 list \<Rightarrow> (step_id \<times> graph_transition_outcome) set" where
  "seen_keys ids keys = {(ids ! i, a) |i a. i < length ids \<and> (keys ! i) AND outcome_mask a \<noteq> 0}"

lemma seen_keys_update:
  assumes "distinct ids" "length ids \<le> length keys" "i < length ids"
  shows "seen_keys ids (keys[i := (keys ! i) OR outcome_mask a]) = insert (ids ! i, a) (seen_keys ids keys)"
  using assms by (auto simp: seen_keys_def nth_list_update mask_and split: if_splits)

lemma seen_keys_nth:
  "distinct ids \<Longrightarrow> i < length ids \<Longrightarrow> (ids ! i, a) \<in> seen_keys ids keys \<longleftrightarrow> (keys ! i) AND outcome_mask a \<noteq> 0"
  by (auto simp: seen_keys_def nth_eq_iff_index_eq)

definition edge_ok :: "step_id list \<Rightarrow> graph_transition \<Rightarrow> bool" where
  "edge_ok ids t \<longleftrightarrow>
     gt_from_step t \<in> set ids
     \<and> (case gt_to_step t of Some s \<Rightarrow> s \<in> set ids | None \<Rightarrow> gt_on t \<noteq> GoRetryableFailure)"

definition edge_key :: "graph_transition \<Rightarrow> step_id \<times> graph_transition_outcome" where
  "edge_key t = (gt_from_step t, gt_on t)"

lemma check_destination_Inr:
  "sorted ids \<Longrightarrow> check_destination ids t = Inr u \<longleftrightarrow>
     (case gt_to_step t of Some s \<Rightarrow> s \<in> set ids | None \<Rightarrow> gt_on t \<noteq> GoRetryableFailure)"
  by (auto simp: check_destination_def binary_search_None split: option.splits)

lemma scan_transitions_Inr:
  assumes "sorted ids" "distinct ids"
  shows "length ids \<le> length keys \<Longrightarrow>
    (\<exists>keys'. scan_transitions ids keys ts = Inr keys') \<longleftrightarrow>
      list_all (edge_ok ids) ts \<and> distinct (map edge_key ts)
      \<and> set (map edge_key ts) \<inter> seen_keys ids keys = {}"
proof (induction ts arbitrary: keys)
  case Nil
  then show ?case by simp
next
  case (Cons t ts)
  show ?case
  proof (cases "binary_search ids (gt_from_step t)")
    case None
    then have "\<not> edge_ok ids t" using binary_search_None [OF assms(1)] by (simp add: edge_ok_def)
    then show ?thesis using None by simp
  next
    case (Some i)
    then have i: "i < length ids" "ids ! i = gt_from_step t"
      using binary_search_Some [OF assms] by blast+
    let ?keys = "keys[i := (keys ! i) OR outcome_mask (gt_on t)]"
    have key: "edge_key t = (ids ! i, gt_on t)" by (simp add: edge_key_def i(2))
    have "seen_keys ids ?keys = insert (edge_key t) (seen_keys ids keys)"
      unfolding key by (rule seen_keys_update [OF assms(2) Cons.prems i(1)])
    moreover have "edge_key t \<in> seen_keys ids keys \<longleftrightarrow> (keys ! i) AND outcome_mask (gt_on t) \<noteq> 0"
      unfolding key by (rule seen_keys_nth [OF assms(2) i(1)])
    moreover have "edge_ok ids t \<longleftrightarrow> check_destination ids t = Inr ()"
      using check_destination_Inr [OF assms(1), of t "()"] i nth_mem by (fastforce simp: edge_ok_def)
    ultimately show ?thesis
      using Some i Cons.prems Cons.IH [of ?keys] by (cases "check_destination ids t") auto
  qed
qed

section \<open>Reachability\<close>

definition graph_edge :: "process_graph_definition \<Rightarrow> (step_id \<times> step_id) set" where
  "graph_edge g = {(gt_from_step t, s) |t s. t \<in> set (pg_transitions g) \<and> gt_to_step t = Some s}"

definition destinations :: "graph_transition list \<Rightarrow> step_id set" where
  "destinations ts = {s. \<exists>t\<in>set ts. gt_to_step t = Some s}"

lemma destinations_simps [simp]:
  "destinations [] = {}"
  "destinations (t # ts) = (case gt_to_step t of None \<Rightarrow> {} | Some s \<Rightarrow> {s}) \<union> destinations ts"
  by (auto simp: destinations_def split: option.splits)

lemma destinations_edges_from: "destinations (edges_from g s) = graph_edge g `` {s}"
  by (auto simp: destinations_def edges_from_def graph_edge_def)

definition marked :: "step_id list \<Rightarrow> bool list \<Rightarrow> step_id set" where
  "marked ids reachable = {ids ! i |i. i < length ids \<and> reachable ! i}"

lemma marked_nth: "distinct ids \<Longrightarrow> i < length ids \<Longrightarrow> ids ! i \<in> marked ids reachable \<longleftrightarrow> reachable ! i"
  by (auto simp: marked_def nth_eq_iff_index_eq)

lemma marked_update:
  "distinct ids \<Longrightarrow> length ids \<le> length reachable \<Longrightarrow> i < length ids \<Longrightarrow>
     marked ids (reachable[i := True]) = insert (ids ! i) (marked ids reachable)"
  by (auto simp: marked_def nth_list_update split: if_splits)

lemma visit_edges_Inr:
  assumes ids: "sorted ids" "distinct ids"
  shows "length ids \<le> length reachable \<Longrightarrow> destinations ts \<subseteq> set ids \<Longrightarrow> set pending \<subseteq> {..<length ids} \<Longrightarrow>
    \<exists>r p. visit_edges ids reachable pending ts = Inr (r, p) \<and> length r = length reachable
      \<and> marked ids r = marked ids reachable \<union> destinations ts \<and> set p \<subseteq> {..<length ids}
      \<and> (!) ids ` set p = (!) ids ` set pending \<union> (destinations ts - marked ids reachable)"
proof (induction ts arbitrary: reachable pending)
  case Nil
  then show ?case by simp
next
  case (Cons t ts)
  show ?case
  proof (cases "gt_to_step t")
    case None
    then show ?thesis using Cons by simp
  next
    case (Some s)
    then obtain i where i: "binary_search ids s = Some i"
      using Cons.prems(2) binary_search_None [OF ids(1), of s] by auto
    then have lt: "i < length ids" and s: "s = ids ! i" using binary_search_Some [OF ids] by auto
    show ?thesis
    proof (cases "reachable ! i")
      case True
      then have "s \<in> marked ids reachable" using marked_nth [OF ids(2) lt] s by simp
      then show ?thesis
        using Cons.IH [of reachable pending] Cons.prems Some i lt True by auto
    next
      case False
      then have new: "s \<notin> marked ids reachable" using marked_nth [OF ids(2) lt] s by simp
      have upd: "marked ids (reachable[i := True]) = insert s (marked ids reachable)"
        using marked_update [OF ids(2) Cons.prems(1) lt] s by simp
      obtain r p where "visit_edges ids (reachable[i := True]) (pending @ [i]) ts = Inr (r, p)"
        "length r = length reachable" "marked ids r = insert s (marked ids reachable) \<union> destinations ts"
        "set p \<subseteq> {..<length ids}"
        "(!) ids ` set p = insert s ((!) ids ` set pending) \<union> (destinations ts - insert s (marked ids reachable))"
        using Cons.IH [of "reachable[i := True]" "pending @ [i]"] Cons.prems Some lt s upd by auto
      then show ?thesis using Some i lt False Cons.prems(1) new by (intro exI [of _ r] exI [of _ p]) auto
    qed
  qed
qed

text \<open>The loop ends with a closed set of marks, all reachable from the marks it began with.\<close>

lemma reach_loop_Inr:
  assumes ids: "sorted ids" "distinct ids" and edges: "graph_edge g \<subseteq> UNIV \<times> set ids"
  shows "length ids \<le> length reachable \<Longrightarrow> set pending \<subseteq> {..<length ids} \<Longrightarrow>
    (!) ids ` set pending \<subseteq> marked ids reachable \<Longrightarrow>
    graph_edge g `` (marked ids reachable - (!) ids ` set pending) \<subseteq> marked ids reachable \<Longrightarrow>
    \<exists>r. reach_loop g ids reachable pending = Inr r \<and> length r = length reachable
      \<and> marked ids r = (graph_edge g)\<^sup>* `` marked ids reachable"
proof (induction "count_list reachable False + length pending" arbitrary: reachable pending rule: less_induct)
  case less
  show ?case
  proof (cases pending rule: rev_cases)
    case Nil
    then have "(graph_edge g)\<^sup>* `` marked ids reachable = marked ids reachable"
      using less.prems(4) by (simp add: Image_closed_trancl)
    then show ?thesis using Nil by (simp add: reach_loop.simps)
  next
    case (snoc rest i)
    let ?ts = "edges_from g (ids ! i)"
    have i: "i < length ids" "ids ! i \<in> marked ids reachable" using snoc less.prems(2,3) by auto
    have dest: "destinations ?ts \<subseteq> set ids" using edges by (auto simp: destinations_edges_from)
    obtain r p where v: "visit_edges ids reachable rest ?ts = Inr (r, p)" "length r = length reachable"
      "marked ids r = marked ids reachable \<union> graph_edge g `` {ids ! i}" "set p \<subseteq> {..<length ids}"
      "(!) ids ` set p = (!) ids ` set rest \<union> (graph_edge g `` {ids ! i} - marked ids reachable)"
      using visit_edges_Inr [OF ids less.prems(1) dest, of rest] snoc less.prems(2)
      by (auto simp: destinations_edges_from)
    have "count_list r False + length p < count_list reachable False + length pending"
      using visit_edges_measure [OF v(1)] snoc by simp
    moreover have "(!) ids ` set p \<subseteq> marked ids r" using v(3,5) snoc less.prems(3) by auto
    moreover have "graph_edge g `` (marked ids r - (!) ids ` set p) \<subseteq> marked ids r"
      using v(3,5) snoc less.prems(4) by auto
    ultimately obtain r' where r': "reach_loop g ids r p = Inr r'" "length r' = length reachable"
      "marked ids r' = (graph_edge g)\<^sup>* `` marked ids r"
      using less.hyps [of r p] less.prems(1) v(2,4) by auto
    moreover have "(graph_edge g)\<^sup>* `` marked ids r = (graph_edge g)\<^sup>* `` marked ids reachable"
    proof -
      have "graph_edge g `` {ids ! i} \<subseteq> (graph_edge g)\<^sup>* `` marked ids reachable" using i(2) by blast
      then show ?thesis unfolding v(3) by (auto intro: rtrancl_trans)
    qed
    ultimately show ?thesis using snoc i(1) v(1) by (subst reach_loop.simps) (simp add: Let_def)
  qed
qed

section \<open>The specification\<close>

definition graph_spec :: "process_graph_definition \<Rightarrow> bool" where
  "graph_spec g \<longleftrightarrow>
     (let ids = map sp_step_id (pg_steps g) in
      ids \<noteq> [] \<and> length ids \<le> 128 \<and> length (pg_transitions g) \<le> 512 \<and> distinct ids
      \<and> pg_entry_step_id g \<in> set ids
      \<and> (\<forall>t\<in>set (pg_transitions g). edge_ok ids t)
      \<and> distinct (map edge_key (pg_transitions g))
      \<and> set ids = (graph_edge g)\<^sup>* `` {pg_entry_step_id g})"

lemma edge_ok_cong: "set xs = set ys \<Longrightarrow> edge_ok xs = edge_ok ys"
  by (auto simp: edge_ok_def fun_eq_iff split: option.splits)

lemma seen_keys_zero: "length ids \<le> n \<Longrightarrow> seen_keys ids (replicate n 0) = {}"
  by (auto simp: seen_keys_def)

lemma all_marked:
  assumes "length ids \<le> length r" "distinct ids"
  shows "\<not> list_ex Not (take (length ids) r) \<longleftrightarrow> marked ids r = set ids"
proof -
  have "marked ids r \<subseteq> set ids" by (auto simp: marked_def)
  moreover have "set ids \<subseteq> marked ids r \<longleftrightarrow> (\<forall>i < length ids. r ! i)"
    using marked_nth [OF assms(2), of _ r] by (metis in_set_conv_nth nth_mem subset_iff)
  ultimately have "marked ids r = set ids \<longleftrightarrow> (\<forall>i < length ids. r ! i)" by blast
  moreover have "\<not> list_ex Not (take (length ids) r) \<longleftrightarrow> (\<forall>i < length ids. r ! i)"
    using assms(1) by (auto simp: list_ex_length)
  ultimately show ?thesis by blast
qed

text \<open>The search phase, for a definition whose edges are in order.\<close>

lemma search_decides_reachability:
  assumes ids: "sorted ids" "distinct ids" "length ids \<le> n" and edges: "list_all (edge_ok ids) (pg_transitions g)"
    and entry: "entry < length ids"
  shows "bindR (reach_loop g ids ((replicate n False)[entry := True]) [entry])
      (\<lambda>reachable. if list_ex Not (take (length ids) reachable) then Inl UnreachableStep else Inr ()) = Inr ()
    \<longleftrightarrow> (graph_edge g)\<^sup>* `` {ids ! entry} = set ids"
proof -
  let ?r = "(replicate n False)[entry := True]"
  have "marked ids (replicate n False) = {}" using ids(3) by (auto simp: marked_def)
  then have "marked ids ?r = {ids ! entry}"
    using marked_update [of ids "replicate n False" entry] ids entry by simp
  moreover have "graph_edge g \<subseteq> UNIV \<times> set ids"
    using edges by (fastforce simp: graph_edge_def edge_ok_def list_all_iff split: option.splits)
  ultimately obtain r where "reach_loop g ids ?r [entry] = Inr r" "length r = n"
    "marked ids r = (graph_edge g)\<^sup>* `` {ids ! entry}"
    using reach_loop_Inr [OF ids(1,2), of g ?r "[entry]"] ids(3) entry by auto
  then show ?thesis using all_marked [of ids r] ids by auto
qed

lemma graph_validate_iff: "graph_validate g = Inr () \<longleftrightarrow> graph_spec g"
proof -
  define ids where "ids = sort (map sp_step_id (pg_steps g))"
  have set_ids: "set ids = set (map sp_step_id (pg_steps g))"
    and len: "length ids = length (pg_steps g)" and srt: "sorted ids"
    and dist: "distinct ids \<longleftrightarrow> distinct (map sp_step_id (pg_steps g))"
    by (simp_all add: ids_def)
  have ok: "edge_ok (map sp_step_id (pg_steps g)) = edge_ok ids" using edge_ok_cong set_ids by metis
  have dup: "list_ex (\<lambda>(left, right). left = right) (zip ids (drop 1 ids)) \<longleftrightarrow> \<not> distinct ids"
    using sorted_adjacent_duplicate [OF srt] .
  show ?thesis
  proof (cases "pg_steps g \<noteq> [] \<and> length (pg_steps g) \<le> 128 \<and> length (pg_transitions g) \<le> 512 \<and> distinct ids
      \<and> pg_entry_step_id g \<in> set ids")
    case False
    then show ?thesis
      using dup binary_search_None [OF srt, of "pg_entry_step_id g"] unfolding graph_validate_def graph_spec_def
      by (auto simp: Let_def MAX_DEFINITION_STEPS_def MAX_GRAPH_TRANSITIONS_def dist set_ids simp flip: ids_def)
  next
    case True
    then obtain entry where entry: "binary_search ids (pg_entry_step_id g) = Some entry"
      using binary_search_None [OF srt, of "pg_entry_step_id g"] by auto
    then have e: "entry < length ids" "ids ! entry = pg_entry_step_id g"
      using binary_search_Some [OF srt] True by blast+
    have n: "length ids \<le> MAX_DEFINITION_STEPS" using True len by (simp add: MAX_DEFINITION_STEPS_def)
    let ?keys = "replicate MAX_DEFINITION_STEPS (0 :: u8)"
    have scan: "(\<exists>k. scan_transitions ids ?keys (pg_transitions g) = Inr k) \<longleftrightarrow>
        list_all (edge_ok ids) (pg_transitions g) \<and> distinct (map edge_key (pg_transitions g))"
      using scan_transitions_Inr [OF srt, of ?keys "pg_transitions g"] True n seen_keys_zero [OF n] by simp
    have "graph_validate g = Inr () \<longleftrightarrow>
        (\<exists>k. scan_transitions ids ?keys (pg_transitions g) = Inr k)
        \<and> bindR (reach_loop g ids ((replicate MAX_DEFINITION_STEPS False)[entry := True]) [entry])
            (\<lambda>reachable. if list_ex Not (take (length ids) reachable) then Inl UnreachableStep else Inr ()) = Inr ()"
      unfolding graph_validate_def ids_def [symmetric] Let_def dup entry
      using True e n by (auto simp: bindR_eq_Inr MAX_DEFINITION_STEPS_def MAX_GRAPH_TRANSITIONS_def)
    also have "\<dots> \<longleftrightarrow> list_all (edge_ok ids) (pg_transitions g) \<and> distinct (map edge_key (pg_transitions g))
        \<and> (graph_edge g)\<^sup>* `` {pg_entry_step_id g} = set ids"
      using scan search_decides_reachability [OF srt _ n _ e(1), of g] True e(2) by auto
    finally show ?thesis
      using True set_ids dist ok unfolding graph_spec_def Let_def list_all_iff by auto
  qed
qed

end
