(* ===== verification/Graph_Properties.thy ===== *)
theory Graph_Properties
  imports Graph_Validation
begin

text \<open>
  Correctness of graph processes: the invariant of the projection, the bound that the visit limit
  puts on every log, agreement of replay with the live transition, and the exact behaviour of a
  result on each branch.
\<close>

section \<open>Invariant\<close>

definition step_ids :: "process_graph_definition \<Rightarrow> step_id set" where
  "step_ids g = set (map sp_step_id (pg_steps g))"

definition graph_inv :: "process_graph_definition \<Rightarrow> tenant_id \<Rightarrow> process_id \<Rightarrow> graph_saga_projection \<Rightarrow> bool" where
  "graph_inv g tenant process p \<longleftrightarrow>
     graph_spec g
     \<and> gp_scope p = \<lparr> ps_tenant_id = tenant, ps_process_id = process, ps_definition_id = pg_definition_id g,
          ps_definition_version = pg_definition_version g, ps_definition_digest = pg_definition_digest g \<rparr>
     \<and> unat (gp_step_visits p) = length (gp_issued_action_ids p)
     \<and> gp_step_visits p \<le> nz_get (pg_max_step_visits g)
     \<and> distinct (gp_issued_action_ids p) \<and> gp_issued_action_ids p \<noteq> []
     \<and> (if gp_status p = SgRunning
        then gp_active_action_id p = Some (last (gp_issued_action_ids p))
          \<and> (\<exists>s\<in>step_ids g. gp_current_step_id p = Some s)
        else gp_status p \<in> {SgCompleted, SgEscalated}
          \<and> gp_active_action_id p = None \<and> gp_current_step_id p = None)"

text \<open>The action of a decision is the one its projection awaits, and only a running process has one.\<close>

definition graph_decision_ok :: "process_graph_definition \<Rightarrow> graph_saga_decision \<Rightarrow> bool" where
  "graph_decision_ok g d \<longleftrightarrow>
     (let p = gd_projection d in
      (gd_next_action d \<noteq> None \<longleftrightarrow> gp_status p = SgRunning)
      \<and> (case gd_next_action d of
           None \<Rightarrow> True
         | Some a \<Rightarrow> \<exists>step\<in>set (pg_steps g).
             a = action_new (gp_scope p) (last (gp_issued_action_ids p)) (sp_step_id step)
                   (gp_step_visits p - 1) (sp_action_kind step) (sp_payload_digest step)
             \<and> gp_current_step_id p = Some (sp_step_id step)))"

lemma graph_action_for_Inr [result_simps]:
  "graph_action_for g scope s a visit = Inr act \<longleftrightarrow>
     (\<exists>step. find (\<lambda>x. sp_step_id x = s) (pg_steps g) = Some step
        \<and> act = action_new scope a (sp_step_id step) (saturating_sub visit 1) (sp_action_kind step) (sp_payload_digest step))"
  by (auto simp: graph_action_for_def result_simps)

lemma find_step: "find (\<lambda>x. sp_step_id x = s) xs = Some step \<Longrightarrow> step \<in> set xs \<and> sp_step_id step = s"
  by (auto simp: find_Some_iff)

lemma nonzero_ge_1: "1 \<le> nz_get (n :: 32 nonzero)"
  using Suc_leI [OF nz_get_positive [of n]] by (simp add: word_le_nat_alt)

lemma start_graph_ok:
  assumes "start_graph g tenant process (GiStart i a) = Inr d"
  shows "graph_inv g tenant process (gd_projection d)" "graph_decision_ok g d"
    "gp_step_visits (gd_projection d) = 1" "gp_status (gd_projection d) = SgRunning"
    "gd_event d = GeStarted i a" "gp_issued_action_ids (gd_projection d) = [a]"
proof -
  obtain step where v: "graph_validate g = Inr ()"
    and step: "find (\<lambda>x. sp_step_id x = pg_entry_step_id g) (pg_steps g) = Some step"
    and d: "d = \<lparr> gd_projection =
        \<lparr> gp_scope = \<lparr> ps_tenant_id = tenant, ps_process_id = process, ps_definition_id = pg_definition_id g,
            ps_definition_version = pg_definition_version g, ps_definition_digest = pg_definition_digest g \<rparr>,
          gp_current_step_id = Some (pg_entry_step_id g), gp_step_visits = 1, gp_active_action_id = Some a,
          gp_issued_action_ids = [a], gp_status = SgRunning \<rparr>,
        gd_next_action = Some (action_new \<lparr> ps_tenant_id = tenant, ps_process_id = process,
            ps_definition_id = pg_definition_id g, ps_definition_version = pg_definition_version g,
            ps_definition_digest = pg_definition_digest g \<rparr> a (sp_step_id step) (saturating_sub 1 1)
            (sp_action_kind step) (sp_payload_digest step)),
        gd_event = GeStarted i a \<rparr>"
    using assms by (auto simp: start_graph_def Let_def result_simps)
  then show "graph_inv g tenant process (gd_projection d)" "graph_decision_ok g d"
    "gp_step_visits (gd_projection d) = 1" "gp_status (gd_projection d) = SgRunning"
    "gd_event d = GeStarted i a" "gp_issued_action_ids (gd_projection d) = [a]"
    using find_step [OF step] nonzero_ge_1
    by (auto simp: graph_inv_def graph_decision_ok_def graph_validate_iff step_ids_def saturating_sub_def
        intro: rev_image_eqI intro!: bexI [of _ step])
qed

section \<open>Results\<close>

lemma follow_edge_Inr [result_simps]:
  "follow_edge g p to_step next_id = Inr (q, act) \<longleftrightarrow>
     (\<exists>a visits step. next_id = Some a \<and> a \<notin> set (gp_issued_action_ids p)
        \<and> unat visits = unat (gp_step_visits p) + 1 \<and> visits \<le> nz_get (pg_max_step_visits g)
        \<and> find (\<lambda>x. sp_step_id x = to_step) (pg_steps g) = Some step
        \<and> q = p\<lparr>gp_current_step_id := Some to_step, gp_step_visits := visits, gp_active_action_id := Some a,
               gp_issued_action_ids := gp_issued_action_ids p @ [a]\<rparr>
        \<and> act = Some (action_new (gp_scope p) a (sp_step_id step) (saturating_sub visits 1)
               (sp_action_kind step) (sp_payload_digest step)))"
  by (auto simp: follow_edge_def ensure_new_action_def inactive_projection_def result_simps not_less
      split: if_splits)

lemma end_edge_Inr [result_simps]:
  "end_edge p result next_id = Inr (q, act) \<longleftrightarrow>
     next_id = None \<and> act = None
     \<and> q = p\<lparr>gp_current_step_id := None, gp_active_action_id := None,
            gp_status := if result = ArSucceeded then SgCompleted else SgEscalated\<rparr>"
  by (auto simp: end_edge_def inactive_projection_def)

text \<open>The edge a step has for an outcome.\<close>

definition edge_for :: "process_graph_definition \<Rightarrow> step_id \<Rightarrow> action_result \<Rightarrow> graph_transition option" where
  "edge_for g s result =
     find (\<lambda>t. gt_from_step t = s \<and> gt_on t = transition_outcome result) (pg_transitions g)"

lemma edge_for_ok:
  "edge_for g s result = Some t \<Longrightarrow> graph_spec g \<Longrightarrow>
     t \<in> set (pg_transitions g) \<and> gt_from_step t = s \<and> (\<forall>s'. gt_to_step t = Some s' \<longrightarrow> s' \<in> step_ids g)"
  by (auto simp: edge_for_def find_Some_iff graph_spec_def Let_def edge_ok_def step_ids_def split: option.splits)

lemma apply_graph_result_Inr:
  "apply_graph_result g p (GiActionResult i obs nxt) = Inr d \<longleftrightarrow>
     graph_validate g = Inr () \<and> gp_status p = SgRunning \<and> gp_active_action_id p = Some (ob_action_id obs)
     \<and> gd_event d = GeActionResultObserved i obs nxt
     \<and> (\<exists>s. gp_current_step_id p = Some s
        \<and> (if ob_result obs = ArUnknown
           then nxt = None \<and> gd_next_action d = None
             \<and> gd_projection d = p\<lparr>gp_current_step_id := None, gp_active_action_id := None, gp_status := SgEscalated\<rparr>
           else \<exists>t. edge_for g s (ob_result obs) = Some t
             \<and> (case gt_to_step t of
                  Some s' \<Rightarrow> follow_edge g p s' nxt
                | None \<Rightarrow> end_edge p (ob_result obs) nxt) = Inr (gd_projection d, gd_next_action d)))"
  by (cases d)
     (auto simp: apply_graph_result_def edge_for_def inactive_projection_def bindR_eq_Inr map_err_eq_Inr ok_or_eq_Inr)

lemma unat_pred: "unat (v :: u32) = Suc n \<Longrightarrow> saturating_sub v 1 = v - 1"
  by (simp add: saturating_sub_def word_le_nat_alt)

lemma apply_graph_result_ok:
  assumes inv: "graph_inv g tenant process p" and "apply_graph_result g p (GiActionResult i obs nxt) = Inr d"
  shows "graph_inv g tenant process (gd_projection d) \<and> graph_decision_ok g d
    \<and> gp_status p = SgRunning \<and> gd_event d = GeActionResultObserved i obs nxt
    \<and> (if gp_status (gd_projection d) = SgRunning
       then unat (gp_step_visits (gd_projection d)) = unat (gp_step_visits p) + 1
       else gp_step_visits (gd_projection d) = gp_step_visits p)"
proof -
  obtain s where s: "gp_status p = SgRunning" "gp_current_step_id p = Some s"
    and ev: "gd_event d = GeActionResultObserved i obs nxt"
    and res: "if ob_result obs = ArUnknown
           then nxt = None \<and> gd_next_action d = None
             \<and> gd_projection d = p\<lparr>gp_current_step_id := None, gp_active_action_id := None, gp_status := SgEscalated\<rparr>
           else \<exists>t. edge_for g s (ob_result obs) = Some t
             \<and> (case gt_to_step t of
                  Some s' \<Rightarrow> follow_edge g p s' nxt
                | None \<Rightarrow> end_edge p (ob_result obs) nxt) = Inr (gd_projection d, gd_next_action d)"
    using assms(2) unfolding apply_graph_result_Inr by blast
  show ?thesis
  proof (cases "ob_result obs = ArUnknown")
    case True
    then show ?thesis using res s ev inv by (auto simp: graph_inv_def graph_decision_ok_def)
  next
    case False
    then obtain t where t: "edge_for g s (ob_result obs) = Some t"
      "(case gt_to_step t of Some s' \<Rightarrow> follow_edge g p s' nxt | None \<Rightarrow> end_edge p (ob_result obs) nxt)
         = Inr (gd_projection d, gd_next_action d)" using res by auto
    have dest: "\<forall>s'. gt_to_step t = Some s' \<longrightarrow> s' \<in> step_ids g"
      using edge_for_ok [OF t(1)] inv by (simp add: graph_inv_def)
    show ?thesis
    proof (cases "gt_to_step t")
      case None
      then show ?thesis
        using t(2) s ev inv by (auto simp: end_edge_Inr graph_inv_def graph_decision_ok_def)
    next
      case (Some s')
      then show ?thesis
        using t(2) s ev inv dest
        by (auto simp: follow_edge_Inr graph_inv_def graph_decision_ok_def unat_pred dest!: find_step)
    qed
  qed
qed

section \<open>Logs\<close>

definition graph_log_inv ::
  "process_graph_definition \<Rightarrow> tenant_id \<Rightarrow> process_id \<Rightarrow> graph_replay_state \<Rightarrow> bool" where
  "graph_log_inv g tenant process st \<longleftrightarrow>
     (case st of (p, acc) \<Rightarrow>
        distinct acc
        \<and> (case p of
             None \<Rightarrow> acc = []
           | Some q \<Rightarrow> graph_inv g tenant process q
               \<and> length acc = unat (gp_step_visits q) + (if gp_status q = SgRunning then 0 else 1)))"

lemma replay_graph_event_cases:
  assumes "replay_graph_event g tenant process p ev = Inr d"
  obtains i a where "p = None" "ev = GeStarted i a" "start_graph g tenant process (GiStart i a) = Inr d"
  | q i obs nxt where "p = Some q" "ev = GeActionResultObserved i obs nxt"
      "apply_graph_result g q (GiActionResult i obs nxt) = Inr d"
  using assms by (cases p; cases ev) auto

lemma replay_graph_step_inv:
  assumes inv: "graph_log_inv g tenant process st" and step: "replay_graph_step g tenant process st ev = Inr st'"
  shows "graph_log_inv g tenant process st'"
proof -
  obtain p acc where st: "st = (p, acc)" by (cases st)
  with step obtain d where fresh: "graph_event_input_id ev \<notin> set acc"
    and d: "replay_graph_event g tenant process p ev = Inr d"
    and st': "st' = (Some (gd_projection d), graph_event_input_id ev # acc)"
    by (auto simp: replay_graph_step_def result_simps split: if_splits)
  from d show ?thesis
  proof (cases rule: replay_graph_event_cases)
    case (1 i a)
    then show ?thesis using start_graph_ok [OF 1(3)] inv st st' by (simp add: graph_log_inv_def)
  next
    case (2 q i obs nxt)
    have q: "graph_inv g tenant process q" using inv st 2(1) by (simp add: graph_log_inv_def)
    have "length acc = unat (gp_step_visits q)"
      using inv st 2(1) apply_graph_result_ok [OF q 2(3)] by (simp add: graph_log_inv_def)
    then show ?thesis
      using inv st st' fresh apply_graph_result_ok [OF q 2(3)] by (auto simp: graph_log_inv_def split: if_splits)
  qed
qed

interpretation graph_log: log_projection "replay_graph_step g tenant process" "graph_log_inv g tenant process"
  for g tenant process
  by unfold_locales (rule replay_graph_step_inv)

lemma graph_replay_accepted:
  "replay_from (replay_graph_step g tenant process) (p, acc) events = Inr (q, acc') \<Longrightarrow>
     acc' = rev (map graph_event_input_id events) @ acc"
  by (induction events arbitrary: p acc)
     (auto simp: replay_graph_step_def result_simps split: if_splits)

lemma replay_graph_Inr:
  "replay_graph g tenant process events = Inr p \<longleftrightarrow>
     length events \<le> MAX_GRAPH_REPLAY_EVENTS
     \<and> replay_from (replay_graph_step g tenant process) (None, []) events
         = Inr (Some p, rev (map graph_event_input_id events))"
  using graph_replay_accepted [of g tenant process None "[]" events]
  by (fastforce simp: replay_graph_def result_simps not_less split: if_splits)

lemma replay_some: "replay_from (replay_graph_step g tenant process) (None, []) events = Inr (None, acc) \<longleftrightarrow>
    events = [] \<and> acc = []"
proof (cases events rule: rev_cases)
  case (snoc es e)
  then show ?thesis by (auto simp: replay_from_snoc replay_graph_step_def result_simps split: if_splits)
qed auto

section \<open>A concrete graph\<close>

definition ex_graph :: process_graph_definition where
  "ex_graph = \<lparr> pg_definition_id = DefinitionId ''def_graph'', pg_definition_version = DefinitionVersion ''dfv_one'',
     pg_definition_digest = digest_fill 1,
     pg_steps = [step_command (StepId ''stp_first'') (digest_fill 2) no_retry,
                 step_command (StepId ''stp_second'') (digest_fill 3) no_retry],
     pg_entry_step_id = StepId ''stp_first'',
     pg_transitions =
       [\<lparr> gt_from_step = StepId ''stp_first'', gt_on = GoSucceeded, gt_to_step = Some (StepId ''stp_second'') \<rparr>,
        \<lparr> gt_from_step = StepId ''stp_second'', gt_on = GoSucceeded, gt_to_step = None \<rparr>],
     pg_max_step_visits = NonZero 2 \<rparr>"

lemma edge_pairs:
  "graph_edge g = (\<Union>t\<in>set (pg_transitions g). case gt_to_step t of None \<Rightarrow> {} | Some s \<Rightarrow> {(gt_from_step t, s)})"
  by (fastforce simp: graph_edge_def split: option.splits)

lemma ex_graph_edge: "graph_edge ex_graph = {(StepId ''stp_first'', StepId ''stp_second'')}"
  unfolding edge_pairs by (simp add: ex_graph_def)

lemma ex_graph_valid: "graph_validate ex_graph = Inr ()"
proof -
  let ?a = "StepId ''stp_first''" and ?b = "StepId ''stp_second''"
  have "{(?a, ?b)} `` {?a, ?b} \<subseteq> {?a, ?b}" by auto
  then have "{(?a, ?b)}\<^sup>* `` {?a, ?b} = {?a, ?b}" by (rule Image_closed_trancl)
  then have "{(?a, ?b)}\<^sup>* `` {?a} \<subseteq> {?a, ?b}" by auto
  then have "{?a, ?b} = {(?a, ?b)}\<^sup>* `` {?a}" by auto
  moreover have "(?a, ?b) \<in> {(?a, ?b)}\<^sup>*" by auto
  ultimately show ?thesis
    unfolding graph_validate_iff graph_spec_def ex_graph_edge Let_def
    by (simp add: ex_graph_def step_command_def edge_ok_def edge_key_def)
qed

definition ex_graph_log :: "graph_saga_event list" where
  "ex_graph_log =
     [GeStarted (InputId ''inp_0'') (ActionId ''act_0''),
      GeActionResultObserved (InputId ''inp_1'') \<lparr> ob_action_id = ActionId ''act_0'', ob_result = ArSucceeded \<rparr>
        (Some (ActionId ''act_1'')),
      GeActionResultObserved (InputId ''inp_2'') \<lparr> ob_action_id = ActionId ''act_1'', ob_result = ArSucceeded \<rparr> None]"

definition ex_graph_running :: graph_saga_projection where
  "ex_graph_running = \<lparr> gp_scope = \<lparr> ps_tenant_id = TenantId ''tnt_t'', ps_process_id = ProcessId ''prc_p'',
       ps_definition_id = DefinitionId ''def_graph'', ps_definition_version = DefinitionVersion ''dfv_one'',
       ps_definition_digest = digest_fill 1 \<rparr>,
     gp_current_step_id = Some (StepId ''stp_first''), gp_step_visits = 1,
     gp_active_action_id = Some (ActionId ''act_0''), gp_issued_action_ids = [ActionId ''act_0''],
     gp_status = SgRunning \<rparr>"

definition ex_graph_final :: graph_saga_projection where
  "ex_graph_final = ex_graph_running\<lparr>gp_current_step_id := None, gp_step_visits := 2, gp_active_action_id := None,
     gp_issued_action_ids := [ActionId ''act_0'', ActionId ''act_1''], gp_status := SgCompleted\<rparr>"

lemmas ex_graph_eval = start_graph_def apply_graph_result_def graph_action_for_def follow_edge_def end_edge_def
  ensure_new_action_def inactive_projection_def checked_add_def Let_def ex_graph_running_def ex_graph_final_def

lemma ex_graph_start:
  "replay_graph ex_graph (TenantId ''tnt_t'') (ProcessId ''prc_p'') (take 1 ex_graph_log) = Inr ex_graph_running"
  by (simp add: replay_graph_def replay_graph_step_def ex_graph_log_def MAX_GRAPH_REPLAY_EVENTS_def
      start_graph_def ex_graph_valid)
     (simp add: ex_graph_eval ex_graph_def step_command_def)

lemma ex_graph_replay:
  "replay_graph ex_graph (TenantId ''tnt_t'') (ProcessId ''prc_p'') ex_graph_log = Inr ex_graph_final"
  by (simp add: replay_graph_def replay_graph_step_def ex_graph_log_def MAX_GRAPH_REPLAY_EVENTS_def
      start_graph_def apply_graph_result_def ex_graph_valid)
     (simp add: ex_graph_eval ex_graph_def step_command_def ex_graph_valid [unfolded ex_graph_def step_command_def])

lemma ex_running_inv: "graph_inv ex_graph (TenantId ''tnt_t'') (ProcessId ''prc_p'') ex_graph_running"
  using ex_graph_valid unfolding graph_validate_iff
  by (simp add: graph_inv_def ex_graph_running_def)
     (simp add: ex_graph_def step_ids_def step_command_def)

text \<open>The decision of a stopping result, and of one that moves on.\<close>

definition stopped_decision ::
  "graph_saga_projection \<Rightarrow> saga_status \<Rightarrow> input_id \<Rightarrow> action_result_observation \<Rightarrow> graph_saga_decision" where
  "stopped_decision p st i obs =
     \<lparr> gd_projection = p\<lparr>gp_current_step_id := None, gp_active_action_id := None, gp_status := st\<rparr>,
       gd_next_action = None, gd_event = GeActionResultObserved i obs None \<rparr>"

definition moved_projection :: "graph_saga_projection \<Rightarrow> step_id \<Rightarrow> action_id \<Rightarrow> graph_saga_projection" where
  "moved_projection p s a =
     p\<lparr>gp_current_step_id := Some s, gp_step_visits := gp_step_visits p + 1, gp_active_action_id := Some a,
       gp_issued_action_ids := gp_issued_action_ids p @ [a]\<rparr>"

lemma edge_for_unique:
  assumes "graph_spec g" "t \<in> set (pg_transitions g)" "gt_on t = transition_outcome result"
  shows "edge_for g (gt_from_step t) result = Some t"
proof -
  have dist: "inj_on edge_key (set (pg_transitions g))"
    using assms(1) by (simp add: graph_spec_def Let_def distinct_map)
  obtain t' where t': "edge_for g (gt_from_step t) result = Some t'"
    using assms(2,3) by (cases "edge_for g (gt_from_step t) result") (auto simp: edge_for_def find_None_iff)
  then have "t' \<in> set (pg_transitions g)" "edge_key t' = edge_key t"
    using assms(3) by (auto simp: edge_for_def find_Some_iff edge_key_def)
  with dist assms(2) t' show ?thesis by (auto dest: inj_onD)
qed

lemma one_edge_per_key:
  assumes "graph_spec g"
    and "filter (\<lambda>t. gt_from_step t = s \<and> gt_on t = k) (pg_transitions g) = t # others"
  shows "others = []"
proof -
  have "distinct (map edge_key (pg_transitions g))" using assms(1) by (simp add: graph_spec_def Let_def)
  then have "distinct (map edge_key (t # others))" unfolding assms(2) [symmetric] by (rule distinct_map_filter)
  moreover have "\<forall>x\<in>set (t # others). edge_key x = (s, k)"
    unfolding assms(2) [symmetric] by (auto simp: edge_key_def)
  ultimately show ?thesis by (cases others) auto
qed

lemma declared_step:
  "s \<in> step_ids g \<Longrightarrow> \<exists>step. find (\<lambda>x. sp_step_id x = s) (pg_steps g) = Some step"
  by (cases "find (\<lambda>x. sp_step_id x = s) (pg_steps g)") (auto simp: step_ids_def find_None_iff)

lemma follow_declared_edge:
  assumes inv: "graph_inv g tenant process p" and "s \<in> step_ids g"
  shows "if a \<in> set (gp_issued_action_ids p) then follow_edge g p s (Some a) = Inl GraphDuplicateActionId
    else if gp_step_visits p = nz_get (pg_max_step_visits g) then follow_edge g p s (Some a) = Inl VisitLimitExceeded
    else \<exists>act. follow_edge g p s (Some a) = Inr (moved_projection p s a, Some act)"
proof -
  obtain step where step: "find (\<lambda>x. sp_step_id x = s) (pg_steps g) = Some step"
    using declared_step [OF assms(2)] by blast
  let ?max = "nz_get (pg_max_step_visits g)"
  have le: "unat (gp_step_visits p) \<le> unat ?max" using inv by (simp add: graph_inv_def word_le_nat_alt)
  show ?thesis
  proof (cases "a \<in> set (gp_issued_action_ids p)")
    case True
    then show ?thesis by (simp add: follow_edge_def ensure_new_action_def)
  next
    case fresh: False
    show ?thesis
    proof (cases "gp_step_visits p = ?max")
      case True
      show ?thesis
      proof (cases "checked_add (gp_step_visits p) 1")
        case None
        then show ?thesis using fresh True by (simp add: follow_edge_def ensure_new_action_def)
      next
        case (Some v)
        then have "?max < v" using True by (simp add: result_simps word_less_nat_alt)
        then show ?thesis using fresh True Some by (simp add: follow_edge_def ensure_new_action_def)
      qed
    next
      case False
      then have lt: "unat (gp_step_visits p) < unat ?max" using le by (simp add: word_unat_eq_iff)
      then have v: "unat (gp_step_visits p + 1) = unat (gp_step_visits p) + 1"
        using unat_less_exp [of ?max] by (simp add: unat_word_ariths)
      then have "gp_step_visits p + 1 \<le> ?max" using lt by (simp add: word_le_nat_alt)
      then show ?thesis using fresh False step v by (auto simp: follow_edge_Inr moved_projection_def)
    qed
  qed
qed

text \<open>What taking the edge \<open>t\<close> does, with the fresh identity \<open>a\<close> on offer where it leads on.\<close>

definition takes_edge ::
  "process_graph_definition \<Rightarrow> graph_saga_projection \<Rightarrow> input_id \<Rightarrow> action_result_observation \<Rightarrow> action_id \<Rightarrow>
     graph_transition \<Rightarrow> bool" where
  "takes_edge g p i obs a t \<longleftrightarrow>
     (case gt_to_step t of
        None \<Rightarrow> apply_graph_result g p (GiActionResult i obs None) =
          Inr (stopped_decision p (if ob_result obs = ArSucceeded then SgCompleted else SgEscalated) i obs)
      | Some s \<Rightarrow>
          if a \<in> set (gp_issued_action_ids p)
          then apply_graph_result g p (GiActionResult i obs (Some a)) = Inl GraphDuplicateActionId
          else if gp_step_visits p = nz_get (pg_max_step_visits g)
          then apply_graph_result g p (GiActionResult i obs (Some a)) = Inl VisitLimitExceeded
          else \<exists>d. apply_graph_result g p (GiActionResult i obs (Some a)) = Inr d
            \<and> gd_projection d = moved_projection p s a \<and> graph_decision_ok g d)"

lemma edge_is_taken:
  assumes inv: "graph_inv g tenant process p" and run: "gp_status p = SgRunning"
    and cur: "gp_current_step_id p = Some s" and act: "gp_active_action_id p = Some (ob_action_id obs)"
    and known: "ob_result obs \<noteq> ArUnknown" and edge: "edge_for g s (ob_result obs) = Some t"
  shows "takes_edge g p i obs a t"
proof -
  have valid: "graph_validate g = Inr ()" "graph_spec g" using inv by (auto simp: graph_inv_def graph_validate_iff)
  note eval = apply_graph_result_def valid(1) run cur act known edge [unfolded edge_for_def]
  show ?thesis
  proof (cases "gt_to_step t")
    case None
    then show ?thesis by (simp add: takes_edge_def eval end_edge_def inactive_projection_def stopped_decision_def)
  next
    case (Some s')
    then have "s' \<in> step_ids g" using edge_for_ok [OF edge valid(2)] by blast
    note follow = follow_declared_edge [OF inv this, of a]
    have "apply_graph_result g p (GiActionResult i obs (Some a)) = Inr d \<Longrightarrow> graph_decision_ok g d" for d
      using apply_graph_result_ok [OF inv] by blast
    then show ?thesis using Some follow by (auto simp: takes_edge_def eval)
  qed
qed

section \<open>Claims\<close>

text \<open>
  C13. The graph validation (sorted identities, binary search, one bit per step and outcome, and a
  worklist search over fixed arrays) accepts exactly the graphs of the specification: one to 128
  distinct steps, at most 512 edges, every reference declared, no edge without destination for a
  retryable failure, at most one edge per step and outcome, and the steps are exactly those
  reachable from the entry step by the transitive closure of the edges.
\<close>
theorem graph_validate_decides_spec:
  "case graph_validate g of Inr _ \<Rightarrow> graph_spec g | Inl _ \<Rightarrow> \<not> graph_spec g"
  using graph_validate_iff [of g] by (cases "graph_validate g") auto

text \<open>
  C14. Every graph process ends: a log that replays has at most one event more than the visit limit.
  It counts one event per issued action plus one once the process has stopped, its input and action
  identities never repeat, and the projection satisfies its invariant (a running process awaits its
  last issued action at a declared step, a stopped one awaits nothing).
\<close>
theorem graph_log_is_bounded:
  assumes "replay_graph g tenant process events = Inr p"
  shows "graph_inv g tenant process p
    \<and> length events = unat (gp_step_visits p) + (if gp_status p = SgRunning then 0 else 1)
    \<and> length events \<le> unat (nz_get (pg_max_step_visits g)) + 1
    \<and> distinct (map graph_event_input_id events)"
proof -
  have run: "replay_from (replay_graph_step g tenant process) (None, []) events
      = Inr (Some p, rev (map graph_event_input_id events))"
    using assms by (simp add: replay_graph_Inr)
  have "graph_log_inv g tenant process (None, [])" by (simp add: graph_log_inv_def)
  from graph_log.replay_inv [OF this run]
  have inv: "graph_inv g tenant process p" "distinct (map graph_event_input_id events)"
    "length events = unat (gp_step_visits p) + (if gp_status p = SgRunning then 0 else 1)"
    by (auto simp: graph_log_inv_def)
  moreover have "unat (gp_step_visits p) \<le> unat (nz_get (pg_max_step_visits g))"
    using inv(1) by (simp add: graph_inv_def word_le_nat_alt)
  ultimately show ?thesis by simp
qed

theorem graph_log_is_bounded_witness:
  "length ex_graph_log \<le> unat (nz_get (pg_max_step_visits ex_graph)) + 1
    \<and> distinct (map graph_event_input_id ex_graph_log)"
  using graph_log_is_bounded [OF ex_graph_replay] by blast

text \<open>
  Replay agrees with the live engine: a log extended by a result event replays to a projection
  exactly when the log is below the event limit, the input identity is new, and the live transition
  from the replayed projection yields that projection. The live decision carries that same event,
  and its action is the one the new projection awaits.
\<close>
theorem graph_replay_agrees:
  "replay_graph g tenant process (events @ [GeActionResultObserved i obs nxt]) = Inr q \<longleftrightarrow>
     length events < MAX_GRAPH_REPLAY_EVENTS \<and> i \<notin> set (map graph_event_input_id events)
     \<and> (\<exists>p d. replay_graph g tenant process events = Inr p
          \<and> apply_graph_result g p (GiActionResult i obs nxt) = Inr d \<and> gd_projection d = q
          \<and> gd_event d = GeActionResultObserved i obs nxt \<and> graph_decision_ok g d)"
proof -
  let ?run = "replay_from (replay_graph_step g tenant process) (None, []) events"
  have "graph_log_inv g tenant process (None, [])" by (simp add: graph_log_inv_def)
  then have inv: "graph_inv g tenant process p" if "?run = Inr (Some p, acc)" for p acc
    using graph_log.replay_inv [of g tenant process "(None, [])" events "(Some p, acc)"] that
    by (simp add: graph_log_inv_def)
  have "replay_graph g tenant process (events @ [GeActionResultObserved i obs nxt]) = Inr q \<longleftrightarrow>
      length events < MAX_GRAPH_REPLAY_EVENTS \<and> i \<notin> set (map graph_event_input_id events)
      \<and> (\<exists>p d. ?run = Inr (Some p, rev (map graph_event_input_id events))
          \<and> apply_graph_result g p (GiActionResult i obs nxt) = Inr d \<and> gd_projection d = q)"
  proof (cases ?run)
    case (Inl e)
    then show ?thesis by (simp add: replay_graph_Inr replay_from_snoc)
  next
    case (Inr st)
    then obtain r acc where st: "st = (r, acc)" by (cases st)
    have acc: "acc = rev (map graph_event_input_id events)"
      using graph_replay_accepted [OF Inr [unfolded st]] by simp
    show ?thesis
      using Inr st acc by (cases r) (auto simp: replay_graph_Inr replay_from_snoc replay_graph_step_def result_simps)
  qed
  also have "\<dots> \<longleftrightarrow> length events < MAX_GRAPH_REPLAY_EVENTS \<and> i \<notin> set (map graph_event_input_id events)
     \<and> (\<exists>p d. replay_graph g tenant process events = Inr p
          \<and> apply_graph_result g p (GiActionResult i obs nxt) = Inr d \<and> gd_projection d = q
          \<and> gd_event d = GeActionResultObserved i obs nxt \<and> graph_decision_ok g d)"
    using apply_graph_result_ok [OF inv] by (auto simp: replay_graph_Inr)
  finally show ?thesis .
qed

text \<open>
  What a result does, on every branch. For a running process at step \<open>s\<close> and the result of its
  awaited action: an unknown result escalates with no action; a result for which \<open>s\<close> has no edge is
  refused; an edge without destination completes after a success and escalates after a terminal
  failure; an edge to \<open>s'\<close> runs \<open>s'\<close> next under a fresh action identity, with one more visit, unless
  the identity was issued before or the visit limit is reached, which are refused.
\<close>
theorem graph_result_branches:
  assumes inv: "graph_inv g tenant process p" and run: "gp_status p = SgRunning"
    and cur: "gp_current_step_id p = Some s" and act: "gp_active_action_id p = Some (ob_action_id obs)"
  shows "if ob_result obs = ArUnknown then
      apply_graph_result g p (GiActionResult i obs None) = Inr (stopped_decision p SgEscalated i obs)
    else case filter (\<lambda>t. gt_from_step t = s \<and> gt_on t = transition_outcome (ob_result obs)) (pg_transitions g) of
      [] \<Rightarrow> apply_graph_result g p (GiActionResult i obs nxt) = Inl MissingTransition
    | t # others \<Rightarrow> others = [] \<and> takes_edge g p i obs a t"
proof -
  let ?edges = "filter (\<lambda>t. gt_from_step t = s \<and> gt_on t = transition_outcome (ob_result obs)) (pg_transitions g)"
  have valid: "graph_validate g = Inr ()" "graph_spec g" using inv by (auto simp: graph_inv_def graph_validate_iff)
  note eval = apply_graph_result_def valid(1) run cur act
  show ?thesis
  proof (cases "ob_result obs = ArUnknown")
    case True
    then show ?thesis by (simp add: eval inactive_projection_def stopped_decision_def)
  next
    case known: False
    show ?thesis
    proof (cases ?edges)
      case Nil
      then have "find (\<lambda>t. gt_from_step t = s \<and> gt_on t = transition_outcome (ob_result obs)) (pg_transitions g) = None"
        by (simp add: find_None_iff filter_empty_conv)
      then have "apply_graph_result g p (GiActionResult i obs nxt) = Inl MissingTransition"
        using known by (simp add: eval)
      then show ?thesis using known Nil by simp
    next
      case (Cons t others)
      then have t: "t \<in> set (pg_transitions g)" "gt_from_step t = s" "gt_on t = transition_outcome (ob_result obs)"
        using filter_eq_ConsD [OF Cons] by auto
      have "edge_for g s (ob_result obs) = Some t" using edge_for_unique [OF valid(2) t(1,3)] t(2) by simp
      then have "takes_edge g p i obs a t" by (rule edge_is_taken [OF inv run cur act known])
      moreover have "others = []" using one_edge_per_key [OF valid(2)] Cons by blast
      ultimately show ?thesis using known Cons by simp
    qed
  qed
qed

theorem graph_result_branches_witness:
  "takes_edge ex_graph ex_graph_running (InputId ''inp_1'') \<lparr> ob_action_id = ActionId ''act_0'', ob_result = ArSucceeded \<rparr>
     (ActionId ''act_1'')
     \<lparr> gt_from_step = StepId ''stp_first'', gt_on = GoSucceeded, gt_to_step = Some (StepId ''stp_second'') \<rparr>"
  using graph_result_branches [OF ex_running_inv, of "StepId ''stp_first''"
      "\<lparr> ob_action_id = ActionId ''act_0'', ob_result = ArSucceeded \<rparr>" "InputId ''inp_1''" None "ActionId ''act_1''"]
  by (simp add: ex_graph_running_def ex_graph_def)

end
