(* ===== verification/Timeline_Core.thy ===== *)
theory Timeline_Core
  imports Penelope_Prelude
begin

text \<open>
  The timeline metadata of \<open>penelope-core/src/timeline\<close>: identities and contracts, replay plans,
  and the projection that reserves branches and moves the live head.

  Digest identities and counters are type synonyms of their representation; the private fields
  of \<open>TimelineHead\<close> are guarded by its constructor and by the projection, which is the invariant
  \<open>head_ok\<close> shown below. The session array of the projection is a list of fixed length.
\<close>

section \<open>Identities and contracts\<close>

type_synonym timeline_tenant_id = digest
type_synonym timeline_id = digest
type_synonym timeline_model_id = digest
type_synonym timeline_schema_id = digest
type_synonym timeline_input_id = digest
type_synonym timeline_snapshot_id = digest
type_synonym timeline_authority_id = digest
type_synonym timeline_effect_id = digest
type_synonym timeline_step = u64
type_synonym timeline_revision = u64
type_synonym timeline_branch_id = u64
type_synonym input_revision = u64
type_synonym authority_epoch = u64
type_synonym authority_sequence = u64

definition checked_next :: "u64 \<Rightarrow> u64 option" where
  "checked_next n = checked_add n 1"

record timeline_scope =
  tl_tenant :: timeline_tenant_id
  tl_timeline :: timeline_id
  tl_model :: timeline_model_id
  tl_schema :: timeline_schema_id

record authority_observation =
  ao_scope :: timeline_scope
  ao_authority :: timeline_authority_id
  ao_epoch :: authority_epoch
  ao_sequence :: authority_sequence
  ao_step :: timeline_step
  ao_digest :: digest

record timeline_head =
  th_scope :: timeline_scope
  th_branch :: timeline_branch_id
  th_step :: timeline_step
  th_revision :: timeline_revision
  th_effect_finalized :: "timeline_step option"
  th_authority :: "authority_observation option"

record state_anchor =
  sa_scope :: timeline_scope
  sa_branch :: timeline_branch_id
  sa_step :: timeline_step
  sa_snapshot :: timeline_snapshot_id
  sa_digest :: digest

record input_record =
  ir_scope :: timeline_scope
  ir_branch :: timeline_branch_id
  ir_step :: timeline_step
  ir_identity :: timeline_input_id
  ir_revision :: input_revision
  ir_digest :: digest

datatype correction = CorrectState state_anchor | CorrectInput state_anchor input_record

record replay_limits =
  rl_max_retained_inputs :: u64
  rl_max_replay_steps :: u64

datatype timeline_error =
    TlScopeMismatch | TlConflict | FutureCorrection | HistoryUnavailable | ReconciliationRequired
  | Capacity | CounterExhausted | InvalidFrontier | SessionUnavailable | StaleAuthority
  | PublicationUnavailable | InvalidPhase | ValidationFailed | InputMismatch

text \<open>\<open>frontier.is_some_and(|f| step <= f)\<close>\<close>

definition finalized_through :: "timeline_step option \<Rightarrow> timeline_step \<Rightarrow> bool" where
  "finalized_through frontier step = (case frontier of None \<Rightarrow> False | Some f \<Rightarrow> step \<le> f)"

definition head_new ::
  "timeline_scope \<Rightarrow> timeline_branch_id \<Rightarrow> timeline_step \<Rightarrow> timeline_revision \<Rightarrow> timeline_step option \<Rightarrow>
     timeline_error + timeline_head" where
  "head_new scope branch step revision finalized =
     (if (case finalized of None \<Rightarrow> False | Some f \<Rightarrow> step < f) then Inl InvalidFrontier
      else Inr \<lparr> th_scope = scope, th_branch = branch, th_step = step, th_revision = revision,
                 th_effect_finalized = finalized, th_authority = None \<rparr>)"

text \<open>The heads that \<open>TimelineHead\<close>'s private fields allow.\<close>

definition head_ok :: "timeline_head \<Rightarrow> bool" where
  "head_ok h \<longleftrightarrow>
     (case th_effect_finalized h of None \<Rightarrow> True | Some f \<Rightarrow> f \<le> th_step h)
     \<and> (case th_authority h of
          None \<Rightarrow> True
        | Some ob \<Rightarrow> ao_scope ob = th_scope h \<and> ao_step ob \<le> th_step h)"

section \<open>Replay plans\<close>

record replay_plan =
  pl_expected :: timeline_head
  pl_anchor :: state_anchor
  pl_replacement :: "input_record option"
  pl_inputs :: "input_record list"

fun correction_parts :: "correction \<Rightarrow> state_anchor \<times> input_record option" where
  "correction_parts (CorrectState anchor) = (anchor, None)"
| "correction_parts (CorrectInput anchor replacement) = (anchor, Some replacement)"

definition check_replacement ::
  "timeline_head \<Rightarrow> state_anchor \<Rightarrow> input_record option \<Rightarrow> timeline_error + unit" where
  "check_replacement expected anchor replacement =
     (case replacement of
        Some r \<Rightarrow>
          if ir_scope r \<noteq> th_scope expected then Inl TlScopeMismatch
          else if ir_branch r \<noteq> th_branch expected then Inl TlConflict
          else bindR (ok_or CounterExhausted (checked_next (sa_step anchor))) (\<lambda>first.
            if ir_step r \<noteq> first then Inl HistoryUnavailable
            else if th_step expected < ir_step r then Inl FutureCorrection
            else if finalized_through (th_effect_finalized expected) (ir_step r)
            then Inl ReconciliationRequired
            else Inr ())
      | None \<Rightarrow>
          if finalized_through (th_effect_finalized expected) (sa_step anchor)
          then Inl ReconciliationRequired else Inr ())"

fun check_inputs ::
  "timeline_head \<Rightarrow> timeline_step \<Rightarrow> input_record list \<Rightarrow> timeline_error + timeline_step" where
  "check_inputs expected cursor [] = Inr cursor"
| "check_inputs expected cursor (r # rs) =
     bindR (ok_or CounterExhausted (checked_next cursor)) (\<lambda>n.
       if ir_scope r \<noteq> th_scope expected then Inl TlScopeMismatch
       else if ir_branch r \<noteq> th_branch expected then Inl TlConflict
       else if ir_step r \<noteq> n then Inl HistoryUnavailable
       else check_inputs expected n rs)"

definition plan_prepare ::
  "timeline_head \<Rightarrow> timeline_revision \<Rightarrow> correction \<Rightarrow> input_record list \<Rightarrow> replay_limits \<Rightarrow>
     timeline_error + replay_plan" where
  "plan_prepare expected expected_revision corr inputs limits =
     (if th_revision expected \<noteq> expected_revision then Inl TlConflict
      else bindR (ok_or CounterExhausted (checked_next (th_revision expected))) (\<lambda>_.
        case correction_parts corr of (anchor, replacement) \<Rightarrow>
          if sa_scope anchor \<noteq> th_scope expected then Inl TlScopeMismatch
          else if sa_branch anchor \<noteq> th_branch expected then Inl TlConflict
          else if th_step expected < sa_step anchor then Inl FutureCorrection
          else bindR (check_replacement expected anchor replacement) (\<lambda>_.
            bindR (ok_or HistoryUnavailable (checked_sub (th_step expected) (sa_step anchor))) (\<lambda>count.
              if 2 ^ 64 \<le> length inputs then Inl Capacity
              else let supplied = of_nat (length inputs) :: u64 in
                if rl_max_retained_inputs limits < supplied \<or> rl_max_replay_steps limits < count
                then Inl Capacity
                else if supplied \<noteq> count then Inl HistoryUnavailable
                else bindR (check_inputs expected (sa_step anchor) inputs) (\<lambda>_.
                  bindR (case replacement of
                           None \<Rightarrow> Inr ()
                         | Some r \<Rightarrow>
                             (case inputs of
                                [] \<Rightarrow> Inl HistoryUnavailable
                              | original # _ \<Rightarrow>
                                  if ir_identity r \<noteq> ir_identity original
                                    \<or> ir_revision r \<le> ir_revision original
                                  then Inl InputMismatch else Inr ())) (\<lambda>_.
                    Inr \<lparr> pl_expected = expected, pl_anchor = anchor, pl_replacement = replacement,
                          pl_inputs = inputs \<rparr>))))))"

definition corrected_step :: "replay_plan \<Rightarrow> timeline_step" where
  "corrected_step pl = (case pl_replacement pl of Some r \<Rightarrow> ir_step r | None \<Rightarrow> sa_step (pl_anchor pl))"

definition corrected_digest :: "replay_plan \<Rightarrow> digest" where
  "corrected_digest pl = (case pl_replacement pl of Some r \<Rightarrow> ir_digest r | None \<Rightarrow> sa_digest (pl_anchor pl))"

definition plan_input :: "replay_plan \<Rightarrow> nat \<Rightarrow> input_record option" where
  "plan_input pl offset =
     (case (offset, pl_replacement pl) of
        (0, Some r) \<Rightarrow> Some r
      | _ \<Rightarrow> if offset < length (pl_inputs pl) then Some (pl_inputs pl ! offset) else None)"

definition plan_check_head :: "replay_plan \<Rightarrow> timeline_head \<Rightarrow> timeline_error + unit" where
  "plan_check_head pl current = (if pl_expected pl \<noteq> current then Inl TlConflict else Inr ())"

section \<open>Projection\<close>

record branch_reservation =
  br_expected :: timeline_head
  br_branch :: timeline_branch_id
  br_observation :: authority_observation

definition proposed_head :: "branch_reservation \<Rightarrow> timeline_error + timeline_head" where
  "proposed_head r =
     bindR (ok_or CounterExhausted (checked_next (th_revision (br_expected r)))) (\<lambda>n.
       Inr ((br_expected r)\<lparr>th_branch := br_branch r, th_revision := n,
             th_authority := Some (br_observation r)\<rparr>))"

record timeline_projection =
  tp_head :: timeline_head
  tp_last_branch :: timeline_branch_id
  tp_sessions :: "branch_reservation option list"

definition projection_of_head :: "nat \<Rightarrow> timeline_head \<Rightarrow> timeline_projection" where
  "projection_of_head sessions head =
     \<lparr> tp_head = head, tp_last_branch = th_branch head, tp_sessions = replicate sessions None \<rparr>"

definition projection_restore ::
  "nat \<Rightarrow> timeline_head \<Rightarrow> timeline_branch_id \<Rightarrow> timeline_error + timeline_projection" where
  "projection_restore sessions head last_branch =
     (if last_branch < th_branch head then Inl TlConflict
      else Inr \<lparr> tp_head = head, tp_last_branch = last_branch, tp_sessions = replicate sessions None \<rparr>)"

definition active_sessions :: "timeline_projection \<Rightarrow> nat" where
  "active_sessions p = length (filter (\<lambda>s. s \<noteq> None) (tp_sessions p))"

text \<open>\<open>iter_mut().find(|slot| ..)\<close> and the assignment through the found slot.\<close>

fun replace_first :: "('a \<Rightarrow> bool) \<Rightarrow> 'a \<Rightarrow> 'a list \<Rightarrow> 'a list option" where
  "replace_first P y [] = None"
| "replace_first P y (x # xs) = (if P x then Some (y # xs) else map_option ((#) x) (replace_first P y xs))"

definition tp_check_head :: "timeline_projection \<Rightarrow> timeline_head \<Rightarrow> timeline_error + unit" where
  "tp_check_head p expected = (if expected \<noteq> tp_head p then Inl TlConflict else Inr ())"

definition check_reservation :: "timeline_projection \<Rightarrow> branch_reservation \<Rightarrow> timeline_error + unit" where
  "check_reservation p r =
     (if Some r \<notin> set (tp_sessions p) then Inl SessionUnavailable else tp_check_head p (br_expected r))"

definition stale_observation :: "authority_observation \<Rightarrow> authority_observation \<Rightarrow> bool" where
  "stale_observation old obs \<longleftrightarrow>
     ao_authority obs \<noteq> ao_authority old
     \<or> ao_epoch obs < ao_epoch old
     \<or> ao_epoch obs = ao_epoch old \<and> ao_sequence obs \<le> ao_sequence old"

definition check_observation :: "timeline_projection \<Rightarrow> authority_observation \<Rightarrow> timeline_error + unit" where
  "check_observation p obs =
     (if ao_scope obs \<noteq> th_scope (tp_head p) then Inl TlScopeMismatch
      else if th_step (tp_head p) < ao_step obs then Inl FutureCorrection
      else if (case th_authority (tp_head p) of None \<Rightarrow> False | Some old \<Rightarrow> stale_observation old obs)
      then Inl StaleAuthority
      else Inr ())"

definition tp_reserve ::
  "timeline_projection \<Rightarrow> replay_plan \<Rightarrow> authority_observation \<Rightarrow>
     timeline_error + (branch_reservation \<times> timeline_projection)" where
  "tp_reserve p pl obs =
     bindR (plan_check_head pl (tp_head p)) (\<lambda>_.
     bindR (if th_authority (tp_head p) \<noteq> Some obs then check_observation p obs else Inr ()) (\<lambda>_.
       if ao_step obs \<noteq> corrected_step pl \<or> ao_digest obs \<noteq> corrected_digest pl then Inl InputMismatch
       else if list_all (\<lambda>slot. slot \<noteq> None) (tp_sessions p) then Inl Capacity
       else bindR (ok_or CounterExhausted (checked_next (tp_last_branch p))) (\<lambda>branch.
         let r = \<lparr> br_expected = tp_head p, br_branch = branch, br_observation = obs \<rparr>
         in bindR (ok_or Capacity (replace_first (\<lambda>slot. slot = None) (Some r) (tp_sessions p))) (\<lambda>sessions.
              Inr (r, p\<lparr>tp_sessions := sessions, tp_last_branch := branch\<rparr>)))))"

definition promotion_head :: "timeline_projection \<Rightarrow> branch_reservation \<Rightarrow> timeline_error + timeline_head" where
  "promotion_head p r = bindR (check_reservation p r) (\<lambda>_. proposed_head r)"

definition tp_abort :: "timeline_projection \<Rightarrow> branch_reservation \<Rightarrow> timeline_error + timeline_projection" where
  "tp_abort p r =
     bindR (ok_or SessionUnavailable (replace_first (\<lambda>slot. slot = Some r) None (tp_sessions p))) (\<lambda>sessions.
       Inr (p\<lparr>tp_sessions := sessions\<rparr>))"

definition tp_promote ::
  "timeline_projection \<Rightarrow> branch_reservation \<Rightarrow> timeline_error + (timeline_head \<times> timeline_projection)" where
  "tp_promote p r =
     bindR (promotion_head p r) (\<lambda>head.
     bindR (tp_abort p r) (\<lambda>p'.
       Inr (head, p'\<lparr>tp_head := head\<rparr>)))"

definition tp_append ::
  "timeline_projection \<Rightarrow> timeline_head \<Rightarrow> input_record \<Rightarrow> timeline_error + (timeline_head \<times> timeline_projection)" where
  "tp_append p expected r =
     bindR (tp_check_head p expected) (\<lambda>_.
       if ir_scope r \<noteq> th_scope (tp_head p) then Inl TlScopeMismatch
       else if ir_branch r \<noteq> th_branch (tp_head p) then Inl TlConflict
       else bindR (ok_or CounterExhausted (checked_next (th_step (tp_head p)))) (\<lambda>step.
         if ir_step r \<noteq> step then Inl InputMismatch
         else bindR (ok_or CounterExhausted (checked_next (th_revision (tp_head p)))) (\<lambda>revision.
           let head = (tp_head p)\<lparr>th_step := step, th_revision := revision\<rparr>
           in Inr (head, p\<lparr>tp_head := head\<rparr>))))"

definition tp_observe ::
  "timeline_projection \<Rightarrow> timeline_head \<Rightarrow> authority_observation \<Rightarrow>
     timeline_error + (timeline_head \<times> timeline_projection)" where
  "tp_observe p expected obs =
     bindR (tp_check_head p expected) (\<lambda>_.
     bindR (check_observation p obs) (\<lambda>_.
     bindR (ok_or CounterExhausted (checked_next (th_revision (tp_head p)))) (\<lambda>revision.
       let head = (tp_head p)\<lparr>th_authority := Some obs, th_revision := revision\<rparr>
       in Inr (head, p\<lparr>tp_head := head\<rparr>))))"

definition tp_finalize_effects ::
  "timeline_projection \<Rightarrow> timeline_head \<Rightarrow> timeline_step \<Rightarrow> timeline_error + (timeline_head \<times> timeline_projection)" where
  "tp_finalize_effects p expected through =
     bindR (tp_check_head p expected) (\<lambda>_.
       if th_step (tp_head p) < through \<or> finalized_through (th_effect_finalized (tp_head p)) through
       then Inl InvalidFrontier
       else bindR (ok_or CounterExhausted (checked_next (th_revision (tp_head p)))) (\<lambda>revision.
         let head = (tp_head p)\<lparr>th_effect_finalized := Some through, th_revision := revision\<rparr>
         in Inr (head, p\<lparr>tp_head := head\<rparr>)))"

end
