(* ===== verification/Timeline_Wire.thy ===== *)
theory Timeline_Wire
  imports Timeline_Core
begin

text \<open>
  The byte format of timeline records (\<open>penelope-core/src/timeline/wire.rs\<close>).

  A \<open>Writer\<close> borrows a slice of the caller's buffer: the model keeps the bytes written so far
  and the part of the slice that still holds the caller's bytes, so a failing write shows what
  it left behind. A \<open>Reader\<close> threads the bytes that remain. Every field is an instance of
  \<open>field_codec\<close>, which gives both directions of the record's round trip.
\<close>

section \<open>Records\<close>

definition TIMELINE_WIRE_TAG :: "byte list" where
  "TIMELINE_WIRE_TAG = str_bytes ''penelope.timeline.v1''"

definition TIMELINE_RECORD_MAX_BYTES :: nat where
  "TIMELINE_RECORD_MAX_BYTES = 832"

record timeline_intent_record =
  ti_scope :: timeline_scope
  ti_branch :: timeline_branch_id
  ti_step :: timeline_step
  ti_revision :: timeline_revision
  ti_identity :: timeline_effect_id
  ti_digest :: digest
  ti_payload_bytes :: u64

datatype timeline_record =
    TrCheckpoint timeline_head timeline_branch_id
  | TrInput input_record
  | TrAnchor state_anchor
  | TrFork timeline_head timeline_branch_id state_anchor "input_record option"
  | TrIntent timeline_intent_record

datatype timeline_wire_error =
  UnsupportedVersion | WireInvalidFormat | WireCapacity | InvalidTimeline timeline_error

fun record_validate :: "timeline_record \<Rightarrow> timeline_error + unit" where
  "record_validate (TrCheckpoint head last_branch) =
     (if last_branch < th_branch head then Inl TlConflict else Inr ())"
| "record_validate (TrFork expected branch anchor replacement) =
     (if sa_scope anchor \<noteq> th_scope expected \<or> sa_branch anchor \<noteq> th_branch expected
      then Inl TlScopeMismatch
      else if branch \<le> th_branch expected then Inl TlConflict
      else bindR (ok_or CounterExhausted (checked_next (th_revision expected))) (\<lambda>_.
        bindR (case replacement of
                 Some r \<Rightarrow>
                   if ir_scope r \<noteq> th_scope expected \<or> ir_branch r \<noteq> th_branch expected
                   then Inl TlScopeMismatch
                   else if Some (ir_step r) \<noteq> checked_next (sa_step anchor) then Inl InputMismatch
                   else Inr (ir_step r)
               | None \<Rightarrow> Inr (sa_step anchor)) (\<lambda>corrected.
          if th_step expected < corrected then Inl FutureCorrection
          else if finalized_through (th_effect_finalized expected) corrected
          then Inl ReconciliationRequired
          else Inr ())))"
| "record_validate (TrInput _) = Inr ()"
| "record_validate (TrAnchor _) = Inr ()"
| "record_validate (TrIntent _) = Inr ()"

definition head_len :: "timeline_head \<Rightarrow> nat" where
  "head_len head =
     154 + (if th_effect_finalized head \<noteq> None then 8 else 0)
         + (if th_authority head \<noteq> None then 216 else 0)"

fun encoded_len :: "timeline_record \<Rightarrow> nat" where
  "encoded_len (TrCheckpoint head _) = 21 + head_len head + 8"
| "encoded_len (TrInput _) = 237"
| "encoded_len (TrAnchor _) = 229"
| "encoded_len (TrFork expected _ _ replacement) =
     21 + head_len expected + 8 + 208 + 1 + (if replacement \<noteq> None then 216 else 0)"
| "encoded_len (TrIntent _) = 245"

section \<open>Writer\<close>

record writer =
  wr_written :: "byte list"
  wr_remaining :: "byte list"

type_synonym writing = "writer \<Rightarrow> (timeline_wire_error + unit) \<times> writer"

text \<open>\<open>self.a()?; self.b()\<close>\<close>

definition and_then :: "writing \<Rightarrow> writing \<Rightarrow> writing" where
  "and_then f g w = (case f w of (Inl e, w') \<Rightarrow> (Inl e, w') | (Inr _, w') \<Rightarrow> g w')"

definition write_bytes :: "byte list \<Rightarrow> writing" where
  "write_bytes v w =
     (if length (wr_remaining w) < length v then (Inl WireCapacity, w)
      else (Inr (), \<lparr> wr_written = wr_written w @ v, wr_remaining = drop (length v) (wr_remaining w) \<rparr>))"

definition write_nothing :: writing where
  "write_nothing w = (Inr (), w)"

definition write_number :: "u64 \<Rightarrow> writing" where
  "write_number n = write_bytes (u64_to_le_bytes n)"

definition write_scope :: "timeline_scope \<Rightarrow> writing" where
  "write_scope s =
     and_then (write_bytes (digest_bytes (tl_tenant s)))
    (and_then (write_bytes (digest_bytes (tl_timeline s)))
    (and_then (write_bytes (digest_bytes (tl_model s)))
              (write_bytes (digest_bytes (tl_schema s)))))"

definition write_input :: "input_record \<Rightarrow> writing" where
  "write_input r =
     and_then (write_scope (ir_scope r))
    (and_then (write_number (ir_branch r))
    (and_then (write_number (ir_step r))
    (and_then (write_bytes (digest_bytes (ir_identity r)))
    (and_then (write_number (ir_revision r))
              (write_bytes (digest_bytes (ir_digest r)))))))"

definition write_anchor :: "state_anchor \<Rightarrow> writing" where
  "write_anchor a =
     and_then (write_scope (sa_scope a))
    (and_then (write_number (sa_branch a))
    (and_then (write_number (sa_step a))
    (and_then (write_bytes (digest_bytes (sa_snapshot a)))
              (write_bytes (digest_bytes (sa_digest a))))))"

definition write_observation :: "authority_observation \<Rightarrow> writing" where
  "write_observation ob =
     and_then (write_scope (ao_scope ob))
    (and_then (write_bytes (digest_bytes (ao_authority ob)))
    (and_then (write_number (ao_epoch ob))
    (and_then (write_number (ao_sequence ob))
    (and_then (write_number (ao_step ob))
              (write_bytes (digest_bytes (ao_digest ob)))))))"

text \<open>\<open>u8::from(option.is_some())\<close>, then the payload when there is one.\<close>

definition is_some_byte :: "'a option \<Rightarrow> byte" where
  "is_some_byte x = (if x = None then 0 else 1)"

definition write_payload :: "('a \<Rightarrow> writing) \<Rightarrow> 'a option \<Rightarrow> writing" where
  "write_payload f x = (case x of None \<Rightarrow> write_nothing | Some y \<Rightarrow> f y)"

definition write_head :: "timeline_head \<Rightarrow> writing" where
  "write_head h =
     and_then (write_scope (th_scope h))
    (and_then (write_number (th_branch h))
    (and_then (write_number (th_step h))
    (and_then (write_number (th_revision h))
    (and_then (write_bytes [is_some_byte (th_effect_finalized h)])
    (and_then (write_payload write_number (th_effect_finalized h))
    (and_then (write_bytes [is_some_byte (th_authority h)])
              (write_payload write_observation (th_authority h))))))))"

fun write_record :: "timeline_record \<Rightarrow> writing" where
  "write_record (TrCheckpoint head last_branch) =
     and_then (write_bytes [1]) (and_then (write_head head) (write_number last_branch))"
| "write_record (TrInput r) = and_then (write_bytes [2]) (write_input r)"
| "write_record (TrAnchor a) = and_then (write_bytes [3]) (write_anchor a)"
| "write_record (TrFork expected branch anchor replacement) =
     and_then (write_bytes [4])
    (and_then (write_head expected)
    (and_then (write_number branch)
    (and_then (write_anchor anchor)
    (and_then (write_bytes [is_some_byte replacement])
              (write_payload write_input replacement)))))"
| "write_record (TrIntent i) =
     and_then (write_bytes [5])
    (and_then (write_scope (ti_scope i))
    (and_then (write_number (ti_branch i))
    (and_then (write_number (ti_step i))
    (and_then (write_number (ti_revision i))
    (and_then (write_bytes (digest_bytes (ti_identity i)))
    (and_then (write_bytes (digest_bytes (ti_digest i)))
              (write_number (ti_payload_bytes i))))))))"

text \<open>The result, and the caller's buffer afterwards.\<close>

definition encode :: "timeline_record \<Rightarrow> byte list \<Rightarrow> (timeline_wire_error + nat) \<times> byte list" where
  "encode r output =
     (case record_validate r of
        Inl e \<Rightarrow> (Inl (InvalidTimeline e), output)
      | Inr _ \<Rightarrow>
          let len = encoded_len r in
          if length output < len then (Inl WireCapacity, output)
          else case and_then (write_bytes TIMELINE_WIRE_TAG) (write_record r)
                      \<lparr> wr_written = [], wr_remaining = take len output \<rparr> of
                 (res, w) \<Rightarrow> (bindR res (\<lambda>_. Inr len),
                              wr_written w @ wr_remaining w @ drop len output))"

section \<open>Reader\<close>

type_synonym 'a reading = "byte list \<Rightarrow> timeline_wire_error + ('a \<times> byte list)"

definition read_take :: "nat \<Rightarrow> byte list reading" where
  "read_take n bs = (if n \<le> length bs then Inr (take n bs, drop n bs) else Inl WireInvalidFormat)"

definition read_digest :: "digest reading" where
  "read_digest bs = bindR (read_take 32 bs) (\<lambda>(d, bs). Inr (digest_from_array d, bs))"

definition read_byte :: "byte reading" where
  "read_byte bs = bindR (read_take 1 bs) (\<lambda>(v, bs). Inr (hd v, bs))"

definition read_flag :: "bool reading" where
  "read_flag bs = bindR (read_byte bs) (\<lambda>(b, bs).
     if b = 0 then Inr (False, bs) else if b = 1 then Inr (True, bs) else Inl WireInvalidFormat)"

definition read_number :: "u64 reading" where
  "read_number bs = bindR (read_take 8 bs) (\<lambda>(v, bs). Inr (u64_from_le_bytes v, bs))"

definition read_scope :: "timeline_scope reading" where
  "read_scope bs =
     bindR (read_digest bs) (\<lambda>(tenant, bs).
     bindR (read_digest bs) (\<lambda>(timeline, bs).
     bindR (read_digest bs) (\<lambda>(model, bs).
     bindR (read_digest bs) (\<lambda>(schema, bs).
       Inr (\<lparr> tl_tenant = tenant, tl_timeline = timeline, tl_model = model, tl_schema = schema \<rparr>, bs)))))"

definition read_input :: "input_record reading" where
  "read_input bs =
     bindR (read_scope bs) (\<lambda>(scope, bs).
     bindR (read_number bs) (\<lambda>(branch, bs).
     bindR (read_number bs) (\<lambda>(step, bs).
     bindR (read_digest bs) (\<lambda>(identity, bs).
     bindR (read_number bs) (\<lambda>(revision, bs).
     bindR (read_digest bs) (\<lambda>(digest, bs).
       Inr (\<lparr> ir_scope = scope, ir_branch = branch, ir_step = step, ir_identity = identity,
              ir_revision = revision, ir_digest = digest \<rparr>, bs)))))))"

definition read_anchor :: "state_anchor reading" where
  "read_anchor bs =
     bindR (read_scope bs) (\<lambda>(scope, bs).
     bindR (read_number bs) (\<lambda>(branch, bs).
     bindR (read_number bs) (\<lambda>(step, bs).
     bindR (read_digest bs) (\<lambda>(snapshot, bs).
     bindR (read_digest bs) (\<lambda>(digest, bs).
       Inr (\<lparr> sa_scope = scope, sa_branch = branch, sa_step = step, sa_snapshot = snapshot,
              sa_digest = digest \<rparr>, bs))))))"

definition read_observation :: "authority_observation reading" where
  "read_observation bs =
     bindR (read_scope bs) (\<lambda>(scope, bs).
     bindR (read_digest bs) (\<lambda>(authority, bs).
     bindR (read_number bs) (\<lambda>(epoch, bs).
     bindR (read_number bs) (\<lambda>(sequence, bs).
     bindR (read_number bs) (\<lambda>(step, bs).
     bindR (read_digest bs) (\<lambda>(digest, bs).
       Inr (\<lparr> ao_scope = scope, ao_authority = authority, ao_epoch = epoch, ao_sequence = sequence,
              ao_step = step, ao_digest = digest \<rparr>, bs)))))))"

text \<open>\<open>if self.flag()? { Some(read) } else { None }\<close>\<close>

definition read_option :: "'a reading \<Rightarrow> 'a option reading" where
  "read_option f bs =
     bindR (read_flag bs) (\<lambda>(present, bs).
       if present then bindR (f bs) (\<lambda>(x, bs). Inr (Some x, bs)) else Inr (None, bs))"

definition read_head :: "timeline_head reading" where
  "read_head bs =
     bindR (read_scope bs) (\<lambda>(scope, bs).
     bindR (read_number bs) (\<lambda>(branch, bs).
     bindR (read_number bs) (\<lambda>(step, bs).
     bindR (read_number bs) (\<lambda>(revision, bs).
     bindR (read_option read_number bs) (\<lambda>(finalized, bs).
     bindR (map_err InvalidTimeline (head_new scope branch step revision finalized)) (\<lambda>head.
     bindR (read_flag bs) (\<lambda>(present, bs).
       if present then
         bindR (read_observation bs) (\<lambda>(observation, bs).
           if ao_scope observation \<noteq> scope then Inl (InvalidTimeline TlScopeMismatch)
           else if step < ao_step observation then Inl (InvalidTimeline FutureCorrection)
           else Inr (head\<lparr>th_authority := Some observation\<rparr>, bs))
       else Inr (head, bs))))))))"

definition read_intent :: "timeline_intent_record reading" where
  "read_intent bs =
     bindR (read_scope bs) (\<lambda>(scope, bs).
     bindR (read_number bs) (\<lambda>(branch, bs).
     bindR (read_number bs) (\<lambda>(step, bs).
     bindR (read_number bs) (\<lambda>(revision, bs).
     bindR (read_digest bs) (\<lambda>(identity, bs).
     bindR (read_digest bs) (\<lambda>(digest, bs).
     bindR (read_number bs) (\<lambda>(payload_bytes, bs).
       Inr (\<lparr> ti_scope = scope, ti_branch = branch, ti_step = step, ti_revision = revision,
              ti_identity = identity, ti_digest = digest, ti_payload_bytes = payload_bytes \<rparr>, bs))))))))"

definition read_record :: "timeline_record reading" where
  "read_record bs =
     bindR (read_byte bs) (\<lambda>(variant, bs).
       if variant = 1 then
         bindR (read_head bs) (\<lambda>(head, bs).
         bindR (read_number bs) (\<lambda>(last_branch, bs). Inr (TrCheckpoint head last_branch, bs)))
       else if variant = 2 then bindR (read_input bs) (\<lambda>(r, bs). Inr (TrInput r, bs))
       else if variant = 3 then bindR (read_anchor bs) (\<lambda>(a, bs). Inr (TrAnchor a, bs))
       else if variant = 4 then
         bindR (read_head bs) (\<lambda>(expected, bs).
         bindR (read_number bs) (\<lambda>(branch, bs).
         bindR (read_anchor bs) (\<lambda>(anchor, bs).
         bindR (read_option read_input bs) (\<lambda>(replacement, bs).
           Inr (TrFork expected branch anchor replacement, bs)))))
       else if variant = 5 then bindR (read_intent bs) (\<lambda>(i, bs). Inr (TrIntent i, bs))
       else Inl WireInvalidFormat)"

definition decode :: "byte list \<Rightarrow> timeline_wire_error + timeline_record" where
  "decode input =
     bindR (read_take 20 input) (\<lambda>(tag, bs).
       if tag \<noteq> TIMELINE_WIRE_TAG then Inl UnsupportedVersion
       else bindR (read_record bs) (\<lambda>(r, bs).
         if bs \<noteq> [] then Inl WireInvalidFormat
         else bindR (map_err InvalidTimeline (record_validate r)) (\<lambda>_. Inr r)))"

section \<open>Canonical bytes\<close>

definition enc_scope :: "timeline_scope \<Rightarrow> byte list" where
  "enc_scope s = digest_bytes (tl_tenant s) @ digest_bytes (tl_timeline s) @ digest_bytes (tl_model s)
     @ digest_bytes (tl_schema s)"

definition enc_input :: "input_record \<Rightarrow> byte list" where
  "enc_input r = enc_scope (ir_scope r) @ u64_to_le_bytes (ir_branch r) @ u64_to_le_bytes (ir_step r)
     @ digest_bytes (ir_identity r) @ u64_to_le_bytes (ir_revision r) @ digest_bytes (ir_digest r)"

definition enc_anchor :: "state_anchor \<Rightarrow> byte list" where
  "enc_anchor a = enc_scope (sa_scope a) @ u64_to_le_bytes (sa_branch a) @ u64_to_le_bytes (sa_step a)
     @ digest_bytes (sa_snapshot a) @ digest_bytes (sa_digest a)"

definition enc_observation :: "authority_observation \<Rightarrow> byte list" where
  "enc_observation ob = enc_scope (ao_scope ob) @ digest_bytes (ao_authority ob)
     @ u64_to_le_bytes (ao_epoch ob) @ u64_to_le_bytes (ao_sequence ob) @ u64_to_le_bytes (ao_step ob)
     @ digest_bytes (ao_digest ob)"

definition enc_option :: "('a \<Rightarrow> byte list) \<Rightarrow> 'a option \<Rightarrow> byte list" where
  "enc_option enc x = is_some_byte x # (case x of None \<Rightarrow> [] | Some y \<Rightarrow> enc y)"

definition enc_head :: "timeline_head \<Rightarrow> byte list" where
  "enc_head h = enc_scope (th_scope h) @ u64_to_le_bytes (th_branch h) @ u64_to_le_bytes (th_step h)
     @ u64_to_le_bytes (th_revision h) @ enc_option u64_to_le_bytes (th_effect_finalized h)
     @ enc_option enc_observation (th_authority h)"

definition enc_intent :: "timeline_intent_record \<Rightarrow> byte list" where
  "enc_intent i = enc_scope (ti_scope i) @ u64_to_le_bytes (ti_branch i) @ u64_to_le_bytes (ti_step i)
     @ u64_to_le_bytes (ti_revision i) @ digest_bytes (ti_identity i) @ digest_bytes (ti_digest i)
     @ u64_to_le_bytes (ti_payload_bytes i)"

fun enc_record :: "timeline_record \<Rightarrow> byte list" where
  "enc_record (TrCheckpoint head last_branch) = 1 # enc_head head @ u64_to_le_bytes last_branch"
| "enc_record (TrInput r) = 2 # enc_input r"
| "enc_record (TrAnchor a) = 3 # enc_anchor a"
| "enc_record (TrFork expected branch anchor replacement) =
     4 # enc_head expected @ u64_to_le_bytes branch @ enc_anchor anchor @ enc_option enc_input replacement"
| "enc_record (TrIntent i) = 5 # enc_intent i"

text \<open>Records whose heads the type admits.\<close>

fun record_heads_ok :: "timeline_record \<Rightarrow> bool" where
  "record_heads_ok (TrCheckpoint head _) = head_ok head"
| "record_heads_ok (TrFork expected _ _ _) = head_ok expected"
| "record_heads_ok _ = True"

section \<open>Reading back canonical fields\<close>

lemma read_take_eq_Inr [result_simps]:
  "read_take n bs = Inr (v, rest) \<longleftrightarrow> bs = v @ rest \<and> length v = n"
  by (auto simp: read_take_def)

lemma read_take_append [simp]: "length v = n \<Longrightarrow> read_take n (v @ rest) = Inr (v, rest)"
  by (simp add: result_simps)

lemma read_take_one:
  "read_take 1 bs = (case bs of [] \<Rightarrow> Inl WireInvalidFormat | b # rest \<Rightarrow> Inr ([b], rest))"
  by (cases bs) (simp_all add: read_take_def)

interpretation number_codec: field_codec u64_to_le_bytes read_number "\<lambda>_. True"
  by unfold_locales (auto simp: read_number_def result_simps u64_to_from_le)

interpretation digest_codec: field_codec digest_bytes read_digest "\<lambda>_. True"
  by unfold_locales (auto simp: read_digest_def result_simps digest_bytes_from)

interpretation byte_codec: field_codec "\<lambda>b. [b]" read_byte "\<lambda>_. True"
  by unfold_locales (auto simp: read_byte_def read_take_one [simplified] split: list.splits)

lemma read_flag_eq_Inr [result_simps]:
  "read_flag bs = Inr (b, rest) \<longleftrightarrow> bs = (if b then 1 else 0) # rest"
  using byte_codec.enc_dec byte_codec.dec_enc
  by (fastforce simp: read_flag_def result_simps split: if_splits)

lemma read_number_eq_Inr [result_simps]:
  "read_number bs = Inr (n, rest) \<longleftrightarrow> bs = u64_to_le_bytes n @ rest"
  using number_codec.enc_dec number_codec.dec_enc by fastforce

lemma read_digest_eq_Inr [result_simps]:
  "read_digest bs = Inr (d, rest) \<longleftrightarrow> bs = digest_bytes d @ rest"
  using digest_codec.enc_dec digest_codec.dec_enc by fastforce

lemma read_byte_eq_Inr [result_simps]: "read_byte bs = Inr (b, rest) \<longleftrightarrow> bs = b # rest"
  using byte_codec.enc_dec byte_codec.dec_enc by fastforce

lemma read_scope_eq_Inr [result_simps]:
  "read_scope bs = Inr (s, rest) \<longleftrightarrow> bs = enc_scope s @ rest"
  by (cases s) (auto simp: read_scope_def enc_scope_def result_simps)

lemma read_input_eq_Inr [result_simps]:
  "read_input bs = Inr (r, rest) \<longleftrightarrow> bs = enc_input r @ rest"
  by (cases r) (auto simp: read_input_def enc_input_def result_simps)

lemma read_anchor_eq_Inr [result_simps]:
  "read_anchor bs = Inr (a, rest) \<longleftrightarrow> bs = enc_anchor a @ rest"
  by (cases a) (auto simp: read_anchor_def enc_anchor_def result_simps)

lemma read_observation_eq_Inr [result_simps]:
  "read_observation bs = Inr (ob, rest) \<longleftrightarrow> bs = enc_observation ob @ rest"
  by (cases ob) (auto simp: read_observation_def enc_observation_def result_simps)

lemma read_intent_eq_Inr [result_simps]:
  "read_intent bs = Inr (i, rest) \<longleftrightarrow> bs = enc_intent i @ rest"
  by (cases i) (auto simp: read_intent_def enc_intent_def result_simps)

text \<open>An optional field, and the head whose optional fields are guarded.\<close>

lemma read_option_eq_Inr:
  assumes "\<And>bs y rest. f bs = Inr (y, rest) \<longleftrightarrow> bs = enc y @ rest"
  shows "read_option f bs = Inr (x, rest) \<longleftrightarrow> bs = enc_option enc x @ rest"
  by (cases x) (auto simp: read_option_def enc_option_def is_some_byte_def result_simps assms)

lemmas read_option_number [result_simps] = read_option_eq_Inr [OF read_number_eq_Inr]
lemmas read_option_input [result_simps] = read_option_eq_Inr [OF read_input_eq_Inr]

lemma head_new_eq_Inr [result_simps]:
  "head_new scope branch step revision finalized = Inr h \<longleftrightarrow>
     (case finalized of None \<Rightarrow> True | Some f \<Rightarrow> f \<le> step)
     \<and> h = \<lparr> th_scope = scope, th_branch = branch, th_step = step, th_revision = revision,
             th_effect_finalized = finalized, th_authority = None \<rparr>"
  by (auto simp: head_new_def not_less split: option.splits)

lemmas read_back [simp] =
  read_number_eq_Inr [THEN iffD2, OF refl] read_digest_eq_Inr [THEN iffD2, OF refl]
  read_byte_eq_Inr [THEN iffD2, OF refl] read_scope_eq_Inr [THEN iffD2, OF refl]
  read_input_eq_Inr [THEN iffD2, OF refl] read_anchor_eq_Inr [THEN iffD2, OF refl]
  read_observation_eq_Inr [THEN iffD2, OF refl] read_intent_eq_Inr [THEN iffD2, OF refl]
  read_option_number [THEN iffD2, OF refl] read_option_input [THEN iffD2, OF refl]

lemma read_flag_back [simp]:
  "read_flag (0 # rest) = Inr (False, rest)" "read_flag (1 # rest) = Inr (True, rest)"
  by (simp_all add: result_simps)

interpretation head_codec: field_codec enc_head read_head head_ok
proof
  fix h rest
  assume ok: "head_ok h"
  then have "head_new (th_scope h) (th_branch h) (th_step h) (th_revision h) (th_effect_finalized h)
      = Inr (h\<lparr>th_authority := None\<rparr>)"
    by (simp add: head_new_eq_Inr head_ok_def)
  then show "read_head (enc_head h @ rest) = Inr (h, rest)" using ok
    by (cases "th_authority h")
       (simp_all add: read_head_def enc_head_def enc_option_def [of enc_observation]
         is_some_byte_def head_ok_def not_less)
next
  fix bs h rest
  assume "read_head bs = Inr (h, rest)"
  then show "head_ok h \<and> bs = enc_head h @ rest"
    by (auto simp: read_head_def enc_head_def head_ok_def result_simps enc_option_def [of enc_observation]
        is_some_byte_def cong: option.case_cong split: if_splits)
qed

interpretation record_codec: field_codec enc_record read_record record_heads_ok
proof
  fix r rest
  assume "record_heads_ok r"
  then show "read_record (enc_record r @ rest) = Inr (r, rest)"
    by (cases r) (simp_all add: read_record_def head_codec.dec_enc)
next
  fix bs r rest
  assume "read_record bs = Inr (r, rest)"
  then show "record_heads_ok r \<and> bs = enc_record r @ rest"
    by (auto simp: read_record_def result_simps split: if_splits dest!: head_codec.enc_dec)
qed

section \<open>Writing canonical bytes\<close>

text \<open>A writer action appends exactly these bytes whenever they fit.\<close>

definition writes :: "writing \<Rightarrow> byte list \<Rightarrow> bool" where
  "writes f bs \<longleftrightarrow> (\<forall>w. length bs \<le> length (wr_remaining w) \<longrightarrow>
     f w = (Inr (), \<lparr> wr_written = wr_written w @ bs, wr_remaining = drop (length bs) (wr_remaining w) \<rparr>))"

named_theorems write_intros \<open>the bytes a writer action appends\<close>

lemma writes_bytes [write_intros]: "writes (write_bytes v) v"
  by (simp add: writes_def write_bytes_def)

lemma writes_then [write_intros]: "writes f a \<Longrightarrow> writes g b \<Longrightarrow> writes (and_then f g) (a @ b)"
  by (simp add: writes_def and_then_def add.commute)

lemma writes_byte_then [write_intros]: "writes g b \<Longrightarrow> writes (and_then (write_bytes [x]) g) (x # b)"
  using writes_then [OF writes_bytes, of g b "[x]"] by simp

lemma writes_number [write_intros]: "writes (write_number n) (u64_to_le_bytes n)"
  unfolding write_number_def by (rule writes_bytes)

lemma writes_payload [write_intros]:
  "(\<And>y. writes (f y) (enc y)) \<Longrightarrow> writes (write_payload f x) (case x of None \<Rightarrow> [] | Some y \<Rightarrow> enc y)"
  by (cases x) (simp_all add: write_payload_def write_nothing_def writes_def)

lemma writes_scope [write_intros]: "writes (write_scope s) (enc_scope s)"
  unfolding write_scope_def enc_scope_def by (intro write_intros)

lemma writes_input [write_intros]: "writes (write_input r) (enc_input r)"
  unfolding write_input_def enc_input_def by (intro write_intros)

lemma writes_anchor [write_intros]: "writes (write_anchor a) (enc_anchor a)"
  unfolding write_anchor_def enc_anchor_def by (intro write_intros)

lemma writes_observation [write_intros]: "writes (write_observation ob) (enc_observation ob)"
  unfolding write_observation_def enc_observation_def by (intro write_intros)

lemma writes_head [write_intros]: "writes (write_head h) (enc_head h)"
  unfolding write_head_def enc_head_def enc_option_def append_Cons append_Nil by (intro write_intros)

lemma writes_record: "writes (write_record r) (enc_record r)"
  by (cases r)
     (simp_all only: write_record.simps enc_record.simps enc_option_def enc_intent_def append_Cons,
      (intro write_intros)+)

lemma length_enc [simp]:
  "length (enc_scope s) = 128" "length (enc_input r) = 216" "length (enc_anchor a) = 208"
  "length (enc_observation ob) = 216" "length (enc_intent i) = 224" "length (enc_head h) = head_len h"
  by (simp_all add: enc_scope_def enc_input_def enc_anchor_def enc_observation_def enc_intent_def
      enc_head_def head_len_def enc_option_def split: option.splits)

lemma length_tag [simp]: "length TIMELINE_WIRE_TAG = 20"
  by (simp add: TIMELINE_WIRE_TAG_def)

lemma length_enc_record: "length (TIMELINE_WIRE_TAG @ enc_record r) = encoded_len r"
  by (cases r) (auto simp: enc_option_def split: option.splits)

lemma encoded_len_bound: "encoded_len r \<le> TIMELINE_RECORD_MAX_BYTES"
  by (cases r) (auto simp: head_len_def TIMELINE_RECORD_MAX_BYTES_def)

text \<open>What the encoder does to the caller's buffer, on every branch.\<close>

lemma encode_cases:
  "encode r output =
     (case record_validate r of
        Inl e \<Rightarrow> (Inl (InvalidTimeline e), output)
      | Inr _ \<Rightarrow>
          if length output < encoded_len r then (Inl WireCapacity, output)
          else (Inr (encoded_len r), TIMELINE_WIRE_TAG @ enc_record r @ drop (encoded_len r) output))"
proof -
  let ?bs = "TIMELINE_WIRE_TAG @ enc_record r"
  have "writes (and_then (write_bytes TIMELINE_WIRE_TAG) (write_record r)) ?bs"
    by (intro writes_then writes_bytes writes_record)
  then have "encoded_len r \<le> length output \<Longrightarrow>
      and_then (write_bytes TIMELINE_WIRE_TAG) (write_record r)
        \<lparr> wr_written = [], wr_remaining = take (encoded_len r) output \<rparr>
      = (Inr (), \<lparr> wr_written = ?bs, wr_remaining = [] \<rparr>)"
    using length_enc_record [of r] unfolding writes_def by (simp del: length_append)
  then show ?thesis by (simp add: encode_def Let_def split: sum.split)
qed

lemma decode_eq_Inr:
  "decode bs = Inr r \<longleftrightarrow>
     record_heads_ok r \<and> record_validate r = Inr () \<and> bs = TIMELINE_WIRE_TAG @ enc_record r"
proof
  assume "decode bs = Inr r"
  then obtain rest where "bs = TIMELINE_WIRE_TAG @ rest" "read_record rest = Inr (r, [])"
    "record_validate r = Inr ()"
    by (auto simp: decode_def result_simps split: if_splits)
  then show "record_heads_ok r \<and> record_validate r = Inr () \<and> bs = TIMELINE_WIRE_TAG @ enc_record r"
    using record_codec.enc_dec [of rest r "[]"] by simp
next
  assume "record_heads_ok r \<and> record_validate r = Inr () \<and> bs = TIMELINE_WIRE_TAG @ enc_record r"
  then show "decode bs = Inr r"
    using record_codec.dec_enc [of r "[]"] by (simp add: decode_def)
qed

end
