(* ===== verification/Timeline_Live.thy ===== *)
theory Timeline_Live
  imports Timeline_Wire "HOL-Library.List_Lexorder" "HOL-Library.Product_Lexorder" "HOL-Library.Option_ord"
begin

text \<open>
  The replay and publication facade of \<open>penelope-timeline\<close>: tentative effects (\<open>effects.rs\<close>),
  replay sessions (\<open>session.rs\<close>), new live steps (\<open>step.rs\<close>), the live timeline (\<open>live.rs\<close>) and
  the durable handoff of effects (\<open>handoff.rs\<close>).

  The consumer's code is a parameter. A computation only reaches the effect sink by staging, and
  may look at each answer: it is a tree of stage requests that ends in a result and the new state.
  Input store, snapshot store, validator and handoff adapter are functions. A session or a live
  timeline is mutated in place, also by a call that fails, so these operations return both their
  result and the new value. Panics of consumer code are not modelled.
\<close>

section \<open>Tentative effects\<close>

record step_context =
  sc_revision :: timeline_revision
  sc_scope :: timeline_scope
  sc_branch :: timeline_branch_id
  sc_step :: timeline_step

record effect_descriptor =
  ed_origin :: step_context
  ed_identity :: timeline_effect_id
  ed_digest :: digest
  ed_payload_bytes :: u64

definition descriptor_record :: "effect_descriptor \<Rightarrow> timeline_intent_record" where
  "descriptor_record d =
     \<lparr> ti_scope = sc_scope (ed_origin d), ti_branch = sc_branch (ed_origin d), ti_step = sc_step (ed_origin d),
       ti_revision = sc_revision (ed_origin d), ti_identity = ed_identity d, ti_digest = ed_digest d,
       ti_payload_bytes = ed_payload_bytes d \<rparr>"

record 'e staged_effect =
  se_descriptor :: effect_descriptor
  se_payload :: 'e

record effect_limits =
  el_max_intents :: nat
  el_max_payload_bytes :: u64

record 'e staged_effects =
  fx_slots :: "'e staged_effect option list"
  fx_len :: nat
  fx_bytes :: u64
  fx_limits :: effect_limits

definition fx_new :: "nat \<Rightarrow> effect_limits \<Rightarrow> 'e staged_effects" where
  "fx_new capacity limits = \<lparr> fx_slots = replicate capacity None, fx_len = 0, fx_bytes = 0, fx_limits = limits \<rparr>"

text \<open>\<open>iter().flatten()\<close>\<close>

definition somes :: "'a option list \<Rightarrow> 'a list" where
  "somes xs = map the (filter (\<lambda>x. x \<noteq> None) xs)"

definition fx_iter :: "'e staged_effects \<Rightarrow> 'e staged_effect list" where
  "fx_iter fx = somes (take (fx_len fx) (fx_slots fx))"

definition effect_identity :: "'e staged_effect \<Rightarrow> timeline_effect_id" where
  "effect_identity e = ed_identity (se_descriptor e)"

definition effect_step :: "'e staged_effect \<Rightarrow> timeline_step" where
  "effect_step e = sc_step (ed_origin (se_descriptor e))"

definition effect_bytes :: "'e staged_effect \<Rightarrow> u64" where
  "effect_bytes e = ed_payload_bytes (se_descriptor e)"

definition fx_push :: "'e staged_effects \<Rightarrow> 'e staged_effect \<Rightarrow> timeline_error + 'e staged_effects" where
  "fx_push fx e =
     (if el_max_intents (fx_limits fx) \<le> fx_len fx \<or> length (fx_slots fx) \<le> fx_len fx then Inl Capacity
      else if list_ex (\<lambda>old. effect_identity old = effect_identity e) (fx_iter fx) then Inl InputMismatch
      else bindR (ok_or Capacity (checked_add (fx_bytes fx) (effect_bytes e))) (\<lambda>bytes.
        if el_max_payload_bytes (fx_limits fx) < bytes then Inl Capacity
        else if fx_slots fx ! fx_len fx \<noteq> None then Inl Capacity
        else Inr (fx\<lparr>fx_slots := (fx_slots fx)[fx_len fx := Some e], fx_bytes := bytes,
                   fx_len := fx_len fx + 1\<rparr>)))"

record 'e step_effect_sink =
  sk_effects :: "'e staged_effects"
  sk_origin :: step_context
  sk_poisoned :: bool

definition fx_sink :: "'e staged_effects \<Rightarrow> step_context \<Rightarrow> 'e step_effect_sink" where
  "fx_sink fx origin = \<lparr> sk_effects = fx, sk_origin = origin, sk_poisoned = False \<rparr>"

definition sink_stage ::
  "timeline_effect_id \<Rightarrow> digest \<Rightarrow> u64 \<Rightarrow> 'e \<Rightarrow> 'e step_effect_sink \<Rightarrow>
     (timeline_error + unit) \<times> 'e step_effect_sink" where
  "sink_stage identity digest payload_bytes payload sk =
     (let e = \<lparr> se_descriptor = \<lparr> ed_origin = sk_origin sk, ed_identity = identity, ed_digest = digest,
                ed_payload_bytes = payload_bytes \<rparr>, se_payload = payload \<rparr>
      in case fx_push (sk_effects sk) e of
           Inl err \<Rightarrow> (Inl err, sk\<lparr>sk_poisoned := True\<rparr>)
         | Inr fx \<Rightarrow> (Inr (), sk\<lparr>sk_effects := fx\<rparr>))"

section \<open>Consumer contracts\<close>

text \<open>One execution of \<open>RewindableComputation::step\<close>.\<close>

datatype ('s, 'e, 'm) computation =
    Finish "'m + unit" 's
  | Stage timeline_effect_id digest u64 'e "(timeline_error + unit) \<Rightarrow> ('s, 'e, 'm) computation"

primrec run_computation ::
  "('s, 'e, 'm) computation \<Rightarrow> 'e step_effect_sink \<Rightarrow> ('m + unit) \<times> 's \<times> 'e step_effect_sink" where
  "run_computation (Finish r s) sk = (r, s, sk)"
| "run_computation (Stage identity digest payload_bytes payload k) sk =
     (case sink_stage identity digest payload_bytes payload sk of
        (answer, sk') \<Rightarrow> run_computation (k answer) sk')"

type_synonym ('s, 'i, 'e, 'm) model = "'s \<Rightarrow> 'i \<Rightarrow> step_context \<Rightarrow> ('s, 'e, 'm) computation"
type_synonym ('i, 'x) input_store = "input_record \<Rightarrow> 'x + (input_record \<times> 'i)"
type_synonym ('s, 'x) snapshot_store = "state_anchor \<Rightarrow> 's \<Rightarrow> 'x + (state_anchor \<times> 's)"
type_synonym ('s, 'x) live_snapshot_store = "timeline_head \<Rightarrow> state_anchor \<Rightarrow> 's \<Rightarrow> 'x + (state_anchor \<times> 's)"
type_synonym 's validator = "'s \<Rightarrow> timeline_head \<Rightarrow> timeline_error + unit"

definition digest_validator :: "digest \<Rightarrow> ('s \<Rightarrow> digest) \<Rightarrow> 's validator" where
  "digest_validator expected digest s _ = (if digest s \<noteq> expected then Inl ValidationFailed else Inr ())"

datatype replay_phase = Replaying | ReadyToValidate | PhaseAborted

datatype ('m, 'x) replay_error = ReplayTimeline timeline_error | ReplayComputation 'm | ReplayInput 'x

datatype 'x restore_error = RestoreTimeline timeline_error | RestoreSnapshot 'x

section \<open>Replay sessions\<close>

record ('s, 'e) replay_session =
  rs_plan :: replay_plan
  rs_reservation :: branch_reservation
  rs_state :: 's
  rs_effects :: "'e staged_effects"
  rs_cursor :: nat
  rs_phase :: replay_phase

record ('s, 'e) ready_candidate =
  rc_reservation :: branch_reservation
  rc_replace_from :: timeline_step
  rc_state :: 's
  rc_effects :: "'e staged_effects"

definition session_begin ::
  "nat \<Rightarrow> replay_plan \<Rightarrow> branch_reservation \<Rightarrow> 's \<Rightarrow> ('s, 'x) snapshot_store \<Rightarrow> effect_limits \<Rightarrow>
     'x restore_error + ('s, 'e) replay_session" where
  "session_begin capacity pl r scratch restore limits =
     (if br_expected r \<noteq> pl_expected pl \<or> ao_step (br_observation r) \<noteq> corrected_step pl
         \<or> ao_digest (br_observation r) \<noteq> corrected_digest pl
      then Inl (RestoreTimeline TlConflict)
      else bindR (map_err RestoreSnapshot (restore (pl_anchor pl) scratch)) (\<lambda>(restored, s).
        if restored \<noteq> pl_anchor pl then Inl (RestoreTimeline InputMismatch)
        else Inr \<lparr> rs_plan = pl, rs_reservation = r, rs_state = s, rs_effects = fx_new capacity limits,
                   rs_cursor = 0,
                   rs_phase = if pl_inputs pl = [] then ReadyToValidate else Replaying \<rparr>))"

text \<open>One iteration of the loop of \<open>advance\<close>.\<close>

definition advance_step ::
  "timeline_head \<Rightarrow> ('s, 'i, 'e, 'm) model \<Rightarrow> ('i, 'x) input_store \<Rightarrow> ('s, 'e) replay_session \<Rightarrow>
     (('m, 'x) replay_error + unit) \<times> ('s, 'e) replay_session" where
  "advance_step current model read s =
     (case plan_input (rs_plan s) (rs_cursor s) of
        None \<Rightarrow> (Inl (ReplayTimeline HistoryUnavailable), s)
      | Some r \<Rightarrow>
          (case read r of
             Inl x \<Rightarrow> (Inl (ReplayInput x), s)
           | Inr (bound, value) \<Rightarrow>
               if bound \<noteq> r then (Inl (ReplayTimeline InputMismatch), s)
               else case checked_next (th_revision current) of
                 None \<Rightarrow> (Inl (ReplayTimeline CounterExhausted), s)
               | Some revision \<Rightarrow>
                   (let ctx = \<lparr> sc_revision = revision, sc_scope = th_scope current,
                          sc_branch = br_branch (rs_reservation s), sc_step = ir_step r \<rparr>
                    in case run_computation (model (rs_state s) value ctx) (fx_sink (rs_effects s) ctx) of
                         (res, state, sk) \<Rightarrow>
                           let s' = s\<lparr>rs_state := state, rs_effects := sk_effects sk\<rparr> in
                           (case res of
                              Inl m \<Rightarrow> (Inl (ReplayComputation m), s')
                            | Inr _ \<Rightarrow>
                                if sk_poisoned sk then (Inl (ReplayTimeline Capacity), s')
                                else (Inr (), s'\<lparr>rs_cursor := rs_cursor s + 1\<rparr>)))))"

primrec advance_loop ::
  "timeline_head \<Rightarrow> ('s, 'i, 'e, 'm) model \<Rightarrow> ('i, 'x) input_store \<Rightarrow> nat \<Rightarrow> ('s, 'e) replay_session \<Rightarrow>
     (('m, 'x) replay_error + unit) \<times> ('s, 'e) replay_session" where
  "advance_loop current model read 0 s = (Inr (), s)"
| "advance_loop current model read (Suc remaining) s =
     (if length (pl_inputs (rs_plan s)) \<le> rs_cursor s then (Inr (), s)
      else case advance_step current model read s of
        (Inl e, s') \<Rightarrow> (Inl e, s')
      | (Inr _, s') \<Rightarrow> advance_loop current model read remaining s')"

definition session_advance ::
  "timeline_head \<Rightarrow> ('s, 'i, 'e, 'm) model \<Rightarrow> ('i, 'x) input_store \<Rightarrow> u64 \<Rightarrow> ('s, 'e) replay_session \<Rightarrow>
     (('m, 'x) replay_error + replay_phase) \<times> ('s, 'e) replay_session" where
  "session_advance current model read max_steps s =
     (if rs_phase s = PhaseAborted then (Inl (ReplayTimeline InvalidPhase), s)
      else let s1 = s\<lparr>rs_phase := PhaseAborted\<rparr> in
        case plan_check_head (rs_plan s) current of
          Inl e \<Rightarrow> (Inl (ReplayTimeline e), s1)
        | Inr _ \<Rightarrow>
            (case advance_loop current model read (unat max_steps) s1 of
               (Inl e, s2) \<Rightarrow> (Inl e, s2)
             | (Inr _, s2) \<Rightarrow>
                 let phase = (if rs_cursor s2 = length (pl_inputs (rs_plan s2)) then ReadyToValidate else Replaying)
                 in (Inr phase, s2\<lparr>rs_phase := phase\<rparr>)))"

definition session_validate ::
  "timeline_head \<Rightarrow> 's validator \<Rightarrow> ('s, 'e) replay_session \<Rightarrow> timeline_error + ('s, 'e) ready_candidate" where
  "session_validate current validator s =
     (if rs_phase s \<noteq> ReadyToValidate then Inl InvalidPhase
      else bindR (plan_check_head (rs_plan s) current) (\<lambda>_.
           bindR (proposed_head (rs_reservation s)) (\<lambda>proposed.
           bindR (validator (rs_state s) proposed) (\<lambda>_.
             Inr \<lparr> rc_reservation = rs_reservation s, rc_replace_from = corrected_step (rs_plan s),
                   rc_state = rs_state s, rc_effects = rs_effects s \<rparr>))))"

definition session_abort :: "('s, 'e) replay_session \<Rightarrow> ('s, 'e) replay_session" where
  "session_abort s = s\<lparr>rs_phase := PhaseAborted\<rparr>"

section \<open>Live steps\<close>

record 's live_step_request =
  lr_expected :: timeline_head
  lr_anchor :: state_anchor
  lr_input :: input_record
  lr_scratch :: 's
  lr_limits :: effect_limits

record ('s, 'e) ready_step =
  rd_expected :: timeline_head
  rd_input :: input_record
  rd_state :: 's
  rd_effects :: "'e staged_effects"

datatype ('m, 'x, 'y) step_error =
    StepTimeline timeline_error | StepComputation 'm | StepInput 'x | StepSnapshot 'y

definition prepare_live_step ::
  "nat \<Rightarrow> 's live_step_request \<Rightarrow> ('s, 'i, 'e, 'm) model \<Rightarrow> ('i, 'x) input_store \<Rightarrow>
     ('s, 'y) live_snapshot_store \<Rightarrow> 's validator \<Rightarrow> ('m, 'x, 'y) step_error + ('s, 'e) ready_step" where
  "prepare_live_step capacity rq model read restore_current validator =
     bindR (map_err StepTimeline
       (tp_append (projection_of_head 0 (lr_expected rq)) (lr_expected rq) (lr_input rq))) (\<lambda>(head, _).
     if sa_scope (lr_anchor rq) \<noteq> th_scope (lr_expected rq) \<or> sa_branch (lr_anchor rq) \<noteq> th_branch (lr_expected rq)
     then Inl (StepTimeline TlScopeMismatch)
     else if sa_step (lr_anchor rq) \<noteq> th_step (lr_expected rq) then Inl (StepTimeline HistoryUnavailable)
     else bindR (map_err StepSnapshot (restore_current (lr_expected rq) (lr_anchor rq) (lr_scratch rq)))
       (\<lambda>(restored, scratch).
       if restored \<noteq> lr_anchor rq then Inl (StepTimeline InputMismatch)
       else bindR (map_err StepInput (read (lr_input rq))) (\<lambda>(bound, value).
         if bound \<noteq> lr_input rq then Inl (StepTimeline InputMismatch)
         else let ctx = \<lparr> sc_revision = th_revision head, sc_scope = th_scope (lr_expected rq),
                    sc_branch = th_branch (lr_expected rq), sc_step = ir_step (lr_input rq) \<rparr>
              in case run_computation (model scratch value ctx) (fx_sink (fx_new capacity (lr_limits rq)) ctx) of
                   (res, state, sk) \<Rightarrow>
                     bindR (map_err StepComputation res) (\<lambda>_.
                       if sk_poisoned sk then Inl (StepTimeline Capacity)
                       else bindR (map_err StepTimeline (validator state head)) (\<lambda>_.
                         Inr \<lparr> rd_expected = lr_expected rq, rd_input = lr_input rq, rd_state = state,
                               rd_effects = sk_effects sk \<rparr>)))))"

section \<open>The live timeline\<close>

record ('s, 'e) live_timeline =
  lv_projection :: timeline_projection
  lv_state :: 's
  lv_effects :: "'e staged_effects"

definition live_new :: "nat \<Rightarrow> nat \<Rightarrow> timeline_head \<Rightarrow> 's \<Rightarrow> effect_limits \<Rightarrow> ('s, 'e) live_timeline" where
  "live_new sessions capacity head s limits =
     \<lparr> lv_projection = projection_of_head sessions head, lv_state = s, lv_effects = fx_new capacity limits \<rparr>"

definition live_read :: "('s, 'e) live_timeline \<Rightarrow> timeline_head \<times> 's" where
  "live_read lv = (tp_head (lv_projection lv), lv_state lv)"

definition live_reserve ::
  "('s, 'e) live_timeline \<Rightarrow> replay_plan \<Rightarrow> authority_observation \<Rightarrow>
     timeline_error + (branch_reservation \<times> ('s, 'e) live_timeline)" where
  "live_reserve lv pl obs =
     bindR (tp_reserve (lv_projection lv) pl obs) (\<lambda>(r, p). Inr (r, lv\<lparr>lv_projection := p\<rparr>))"

definition live_abort ::
  "('s, 'e) live_timeline \<Rightarrow> branch_reservation \<Rightarrow> timeline_error + ('s, 'e) live_timeline" where
  "live_abort lv r = bindR (tp_abort (lv_projection lv) r) (\<lambda>p. Inr (lv\<lparr>lv_projection := p\<rparr>))"

definition live_observe ::
  "('s, 'e) live_timeline \<Rightarrow> timeline_head \<Rightarrow> authority_observation \<Rightarrow>
     timeline_error + (timeline_head \<times> ('s, 'e) live_timeline)" where
  "live_observe lv expected obs =
     bindR (tp_observe (lv_projection lv) expected obs) (\<lambda>(h, p). Inr (h, lv\<lparr>lv_projection := p\<rparr>))"

definition live_finalize_effects ::
  "('s, 'e) live_timeline \<Rightarrow> timeline_head \<Rightarrow> timeline_step \<Rightarrow>
     timeline_error + (timeline_head \<times> ('s, 'e) live_timeline)" where
  "live_finalize_effects lv expected through =
     bindR (tp_finalize_effects (lv_projection lv) expected through) (\<lambda>(h, p). Inr (h, lv\<lparr>lv_projection := p\<rparr>))"

text \<open>\<open>if let Some(slot) = vacant.next() { *slot = old.take() }\<close> for each old slot in turn.\<close>

fun move_into :: "'a option list \<Rightarrow> 'a option list \<Rightarrow> 'a option list" where
  "move_into [] olds = []"
| "move_into vacant [] = vacant"
| "move_into (v # vacant) (old # olds) = old # move_into vacant olds"

text \<open>The surviving effects of a promotion: their count and bytes, checked against the candidate's.\<close>

fun merge_survivors ::
  "'e staged_effects \<Rightarrow> nat \<Rightarrow> u64 \<Rightarrow> 'e staged_effect list \<Rightarrow> timeline_error + (nat \<times> u64)" where
  "merge_survivors new count bytes [] = Inr (count, bytes)"
| "merge_survivors new count bytes (e # es) =
     bindR (ok_or Capacity (checked_add bytes (effect_bytes e))) (\<lambda>bytes'.
       if list_ex (\<lambda>n. effect_identity n = effect_identity e) (fx_iter new) then Inl InputMismatch
       else merge_survivors new (count + 1) bytes' es)"

definition live_promote ::
  "('s, 'e) live_timeline \<Rightarrow> ('s, 'e) ready_candidate \<Rightarrow> timeline_error + (timeline_head \<times> ('s, 'e) live_timeline)" where
  "live_promote lv c =
     bindR (promotion_head (lv_projection lv) (rc_reservation c)) (\<lambda>_.
     let old = lv_effects lv; new = rc_effects c in
     bindR (merge_survivors new (fx_len new) (fx_bytes new)
              (filter (\<lambda>e. effect_step e < rc_replace_from c) (fx_iter old))) (\<lambda>(count, bytes).
       if length (fx_slots new) < count \<or> el_max_intents (fx_limits old) < count
          \<or> el_max_payload_bytes (fx_limits old) < bytes
       then Inl Capacity
       else bindR (tp_promote (lv_projection lv) (rc_reservation c)) (\<lambda>(head, p).
         let survivors = filter (\<lambda>slot. case slot of None \<Rightarrow> False | Some e \<Rightarrow> effect_step e < rc_replace_from c)
                           (take (fx_len old) (fx_slots old));
             slots = take (fx_len new) (fx_slots new) @ move_into (drop (fx_len new) (fx_slots new)) survivors
         in Inr (head, \<lparr> lv_projection = p, lv_state = rc_state c,
                   lv_effects = \<lparr> fx_slots = slots, fx_len = count, fx_bytes = bytes, fx_limits = fx_limits old \<rparr> \<rparr>))))"

definition live_append ::
  "('s, 'e) live_timeline \<Rightarrow> ('s, 'e) ready_step \<Rightarrow> timeline_error + (timeline_head \<times> ('s, 'e) live_timeline)" where
  "live_append lv st =
     (let old = lv_effects lv; new = rd_effects st; count = fx_len old + fx_len new in
      bindR (ok_or Capacity (checked_add (fx_bytes old) (fx_bytes new))) (\<lambda>bytes.
        if length (fx_slots new) < count \<or> el_max_intents (fx_limits old) < count
           \<or> el_max_payload_bytes (fx_limits old) < bytes
        then Inl Capacity
        else if list_ex (\<lambda>e. list_ex (\<lambda>n. effect_identity n = effect_identity e) (fx_iter new)) (fx_iter old)
        then Inl InputMismatch
        else bindR (tp_append (lv_projection lv) (rd_expected st) (rd_input st)) (\<lambda>(head, p).
          let slots = take (fx_len new) (fx_slots new)
                @ move_into (drop (fx_len new) (fx_slots new)) (take (fx_len old) (fx_slots old))
          in Inr (head, \<lparr> lv_projection = p, lv_state = rd_state st,
                    lv_effects = \<lparr> fx_slots = slots, fx_len = count, fx_bytes = bytes, fx_limits = fx_limits old \<rparr> \<rparr>))))"

definition eligible_effects :: "('s, 'e) live_timeline \<Rightarrow> 'e staged_effect list" where
  "eligible_effects lv =
     filter (\<lambda>e. finalized_through (th_effect_finalized (tp_head (lv_projection lv))) (effect_step e))
       (fx_iter (lv_effects lv))"

section \<open>Handoff\<close>

record effect_admission_receipt =
  rx_descriptor :: effect_descriptor
  rx_durable_commit :: digest

datatype 'x handoff_error = HandoffTimeline timeline_error | HandoffStore 'x

type_synonym ('h, 'e, 'x) handoff_adapter = "'h \<Rightarrow> 'e staged_effect \<Rightarrow> ('x + effect_admission_receipt) \<times> 'h"

text \<open>Submission order: logical step, then identity bytes.\<close>

definition handoff_key :: "'e staged_effect \<Rightarrow> u64 \<times> byte list" where
  "handoff_key e = (effect_step e, digest_bytes (effect_identity e))"

definition is_eligible :: "timeline_step option \<Rightarrow> 'e staged_effect option \<Rightarrow> bool" where
  "is_eligible frontier slot =
     (case slot of None \<Rightarrow> False | Some e \<Rightarrow> finalized_through frontier (effect_step e))"

text \<open>\<open>sort_unstable_by_key(Reverse(..))\<close> on the occupied prefix.\<close>

definition sort_prefix :: "'e staged_effects \<Rightarrow> 'e staged_effects" where
  "sort_prefix fx =
     fx\<lparr>fx_slots := rev (sort_key (map_option handoff_key) (take (fx_len fx) (fx_slots fx)))
                    @ drop (fx_len fx) (fx_slots fx)\<rparr>"

text \<open>\<open>min_by_key\<close> over the eligible slots: the first of the least.\<close>

definition scan_index :: "timeline_step option \<Rightarrow> 'e staged_effects \<Rightarrow> nat option" where
  "scan_index frontier fx =
     (let eligible = filter (\<lambda>i. is_eligible frontier (fx_slots fx ! i)) [0..<min (fx_len fx) (length (fx_slots fx))]
      in if eligible = [] then None
         else Some (arg_min_list (\<lambda>i. map_option handoff_key (fx_slots fx ! i)) eligible))"

definition tail_index :: "timeline_step option \<Rightarrow> 'e staged_effects \<Rightarrow> nat option" where
  "tail_index frontier fx =
     (if fx_len fx = 0 then None
      else let i = fx_len fx - 1 in
        if i < length (fx_slots fx) \<and> is_eligible frontier (fx_slots fx ! i) then Some i else None)"

definition swap_slots :: "'a list \<Rightarrow> nat \<Rightarrow> nat \<Rightarrow> 'a list" where
  "swap_slots xs i j = xs[i := xs ! j, j := xs ! i]"

text \<open>One admission: submit, check the receipt, retire the slot.\<close>

definition handoff_one ::
  "('h, 'e, 'x) handoff_adapter \<Rightarrow> nat \<Rightarrow> 'h \<Rightarrow> 'e staged_effects \<Rightarrow>
     ('x handoff_error + unit) \<times> 'h \<times> 'e staged_effects" where
  "handoff_one submit i h fx =
     (if length (fx_slots fx) \<le> i then (Inl (HandoffTimeline Capacity), h, fx)
      else case fx_slots fx ! i of
        None \<Rightarrow> (Inl (HandoffTimeline Capacity), h, fx)
      | Some e \<Rightarrow>
          (case submit h e of
             (Inl x, h') \<Rightarrow> (Inl (HandoffStore x), h', fx)
           | (Inr receipt, h') \<Rightarrow>
               if rx_descriptor receipt \<noteq> se_descriptor e then (Inl (HandoffTimeline InputMismatch), h', fx)
               else if fx_len fx = 0 then (Inl (HandoffTimeline Capacity), h', fx)
               else case checked_sub (fx_bytes fx) (effect_bytes e) of
                 None \<Rightarrow> (Inl (HandoffTimeline Capacity), h', fx)
               | Some bytes \<Rightarrow>
                   let len = fx_len fx - 1 in
                   (Inr (), h', fx\<lparr>fx_slots := (swap_slots (fx_slots fx) i len)[len := None],
                                  fx_len := len, fx_bytes := bytes\<rparr>)))"

text \<open>\<open>while admitted < max_intents\<close>, with the number of intents left to admit.\<close>

primrec handoff_loop ::
  "('h, 'e, 'x) handoff_adapter \<Rightarrow> timeline_step option \<Rightarrow> bool \<Rightarrow> nat \<Rightarrow> nat \<Rightarrow> 'h \<Rightarrow> 'e staged_effects \<Rightarrow>
     ('x handoff_error + nat) \<times> 'h \<times> 'e staged_effects" where
  "handoff_loop submit frontier ordered 0 admitted h fx = (Inr admitted, h, fx)"
| "handoff_loop submit frontier ordered (Suc left) admitted h fx =
     (case (if ordered then tail_index frontier fx else scan_index frontier fx) of
        None \<Rightarrow> (Inr admitted, h, fx)
      | Some i \<Rightarrow>
          (case handoff_one submit i h fx of
             (Inl e, h', fx') \<Rightarrow> (Inl e, h', fx')
           | (Inr _, h', fx') \<Rightarrow> handoff_loop submit frontier ordered left (admitted + 1) h' fx'))"

definition live_handoff ::
  "('h, 'e, 'x) handoff_adapter \<Rightarrow> nat \<Rightarrow> 'h \<Rightarrow> ('s, 'e) live_timeline \<Rightarrow>
     ('x handoff_error + nat) \<times> 'h \<times> ('s, 'e) live_timeline" where
  "live_handoff submit max_intents h lv =
     (let frontier = th_effect_finalized (tp_head (lv_projection lv)); fx = lv_effects lv in
      if max_intents = 0 \<or> frontier = None \<or> fx_len fx = 0 then (Inr 0, h, lv)
      else let ordered = 8 \<le> max_intents
                 \<and> length (take 8 (filter (\<lambda>e. finalized_through frontier (effect_step e)) (fx_iter fx))) = 8
        in if ordered \<and> length (fx_slots fx) < fx_len fx then (Inl (HandoffTimeline Capacity), h, lv)
           else case handoff_loop submit frontier ordered max_intents 0 h (if ordered then sort_prefix fx else fx) of
                  (res, h', fx') \<Rightarrow> (res, h', lv\<lparr>lv_effects := fx'\<rparr>))"

end
