(* ===== verification/Timeline_Live_Effects.thy ===== *)
theory Timeline_Live_Effects
  imports Timeline_Live "HOL-Library.Multiset"
begin

text \<open>
  The effect buffer refines a list of effects: the occupied slots are a dense prefix, the byte
  counter is the sum of the charges, identities are distinct and the limits hold. Staging,
  promotion, appending and handoff are described on that list; the handoff, which either sorts
  the prefix once or scans for the least eligible slot, submits the eligible effects in order of
  logical step and identity.
\<close>

section \<open>The buffer as a list\<close>

definition charges :: "'e staged_effect list \<Rightarrow> nat" where
  "charges es = sum_list (map (\<lambda>e. unat (effect_bytes e)) es)"

definition fx_holds :: "'e staged_effects \<Rightarrow> 'e staged_effect list \<Rightarrow> bool" where
  "fx_holds fx es \<longleftrightarrow>
     (\<exists>k. fx_slots fx = map Some es @ replicate k None) \<and> fx_len fx = length es
     \<and> unat (fx_bytes fx) = charges es \<and> distinct (map effect_identity es)
     \<and> length es \<le> el_max_intents (fx_limits fx) \<and> fx_bytes fx \<le> el_max_payload_bytes (fx_limits fx)"

lemma charges_simps [simp]:
  "charges [] = 0" "charges (e # es) = unat (effect_bytes e) + charges es" "charges (xs @ ys) = charges xs + charges ys"
  by (simp_all add: charges_def)

lemma charges_mset: "charges es = sum_mset (image_mset (\<lambda>e. unat (effect_bytes e)) (mset es))"
  by (simp add: charges_def flip: sum_mset_sum_list)

lemma somes_simps [simp]: "somes [] = []" "somes (None # xs) = somes xs" "somes (Some x # xs) = x # somes xs"
  by (simp_all add: somes_def)

lemma somes_map_Some [simp]: "somes (map Some xs) = xs"
  by (induction xs) simp_all

lemma fx_iter_holds: "fx_holds fx es \<Longrightarrow> fx_iter fx = es"
  by (auto simp: fx_holds_def fx_iter_def)

lemma fx_holds_new: "fx_holds (fx_new capacity limits) []"
  by (simp add: fx_holds_def fx_new_def)

lemma fx_holds_len: "fx_holds fx es \<Longrightarrow> fx_len fx = length es \<and> length es \<le> length (fx_slots fx)"
  by (auto simp: fx_holds_def)

lemma fx_holds_nth: "fx_holds fx es \<Longrightarrow> i < length es \<Longrightarrow> fx_slots fx ! i = Some (es ! i)"
  by (auto simp: fx_holds_def nth_append)

lemma fx_push_holds:
  assumes holds: "fx_holds fx es" and push: "fx_push fx e = Inr fx'"
  shows "fx_holds fx' (es @ [e])" "length (fx_slots fx') = length (fx_slots fx)" "fx_limits fx' = fx_limits fx"
proof -
  obtain k where slots: "fx_slots fx = map Some es @ replicate k None" and len: "fx_len fx = length es"
    using holds by (auto simp: fx_holds_def)
  obtain bytes where b: "length es < el_max_intents (fx_limits fx)" "length es < length (fx_slots fx)"
    "\<forall>old\<in>set es. effect_identity old \<noteq> effect_identity e"
    "unat bytes = unat (fx_bytes fx) + unat (effect_bytes e)" "bytes \<le> el_max_payload_bytes (fx_limits fx)"
    "fx' = fx\<lparr>fx_slots := (fx_slots fx)[length es := Some e], fx_bytes := bytes, fx_len := length es + 1\<rparr>"
    using push fx_iter_holds [OF holds] len
    by (auto simp: fx_push_def list_ex_iff result_simps not_less split: if_splits)
  obtain k' where "k = Suc k'" using slots b(2) by (cases k) auto
  then have "(fx_slots fx)[length es := Some e] = map Some (es @ [e]) @ replicate k' None"
    using slots by (simp add: list_update_append)
  then show "fx_holds fx' (es @ [e])" using holds b by (auto simp: fx_holds_def)
  show "length (fx_slots fx') = length (fx_slots fx)" "fx_limits fx' = fx_limits fx" using b(6) by simp_all
qed

lemma run_computation_holds:
  assumes "fx_holds (sk_effects sk) es" and "run_computation c sk = (res, s, sk')"
  shows "\<exists>new. fx_holds (sk_effects sk') (es @ new) \<and> (\<forall>e\<in>set new. ed_origin (se_descriptor e) = sk_origin sk)
    \<and> length (fx_slots (sk_effects sk')) = length (fx_slots (sk_effects sk))
    \<and> fx_limits (sk_effects sk') = fx_limits (sk_effects sk)"
  using assms
proof (induction c arbitrary: sk es)
  case (Finish r s')
  then show ?case by (auto intro!: exI [of _ "[]"])
next
  case (Stage i d b p k)
  let ?e = "\<lparr> se_descriptor = \<lparr> ed_origin = sk_origin sk, ed_identity = i, ed_digest = d,
                ed_payload_bytes = b \<rparr>, se_payload = p \<rparr>"
  show ?case
  proof (cases "fx_push (sk_effects sk) ?e")
    case (Inl err)
    then have "sink_stage i d b p sk = (Inl err, sk\<lparr>sk_poisoned := True\<rparr>)"
      by (simp add: sink_stage_def Let_def)
    then show ?thesis
      using Stage.IH [of "k (Inl err)" "sk\<lparr>sk_poisoned := True\<rparr>" es] Stage.prems by simp
  next
    case (Inr fx)
    note pushed = fx_push_holds [OF Stage.prems(1) Inr]
    have "sink_stage i d b p sk = (Inr (), sk\<lparr>sk_effects := fx\<rparr>)"
      using Inr by (simp add: sink_stage_def Let_def)
    then obtain new where "fx_holds (sk_effects sk') ((es @ [?e]) @ new)"
      "\<forall>e\<in>set new. ed_origin (se_descriptor e) = sk_origin sk"
      "length (fx_slots (sk_effects sk')) = length (fx_slots fx)" "fx_limits (sk_effects sk') = fx_limits fx"
      using Stage.IH [of "k (Inr ())" "sk\<lparr>sk_effects := fx\<rparr>" "es @ [?e]"] Stage.prems pushed(1) by auto
    then show ?thesis using pushed(2,3) by (intro exI [of _ "?e # new"]) auto
  qed
qed

section \<open>Merging buffers\<close>

lemma move_into_fits:
  "length olds \<le> k \<Longrightarrow> move_into (replicate k None) olds = olds @ replicate (k - length olds) None"
proof (induction olds arbitrary: k)
  case Nil
  then show ?case by (cases k) auto
next
  case (Cons x olds)
  then show ?case by (cases k) auto
qed

lemma merged_slots:
  assumes "fx_slots new = map Some ns @ replicate k None" "fx_len new = length ns"
    and "length ns + length es \<le> length (fx_slots new)"
  shows "\<exists>k'. take (fx_len new) (fx_slots new) @ move_into (drop (fx_len new) (fx_slots new)) (map Some es)
    = map Some (ns @ es) @ replicate k' None"
  using assms by (auto simp: move_into_fits)

lemma merge_survivors_Inr:
  "merge_survivors new n bytes es = Inr (n', bytes') \<Longrightarrow>
     n' = n + length es \<and> unat bytes' = unat bytes + charges es
     \<and> (\<forall>e\<in>set es. \<forall>n\<in>set (fx_iter new). effect_identity n \<noteq> effect_identity e)"
proof (induction es arbitrary: n bytes)
  case (Cons e es)
  then obtain b where "unat b = unat bytes + unat (effect_bytes e)"
    "\<forall>m\<in>set (fx_iter new). effect_identity m \<noteq> effect_identity e" "merge_survivors new (n + 1) b es = Inr (n', bytes')"
    by (auto simp: result_simps list_ex_iff split: if_splits)
  then show ?case using Cons.IH [of "n + 1" b] by simp
qed simp

lemma filter_Some:
  "filter (\<lambda>slot. case slot of None \<Rightarrow> False | Some e \<Rightarrow> P e) (map Some es) = map Some (filter P es)"
  by (induction es) simp_all

lemma promote_holds:
  assumes prom: "live_promote lv c = Inr (head, lv')"
    and old: "fx_holds (lv_effects lv) es" and new: "fx_holds (rc_effects c) ns"
  shows "fx_holds (lv_effects lv') (ns @ filter (\<lambda>e. effect_step e < rc_replace_from c) es)"
    "lv_state lv' = rc_state c" "tp_promote (lv_projection lv) (rc_reservation c) = Inr (head, lv_projection lv')"
    "length (fx_slots (lv_effects lv')) = length (fx_slots (rc_effects c))"
    "fx_limits (lv_effects lv') = fx_limits (lv_effects lv)"
proof -
  let ?keep = "filter (\<lambda>e. effect_step e < rc_replace_from c) es"
  obtain k where ns: "fx_slots (rc_effects c) = map Some ns @ replicate k None" "fx_len (rc_effects c) = length ns"
    using new by (auto simp: fx_holds_def)
  obtain k0 where es: "fx_slots (lv_effects lv) = map Some es @ replicate k0 None" "fx_len (lv_effects lv) = length es"
    using old by (auto simp: fx_holds_def)
  obtain bytes p where m: "merge_survivors (rc_effects c) (fx_len (rc_effects c)) (fx_bytes (rc_effects c)) ?keep
        = Inr (length ns + length ?keep, bytes)"
    and fits: "length ns + length ?keep \<le> length (fx_slots (rc_effects c))"
      "length ns + length ?keep \<le> el_max_intents (fx_limits (lv_effects lv))"
      "bytes \<le> el_max_payload_bytes (fx_limits (lv_effects lv))"
    and p: "tp_promote (lv_projection lv) (rc_reservation c) = Inr (head, p)"
    and lv': "lv' = \<lparr> lv_projection = p, lv_state = rc_state c,
        lv_effects = \<lparr> fx_slots = take (length ns) (fx_slots (rc_effects c))
            @ move_into (drop (length ns) (fx_slots (rc_effects c))) (map Some ?keep),
          fx_len = length ns + length ?keep, fx_bytes = bytes, fx_limits = fx_limits (lv_effects lv) \<rparr> \<rparr>"
    using prom ns(2) es merge_survivors_Inr
    by (fastforce simp: live_promote_def Let_def result_simps not_less fx_iter_holds [OF old] filter_Some
        split: if_splits prod.splits)
  obtain k' where slots: "fx_slots (lv_effects lv') = map Some (ns @ ?keep) @ replicate k' None"
    using merged_slots [OF ns fits(1)] ns(2) lv' by auto
  have "unat bytes = charges (ns @ ?keep)" "\<forall>e\<in>set ?keep. \<forall>n\<in>set ns. effect_identity n \<noteq> effect_identity e"
    using merge_survivors_Inr [OF m] new fx_iter_holds [OF new] by (auto simp: fx_holds_def)
  moreover have "distinct (map effect_identity ns)" "distinct (map effect_identity ?keep)"
    using new old by (auto simp: fx_holds_def distinct_map_filter)
  ultimately show "fx_holds (lv_effects lv') (ns @ ?keep)"
    unfolding fx_holds_def using slots fits lv' by (auto 4 3)
  show "lv_state lv' = rc_state c" "tp_promote (lv_projection lv) (rc_reservation c) = Inr (head, lv_projection lv')"
    "fx_limits (lv_effects lv') = fx_limits (lv_effects lv)" using lv' p by simp_all
  show "length (fx_slots (lv_effects lv')) = length (fx_slots (rc_effects c))"
    using lv' ns fits(1) by (auto simp: move_into_fits)
qed

lemma append_holds:
  assumes app: "live_append lv st = Inr (head, lv')"
    and old: "fx_holds (lv_effects lv) es" and new: "fx_holds (rd_effects st) ns"
  shows "fx_holds (lv_effects lv') (ns @ es)"
    "lv_state lv' = rd_state st" "tp_append (lv_projection lv) (rd_expected st) (rd_input st) = Inr (head, lv_projection lv')"
    "length (fx_slots (lv_effects lv')) = length (fx_slots (rd_effects st))"
    "fx_limits (lv_effects lv') = fx_limits (lv_effects lv)"
proof -
  obtain k where ns: "fx_slots (rd_effects st) = map Some ns @ replicate k None" "fx_len (rd_effects st) = length ns"
    using new by (auto simp: fx_holds_def)
  obtain k0 where es: "fx_slots (lv_effects lv) = map Some es @ replicate k0 None" "fx_len (lv_effects lv) = length es"
    using old by (auto simp: fx_holds_def)
  obtain bytes p where bytes: "unat bytes = unat (fx_bytes (lv_effects lv)) + unat (fx_bytes (rd_effects st))"
    and fits: "length ns + length es \<le> length (fx_slots (rd_effects st))"
      "length ns + length es \<le> el_max_intents (fx_limits (lv_effects lv))"
      "bytes \<le> el_max_payload_bytes (fx_limits (lv_effects lv))"
    and fresh: "\<forall>e\<in>set es. \<forall>n\<in>set ns. effect_identity n \<noteq> effect_identity e"
    and p: "tp_append (lv_projection lv) (rd_expected st) (rd_input st) = Inr (head, p)"
    and lv': "lv' = \<lparr> lv_projection = p, lv_state = rd_state st,
        lv_effects = \<lparr> fx_slots = take (length ns) (fx_slots (rd_effects st))
            @ move_into (drop (length ns) (fx_slots (rd_effects st))) (map Some es),
          fx_len = length es + length ns, fx_bytes = bytes, fx_limits = fx_limits (lv_effects lv) \<rparr> \<rparr>"
    using app ns(2) es fx_iter_holds [OF old] fx_iter_holds [OF new]
    by (fastforce simp: live_append_def Let_def result_simps not_less list_ex_iff add.commute split: if_splits prod.splits)
  obtain k' where slots: "fx_slots (lv_effects lv') = map Some (ns @ es) @ replicate k' None"
    using merged_slots [OF ns fits(1)] ns(2) lv' by auto
  moreover have "unat bytes = charges (ns @ es)" "distinct (map effect_identity (ns @ es))"
    using bytes new old fresh by (auto simp: fx_holds_def)
  ultimately show "fx_holds (lv_effects lv') (ns @ es)"
    unfolding fx_holds_def using fits lv' by auto
  show "lv_state lv' = rd_state st" "tp_append (lv_projection lv) (rd_expected st) (rd_input st) = Inr (head, lv_projection lv')"
    "fx_limits (lv_effects lv') = fx_limits (lv_effects lv)" using lv' p by simp_all
  show "length (fx_slots (lv_effects lv')) = length (fx_slots (rd_effects st))"
    using lv' ns fits(1) by (auto simp: move_into_fits)
qed

section \<open>Handoff\<close>

text \<open>The reference: submit the effects in the given order, stopping at the first refusal.\<close>

fun submit_all ::
  "('h, 'e, 'x) handoff_adapter \<Rightarrow> nat \<Rightarrow> nat \<Rightarrow> 'h \<Rightarrow> 'e staged_effect list \<Rightarrow>
     ('x handoff_error + nat) \<times> 'h \<times> 'e staged_effect list" where
  "submit_all submit 0 admitted h es = (Inr admitted, h, es)"
| "submit_all submit (Suc n) admitted h [] = (Inr admitted, h, [])"
| "submit_all submit (Suc n) admitted h (e # es) =
     (case submit h e of
        (Inl x, h') \<Rightarrow> (Inl (HandoffStore x), h', e # es)
      | (Inr receipt, h') \<Rightarrow>
          if rx_descriptor receipt \<noteq> se_descriptor e then (Inl (HandoffTimeline InputMismatch), h', e # es)
          else submit_all submit n (admitted + 1) h' es)"

lemma submit_all_rest: "submit_all submit n admitted h es = (res, h', rest) \<Longrightarrow> set rest \<subseteq> set es"
  by (induction submit n admitted h es rule: submit_all.induct) (auto split: prod.splits sum.splits if_splits)

lemma handoff_key_inj: "distinct (map effect_identity es) \<Longrightarrow> inj_on handoff_key (set es)"
  by (auto simp: inj_on_def handoff_key_def digest_bytes_inject distinct_map dest: inj_onD)

text \<open>Retiring slot \<open>i\<close> removes one effect and keeps the prefix dense.\<close>

definition without :: "'a list \<Rightarrow> nat \<Rightarrow> 'a list" where
  "without es i = butlast (es[i := last es])"

lemma without_last: "es \<noteq> [] \<Longrightarrow> without es (length es - 1) = butlast es"
  by (cases es rule: rev_cases) (simp_all add: without_def)

lemma mset_without: "i < length es \<Longrightarrow> mset es = add_mset (es ! i) (mset (without es i))"
proof (cases es rule: rev_cases)
  case (snoc xs x)
  assume "i < length es"
  then show ?thesis using snoc
    by (cases "i = length xs") (auto simp: without_def nth_append list_update_append butlast_append mset_update)
qed simp

lemma retired_slots:
  assumes "i < length es"
  shows "(swap_slots (map Some es @ replicate k None) i (length es - 1))[length es - 1 := None]
    = map Some (without es i) @ replicate (Suc k) None"
proof (cases es rule: rev_cases)
  case (snoc xs x)
  then show ?thesis using assms
    by (cases "i = length xs")
       (auto simp: swap_slots_def without_def nth_append list_update_append map_update)
qed (use assms in simp)

lemma handoff_one_holds:
  assumes holds: "fx_holds fx es" and i: "i < length es"
  shows "case submit h (es ! i) of
      (Inl x, h') \<Rightarrow> handoff_one submit i h fx = (Inl (HandoffStore x), h', fx)
    | (Inr receipt, h') \<Rightarrow>
        if rx_descriptor receipt \<noteq> se_descriptor (es ! i)
        then handoff_one submit i h fx = (Inl (HandoffTimeline InputMismatch), h', fx)
        else \<exists>fx'. handoff_one submit i h fx = (Inr (), h', fx') \<and> fx_holds fx' (without es i)
          \<and> length (fx_slots fx') = length (fx_slots fx) \<and> fx_limits fx' = fx_limits fx"
proof -
  obtain k where slots: "fx_slots fx = map Some es @ replicate k None" "fx_len fx = length es"
    using holds by (auto simp: fx_holds_def)
  have nth: "fx_slots fx ! i = Some (es ! i)" "i < length (fx_slots fx)"
    using fx_holds_nth [OF holds i] i slots by auto
  have ms: "mset es = add_mset (es ! i) (mset (without es i))" by (rule mset_without [OF i])
  then have ch: "charges es = unat (effect_bytes (es ! i)) + charges (without es i)"
    by (simp add: charges_mset)
  moreover obtain bytes where bytes: "checked_sub (fx_bytes fx) (effect_bytes (es ! i)) = Some bytes"
    using holds ch by (cases "checked_sub (fx_bytes fx) (effect_bytes (es ! i))") (auto simp: fx_holds_def result_simps)
  ultimately have "unat bytes = charges (without es i)"
    using holds by (auto simp: fx_holds_def result_simps)
  moreover have "unat bytes \<le> unat (fx_bytes fx)" using bytes by (simp add: result_simps)
  moreover have "distinct (map effect_identity (without es i))"
    using holds ms mset_eq_imp_distinct_iff [of "map effect_identity es" "map effect_identity (es ! i # without es i)"]
    by (auto simp: fx_holds_def)
  moreover have "length es = Suc (length (without es i))" using arg_cong [OF ms, of size] by simp
  ultimately have "fx_holds (fx\<lparr>fx_slots := (swap_slots (fx_slots fx) i (length es - 1))[length es - 1 := None],
      fx_len := length es - 1, fx_bytes := bytes\<rparr>) (without es i)"
    using holds retired_slots [OF i, of k] slots(1) unfolding fx_holds_def
    by (auto simp: word_le_nat_alt intro: exI [of _ "Suc k"])
  then show ?thesis
    using nth slots(2) bytes i
    by (auto simp: handoff_one_def Let_def swap_slots_def split: sum.splits prod.splits)
qed

text \<open>Both ways to choose the next slot yield the least eligible effect.\<close>

definition eligible :: "timeline_step option \<Rightarrow> 'e staged_effect \<Rightarrow> bool" where
  "eligible frontier e = finalized_through frontier (effect_step e)"

definition chooses_least :: "timeline_step option \<Rightarrow> 'e staged_effect list \<Rightarrow> nat option \<Rightarrow> bool" where
  "chooses_least frontier es sel \<longleftrightarrow>
     (case sel of
        None \<Rightarrow> filter (eligible frontier) es = []
      | Some i \<Rightarrow> i < length es \<and> eligible frontier (es ! i)
          \<and> (\<forall>e\<in>set es. eligible frontier e \<longrightarrow> handoff_key (es ! i) \<le> handoff_key e))"

lemma is_eligible_nth:
  "fx_holds fx es \<Longrightarrow> i < length es \<Longrightarrow> is_eligible frontier (fx_slots fx ! i) = eligible frontier (es ! i)"
  by (simp add: fx_holds_nth is_eligible_def eligible_def)

lemma scan_chooses_least:
  assumes holds: "fx_holds fx es"
  shows "chooses_least frontier es (scan_index frontier fx)"
proof -
  let ?el = "filter (\<lambda>i. is_eligible frontier (fx_slots fx ! i)) [0..<min (fx_len fx) (length (fx_slots fx))]"
  let ?f = "\<lambda>i. map_option handoff_key (fx_slots fx ! i)"
  have el: "set ?el = {i. i < length es \<and> eligible frontier (es ! i)}"
    using fx_holds_len [OF holds] is_eligible_nth [OF holds] by auto
  show ?thesis
  proof (cases "?el = []")
    case True
    then have "\<forall>i < length es. \<not> eligible frontier (es ! i)" using el by auto
    then show ?thesis
      unfolding scan_index_def Let_def
      using True by (simp add: chooses_least_def filter_empty_conv all_set_conv_all_nth)
  next
    case False
    define i where "i = arg_min_list ?f ?el"
    have "i \<in> set ?el" unfolding i_def by (rule arg_min_list_in [OF False])
    then have i: "i < length es" "eligible frontier (es ! i)" using el by auto
    have "?f i = Min (?f ` set ?el)" unfolding i_def by (rule f_arg_min_list_f [OF False])
    then have least: "?f i \<le> ?f j" if "j < length es" "eligible frontier (es ! j)" for j
      using el that by (simp add: Min_le)
    have "handoff_key (es ! i) \<le> handoff_key (es ! j)" if "j < length es" "eligible frontier (es ! j)" for j
      using least [OF that] fx_holds_nth [OF holds] i(1) that(1) by simp
    then show ?thesis
      using False i unfolding scan_index_def Let_def i_def [symmetric]
      by (auto simp: chooses_least_def in_set_conv_nth)
  qed
qed

lemma later_key: "handoff_key a \<le> handoff_key b \<Longrightarrow> eligible frontier b \<Longrightarrow> eligible frontier a"
  by (auto simp: handoff_key_def eligible_def finalized_through_def less_eq_prod_def split: option.splits)

lemma tail_chooses_least:
  assumes holds: "fx_holds fx es" and srt: "sorted (map handoff_key (rev es))"
  shows "chooses_least frontier es (tail_index frontier fx)"
proof (cases es rule: rev_cases)
  case Nil
  then show ?thesis using fx_holds_len [OF holds] by (simp add: tail_index_def chooses_least_def)
next
  case (snoc xs x)
  have least: "\<forall>e\<in>set es. handoff_key x \<le> handoff_key e" using srt snoc by auto
  have last: "fx_len fx - 1 = length xs" "es ! length xs = x" "length xs < length (fx_slots fx)"
    using snoc fx_holds_len [OF holds] by auto
  show ?thesis
  proof (cases "eligible frontier x")
    case True
    then have "tail_index frontier fx = Some (length xs)"
      using last is_eligible_nth [OF holds, of "length xs"] snoc fx_holds_len [OF holds]
      by (simp add: tail_index_def Let_def)
    then show ?thesis using True least last snoc by (auto simp: chooses_least_def)
  next
    case False
    then have "filter (eligible frontier) es = []" using least later_key by (auto simp: filter_empty_conv)
    moreover have "tail_index frontier fx = None"
      using False last is_eligible_nth [OF holds, of "length xs"] snoc
      by (simp add: tail_index_def Let_def)
    ultimately show ?thesis by (simp add: chooses_least_def)
  qed
qed

lemma least_comes_first:
  assumes "mset xs = add_mset m (mset ys)" "\<forall>x\<in>set xs. handoff_key m \<le> handoff_key x" "inj_on handoff_key (set xs)"
  shows "sort_key handoff_key xs = m # sort_key handoff_key ys"
proof (rule sort_key_inj_key_eq)
  show "mset xs = mset (m # sort_key handoff_key ys)" using assms(1) by simp
  have "set ys \<subseteq> set xs" using assms(1) by (metis set_mset_add_mset_insert set_mset_mset subset_insertI)
  then show "sorted (map handoff_key (m # sort_key handoff_key ys))" using assms(2) by auto
qed (rule assms(3))

lemma filter_without:
  assumes "i < length es"
  shows "mset (filter P es) = (if P (es ! i) then add_mset (es ! i) (mset (filter P (without es i)))
    else mset (filter P (without es i)))"
  using arg_cong [OF mset_without [OF assms], of "filter_mset P"] by (simp add: mset_filter)

lemma handoff_loop_refines:
  assumes "fx_holds fx es" and "ordered \<longrightarrow> sorted (map handoff_key (rev es))"
    and "handoff_loop submit frontier ordered n admitted h fx = (res, h', fx')"
  shows "\<exists>rest es'. submit_all submit n admitted h (sort_key handoff_key (filter (eligible frontier) es)) = (res, h', rest)
    \<and> fx_holds fx' es' \<and> mset es' = mset rest + mset (filter (\<lambda>e. \<not> eligible frontier e) es)
    \<and> length (fx_slots fx') = length (fx_slots fx) \<and> fx_limits fx' = fx_limits fx"
  using assms
proof (induction n arbitrary: admitted h fx es)
  case 0
  then show ?case by (auto intro!: exI [of _ es])
next
  case (Suc n)
  let ?el = "sort_key handoff_key (filter (eligible frontier) es)"
  let ?sel = "if ordered then tail_index frontier fx else scan_index frontier fx"
  have least: "chooses_least frontier es ?sel"
    using tail_chooses_least scan_chooses_least Suc.prems(1,2) by metis
  show ?case
  proof (cases ?sel)
    case None
    then have "filter (eligible frontier) es = []" using least by (simp add: chooses_least_def)
    then show ?thesis using Suc.prems None by (auto simp: filter_empty_conv intro!: exI [of _ es])
  next
    case (Some i)
    then have i: "i < length es" "eligible frontier (es ! i)"
      "\<forall>e\<in>set es. eligible frontier e \<longrightarrow> handoff_key (es ! i) \<le> handoff_key e"
      using least by (auto simp: chooses_least_def)
    have "inj_on handoff_key (set (filter (eligible frontier) es))"
      using Suc.prems(1) handoff_key_inj [of es] by (auto simp: fx_holds_def intro: inj_on_subset)
    then have el: "?el = es ! i # sort_key handoff_key (filter (eligible frontier) (without es i))"
      using least_comes_first [of "filter (eligible frontier) es" "es ! i"] filter_without [OF i(1), of "eligible frontier"]
        i(2,3) by auto
    note one = handoff_one_holds [OF Suc.prems(1) i(1), of submit h]
    obtain answer h1 where sub: "submit h (es ! i) = (answer, h1)" by (cases "submit h (es ! i)")
    have unchanged: "mset es = mset ?el + mset (filter (\<lambda>e. \<not> eligible frontier e) es)"
      using multiset_partition [of "mset es" "eligible frontier"] by (simp add: mset_filter)
    show ?thesis
    proof (cases "\<exists>receipt. answer = Inr receipt \<and> rx_descriptor receipt = se_descriptor (es ! i)")
      case False
      then show ?thesis
        using Suc.prems Some one sub el unchanged by (cases answer) (auto intro!: exI [of _ es])
    next
      case True
      then obtain fx1 where fx1: "handoff_one submit i h fx = (Inr (), h1, fx1)" "fx_holds fx1 (without es i)"
        "length (fx_slots fx1) = length (fx_slots fx)" "fx_limits fx1 = fx_limits fx"
        using one sub by auto
      have srt: "ordered \<longrightarrow> sorted (map handoff_key (rev (without es i)))"
      proof
        assume ordered
        then have "i = length es - 1" "es \<noteq> []"
          using Some fx_holds_len [OF Suc.prems(1)] i(1) by (auto simp: tail_index_def Let_def split: if_splits)
        then have "rev es = last es # rev (without es i)"
          by (metis append_butlast_last_id rev.simps(2) rev_rev_ident without_last rev_append append_Cons append_Nil rev.simps(1))
        then show "sorted (map handoff_key (rev (without es i)))"
          using Suc.prems(2) \<open>ordered\<close> by (metis list.simps(9) sorted_simps(2))
      qed
      have "handoff_loop submit frontier ordered n (admitted + 1) h1 fx1 = (res, h', fx')"
        using Suc.prems(3) Some fx1(1) by simp
      from Suc.IH [OF fx1(2) srt this]
      show ?thesis
        using el sub True fx1(3,4) filter_without [OF i(1), of "\<lambda>e. \<not> eligible frontier e"] i(2) by auto
    qed
  qed
qed

lemma sort_prefix_holds:
  assumes "fx_holds fx es"
  shows "fx_holds (sort_prefix fx) (rev (sort_key handoff_key es))"
    "length (fx_slots (sort_prefix fx)) = length (fx_slots fx)" "fx_limits (sort_prefix fx) = fx_limits fx"
proof -
  obtain k where slots: "fx_slots fx = map Some es @ replicate k None" "fx_len fx = length es"
    using assms by (auto simp: fx_holds_def)
  have "sort_key (map_option handoff_key) (map Some es) = map Some (sort_key handoff_key es)"
  proof (rule sort_key_inj_key_eq)
    show "sorted (map (map_option handoff_key) (map Some (sort_key handoff_key es)))"
      using sorted_sort_key [of handoff_key es] by (simp add: sorted_map comp_def)
    show "inj_on (map_option handoff_key) (set (map Some es))"
      using handoff_key_inj [of es] assms by (auto simp: fx_holds_def inj_on_def)
  qed simp
  then have sp: "fx_slots (sort_prefix fx) = map Some (rev (sort_key handoff_key es)) @ replicate k None"
    using slots by (simp add: sort_prefix_def rev_map)
  have ms: "mset (rev (sort_key handoff_key es)) = mset es" by simp
  have "charges (rev (sort_key handoff_key es)) = charges es" using ms by (simp add: charges_mset)
  moreover have "distinct (map effect_identity (rev (sort_key handoff_key es)))"
    using assms mset_eq_imp_distinct_iff [of "map effect_identity es" "map effect_identity (rev (sort_key handoff_key es))"]
    by (simp add: fx_holds_def)
  ultimately show "fx_holds (sort_prefix fx) (rev (sort_key handoff_key es))"
    using assms sp unfolding fx_holds_def by (auto simp: sort_prefix_def)
  show "length (fx_slots (sort_prefix fx)) = length (fx_slots fx)" "fx_limits (sort_prefix fx) = fx_limits fx"
    using sp slots(1) by (simp_all add: sort_prefix_def)
qed

lemma handoff_refines:
  assumes holds: "fx_holds (lv_effects lv) es" and run: "live_handoff submit n h lv = (res, h', lv')"
    and frontier: "frontier = th_effect_finalized (tp_head (lv_projection lv))"
  shows "\<exists>rest es'. submit_all submit n 0 h (sort_key handoff_key (filter (eligible frontier) es)) = (res, h', rest)
    \<and> fx_holds (lv_effects lv') es' \<and> mset es' = mset rest + mset (filter (\<lambda>e. \<not> eligible frontier e) es)
    \<and> lv_projection lv' = lv_projection lv \<and> lv_state lv' = lv_state lv
    \<and> length (fx_slots (lv_effects lv')) = length (fx_slots (lv_effects lv))
    \<and> fx_limits (lv_effects lv') = fx_limits (lv_effects lv)"
proof -
  let ?fx = "lv_effects lv"
  have unchanged: "mset es = mset (sort_key handoff_key (filter (eligible frontier) es))
      + mset (filter (\<lambda>e. \<not> eligible frontier e) es)"
    using multiset_partition [of "mset es" "eligible frontier"] by (simp add: mset_filter)
  show ?thesis
  proof (cases "n = 0 \<or> frontier = None \<or> fx_len ?fx = 0")
    case True
    then have "(n = 0 \<or> filter (eligible frontier) es = [])"
      using fx_holds_len [OF holds] by (auto simp: eligible_def finalized_through_def)
    then have "submit_all submit n 0 h (sort_key handoff_key (filter (eligible frontier) es))
        = (Inr 0, h, sort_key handoff_key (filter (eligible frontier) es))"
      by (cases n) auto
    moreover have "res = Inr 0" "h' = h" "lv' = lv" using run True frontier by (auto simp: live_handoff_def Let_def)
    ultimately show ?thesis using holds unchanged by auto
  next
    case False
    define ordered where "ordered \<longleftrightarrow> 8 \<le> n
      \<and> length (take 8 (filter (\<lambda>e. finalized_through frontier (effect_step e)) (fx_iter ?fx))) = 8"
    define fx1 where "fx1 = (if ordered then sort_prefix ?fx else ?fx)"
    define es1 where "es1 = (if ordered then rev (sort_key handoff_key es) else es)"
    have fits: "\<not> length (fx_slots ?fx) < fx_len ?fx" using fx_holds_len [OF holds] by simp
    have "live_handoff submit n h lv =
        (case handoff_loop submit frontier ordered n 0 h fx1 of (res, h', fx') \<Rightarrow> (res, h', lv\<lparr>lv_effects := fx'\<rparr>))"
      unfolding live_handoff_def Let_def frontier [symmetric] ordered_def [symmetric] fx1_def using False fits by auto
    then obtain fx' where loop: "handoff_loop submit frontier ordered n 0 h fx1 = (res, h', fx')"
      and lv': "lv' = lv\<lparr>lv_effects := fx'\<rparr>"
      using run by (auto split: prod.splits)
    have "fx_holds fx1 es1" "ordered \<longrightarrow> sorted (map handoff_key (rev es1))"
      using holds sort_prefix_holds(1) [OF holds] by (simp_all add: fx1_def es1_def)
    from handoff_loop_refines [OF this loop] obtain rest es' where ref:
      "submit_all submit n 0 h (sort_key handoff_key (filter (eligible frontier) es1)) = (res, h', rest)"
      "fx_holds fx' es'" "mset es' = mset rest + mset (filter (\<lambda>e. \<not> eligible frontier e) es1)"
      "length (fx_slots fx') = length (fx_slots fx1)" "fx_limits fx' = fx_limits fx1" by blast
    have ms: "mset es1 = mset es" by (simp add: es1_def)
    have "sort_key handoff_key (filter (eligible frontier) es1) = sort_key handoff_key (filter (eligible frontier) es)"
    proof (rule sort_key_inj_key_eq)
      show "inj_on handoff_key (set (filter (eligible frontier) es1))"
        using handoff_key_inj [of es] holds mset_eq_setD [OF ms] by (auto simp: fx_holds_def intro: inj_on_subset)
      show "mset (filter (eligible frontier) es1) = mset (sort_key handoff_key (filter (eligible frontier) es))"
        using ms by (simp add: mset_filter)
    qed simp
    moreover have "mset (filter (\<lambda>e. \<not> eligible frontier e) es1) = mset (filter (\<lambda>e. \<not> eligible frontier e) es)"
      using ms by (simp add: mset_filter)
    ultimately show ?thesis
      using ref lv' sort_prefix_holds(2,3) [OF holds] by (auto simp: fx1_def)
  qed
qed

end
