(* ===== verification/Timeline_Properties.thy ===== *)
theory Timeline_Properties
  imports Timeline_Wire "HOL-Library.Multiset"
begin

text \<open>
  Properties of the timeline: the wire format, the acceptance condition of a replay plan, and
  runs of the projection. A run is a sequence of accepted operations, in which a restart goes
  through the bytes of a checkpoint record.
\<close>

section \<open>Replay plans\<close>

lemma checked_next_Some [result_simps]: "checked_next n = Some m \<longleftrightarrow> unat m = unat n + 1"
  by (simp add: checked_next_def result_simps)

lemma checked_next_None [result_simps]: "checked_next n = None \<longleftrightarrow> 2 ^ 64 \<le> unat n + 1"
  by (simp add: checked_next_def result_simps)

lemma check_inputs_eq_Inr [result_simps]:
  "check_inputs expected cursor rs = Inr c \<longleftrightarrow>
     unat c = unat cursor + length rs
     \<and> (\<forall>i < length rs. ir_scope (rs ! i) = th_scope expected \<and> ir_branch (rs ! i) = th_branch expected
          \<and> unat (ir_step (rs ! i)) = unat cursor + 1 + i)"
proof (induction rs arbitrary: cursor)
  case Nil
  then show ?case by (auto simp: word_unat_eq_iff)
next
  case (Cons r rs)
  have bound: "unat c < 2 ^ 64" using unat_less_exp [of c] by simp
  show ?case
  proof (cases "checked_next cursor")
    case None
    then have "2 ^ 64 \<le> unat cursor + 1" by (simp add: checked_next_None)
    then show ?thesis using None bound by simp
  next
    case (Some n)
    then have n: "unat n = unat cursor + 1" by (simp add: result_simps)
    then have "ir_step r = n \<longleftrightarrow> unat (ir_step r) = unat cursor + 1" by (simp add: word_unat_eq_iff)
    then show ?thesis using Some n Cons.IH [of n] by (auto simp: All_less_Suc2 less_Suc_eq_0_disj)
  qed
qed

lemma check_replacement_eq_Inr [result_simps]:
  "check_replacement expected anchor replacement = Inr u \<longleftrightarrow>
     (case replacement of
        None \<Rightarrow> \<not> finalized_through (th_effect_finalized expected) (sa_step anchor)
      | Some r \<Rightarrow> ir_scope r = th_scope expected \<and> ir_branch r = th_branch expected
          \<and> unat (ir_step r) = unat (sa_step anchor) + 1 \<and> ir_step r \<le> th_step expected
          \<and> \<not> finalized_through (th_effect_finalized expected) (ir_step r))"
  by (auto simp: check_replacement_def result_simps not_less word_unat_eq_iff split: option.splits if_splits)
    metis

text \<open>The two checks of \<open>plan_prepare\<close> whose bound variables do not matter afterwards.\<close>

lemma next_exists_eq_Inr:
  "bindR (ok_or e (checked_next n)) (\<lambda>_. m) = Inr x \<longleftrightarrow> unat n + 1 < 2 ^ 64 \<and> m = Inr x"
  by (cases "checked_next n") (auto simp: checked_next_def checked_add_def split: if_splits)

lemma if_Inl_eq_Inr: "(if c then Inl e else m) = Inr x \<longleftrightarrow> \<not> c \<and> m = Inr x"
  by simp

lemma bindR_unit_eq_Inr: "bindR (m :: 'e + unit) (\<lambda>_. k) = Inr x \<longleftrightarrow> m = Inr () \<and> k = Inr x"
  by (auto simp: bindR_eq_Inr)

lemma replay_range_eq_Inr:
  fixes start final retained steps :: u64
  shows "bindR (ok_or HistoryUnavailable (checked_sub final start)) (\<lambda>count.
      if 2 ^ 64 \<le> n then Inl Capacity
      else let supplied = of_nat n :: u64 in
        if retained < supplied \<or> steps < count then Inl Capacity
        else if supplied \<noteq> count then Inl HistoryUnavailable
        else m) = Inr x \<longleftrightarrow>
    unat start + n = unat final \<and> n \<le> unat retained \<and> n \<le> unat steps \<and> m = Inr x"
proof (cases "n < 2 ^ 64")
  case True
  then have n: "unat (of_nat n :: u64) = n" by (simp add: unat_of_nat take_bit_eq_mod)
  show ?thesis
  proof (cases "checked_sub final start")
    case None
    moreover have "unat final < unat start" using None by (simp add: checked_sub_None)
    ultimately show ?thesis by simp
  next
    case (Some c)
    then have "unat final = unat start + unat c" by (simp add: checked_sub_Some)
    moreover have "of_nat n = c \<longleftrightarrow> unat c = n" using n by (auto simp: word_unat_eq_iff)
    ultimately show ?thesis
      using True n Some by (auto simp: Let_def word_less_nat_alt not_less)
  qed
next
  case False
  then show ?thesis using unat_less_exp [of final] by (auto simp: result_simps)
qed

text \<open>The retained inputs continue the anchor, one step at a time, up to the head.\<close>

definition inputs_continue :: "timeline_head \<Rightarrow> state_anchor \<Rightarrow> input_record list \<Rightarrow> bool" where
  "inputs_continue expected anchor inputs \<longleftrightarrow>
     unat (sa_step anchor) + length inputs = unat (th_step expected)
     \<and> (\<forall>i < length inputs. ir_scope (inputs ! i) = th_scope expected
          \<and> ir_branch (inputs ! i) = th_branch expected
          \<and> unat (ir_step (inputs ! i)) = unat (sa_step anchor) + 1 + i)"

definition replacement_spec ::
  "timeline_head \<Rightarrow> state_anchor \<Rightarrow> input_record list \<Rightarrow> input_record option \<Rightarrow> bool" where
  "replacement_spec expected anchor inputs replacement =
     (case replacement of
        None \<Rightarrow> \<not> finalized_through (th_effect_finalized expected) (sa_step anchor)
      | Some r \<Rightarrow> inputs \<noteq> [] \<and> ir_scope r = th_scope expected \<and> ir_branch r = th_branch expected
          \<and> ir_step r = ir_step (inputs ! 0)
          \<and> ir_identity r = ir_identity (inputs ! 0) \<and> ir_revision (inputs ! 0) < ir_revision r
          \<and> \<not> finalized_through (th_effect_finalized expected) (ir_step r))"

text \<open>The acceptance condition, as a specification over the caller's arguments.\<close>

definition plan_spec ::
  "timeline_head \<Rightarrow> timeline_revision \<Rightarrow> correction \<Rightarrow> input_record list \<Rightarrow> replay_limits \<Rightarrow> bool" where
  "plan_spec expected revision corr inputs limits \<longleftrightarrow>
     (case correction_parts corr of (anchor, replacement) \<Rightarrow>
        revision = th_revision expected \<and> unat revision + 1 < 2 ^ 64
        \<and> sa_scope anchor = th_scope expected \<and> sa_branch anchor = th_branch expected
        \<and> length inputs \<le> unat (rl_max_retained_inputs limits)
        \<and> length inputs \<le> unat (rl_max_replay_steps limits)
        \<and> inputs_continue expected anchor inputs
        \<and> replacement_spec expected anchor inputs replacement)"

lemma replacement_checks:
  assumes "inputs_continue expected anchor inputs"
  shows "check_replacement expected anchor replacement = Inr ()
      \<and> (case replacement of None \<Rightarrow> Inr ()
         | Some r \<Rightarrow> (case inputs of [] \<Rightarrow> Inl HistoryUnavailable
             | original # _ \<Rightarrow> if ir_identity r \<noteq> ir_identity original \<or> ir_revision r \<le> ir_revision original
                 then Inl InputMismatch else Inr ())) = Inr ()
      \<longleftrightarrow> replacement_spec expected anchor inputs replacement"
proof (cases replacement)
  case None
  then show ?thesis by (simp add: check_replacement_eq_Inr replacement_spec_def)
next
  case (Some r)
  show ?thesis
  proof (cases inputs)
    case Nil
    then show ?thesis using Some by (simp add: replacement_spec_def)
  next
    case (Cons original rest)
    then have step: "unat (ir_step original) = unat (sa_step anchor) + 1"
      using assms by (auto simp: inputs_continue_def)
    then have "ir_step original \<le> th_step expected"
      using assms Cons by (simp add: word_le_nat_alt inputs_continue_def)
    moreover have "ir_step r = ir_step original \<longleftrightarrow> unat (ir_step r) = unat (sa_step anchor) + 1"
      using step by (simp add: word_unat_eq_iff)
    ultimately show ?thesis
      using Some Cons by (auto simp: check_replacement_eq_Inr replacement_spec_def)
  qed
qed

lemma plan_prepare_eq_Inr [result_simps]:
  "plan_prepare expected revision corr inputs limits = Inr pl \<longleftrightarrow>
     plan_spec expected revision corr inputs limits
     \<and> pl = \<lparr> pl_expected = expected, pl_anchor = fst (correction_parts corr),
              pl_replacement = snd (correction_parts corr), pl_inputs = inputs \<rparr>"
proof -
  obtain anchor replacement where parts: "correction_parts corr = (anchor, replacement)"
    by (cases "correction_parts corr")
  let ?input_check = "case replacement of None \<Rightarrow> Inr ()
     | Some r \<Rightarrow> (case inputs of [] \<Rightarrow> Inl HistoryUnavailable
         | original # _ \<Rightarrow> if ir_identity r \<noteq> ir_identity original \<or> ir_revision r \<le> ir_revision original
             then Inl InputMismatch else Inr ())"
  have "plan_prepare expected revision corr inputs limits = Inr pl \<longleftrightarrow>
     th_revision expected = revision \<and> unat (th_revision expected) + 1 < 2 ^ 64
     \<and> sa_scope anchor = th_scope expected \<and> sa_branch anchor = th_branch expected
     \<and> \<not> th_step expected < sa_step anchor \<and> check_replacement expected anchor replacement = Inr ()
     \<and> unat (sa_step anchor) + length inputs = unat (th_step expected)
     \<and> length inputs \<le> unat (rl_max_retained_inputs limits)
     \<and> length inputs \<le> unat (rl_max_replay_steps limits)
     \<and> (\<exists>c. check_inputs expected (sa_step anchor) inputs = Inr c) \<and> ?input_check = Inr ()
     \<and> pl = \<lparr> pl_expected = expected, pl_anchor = anchor, pl_replacement = replacement, pl_inputs = inputs \<rparr>"
    unfolding plan_prepare_def parts prod.case
    by (simp only: if_Inl_eq_Inr next_exists_eq_Inr bindR_unit_eq_Inr replay_range_eq_Inr) (auto simp: bindR_eq_Inr)
  moreover have "unat (sa_step anchor) + length inputs = unat (th_step expected)
      \<and> (\<exists>c. check_inputs expected (sa_step anchor) inputs = Inr c) \<longleftrightarrow> inputs_continue expected anchor inputs"
    by (auto simp: check_inputs_eq_Inr inputs_continue_def)
  moreover have "inputs_continue expected anchor inputs \<Longrightarrow> \<not> th_step expected < sa_step anchor"
    by (simp add: word_less_nat_alt inputs_continue_def)
  ultimately show ?thesis
    using replacement_checks [of expected anchor inputs replacement] by (auto simp: plan_spec_def parts)
qed

section \<open>Sessions\<close>

definition active :: "branch_reservation option list \<Rightarrow> branch_reservation list" where
  "active sessions = concat (map (\<lambda>s. case s of None \<Rightarrow> [] | Some r \<Rightarrow> [r]) sessions)"

lemma active_simps [simp]:
  "active [] = []" "active (None # ss) = active ss" "active (Some r # ss) = r # active ss"
  by (simp_all add: active_def)

lemma set_active: "r \<in> set (active ss) \<longleftrightarrow> Some r \<in> set ss"
  by (induction ss rule: list.induct) (auto simp: active_def split: option.splits)

lemma active_replicate [simp]: "active (replicate n None) = []"
  by (induction n) simp_all

lemma active_sessions_active: "active_sessions p = length (active (tp_sessions p))"
proof -
  have "length (filter (\<lambda>s. s \<noteq> None) ss) = length (active ss)" for ss
    by (induction ss) (auto simp: active_def split: option.splits)
  then show ?thesis by (simp add: active_sessions_def)
qed

lemma replace_first_fill:
  "replace_first (\<lambda>slot. slot = None) (Some r) ss = Some ss' \<Longrightarrow>
     mset (active ss') = add_mset r (mset (active ss)) \<and> length ss' = length ss"
  by (induction ss arbitrary: ss') (auto split: if_splits)

lemma replace_first_release:
  "replace_first (\<lambda>slot. slot = Some r) None ss = Some ss' \<Longrightarrow>
     mset (active ss) = add_mset r (mset (active ss')) \<and> length ss' = length ss"
proof (induction ss arbitrary: ss')
  case (Cons s ss)
  then show ?case by (cases s) (auto split: if_splits)
qed simp

lemma replace_first_exists: "replace_first P y xs = None \<longleftrightarrow> (\<forall>x\<in>set xs. \<not> P x)"
  by (induction xs) auto

section \<open>Invariant\<close>

definition reservation_ok :: "timeline_projection \<Rightarrow> branch_reservation \<Rightarrow> bool" where
  "reservation_ok p r \<longleftrightarrow>
     head_ok (br_expected r)
     \<and> th_branch (br_expected r) < br_branch r \<and> br_branch r \<le> tp_last_branch p
     \<and> th_revision (br_expected r) \<le> th_revision (tp_head p)
     \<and> ao_scope (br_observation r) = th_scope (br_expected r)
     \<and> ao_step (br_observation r) \<le> th_step (br_expected r)"

definition timeline_inv :: "timeline_projection \<Rightarrow> bool" where
  "timeline_inv p \<longleftrightarrow>
     head_ok (tp_head p) \<and> th_branch (tp_head p) \<le> tp_last_branch p
     \<and> list_all (reservation_ok p) (active (tp_sessions p))
     \<and> distinct (map br_branch (active (tp_sessions p)))"

section \<open>Runs\<close>

datatype timeline_event =
    Reserved replay_plan branch_reservation
  | Promoted branch_reservation timeline_head
  | Aborted branch_reservation
  | Appended input_record
  | Observed authority_observation
  | Finalized timeline_step
  | Restarted

fun moves_head :: "timeline_event \<Rightarrow> bool" where
  "moves_head (Promoted _ _) = True"
| "moves_head (Appended _) = True"
| "moves_head (Observed _) = True"
| "moves_head (Finalized _) = True"
| "moves_head _ = False"

text \<open>
  One accepted operation. A plan only comes from \<open>ReplayPlan::prepare\<close>; a restart writes the
  checkpoint of the projection into a buffer, decodes it and restores from it.
\<close>

inductive tl_step :: "timeline_projection \<Rightarrow> timeline_event \<Rightarrow> timeline_projection \<Rightarrow> bool" where
  reserve: "plan_prepare expected revision corr inputs limits = Inr pl \<Longrightarrow>
    tp_reserve p pl obs = Inr (r, p') \<Longrightarrow> tl_step p (Reserved pl r) p'"
| promote: "tp_promote p r = Inr (head, p') \<Longrightarrow> tl_step p (Promoted r head) p'"
| abort: "tp_abort p r = Inr p' \<Longrightarrow> tl_step p (Aborted r) p'"
| append: "tp_append p expected r = Inr (head, p') \<Longrightarrow> tl_step p (Appended r) p'"
| observe: "tp_observe p expected obs = Inr (head, p') \<Longrightarrow> tl_step p (Observed obs) p'"
| finalize: "tp_finalize_effects p expected through = Inr (head, p') \<Longrightarrow> tl_step p (Finalized through) p'"
| restart: "encode (TrCheckpoint (tp_head p) (tp_last_branch p)) output = (Inr n, output') \<Longrightarrow>
    decode (take n output') = Inr (TrCheckpoint head last_branch) \<Longrightarrow>
    projection_restore sessions head last_branch = Inr p' \<Longrightarrow> tl_step p Restarted p'"

inductive tl_run :: "timeline_projection \<Rightarrow> timeline_event list \<Rightarrow> timeline_projection \<Rightarrow> bool" where
  start: "tl_run p [] p"
| snoc: "tl_run p es q \<Longrightarrow> tl_step q e q' \<Longrightarrow> tl_run p (es @ [e]) q'"

inductive_simps tl_run_nil: "tl_run p [] q"
inductive_simps tl_run_snoc: "tl_run p (es @ [e]) q"

section \<open>Effects of the operations\<close>

lemma tp_reserve_Inr:
  assumes "tp_reserve p pl obs = Inr (r, p')"
  shows "pl_expected pl = tp_head p" "r = \<lparr> br_expected = tp_head p, br_branch = br_branch r, br_observation = obs \<rparr>"
    "unat (br_branch r) = unat (tp_last_branch p) + 1"
    "th_authority (tp_head p) = Some obs \<or> check_observation p obs = Inr ()"
    "ao_step obs = corrected_step pl" "ao_digest obs = corrected_digest pl"
    "tp_head p' = tp_head p" "tp_last_branch p' = br_branch r"
    "mset (active (tp_sessions p')) = add_mset r (mset (active (tp_sessions p)))"
  using assms replace_first_fill
  by (auto simp: tp_reserve_def plan_check_head_def result_simps Let_def split: if_splits)

lemma tp_abort_Inr:
  assumes "tp_abort p r = Inr p'"
  shows "tp_head p' = tp_head p" "tp_last_branch p' = tp_last_branch p"
    "mset (active (tp_sessions p)) = add_mset r (mset (active (tp_sessions p')))"
  using assms replace_first_release by (auto simp: tp_abort_def result_simps)

lemma tp_promote_Inr:
  assumes "tp_promote p r = Inr (h, p')"
  shows "br_expected r = tp_head p" "Some r \<in> set (tp_sessions p)" "proposed_head r = Inr h"
    "tp_head p' = h" "tp_last_branch p' = tp_last_branch p"
    "mset (active (tp_sessions p)) = add_mset r (mset (active (tp_sessions p')))"
  using assms tp_abort_Inr
  by (auto simp: tp_promote_def promotion_head_def check_reservation_def tp_check_head_def result_simps
      split: if_splits)

text \<open>What the three operations that extend the head in place have in common.\<close>

definition head_extends :: "timeline_projection \<Rightarrow> timeline_projection \<Rightarrow> bool" where
  "head_extends p p' \<longleftrightarrow>
     tp_sessions p' = tp_sessions p \<and> tp_last_branch p' = tp_last_branch p
     \<and> th_branch (tp_head p') = th_branch (tp_head p) \<and> th_scope (tp_head p') = th_scope (tp_head p)
     \<and> unat (th_revision (tp_head p')) = unat (th_revision (tp_head p)) + 1
     \<and> th_step (tp_head p) \<le> th_step (tp_head p')
     \<and> (\<forall>s. finalized_through (th_effect_finalized (tp_head p)) s \<longrightarrow>
            finalized_through (th_effect_finalized (tp_head p')) s)
     \<and> (head_ok (tp_head p) \<longrightarrow> head_ok (tp_head p'))"

lemma check_observation_Inr [result_simps]:
  "check_observation p obs = Inr u \<longleftrightarrow>
     ao_scope obs = th_scope (tp_head p) \<and> ao_step obs \<le> th_step (tp_head p)
     \<and> (case th_authority (tp_head p) of None \<Rightarrow> True | Some old \<Rightarrow> \<not> stale_observation old obs)"
  by (auto simp: check_observation_def not_less split: option.splits if_splits)

lemma append_extends: "tp_append p expected r = Inr (h, p') \<Longrightarrow> head_extends p p' \<and> tp_head p' = h"
  by (auto simp: tp_append_def tp_check_head_def result_simps Let_def head_extends_def word_le_nat_alt
      head_ok_def split: if_splits option.splits)

lemma observe_extends: "tp_observe p expected obs = Inr (h, p') \<Longrightarrow> head_extends p p' \<and> tp_head p' = h"
  by (auto simp: tp_observe_def tp_check_head_def result_simps Let_def head_extends_def
      head_ok_def split: if_splits option.splits)

lemma finalize_extends:
  "tp_finalize_effects p expected through = Inr (h, p') \<Longrightarrow> head_extends p p' \<and> tp_head p' = h"
  by (auto simp: tp_finalize_effects_def tp_check_head_def result_simps Let_def head_extends_def
      head_ok_def finalized_through_def split: if_splits option.splits)

lemma restart_Inr:
  assumes "encode (TrCheckpoint (tp_head p) (tp_last_branch p)) output = (Inr n, output')"
    and "decode (take n output') = Inr (TrCheckpoint head last_branch)"
    and "projection_restore sessions head last_branch = Inr p'"
    and "head_ok (tp_head p)"
  shows "tp_head p' = tp_head p" "tp_last_branch p' = tp_last_branch p" "active (tp_sessions p') = []"
proof -
  let ?r = "TrCheckpoint (tp_head p) (tp_last_branch p)"
  have "record_validate ?r = Inr ()" "take n output' = TIMELINE_WIRE_TAG @ enc_record ?r"
    using assms(1) length_enc_record [of ?r]
    by (auto simp: encode_cases simp del: enc_record.simps encoded_len.simps record_validate.simps
        split: sum.splits if_splits)
  then have "decode (take n output') = Inr ?r" using assms(4) by (simp add: decode_eq_Inr)
  with assms(2,3) show "tp_head p' = tp_head p" "tp_last_branch p' = tp_last_branch p"
    "active (tp_sessions p') = []"
    by (auto simp: projection_restore_def split: if_splits)
qed

lemma proposed_head_Inr:
  assumes "proposed_head r = Inr h"
  shows "th_scope h = th_scope (br_expected r)" "th_branch h = br_branch r"
    "th_step h = th_step (br_expected r)"
    "unat (th_revision h) = unat (th_revision (br_expected r)) + 1"
    "th_effect_finalized h = th_effect_finalized (br_expected r)"
    "th_authority h = Some (br_observation r)"
  using assms by (auto simp: proposed_head_def result_simps)

text \<open>The revision counts the accepted operations that move the head.\<close>

lemma step_revision:
  assumes "tl_step p e p'" and "head_ok (tp_head p)"
  shows "unat (th_revision (tp_head p')) = unat (th_revision (tp_head p)) + (if moves_head e then 1 else 0)"
  using assms
proof cases
  case promote
  then show ?thesis using tp_promote_Inr proposed_head_Inr(4) by fastforce
next
  case restart
  then show ?thesis using restart_Inr(1) assms(2) by fastforce
qed (auto dest: tp_reserve_Inr(7) tp_abort_Inr(1) append_extends observe_extends finalize_extends
    simp: head_extends_def)

section \<open>The invariant is kept\<close>

lemma reservation_ok_mono:
  "reservation_ok p r \<Longrightarrow> tp_last_branch p \<le> tp_last_branch p' \<Longrightarrow>
     th_revision (tp_head p) \<le> th_revision (tp_head p') \<Longrightarrow> reservation_ok p' r"
  by (auto simp: reservation_ok_def)

lemma distinct_branches_add:
  "mset (active ss') = add_mset r (mset (active ss)) \<Longrightarrow>
     distinct (map br_branch (active ss')) \<longleftrightarrow>
       br_branch r \<notin> br_branch ` set (active ss) \<and> distinct (map br_branch (active ss))"
proof -
  assume "mset (active ss') = add_mset r (mset (active ss))"
  then have "mset (map br_branch (active ss')) = mset (map br_branch (r # active ss))" by simp
  then show ?thesis using mset_eq_imp_distinct_iff by fastforce
qed

lemma set_of_mset_add: "mset xs = add_mset y (mset ys) \<Longrightarrow> set xs = insert y (set ys)"
  by (metis set_mset_add_mset_insert set_mset_mset)

lemma inv_extends: "timeline_inv p \<Longrightarrow> head_extends p p' \<Longrightarrow> timeline_inv p'"
  by (auto simp: timeline_inv_def head_extends_def list_all_iff word_le_nat_alt intro: reservation_ok_mono)

lemma inv_reserve:
  assumes inv: "timeline_inv p" and res: "tp_reserve p pl obs = Inr (r, p')"
  shows "timeline_inv p'"
proof -
  note facts = tp_reserve_Inr [OF res]
  have lt: "tp_last_branch p < br_branch r" using facts(3) by (simp add: word_less_nat_alt)
  have obs: "ao_scope obs = th_scope (tp_head p) \<and> ao_step obs \<le> th_step (tp_head p)"
    using facts(4) inv by (auto simp: timeline_inv_def head_ok_def result_simps)
  have r: "br_expected r = tp_head p" "br_observation r = obs"
    using facts(2) by (metis branch_reservation.select_convs)+
  have mono: "reservation_ok p s \<Longrightarrow> reservation_ok p' s" for s
    using reservation_ok_mono [of p s p'] facts(7,8) lt by simp
  have "reservation_ok p' r"
    using inv obs r lt facts(7,8) by (auto simp: reservation_ok_def timeline_inv_def)
  moreover have "br_branch r \<notin> br_branch ` set (active (tp_sessions p))"
    using inv lt by (auto simp: timeline_inv_def list_all_iff reservation_ok_def)
  ultimately show ?thesis
    using inv mono facts(7,8) lt distinct_branches_add [OF facts(9)] set_of_mset_add [OF facts(9)]
    by (auto simp: timeline_inv_def list_all_iff)
qed

lemma inv_release:
  assumes inv: "timeline_inv p" and same: "tp_last_branch p' = tp_last_branch p"
    and rev: "th_revision (tp_head p) \<le> th_revision (tp_head p')"
    and sess: "mset (active (tp_sessions p)) = add_mset r (mset (active (tp_sessions p')))"
    and head: "head_ok (tp_head p')" "th_branch (tp_head p') \<le> tp_last_branch p"
  shows "timeline_inv p'"
  using assms distinct_branches_add [OF sess] set_of_mset_add [OF sess]
  by (auto simp: timeline_inv_def list_all_iff intro: reservation_ok_mono)

lemma inv_promote:
  assumes inv: "timeline_inv p" and prom: "tp_promote p r = Inr (h, p')"
  shows "timeline_inv p'"
proof -
  note facts = tp_promote_Inr [OF prom] and head = proposed_head_Inr [OF tp_promote_Inr(3) [OF prom]]
  have "reservation_ok p r" using inv facts(2) by (simp add: timeline_inv_def list_all_iff set_active)
  then have "head_ok h" "th_branch h \<le> tp_last_branch p"
    using head by (auto simp: reservation_ok_def head_ok_def split: option.splits)
  moreover have "th_revision (tp_head p) \<le> th_revision h" using head(4) facts(1) by (simp add: word_le_nat_alt)
  ultimately show ?thesis using inv_release [OF inv _ _ facts(6)] facts(4,5) by simp
qed

lemma step_inv:
  assumes "tl_step p e p'" and inv: "timeline_inv p"
  shows "timeline_inv p'"
  using assms(1)
proof cases
  case abort
  show ?thesis
    using inv_release [OF inv tp_abort_Inr(2) [OF abort(2)] _ tp_abort_Inr(3) [OF abort(2)]]
      tp_abort_Inr(1) [OF abort(2)] inv by (simp add: timeline_inv_def)
next
  case restart
  then show ?thesis using restart_Inr [OF restart(2-4)] inv by (simp add: timeline_inv_def)
next
  case reserve
  then show ?thesis using inv inv_reserve by metis
next
  case promote
  then show ?thesis using inv inv_promote by metis
next
  case append
  then show ?thesis using inv append_extends inv_extends by metis
next
  case observe
  then show ?thesis using inv observe_extends inv_extends by metis
next
  case finalize
  then show ?thesis using inv finalize_extends inv_extends by metis
qed

lemma run_inv: "tl_run p es q \<Longrightarrow> timeline_inv p \<Longrightarrow> timeline_inv q"
  by (induction rule: tl_run.induct) (auto intro: step_inv)

section \<open>Histories of runs\<close>

lemma sorted_wrt_less_last:
  fixes x :: "'a::linorder"
  shows "sorted_wrt (<) (x # xs) \<Longrightarrow> \<forall>b\<in>set (x # xs). b \<le> last (x # xs)"
  by (induction xs arbitrary: x) (auto intro: less_imp_le)

text \<open>The branches handed out, in order.\<close>

fun reserved_branches :: "timeline_event list \<Rightarrow> timeline_branch_id list" where
  "reserved_branches [] = []"
| "reserved_branches (Reserved _ r # es) = br_branch r # reserved_branches es"
| "reserved_branches (_ # es) = reserved_branches es"

lemma reserved_branches_append [simp]:
  "reserved_branches (xs @ ys) = reserved_branches xs @ reserved_branches ys"
  by (induction xs rule: reserved_branches.induct) simp_all

lemma step_last_branch:
  assumes "tl_step p e p'" and inv: "timeline_inv p"
  shows "(\<exists>pl r. e = Reserved pl r \<and> unat (br_branch r) = unat (tp_last_branch p) + 1
            \<and> tp_last_branch p' = br_branch r)
      \<or> reserved_branches [e] = [] \<and> tp_last_branch p' = tp_last_branch p"
  using assms(1)
proof cases
  case (reserve expected revision corr inputs limits pl obs r)
  then show ?thesis using tp_reserve_Inr(3,8) by blast
next
  case restart
  then show ?thesis using restart_Inr(2) [OF restart(2-4)] inv by (simp add: timeline_inv_def)
next
  case promote
  then show ?thesis using tp_promote_Inr(5) by fastforce
next
  case abort
  then show ?thesis using tp_abort_Inr(2) by fastforce
next
  case append
  then show ?thesis using append_extends by (fastforce simp: head_extends_def)
next
  case observe
  then show ?thesis using observe_extends by (fastforce simp: head_extends_def)
next
  case finalize
  then show ?thesis using finalize_extends by (fastforce simp: head_extends_def)
qed

lemma run_branches:
  "tl_run p es q \<Longrightarrow> timeline_inv p \<Longrightarrow>
     sorted_wrt (<) (tp_last_branch p # reserved_branches es)
     \<and> tp_last_branch q = last (tp_last_branch p # reserved_branches es)"
proof (induction rule: tl_run.induct)
  case (start p)
  then show ?case by simp
next
  case (snoc p es q e q')
  then have inv: "timeline_inv q" using run_inv by blast
  let ?bs = "tp_last_branch p # reserved_branches es"
  have IH: "sorted_wrt (<) ?bs" "tp_last_branch q = last ?bs" using snoc by blast+
  from step_last_branch [OF snoc.hyps(2) inv] show ?case
  proof
    assume "\<exists>pl r. e = Reserved pl r \<and> unat (br_branch r) = unat (tp_last_branch q) + 1
              \<and> tp_last_branch q' = br_branch r"
    then obtain pl r where e: "e = Reserved pl r" "tp_last_branch q < br_branch r" "tp_last_branch q' = br_branch r"
      by (auto simp: word_less_nat_alt)
    have "\<forall>b\<in>set ?bs. b \<le> last ?bs" using IH(1) by (rule sorted_wrt_less_last)
    then have "\<forall>b\<in>set ?bs. b < br_branch r" using e(2) IH(2) by fastforce
    with IH(1) have "sorted_wrt (<) (?bs @ [br_branch r])" by (simp only: sorted_wrt_append) simp
    with e show ?case by simp
  qed (use IH in auto)
qed

text \<open>
  Every reservation that is still held was handed out for a prepared plan, and since then it was
  neither promoted nor released and the revision counted each move of the head.
\<close>

definition held_since :: "timeline_event list \<Rightarrow> timeline_projection \<Rightarrow> branch_reservation \<Rightarrow> bool" where
  "held_since es q r \<longleftrightarrow>
     (\<exists>us pl vs. es = us @ Reserved pl r # vs
        \<and> (\<exists>revision corr inputs limits.
             plan_prepare (br_expected r) revision corr inputs limits = Inr pl)
        \<and> ao_step (br_observation r) = corrected_step pl
        \<and> Aborted r \<notin> set vs \<and> (\<forall>h. Promoted r h \<notin> set vs) \<and> Restarted \<notin> set vs
        \<and> unat (th_revision (tp_head q))
            = unat (th_revision (br_expected r)) + length (filter moves_head vs))"

lemma released_not_active:
  assumes "mset (active ss) = add_mset r (mset (active ss'))" and "distinct (map br_branch (active ss))"
  shows "r \<notin> set (active ss')" "set (active ss') \<subseteq> set (active ss)"
  using assms distinct_branches_add [OF assms(1)] set_of_mset_add [OF assms(1)] by auto

lemma step_held:
  assumes "tl_step q e q'" and inv: "timeline_inv q" and r: "r \<in> set (active (tp_sessions q'))"
  shows "(\<exists>pl revision corr inputs limits. e = Reserved pl r \<and> br_expected r = tp_head q \<and> tp_head q' = tp_head q
            \<and> plan_prepare (br_expected r) revision corr inputs limits = Inr pl
            \<and> ao_step (br_observation r) = corrected_step pl)
      \<or> r \<in> set (active (tp_sessions q)) \<and> e \<noteq> Aborted r \<and> (\<forall>h. e \<noteq> Promoted r h) \<and> e \<noteq> Restarted"
  using assms(1)
proof cases
  case (reserve expected revision corr inputs limits pl obs r')
  note facts = tp_reserve_Inr [OF reserve(3)]
  have eq: "br_expected r' = tp_head q" "br_observation r' = obs" using facts(2) by (metis branch_reservation.select_convs)+
  have "expected = tp_head q" using facts(1) reserve(2) by (simp add: plan_prepare_eq_Inr)
  then have "r' = r \<Longrightarrow> ?thesis" using reserve eq facts(5,7) by fastforce
  moreover have "r \<noteq> r' \<Longrightarrow> ?thesis" using r set_of_mset_add [OF facts(9)] reserve(1) by auto
  ultimately show ?thesis by blast
next
  case (promote r' h)
  then show ?thesis
    using r inv released_not_active [OF tp_promote_Inr(6) [OF promote(2)]] by (auto simp: timeline_inv_def)
next
  case (abort r')
  then show ?thesis
    using r inv released_not_active [OF tp_abort_Inr(3) [OF abort(2)]] by (auto simp: timeline_inv_def)
next
  case (append expected i h)
  then show ?thesis using r append_extends by (fastforce simp: head_extends_def)
next
  case (observe expected i h)
  then show ?thesis using r observe_extends by (fastforce simp: head_extends_def)
next
  case (finalize expected i h)
  then show ?thesis using r finalize_extends by (fastforce simp: head_extends_def)
next
  case restart
  then show ?thesis using r restart_Inr(3) [OF restart(2-4)] inv by (simp add: timeline_inv_def)
qed

lemma held_since_reserved:
  assumes "br_expected r = tp_head q" "plan_prepare (br_expected r) revision corr inputs limits = Inr pl"
    "ao_step (br_observation r) = corrected_step pl"
  shows "held_since (es @ [Reserved pl r]) q r"
  unfolding held_since_def
  by (rule exI [of _ es], rule exI [of _ pl], rule exI [of _ "[]"]) (use assms in auto)

lemma held_since_step:
  assumes held: "held_since es q r" and "e \<noteq> Aborted r" "\<forall>h. e \<noteq> Promoted r h" "e \<noteq> Restarted"
    and rev: "unat (th_revision (tp_head q')) = unat (th_revision (tp_head q)) + (if moves_head e then 1 else 0)"
  shows "held_since (es @ [e]) q' r"
proof -
  from held obtain us pl vs where h: "es = us @ Reserved pl r # vs"
    "\<exists>revision corr inputs limits. plan_prepare (br_expected r) revision corr inputs limits = Inr pl"
    "ao_step (br_observation r) = corrected_step pl"
    "Aborted r \<notin> set vs" "\<forall>h. Promoted r h \<notin> set vs" "Restarted \<notin> set vs"
    "unat (th_revision (tp_head q)) = unat (th_revision (br_expected r)) + length (filter moves_head vs)"
    unfolding held_since_def by blast
  then show ?thesis
    unfolding held_since_def using assms(2-5)
    by - (rule exI [of _ us], rule exI [of _ pl], rule exI [of _ "vs @ [e]"], auto)
qed

lemma run_held:
  "tl_run p es q \<Longrightarrow> timeline_inv p \<Longrightarrow> active_sessions p = 0 \<Longrightarrow>
     r \<in> set (active (tp_sessions q)) \<Longrightarrow> held_since es q r"
proof (induction rule: tl_run.induct)
  case (start p)
  then show ?case by (simp add: active_sessions_active)
next
  case (snoc p es q e q')
  then have inv: "timeline_inv q" using run_inv by blast
  then have rev: "unat (th_revision (tp_head q')) = unat (th_revision (tp_head q)) + (if moves_head e then 1 else 0)"
    using step_revision [OF snoc.hyps(2)] by (simp add: timeline_inv_def)
  from step_held [OF snoc.hyps(2) inv snoc.prems(3)] show ?case
  proof
    assume "r \<in> set (active (tp_sessions q)) \<and> e \<noteq> Aborted r \<and> (\<forall>h. e \<noteq> Promoted r h) \<and> e \<noteq> Restarted"
    then show ?case using snoc.IH snoc.prems rev by (intro held_since_step) auto
  next
    assume "\<exists>pl revision corr inputs limits. e = Reserved pl r \<and> br_expected r = tp_head q \<and> tp_head q' = tp_head q
            \<and> plan_prepare (br_expected r) revision corr inputs limits = Inr pl
            \<and> ao_step (br_observation r) = corrected_step pl"
    then show ?case using held_since_reserved by metis
  qed
qed

lemma run_append:
  "tl_run p (xs @ ys) q \<Longrightarrow> \<exists>m. tl_run p xs m \<and> tl_run m ys q"
proof (induction ys arbitrary: q rule: rev_induct)
  case Nil
  then show ?case by (auto intro: tl_run.start)
next
  case (snoc y ys)
  then obtain m where "tl_run p (xs @ ys) m" "tl_step m y q"
    by (metis append_assoc tl_run_snoc)
  then show ?case using snoc.IH by (meson tl_run.snoc)
qed

lemma run_single: "tl_run p [e] q \<longleftrightarrow> tl_step p e q"
  using tl_run_snoc [of p "[]" e q] by (simp add: tl_run_nil)

lemma corrected_not_final:
  "plan_prepare expected revision corr inputs limits = Inr pl \<Longrightarrow>
     \<not> finalized_through (th_effect_finalized expected) (corrected_step pl)"
  by (auto simp: plan_prepare_eq_Inr plan_spec_def replacement_spec_def corrected_step_def
      split: prod.splits option.splits)

section \<open>A concrete timeline\<close>

definition ex_scope :: timeline_scope where
  "ex_scope = \<lparr> tl_tenant = digest_fill 1, tl_timeline = digest_fill 2, tl_model = digest_fill 3,
     tl_schema = digest_fill 4 \<rparr>"

definition ex_head :: timeline_head where
  "ex_head = \<lparr> th_scope = ex_scope, th_branch = 0, th_step = 5, th_revision = 7,
     th_effect_finalized = Some 3, th_authority = None \<rparr>"

definition ex_input :: "timeline_step \<Rightarrow> input_revision \<Rightarrow> byte \<Rightarrow> input_record" where
  "ex_input step revision d = \<lparr> ir_scope = ex_scope, ir_branch = 0, ir_step = step,
     ir_identity = digest_fill 9, ir_revision = revision, ir_digest = digest_fill d \<rparr>"

definition ex_anchor :: state_anchor where
  "ex_anchor = \<lparr> sa_scope = ex_scope, sa_branch = 0, sa_step = 4, sa_snapshot = digest_fill 6,
     sa_digest = digest_fill 7 \<rparr>"

definition ex_limits :: replay_limits where
  "ex_limits = \<lparr> rl_max_retained_inputs = 8, rl_max_replay_steps = 8 \<rparr>"

definition ex_correction :: correction where
  "ex_correction = CorrectInput ex_anchor (ex_input 5 2 11)"

definition ex_plan :: replay_plan where
  "ex_plan = \<lparr> pl_expected = ex_head, pl_anchor = ex_anchor, pl_replacement = Some (ex_input 5 2 11),
     pl_inputs = [ex_input 5 1 10] \<rparr>"

definition ex_observation :: authority_observation where
  "ex_observation = \<lparr> ao_scope = ex_scope, ao_authority = digest_fill 12, ao_epoch = 1, ao_sequence = 1,
     ao_step = 5, ao_digest = digest_fill 11 \<rparr>"

definition ex_reservation :: branch_reservation where
  "ex_reservation = \<lparr> br_expected = ex_head, br_branch = 1, br_observation = ex_observation \<rparr>"

definition ex_promoted :: timeline_head where
  "ex_promoted = ex_head\<lparr>th_branch := 1, th_revision := 8, th_authority := Some ex_observation\<rparr>"

lemmas ex_timeline_defs = ex_scope_def ex_head_def ex_input_def ex_anchor_def ex_limits_def
  ex_correction_def ex_plan_def ex_observation_def ex_reservation_def ex_promoted_def

lemma ex_plan_prepared: "plan_prepare ex_head 7 ex_correction [ex_input 5 1 10] ex_limits = Inr ex_plan"
  by (simp add: plan_prepare_eq_Inr plan_spec_def replacement_spec_def inputs_continue_def
      finalized_through_def ex_timeline_defs)

lemma ex_projection:
  "projection_of_head 2 ex_head = \<lparr> tp_head = ex_head, tp_last_branch = 0, tp_sessions = [None, None] \<rparr>"
  by (simp add: projection_of_head_def numeral_2_eq_2 ex_head_def)

lemma ex_reserved:
  "tp_reserve (projection_of_head 2 ex_head) ex_plan ex_observation =
     Inr (ex_reservation, \<lparr> tp_head = ex_head, tp_last_branch = 1, tp_sessions = [Some ex_reservation, None] \<rparr>)"
  unfolding ex_projection
  by (simp add: tp_reserve_def plan_check_head_def check_observation_def
      corrected_step_def corrected_digest_def checked_next_def checked_add_def Let_def ex_timeline_defs)

lemma ex_promote:
  "tp_promote \<lparr> tp_head = ex_head, tp_last_branch = 1, tp_sessions = [Some ex_reservation, None] \<rparr> ex_reservation =
     Inr (ex_promoted, \<lparr> tp_head = ex_promoted, tp_last_branch = 1, tp_sessions = [None, None] \<rparr>)"
  by (simp add: tp_promote_def promotion_head_def check_reservation_def tp_check_head_def tp_abort_def
      proposed_head_def checked_next_def checked_add_def ex_timeline_defs)

lemma ex_run:
  "tl_run (projection_of_head 2 ex_head) ([Reserved ex_plan ex_reservation] @ Promoted ex_reservation ex_promoted # [])
     \<lparr> tp_head = ex_promoted, tp_last_branch = 1, tp_sessions = [None, None] \<rparr>"
proof -
  have "tl_run (projection_of_head 2 ex_head) [Reserved ex_plan ex_reservation]
      \<lparr> tp_head = ex_head, tp_last_branch = 1, tp_sessions = [Some ex_reservation, None] \<rparr>"
    unfolding run_single by (rule tl_step.reserve [OF ex_plan_prepared ex_reserved])
  from tl_run.snoc [OF this tl_step.promote [OF ex_promote]] show ?thesis by simp
qed

lemma ex_start: "timeline_inv (projection_of_head 2 ex_head)" "active_sessions (projection_of_head 2 ex_head) = 0"
  by (simp_all add: timeline_inv_def projection_of_head_def active_sessions_active head_ok_def ex_timeline_defs)

section \<open>Claims\<close>

text \<open>
  C15. Promotion is safe: in any run from a projection with no open session, a promotion refers to a
  reservation handed out earlier for a plan prepared against exactly the head that the promotion
  replaces. In between the head did not move, the reservation was neither released nor promoted and
  the process did not restart. The promoted head keeps the step and the finalized prefix, the
  corrected step is not finalized, and the revision grows by one.
\<close>
theorem promotion_is_current:
  assumes "tl_run p (xs @ Promoted r h # ys) q" and "timeline_inv p" and "active_sessions p = 0"
  shows "\<exists>us pl vs. xs = us @ Reserved pl r # vs \<and> pl_expected pl = br_expected r
    \<and> (\<forall>e\<in>set vs. \<not> moves_head e \<and> e \<noteq> Aborted r \<and> e \<noteq> Restarted)
    \<and> \<not> finalized_through (th_effect_finalized h) (corrected_step pl)
    \<and> ao_step (br_observation r) = corrected_step pl
    \<and> th_step h = th_step (br_expected r) \<and> th_effect_finalized h = th_effect_finalized (br_expected r)
    \<and> th_branch h = br_branch r \<and> unat (th_revision h) = unat (th_revision (br_expected r)) + 1"
proof -
  obtain m m' where m: "tl_run p xs m" "tl_step m (Promoted r h) m'"
    using run_append [of p xs "Promoted r h # ys" q] run_append [of _ "[Promoted r h]" ys q] assms(1)
    by (metis append_Cons append_Nil run_single)
  from m(2) have prom: "tp_promote m r = Inr (h, m')" by cases
  note facts = tp_promote_Inr [OF prom] and head = proposed_head_Inr [OF tp_promote_Inr(3) [OF prom]]
  have "held_since xs m r" using run_held [OF m(1) assms(2,3)] facts(2) by (simp add: set_active)
  then obtain us pl vs where h: "xs = us @ Reserved pl r # vs"
    "\<exists>revision corr inputs limits. plan_prepare (br_expected r) revision corr inputs limits = Inr pl"
    "ao_step (br_observation r) = corrected_step pl" "Aborted r \<notin> set vs" "Restarted \<notin> set vs"
    "unat (th_revision (tp_head m)) = unat (th_revision (br_expected r)) + length (filter moves_head vs)"
    unfolding held_since_def by blast
  have "filter moves_head vs = []" using h(6) facts(1) by simp
  then have "\<forall>e\<in>set vs. \<not> moves_head e \<and> e \<noteq> Aborted r \<and> e \<noteq> Restarted"
    using h(4,5) by (auto simp: filter_empty_conv)
  moreover have "pl_expected pl = br_expected r" "\<not> finalized_through (th_effect_finalized h) (corrected_step pl)"
    using h(2) corrected_not_final head(5) by (auto simp: plan_prepare_eq_Inr)
  ultimately show ?thesis using h(1,3) head by blast
qed

theorem promotion_is_current_witness:
  "\<exists>us pl vs. [Reserved ex_plan ex_reservation] = us @ Reserved pl ex_reservation # vs
     \<and> \<not> finalized_through (th_effect_finalized ex_promoted) (corrected_step pl)"
  using promotion_is_current [OF ex_run ex_start] by blast

text \<open>
  C16. Branch identities are never reused: over any run, restarts through checkpoint bytes included,
  the branches handed out strictly increase from the initial high-water mark, and the live head
  never carries a branch above the mark.
\<close>
theorem branches_are_never_reused:
  assumes "tl_run p es q" and "timeline_inv p"
  shows "sorted_wrt (<) (tp_last_branch p # reserved_branches es)
    \<and> tp_last_branch q = last (tp_last_branch p # reserved_branches es)
    \<and> th_branch (tp_head q) \<le> tp_last_branch q \<and> head_ok (tp_head q)"
  using run_branches [OF assms] run_inv [OF assms] by (simp add: timeline_inv_def)

theorem branches_are_never_reused_witness:
  "sorted_wrt (<) (0 # reserved_branches [Reserved ex_plan ex_reservation, Promoted ex_reservation ex_promoted])"
  using branches_are_never_reused [OF ex_run ex_start(1)]
  by (simp add: projection_of_head_def ex_head_def)

text \<open>The inputs of a plan: the retained ones, the corrected one substituted for the first.\<close>

definition replay_inputs :: "replay_plan \<Rightarrow> input_record list" where
  "replay_inputs pl = (case pl_replacement pl of None \<Rightarrow> pl_inputs pl | Some r \<Rightarrow> (pl_inputs pl)[0 := r])"

definition covers_replay :: "timeline_head \<Rightarrow> replay_plan \<Rightarrow> bool" where
  "covers_replay expected pl \<longleftrightarrow>
     map (plan_input pl) [0..<length (replay_inputs pl)] = map Some (replay_inputs pl)
     \<and> plan_input pl (length (replay_inputs pl)) = None
     \<and> map (unat \<circ> ir_step) (replay_inputs pl)
         = [Suc (unat (sa_step (pl_anchor pl))) ..< Suc (unat (th_step expected))]
     \<and> list_all (\<lambda>r. ir_scope r = th_scope expected \<and> ir_branch r = th_branch expected) (replay_inputs pl)"

lemma prepared_covers_replay:
  assumes "plan_prepare expected revision corr inputs limits = Inr pl"
  shows "covers_replay expected pl"
proof -
  obtain anchor replacement where parts: "correction_parts corr = (anchor, replacement)"
    by (cases "correction_parts corr")
  with assms have pl: "pl = \<lparr> pl_expected = expected, pl_anchor = anchor, pl_replacement = replacement, pl_inputs = inputs \<rparr>"
    and cont: "inputs_continue expected anchor inputs" and rep: "replacement_spec expected anchor inputs replacement"
    by (auto simp: plan_prepare_eq_Inr plan_spec_def)
  define rs where "rs = replay_inputs pl"
  have len: "length rs = length inputs" by (simp add: rs_def replay_inputs_def pl split: option.splits)
  have fin: "unat (th_step expected) = unat (sa_step anchor) + length inputs"
    using cont by (simp add: inputs_continue_def)
  have input: "plan_input pl i = (if i < length inputs then Some (rs ! i) else None)" for i
    using rep by (cases i; cases replacement) (auto simp: pl plan_input_def rs_def replay_inputs_def replacement_spec_def)
  have step: "ir_scope (rs ! i) = th_scope expected \<and> ir_branch (rs ! i) = th_branch expected
      \<and> unat (ir_step (rs ! i)) = unat (sa_step anchor) + 1 + i" if "i < length inputs" for i
    using that rep cont
    by (cases i; cases replacement) (auto simp: rs_def replay_inputs_def pl replacement_spec_def inputs_continue_def)
  have "map (plan_input pl) [0..<length inputs] = map Some rs"
    by (rule nth_equalityI) (simp_all add: len input)
  moreover have "map (unat \<circ> ir_step) rs = [Suc (unat (sa_step anchor)) ..< Suc (unat (th_step expected))]"
    by (rule nth_equalityI) (simp_all add: len step fin del: upt_Suc)
  moreover have "list_all (\<lambda>r. ir_scope r = th_scope expected \<and> ir_branch r = th_branch expected) rs"
    using step len by (auto simp: list_all_length)
  ultimately show ?thesis using input len by (simp add: covers_replay_def rs_def pl)
qed

text \<open>
  C17. A replay plan is accepted exactly when the declarative condition \<open>plan_spec\<close> holds: current
  revision with room for one more, an anchor of the same scope and branch, retained inputs that
  continue the anchor step by step to the head within both limits, and a correction beyond the
  finalized effects (a replaced input being the first retained one at a newer revision). An accepted
  plan then yields one input per step after the anchor up to the head's step, without gap, all of
  the head's scope and branch, the replacement first.
\<close>
theorem plan_accepted_iff:
  "case plan_prepare expected revision corr inputs limits of
     Inl _ \<Rightarrow> \<not> plan_spec expected revision corr inputs limits
   | Inr pl \<Rightarrow> plan_spec expected revision corr inputs limits \<and> pl_expected pl = expected \<and> covers_replay expected pl"
proof (cases "plan_prepare expected revision corr inputs limits")
  case (Inl e)
  then show ?thesis using plan_prepare_eq_Inr by (metis old.sum.simps(5) sum.simps(4))
next
  case (Inr pl)
  moreover from Inr have "plan_spec expected revision corr inputs limits" "pl_expected pl = expected"
    by (auto simp: plan_prepare_eq_Inr)
  ultimately show ?thesis using prepared_covers_replay [OF Inr] by simp
qed

text \<open>
  C18. Encoding and decoding are inverse. Encoding a valid record into a buffer that is long enough
  succeeds with the exact canonical length, at most 832 bytes, changes only that prefix of the
  buffer, and decoding the prefix yields the record. An invalid record and a short buffer are
  refused with the buffer unchanged.
\<close>
theorem encode_decode_round_trip:
  assumes "record_heads_ok r"
  shows "case record_validate r of
      Inl e \<Rightarrow> encode r output = (Inl (InvalidTimeline e), output)
    | Inr _ \<Rightarrow>
        if length output < encoded_len r then encode r output = (Inl WireCapacity, output)
        else \<exists>output'. encode r output = (Inr (encoded_len r), output') \<and> length output' = length output
           \<and> drop (encoded_len r) output' = drop (encoded_len r) output
           \<and> decode (take (encoded_len r) output') = Inr r \<and> encoded_len r \<le> TIMELINE_RECORD_MAX_BYTES"
proof (cases "record_validate r")
  case (Inr u)
  have "length (TIMELINE_WIRE_TAG @ enc_record r) = encoded_len r" by (rule length_enc_record)
  moreover have "decode (TIMELINE_WIRE_TAG @ enc_record r) = Inr r"
    using assms Inr by (simp add: decode_eq_Inr)
  ultimately show ?thesis using Inr encoded_len_bound by (auto simp: encode_cases)
qed (simp add: encode_cases)

theorem encode_decode_round_trip_witness:
  "decode (take 237 (snd (encode (TrInput (ex_input 5 1 10)) (replicate 300 0)))) = Inr (TrInput (ex_input 5 1 10))"
  using encode_decode_round_trip [of "TrInput (ex_input 5 1 10)" "replicate 300 0"] by auto

text \<open>
  C19. The format is canonical: bytes that decode are exactly the bytes the encoder produces for the
  decoded record, so no two byte strings decode to the same record, and a decoded record satisfies
  the checks of \<open>validate\<close> and of the head's constructor.
\<close>
theorem decode_is_canonical:
  assumes "decode bs = Inr r"
  shows "encode r (replicate (length bs) 0) = (Inr (length bs), bs)
    \<and> length bs = encoded_len r \<and> record_validate r = Inr () \<and> record_heads_ok r"
proof -
  have "record_heads_ok r" "record_validate r = Inr ()" and bs: "bs = TIMELINE_WIRE_TAG @ enc_record r"
    using assms by (auto simp: decode_eq_Inr)
  moreover have "length bs = encoded_len r" using bs length_enc_record by simp
  ultimately show ?thesis by (simp add: encode_cases)
qed

theorem decode_is_canonical_witness:
  "length (TIMELINE_WIRE_TAG @ enc_record (TrInput (ex_input 5 1 10))) = 237"
  using decode_is_canonical [of "TIMELINE_WIRE_TAG @ enc_record (TrInput (ex_input 5 1 10))" "TrInput (ex_input 5 1 10)"]
  by (simp add: decode_eq_Inr)

end
