(* ===== verification/Timeline_Live_Properties.thy ===== *)
theory Timeline_Live_Properties
  imports Timeline_Live_Effects Timeline_Properties
begin

text \<open>
  Correctness of the live timeline: a replay session computes the fold of the consumer's step over
  the plan's inputs, however it is sliced; a promotion replaces state and head together and drops
  only effects of replaced steps, never finalized ones; and the handoff submits exactly the
  finalized effects in order.
\<close>

section \<open>Replay as a fold\<close>

lemma advance_loop_plus:
  "advance_loop current model read (m + n) s =
     (case advance_loop current model read m s of
        (Inl e, s') \<Rightarrow> (Inl e, s')
      | (Inr _, s') \<Rightarrow> advance_loop current model read n s')"
proof (induction m arbitrary: s)
  case 0
  then show ?case by simp
next
  case (Suc m)
  show ?case
  proof (cases "length (pl_inputs (rs_plan s)) \<le> rs_cursor s")
    case True
    then show ?thesis by (cases n) auto
  next
    case False
    then show ?thesis using Suc.IH by (auto split: prod.splits sum.splits)
  qed
qed

lemma advance_step_frame:
  "advance_step current model read s = (res, s') \<Longrightarrow>
     rs_plan s' = rs_plan s \<and> rs_reservation s' = rs_reservation s \<and> rs_phase s' = rs_phase s
     \<and> rs_cursor s' = (case res of Inl _ \<Rightarrow> rs_cursor s | Inr _ \<Rightarrow> rs_cursor s + 1)"
  by (auto simp: advance_step_def Let_def split: option.splits sum.splits prod.splits if_splits)

lemma advance_loop_frame:
  "advance_loop current model read n s = (res, s') \<Longrightarrow>
     rs_plan s' = rs_plan s \<and> rs_reservation s' = rs_reservation s \<and> rs_phase s' = rs_phase s
     \<and> (rs_cursor s \<le> length (pl_inputs (rs_plan s)) \<longrightarrow> rs_cursor s' \<le> length (pl_inputs (rs_plan s))
        \<and> (\<forall>u. res = Inr u \<longrightarrow> rs_cursor s' = min (rs_cursor s + n) (length (pl_inputs (rs_plan s)))))"
proof (induction n arbitrary: s)
  case 0
  then show ?case by auto
next
  case (Suc n)
  show ?case
  proof (cases "length (pl_inputs (rs_plan s)) \<le> rs_cursor s")
    case True
    then show ?thesis using Suc.prems by auto
  next
    case False
    obtain res1 s1 where step: "advance_step current model read s = (res1, s1)" by (cases "advance_step current model read s")
    note frame = advance_step_frame [OF step]
    show ?thesis
    proof (cases res1)
      case (Inl e)
      then show ?thesis using Suc.prems False step frame by auto
    next
      case (Inr u)
      then have "advance_loop current model read n s1 = (res, s')" using Suc.prems False step by simp
      from Suc.IH [OF this] show ?thesis using frame Inr False by auto
    qed
  qed
qed

text \<open>Every effect a session stages originates in one of the replayed steps.\<close>

definition session_effects_ok :: "('s, 'e) replay_session \<Rightarrow> bool" where
  "session_effects_ok s \<longleftrightarrow>
     (\<exists>es. fx_holds (rs_effects s) es
        \<and> (\<forall>e\<in>set es. \<exists>r\<in>set (replay_inputs (rs_plan s)). effect_step e = ir_step r))"

lemma plan_input_in:
  "covers_replay expected pl \<Longrightarrow> plan_input pl i = Some r \<Longrightarrow> i < length (pl_inputs pl) \<Longrightarrow>
     r \<in> set (replay_inputs pl)"
proof -
  assume cover: "covers_replay expected pl" and r: "plan_input pl i = Some r" and i: "i < length (pl_inputs pl)"
  have len: "length (replay_inputs pl) = length (pl_inputs pl)" by (simp add: replay_inputs_def split: option.splits)
  have "map (plan_input pl) [0..<length (replay_inputs pl)] ! i = map Some (replay_inputs pl) ! i"
    using cover by (simp add: covers_replay_def)
  then have "plan_input pl i = Some (replay_inputs pl ! i)" using i len by simp
  then show ?thesis using r i len by simp
qed

lemma advance_step_runs:
  assumes "advance_step current model read s = (res, s')"
  shows "rs_effects s' = rs_effects s \<or>
    (\<exists>r v ctx res1 state sk.
       run_computation (model (rs_state s) v ctx) (fx_sink (rs_effects s) ctx) = (res1, state, sk)
       \<and> plan_input (rs_plan s) (rs_cursor s) = Some r \<and> sc_step ctx = ir_step r \<and> rs_effects s' = sk_effects sk)"
proof (cases "\<exists>r v revision. plan_input (rs_plan s) (rs_cursor s) = Some r \<and> read r = Inr (r, v)
    \<and> checked_next (th_revision current) = Some revision")
  case True
  then obtain r v revision where r: "plan_input (rs_plan s) (rs_cursor s) = Some r" "read r = Inr (r, v)"
    "checked_next (th_revision current) = Some revision" by blast
  define ctx where "ctx = \<lparr> sc_revision = revision, sc_scope = th_scope current,
      sc_branch = br_branch (rs_reservation s), sc_step = ir_step r \<rparr>"
  obtain res1 state sk where run:
    "run_computation (model (rs_state s) v ctx) (fx_sink (rs_effects s) ctx) = (res1, state, sk)"
    by (cases "run_computation (model (rs_state s) v ctx) (fx_sink (rs_effects s) ctx)")
  have "rs_effects s' = sk_effects sk"
    using assms r run unfolding advance_step_def ctx_def [symmetric]
    by (auto simp: Let_def ctx_def [symmetric] split: sum.splits if_splits)
  moreover have "sc_step ctx = ir_step r" by (simp add: ctx_def)
  ultimately show ?thesis using r(1) run by blast
next
  case False
  then show ?thesis
    using assms by (auto simp: advance_step_def Let_def split: option.splits sum.splits prod.splits if_splits)
qed

lemma advance_step_effects:
  assumes ok: "session_effects_ok s" and cover: "covers_replay expected (rs_plan s)"
    and lt: "rs_cursor s < length (pl_inputs (rs_plan s))"
    and step: "advance_step current model read s = (res, s')"
  shows "session_effects_ok s'"
proof -
  obtain es where es: "fx_holds (rs_effects s) es" "\<forall>e\<in>set es. \<exists>r\<in>set (replay_inputs (rs_plan s)). effect_step e = ir_step r"
    using ok by (auto simp: session_effects_ok_def)
  have frame: "rs_plan s' = rs_plan s" using advance_step_frame [OF step] by simp
  show ?thesis
  proof (cases "rs_effects s' = rs_effects s")
    case True
    then show ?thesis using es frame by (auto simp: session_effects_ok_def)
  next
    case False
    then obtain r v ctx res1 state sk where r: "plan_input (rs_plan s) (rs_cursor s) = Some r"
      "sc_step ctx = ir_step r"
      "run_computation (model (rs_state s) v ctx) (fx_sink (rs_effects s) ctx) = (res1, state, sk)"
      "rs_effects s' = sk_effects sk"
      using advance_step_runs [OF step] by blast
    have "fx_holds (sk_effects (fx_sink (rs_effects s) ctx)) es" using es(1) by (simp add: fx_sink_def)
    from run_computation_holds [OF this r(3)] obtain new where new: "fx_holds (rs_effects s') (es @ new)"
      "\<forall>e\<in>set new. effect_step e = ir_step r"
      using r(2,4) by (auto simp: fx_sink_def effect_step_def)
    moreover have "r \<in> set (replay_inputs (rs_plan s))" using plan_input_in [OF cover r(1) lt] .
    ultimately have "\<forall>e\<in>set (es @ new). \<exists>r\<in>set (replay_inputs (rs_plan s')). effect_step e = ir_step r"
      using es(2) frame by auto
    then show ?thesis unfolding session_effects_ok_def using new(1) by blast
  qed
qed

lemma advance_loop_effects:
  "advance_loop current model read n s = (res, s') \<Longrightarrow> session_effects_ok s \<Longrightarrow>
     covers_replay expected (rs_plan s) \<Longrightarrow> session_effects_ok s'"
proof (induction n arbitrary: s)
  case (Suc n)
  show ?case
  proof (cases "length (pl_inputs (rs_plan s)) \<le> rs_cursor s")
    case True
    then show ?thesis using Suc.prems by simp
  next
    case False
    obtain res1 s1 where step: "advance_step current model read s = (res1, s1)" by (cases "advance_step current model read s")
    have ok1: "session_effects_ok s1" "rs_plan s1 = rs_plan s"
      using advance_step_effects [OF Suc.prems(2,3) _ step] advance_step_frame [OF step] False by auto
    show ?thesis
    proof (cases res1)
      case (Inl e)
      then show ?thesis using Suc.prems(1) False step ok1 by simp
    next
      case (Inr u)
      then have "advance_loop current model read n s1 = (res, s')" using Suc.prems(1) False step by simp
      then show ?thesis using Suc.IH ok1 Suc.prems(3) by simp
    qed
  qed
qed simp

section \<open>Sessions and live timelines over time\<close>

text \<open>A session from its beginning through any calls, each with a head and a budget of its own.\<close>

inductive replay_run ::
  "('s, 'y) snapshot_store \<Rightarrow> ('s, 'i, 'e, 'm) model \<Rightarrow> ('i, 'x) input_store \<Rightarrow> nat \<Rightarrow> replay_plan \<Rightarrow>
     branch_reservation \<Rightarrow> ('s, 'e) replay_session \<Rightarrow> bool"
  for restore model read capacity pl r where
  first: "session_begin capacity pl r scratch restore limits = Inr s \<Longrightarrow>
    replay_run restore model read capacity pl r s"
| advance: "replay_run restore model read capacity pl r s \<Longrightarrow>
    session_advance current model read max_steps s = (res, s') \<Longrightarrow>
    replay_run restore model read capacity pl r s'"
| abort: "replay_run restore model read capacity pl r s \<Longrightarrow>
    replay_run restore model read capacity pl r (session_abort s)"

lemma session_begin_Inr:
  "session_begin capacity pl r scratch restore limits = Inr s \<Longrightarrow>
     rs_plan s = pl \<and> rs_reservation s = r \<and> rs_cursor s = 0 \<and> rs_effects s = fx_new capacity limits
     \<and> br_expected r = pl_expected pl \<and> ao_step (br_observation r) = corrected_step pl
     \<and> (rs_phase s = ReadyToValidate \<longrightarrow> pl_inputs pl = [])"
  by (auto simp: session_begin_def result_simps split: if_splits)

lemma session_advance_loop:
  assumes "session_advance current model read max_steps s = (res, s')"
  shows "\<exists>s2 ph. s' = s2\<lparr>rs_phase := ph\<rparr>
    \<and> (s2 = s \<or> (\<exists>res2. advance_loop current model read (unat max_steps) (s\<lparr>rs_phase := PhaseAborted\<rparr>) = (res2, s2)))
    \<and> (ph = ReadyToValidate \<longrightarrow> rs_cursor s2 = length (pl_inputs (rs_plan s2)) \<or> s' = s)"
proof (cases "rs_phase s = PhaseAborted")
  case True
  then have "s' = s\<lparr>rs_phase := PhaseAborted\<rparr>" using assms by (simp add: session_advance_def)
  then show ?thesis by blast
next
  case False
  let ?run = "advance_loop current model read (unat max_steps) (s\<lparr>rs_phase := PhaseAborted\<rparr>)"
  obtain res2 s2 where loop: "?run = (res2, s2)" by (cases ?run)
  have "s2 = s2\<lparr>rs_phase := PhaseAborted\<rparr>" using advance_loop_frame [OF loop] by simp
  then have aborted: "\<exists>ph. ph \<noteq> ReadyToValidate \<and> s2 = s2\<lparr>rs_phase := ph\<rparr>" by (metis replay_phase.distinct(5))
  have "\<exists>ph. (s' = s\<lparr>rs_phase := PhaseAborted\<rparr> \<or> s' = s2\<lparr>rs_phase := ph\<rparr>)
      \<and> (ph = ReadyToValidate \<longrightarrow> rs_cursor s2 = length (pl_inputs (rs_plan s2)))"
    using assms False loop
    by (auto simp: session_advance_def Let_def split: sum.splits if_splits) (use aborted in blast)
  then show ?thesis using loop by blast
qed

definition session_ok :: "replay_plan \<Rightarrow> branch_reservation \<Rightarrow> ('s, 'e) replay_session \<Rightarrow> bool" where
  "session_ok pl r s \<longleftrightarrow>
     rs_plan s = pl \<and> rs_reservation s = r \<and> session_effects_ok s \<and> rs_cursor s \<le> length (pl_inputs pl)
     \<and> br_expected r = pl_expected pl \<and> ao_step (br_observation r) = corrected_step pl
     \<and> (rs_phase s = ReadyToValidate \<longrightarrow> rs_cursor s = length (pl_inputs pl))"

lemma replay_run_ok:
  "replay_run restore model read capacity pl r s \<Longrightarrow> covers_replay expected pl \<Longrightarrow> session_ok pl r s"
proof (induction rule: replay_run.induct)
  case (first scratch limits s)
  note b = session_begin_Inr [OF first.hyps]
  have "session_effects_ok s" using fx_holds_new [of capacity limits] b by (auto simp: session_effects_ok_def intro!: exI [of _ "[]"])
  then show ?case using b by (auto simp: session_ok_def)
next
  case (advance s current max_steps res s')
  then have ok: "session_ok pl r s" by blast
  obtain s2 ph where s2: "s' = s2\<lparr>rs_phase := ph\<rparr>"
    "s2 = s \<or> (\<exists>res2. advance_loop current model read (unat max_steps) (s\<lparr>rs_phase := PhaseAborted\<rparr>) = (res2, s2))"
    "ph = ReadyToValidate \<longrightarrow> rs_cursor s2 = length (pl_inputs (rs_plan s2)) \<or> s' = s"
    using session_advance_loop [OF advance.hyps(2)] by blast
  have "session_effects_ok s" using ok by (simp add: session_ok_def)
  then have ok1: "session_effects_ok (s\<lparr>rs_phase := PhaseAborted\<rparr>)" by (simp add: session_effects_ok_def)
  have "session_ok pl r (s2\<lparr>rs_phase := Replaying\<rparr>)"
    using s2(2)
  proof
    assume "s2 = s"
    moreover have "session_effects_ok (s\<lparr>rs_phase := Replaying\<rparr>)" using ok1 by (simp add: session_effects_ok_def)
    ultimately show ?thesis using ok by (simp add: session_ok_def)
  next
    assume "\<exists>res2. advance_loop current model read (unat max_steps) (s\<lparr>rs_phase := PhaseAborted\<rparr>) = (res2, s2)"
    then obtain res2 where loop: "advance_loop current model read (unat max_steps) (s\<lparr>rs_phase := PhaseAborted\<rparr>) = (res2, s2)" ..
    show ?thesis
      using advance_loop_frame [OF loop] advance_loop_effects [OF loop ok1, of expected] ok advance.prems
      by (auto simp: session_ok_def session_effects_ok_def)
  qed
  then show ?case using s2(1,3) ok by (auto simp: session_ok_def session_effects_ok_def)
next
  case (abort s)
  then show ?case by (auto simp: session_ok_def session_abort_def session_effects_ok_def)
qed

text \<open>
  A live timeline from its creation through any accepted operations. A candidate for promotion
  comes out of a validated session for a prepared plan, an appended step out of
  \<open>prepare_live_step\<close>; a handoff takes effect whatever its outcome.
\<close>

inductive live_run ::
  "('s, 'y) snapshot_store \<Rightarrow> ('s, 'i, 'e, 'm) model \<Rightarrow> ('i, 'x) input_store \<Rightarrow> ('s, 'y) live_snapshot_store \<Rightarrow>
     ('h, 'e, 'z) handoff_adapter \<Rightarrow> nat \<Rightarrow> ('s, 'e) live_timeline \<Rightarrow> bool"
  for restore model read restore_current submit capacity where
  new: "live_run restore model read restore_current submit capacity (live_new sessions capacity head s limits)"
| reserve: "live_run restore model read restore_current submit capacity lv \<Longrightarrow>
    live_reserve lv pl obs = Inr (r, lv') \<Longrightarrow> live_run restore model read restore_current submit capacity lv'"
| abort: "live_run restore model read restore_current submit capacity lv \<Longrightarrow>
    live_abort lv r = Inr lv' \<Longrightarrow> live_run restore model read restore_current submit capacity lv'"
| observe: "live_run restore model read restore_current submit capacity lv \<Longrightarrow>
    live_observe lv expected obs = Inr (h, lv') \<Longrightarrow> live_run restore model read restore_current submit capacity lv'"
| finalize: "live_run restore model read restore_current submit capacity lv \<Longrightarrow>
    live_finalize_effects lv expected through = Inr (h, lv') \<Longrightarrow>
    live_run restore model read restore_current submit capacity lv'"
| promote: "live_run restore model read restore_current submit capacity lv \<Longrightarrow>
    plan_prepare expected revision corr inputs limits = Inr pl \<Longrightarrow>
    replay_run restore model read capacity pl r s \<Longrightarrow> session_validate current validator s = Inr c \<Longrightarrow>
    live_promote lv c = Inr (h, lv') \<Longrightarrow> live_run restore model read restore_current submit capacity lv'"
| append: "live_run restore model read restore_current submit capacity lv \<Longrightarrow>
    prepare_live_step capacity rq model read restore_current validator = Inr st \<Longrightarrow>
    live_append lv st = Inr (h, lv') \<Longrightarrow> live_run restore model read restore_current submit capacity lv'"
| handoff: "live_run restore model read restore_current submit capacity lv \<Longrightarrow>
    live_handoff submit n h lv = (res, h', lv') \<Longrightarrow> live_run restore model read restore_current submit capacity lv'"

text \<open>The buffer is well formed and holds effects of steps up to the head only.\<close>

definition live_inv :: "('s, 'e) live_timeline \<Rightarrow> bool" where
  "live_inv lv \<longleftrightarrow>
     fx_holds (lv_effects lv) (fx_iter (lv_effects lv))
     \<and> (\<forall>e\<in>set (fx_iter (lv_effects lv)). effect_step e \<le> th_step (tp_head (lv_projection lv)))"

lemma live_invI:
  "fx_holds (lv_effects lv) es \<Longrightarrow> \<forall>e\<in>set es. effect_step e \<le> th_step (tp_head (lv_projection lv)) \<Longrightarrow> live_inv lv"
  using fx_iter_holds by (fastforce simp: live_inv_def)

lemma live_inv_extends:
  "live_inv lv \<Longrightarrow> lv_effects lv' = lv_effects lv \<Longrightarrow>
     th_step (tp_head (lv_projection lv)) \<le> th_step (tp_head (lv_projection lv')) \<Longrightarrow> live_inv lv'"
  by (auto simp: live_inv_def intro: order_trans)

text \<open>What a validated session for a prepared plan is, and what its promotion does.\<close>

lemma validated_session:
  assumes plan: "plan_prepare expected revision corr inputs limits = Inr pl"
    and run: "replay_run restore model read capacity pl r s"
    and valid: "session_validate current validator s = Inr c"
  obtains head where "proposed_head r = Inr head" "validator (rs_state s) head = Inr ()"
    "c = \<lparr> rc_reservation = r, rc_replace_from = corrected_step pl, rc_state = rs_state s, rc_effects = rs_effects s \<rparr>"
    "rs_cursor s = length (pl_inputs pl)" "br_expected r = expected"
    "fx_holds (rs_effects s) (fx_iter (rs_effects s))"
    "\<forall>e\<in>set (fx_iter (rs_effects s)). corrected_step pl \<le> effect_step e \<and> effect_step e \<le> th_step expected"
proof -
  have cover: "covers_replay expected pl" by (rule prepared_covers_replay [OF plan])
  have ok: "session_ok pl r s" by (rule replay_run_ok [OF run cover])
  obtain head where head: "proposed_head r = Inr head" "validator (rs_state s) head = Inr ()"
    "c = \<lparr> rc_reservation = r, rc_replace_from = corrected_step pl, rc_state = rs_state s, rc_effects = rs_effects s \<rparr>"
    "rs_phase s = ReadyToValidate"
    using valid ok by (auto simp: session_validate_def session_ok_def result_simps split: if_splits)
  obtain es where es: "fx_holds (rs_effects s) es" "\<forall>e\<in>set es. \<exists>i\<in>set (replay_inputs pl). effect_step e = ir_step i"
    using ok by (auto simp: session_ok_def session_effects_ok_def)
  have "corrected_step pl \<le> ir_step i \<and> ir_step i \<le> th_step expected" if "i \<in> set (replay_inputs pl)" for i
  proof -
    have "(unat \<circ> ir_step) i \<in> set (map (unat \<circ> ir_step) (replay_inputs pl))" unfolding set_map by (rule imageI [OF that])
    also have "map (unat \<circ> ir_step) (replay_inputs pl) = [Suc (unat (sa_step (pl_anchor pl))) ..< Suc (unat (th_step expected))]"
      using cover by (simp add: covers_replay_def)
    finally have range: "unat (sa_step (pl_anchor pl)) < unat (ir_step i)" "unat (ir_step i) \<le> unat (th_step expected)"
      by auto
    have "unat (corrected_step pl) \<le> unat (sa_step (pl_anchor pl)) + 1"
      using plan by (auto simp: plan_prepare_eq_Inr plan_spec_def replacement_spec_def inputs_continue_def
          corrected_step_def split: prod.splits option.splits)
    then show ?thesis using range by (simp add: word_le_nat_alt)
  qed
  moreover have "fx_iter (rs_effects s) = es" by (rule fx_iter_holds [OF es(1)])
  moreover have "br_expected r = expected" using ok plan by (auto simp: session_ok_def plan_prepare_eq_Inr)
  ultimately have "\<forall>e\<in>set (fx_iter (rs_effects s)). corrected_step pl \<le> effect_step e \<and> effect_step e \<le> th_step expected"
    "br_expected r = expected" "fx_holds (rs_effects s) (fx_iter (rs_effects s))" using es by fastforce+
  then show thesis using that head ok by (auto simp: session_ok_def)
qed

lemma promoted:
  assumes inv: "live_inv lv" and plan: "plan_prepare expected revision corr inputs limits = Inr pl"
    and run: "replay_run restore model read capacity pl r s"
    and valid: "session_validate current validator s = Inr c" and prom: "live_promote lv c = Inr (h, lv')"
  shows "live_inv lv'" "tp_head (lv_projection lv') = h" "th_step h = th_step (tp_head (lv_projection lv))"
    "th_effect_finalized h = th_effect_finalized (tp_head (lv_projection lv))" "validator (rs_state s) h = Inr ()"
    "lv_state lv' = rs_state s" "rs_cursor s = length (pl_inputs pl)" "tp_head (lv_projection lv) = expected"
    "fx_iter (lv_effects lv') = fx_iter (rs_effects s)
       @ filter (\<lambda>e. effect_step e < corrected_step pl) (fx_iter (lv_effects lv))"
    "\<forall>e\<in>set (fx_iter (rs_effects s)). corrected_step pl \<le> effect_step e"
proof -
  from plan run valid obtain head where v: "proposed_head r = Inr head" "validator (rs_state s) head = Inr ()"
    "c = \<lparr> rc_reservation = r, rc_replace_from = corrected_step pl, rc_state = rs_state s, rc_effects = rs_effects s \<rparr>"
    "rs_cursor s = length (pl_inputs pl)" "br_expected r = expected"
    "fx_holds (rs_effects s) (fx_iter (rs_effects s))"
    "\<forall>e\<in>set (fx_iter (rs_effects s)). corrected_step pl \<le> effect_step e \<and> effect_step e \<le> th_step expected"
    by (rule validated_session)
  have old: "fx_holds (lv_effects lv) (fx_iter (lv_effects lv))" using inv by (simp add: live_inv_def)
  have new: "fx_holds (rc_effects c) (fx_iter (rs_effects s))" using v by simp
  note p = promote_holds [OF prom old new]
  have "tp_promote (lv_projection lv) r = Inr (h, lv_projection lv')" using p(3) v(3) by simp
  note t = tp_promote_Inr [OF this]
  show head: "tp_head (lv_projection lv') = h" by (rule t(4))
  show ex: "tp_head (lv_projection lv) = expected" using t(1) v(5) by simp
  show step: "th_step h = th_step (tp_head (lv_projection lv))"
    and "th_effect_finalized h = th_effect_finalized (tp_head (lv_projection lv))"
    using t(1,3) by (auto simp: proposed_head_def result_simps)
  show "validator (rs_state s) h = Inr ()" using v(1,2) t(3) by simp
  show "lv_state lv' = rs_state s" using p(2) v(3) by simp
  show "rs_cursor s = length (pl_inputs pl)" by (rule v(4))
  show "\<forall>e\<in>set (fx_iter (rs_effects s)). corrected_step pl \<le> effect_step e" using v(7) by blast
  show "fx_iter (lv_effects lv') = fx_iter (rs_effects s)
       @ filter (\<lambda>e. effect_step e < corrected_step pl) (fx_iter (lv_effects lv))"
    using fx_iter_holds [OF p(1)] v(3) by simp
  show "live_inv lv'"
    using p(1) v(7) inv head step ex by (intro live_invI [OF p(1)]) (auto simp: live_inv_def)
qed

lemma prepared_step_holds:
  assumes "prepare_live_step capacity rq model read restore_current validator = Inr st"
  shows "\<exists>ns. fx_holds (rd_effects st) ns \<and> (\<forall>e\<in>set ns. effect_step e = ir_step (rd_input st))"
proof -
  obtain head p scratch val where v: "tp_append (projection_of_head 0 (lr_expected rq)) (lr_expected rq) (lr_input rq) = Inr (head, p)"
    "restore_current (lr_expected rq) (lr_anchor rq) (lr_scratch rq) = Inr (lr_anchor rq, scratch)"
    "read (lr_input rq) = Inr (lr_input rq, val)" "sa_scope (lr_anchor rq) = th_scope (lr_expected rq)"
    "sa_branch (lr_anchor rq) = th_branch (lr_expected rq)" "sa_step (lr_anchor rq) = th_step (lr_expected rq)"
    using assms by (auto simp: prepare_live_step_def result_simps split: prod.splits if_splits)
  define ctx where "ctx = \<lparr> sc_revision = th_revision head, sc_scope = th_scope (lr_expected rq),
      sc_branch = th_branch (lr_expected rq), sc_step = ir_step (lr_input rq) \<rparr>"
  obtain r2 s2 sk where run:
    "run_computation (model scratch val ctx) (fx_sink (fx_new capacity (lr_limits rq)) ctx) = (r2, s2, sk)"
    by (cases "run_computation (model scratch val ctx) (fx_sink (fx_new capacity (lr_limits rq)) ctx)")
  have st: "rd_input st = lr_input rq" "rd_effects st = sk_effects sk"
    using assms unfolding prepare_live_step_def
    by (simp_all add: v ctx_def [symmetric] run Let_def) (auto simp: result_simps split: if_splits)
  have ctx: "sc_step ctx = ir_step (rd_input st)" by (simp add: ctx_def st)
  have "fx_holds (sk_effects (fx_sink (fx_new capacity (lr_limits rq)) ctx)) []"
    using fx_holds_new by (simp add: fx_sink_def)
  from run_computation_holds [OF this run] show ?thesis
    using ctx st(2) by (auto simp: fx_sink_def effect_step_def)
qed

lemma append_inv:
  assumes inv: "live_inv lv" and st: "prepare_live_step capacity rq model read restore_current validator = Inr st"
    and app: "live_append lv st = Inr (h, lv')"
  shows "live_inv lv'"
proof -
  obtain ns where ns: "fx_holds (rd_effects st) ns" "\<forall>e\<in>set ns. effect_step e = ir_step (rd_input st)"
    using prepared_step_holds [OF st] by blast
  have old: "fx_holds (lv_effects lv) (fx_iter (lv_effects lv))" using inv by (simp add: live_inv_def)
  note p = append_holds [OF app old ns(1)]
  have "th_step (tp_head (lv_projection lv)) \<le> th_step (tp_head (lv_projection lv'))"
    using append_extends [OF p(3)] by (auto simp: head_extends_def)
  moreover have "th_step (tp_head (lv_projection lv')) = ir_step (rd_input st)"
    using p(3) by (auto simp: tp_append_def result_simps Let_def split: if_splits dest!: arg_cong [where f = "th_step \<circ> tp_head"])
  ultimately show ?thesis
    using ns(2) inv by (intro live_invI [OF p(1)]) (auto simp: live_inv_def intro: order_trans)
qed

lemma handoff_inv:
  assumes inv: "live_inv lv" and run: "live_handoff submit n h lv = (res, h', lv')"
  shows "\<exists>rest. submit_all submit n 0 h (sort_key handoff_key (eligible_effects lv)) = (res, h', rest)
    \<and> mset (fx_iter (lv_effects lv')) = mset rest
        + mset (filter (\<lambda>e. \<not> finalized_through (th_effect_finalized (tp_head (lv_projection lv))) (effect_step e))
            (fx_iter (lv_effects lv)))
    \<and> lv_projection lv' = lv_projection lv \<and> lv_state lv' = lv_state lv" (is ?spec)
    and "live_inv lv'"
proof -
  have old: "fx_holds (lv_effects lv) (fx_iter (lv_effects lv))" using inv by (simp add: live_inv_def)
  from handoff_refines [OF old run refl] obtain rest es' where h:
    "submit_all submit n 0 h (sort_key handoff_key (eligible_effects lv)) = (res, h', rest)"
    "fx_holds (lv_effects lv') es'"
    "mset es' = mset rest
        + mset (filter (\<lambda>e. \<not> finalized_through (th_effect_finalized (tp_head (lv_projection lv))) (effect_step e))
            (fx_iter (lv_effects lv)))"
    "lv_projection lv' = lv_projection lv" "lv_state lv' = lv_state lv"
    unfolding eligible_def eligible_effects_def by blast
  then show ?spec using fx_iter_holds [OF h(2)] by auto
  have "set rest \<subseteq> set (eligible_effects lv)" using submit_all_rest [OF h(1)] by simp
  then have "set es' \<subseteq> set (fx_iter (lv_effects lv))"
    using arg_cong [OF h(3), of set_mset] by (auto simp: eligible_effects_def)
  then show "live_inv lv'" using inv h(4) by (intro live_invI [OF h(2)]) (auto simp: live_inv_def)
qed

lemma live_run_inv: "live_run restore model read restore_current submit capacity lv \<Longrightarrow> live_inv lv"
proof (induction rule: live_run.induct)
  case (new sessions head s limits)
  have "fx_holds (lv_effects (live_new sessions capacity head s limits)) []" using fx_holds_new by (simp add: live_new_def)
  then show ?case by (rule live_invI) simp
next
  case (reserve lv pl obs r lv')
  then show ?case
    using tp_reserve_Inr(7) by (fastforce simp: live_reserve_def result_simps intro: live_inv_extends)
next
  case (abort lv r lv')
  then show ?case using tp_abort_Inr(1) by (fastforce simp: live_abort_def result_simps intro: live_inv_extends)
next
  case (observe lv expected obs h lv')
  then show ?case
    using observe_extends by (fastforce simp: live_observe_def result_simps head_extends_def intro: live_inv_extends)
next
  case (finalize lv expected through h lv')
  then show ?case
    using finalize_extends by (fastforce simp: live_finalize_effects_def result_simps head_extends_def intro: live_inv_extends)
next
  case (promote lv expected revision corr inputs limits pl r s current validator c h lv')
  then show ?case using promoted(1) by blast
next
  case (append lv rq validator st h lv')
  then show ?case using append_inv by blast
next
  case (handoff lv n h res h' lv')
  show ?case by (rule handoff_inv(2) [OF handoff.IH handoff.hyps(2)])
qed

section \<open>A concrete live timeline\<close>

definition ex_step :: "(nat, nat, nat, unit) model" where
  "ex_step s v ctx = Stage (digest_fill 21) (digest_fill 22) 4 v (\<lambda>_. Finish (Inr ()) (s + v))"

definition ex_read :: "(nat, unit) input_store" where
  "ex_read r = Inr (r, 10)"

definition ex_restore :: "(nat, unit) snapshot_store" where
  "ex_restore anchor scratch = Inr (anchor, 100)"

definition ex_restore_current :: "(nat, unit) live_snapshot_store" where
  "ex_restore_current head anchor scratch = Inr (anchor, 100)"

definition ex_submit :: "(nat list, nat, unit) handoff_adapter" where
  "ex_submit log e = (Inr \<lparr> rx_descriptor = se_descriptor e, rx_durable_commit = digest_fill 5 \<rparr>, log @ [se_payload e])"

definition ex_validator :: "nat validator" where
  "ex_validator s h = (if s = 110 then Inr () else Inl ValidationFailed)"

definition ex_effect_limits :: effect_limits where
  "ex_effect_limits = \<lparr> el_max_intents = 2, el_max_payload_bytes = 64 \<rparr>"

definition ex_effect :: "nat staged_effect" where
  "ex_effect = \<lparr> se_descriptor = \<lparr> ed_origin = \<lparr> sc_revision = 8, sc_scope = ex_scope, sc_branch = 1, sc_step = 5 \<rparr>,
     ed_identity = digest_fill 21, ed_digest = digest_fill 22, ed_payload_bytes = 4 \<rparr>, se_payload = 10 \<rparr>"

definition ex_session :: "(nat, nat) replay_session" where
  "ex_session = \<lparr> rs_plan = ex_plan, rs_reservation = ex_reservation, rs_state = 100,
     rs_effects = fx_new 2 ex_effect_limits, rs_cursor = 0, rs_phase = Replaying \<rparr>"

definition ex_replayed :: "(nat, nat) replay_session" where
  "ex_replayed = \<lparr> rs_plan = ex_plan, rs_reservation = ex_reservation, rs_state = 110,
     rs_effects = \<lparr> fx_slots = [Some ex_effect, None], fx_len = 1, fx_bytes = 4, fx_limits = ex_effect_limits \<rparr>,
     rs_cursor = 1, rs_phase = ReadyToValidate \<rparr>"

definition ex_candidate :: "(nat, nat) ready_candidate" where
  "ex_candidate = \<lparr> rc_reservation = ex_reservation, rc_replace_from = 5, rc_state = 110,
     rc_effects = rs_effects ex_replayed \<rparr>"

definition ex_live :: "(nat, nat) live_timeline" where
  "ex_live = \<lparr> lv_projection = \<lparr> tp_head = ex_head, tp_last_branch = 1, tp_sessions = [Some ex_reservation, None] \<rparr>,
     lv_state = 90, lv_effects = fx_new 2 ex_effect_limits \<rparr>"

definition ex_live_promoted :: "(nat, nat) live_timeline" where
  "ex_live_promoted = \<lparr> lv_projection = \<lparr> tp_head = ex_promoted, tp_last_branch = 1, tp_sessions = [None, None] \<rparr>,
     lv_state = 110, lv_effects = rs_effects ex_replayed \<rparr>"

definition ex_final :: timeline_head where
  "ex_final = ex_promoted\<lparr>th_effect_finalized := Some 5, th_revision := 9\<rparr>"

definition ex_live_final :: "(nat, nat) live_timeline" where
  "ex_live_final = ex_live_promoted\<lparr>lv_projection :=
     \<lparr> tp_head = ex_final, tp_last_branch = 1, tp_sessions = [None, None] \<rparr>\<rparr>"

lemmas ex_live_defs = ex_session_def ex_replayed_def ex_candidate_def ex_live_def ex_live_promoted_def
  ex_final_def ex_live_final_def ex_effect_def ex_effect_limits_def

lemma ex_fx_new: "fx_new 2 limits = \<lparr> fx_slots = [None, None], fx_len = 0, fx_bytes = 0, fx_limits = limits \<rparr>"
  by (simp add: fx_new_def numeral_2_eq_2)

lemma ex_begun: "session_begin 2 ex_plan ex_reservation scratch ex_restore ex_effect_limits = Inr ex_session"
  by (simp add: session_begin_def ex_restore_def ex_session_def corrected_step_def corrected_digest_def ex_timeline_defs)

lemma ex_plan_facts:
  "length (pl_inputs ex_plan) = 1" "plan_input ex_plan 0 = Some (ex_input 5 2 11)"
  "plan_check_head ex_plan ex_head = Inr ()" "corrected_step ex_plan = 5"
  by (simp_all add: ex_plan_def plan_input_def plan_check_head_def corrected_step_def ex_input_def)

lemma ex_advance_step:
  "advance_step ex_head ex_step ex_read (ex_session\<lparr>rs_phase := ph\<rparr>) = (Inr (), ex_replayed\<lparr>rs_phase := ph\<rparr>)"
  by (simp add: advance_step_def ex_session_def ex_replayed_def ex_plan_facts ex_read_def ex_step_def
      checked_next_def checked_add_def Let_def fx_sink_def sink_stage_def fx_push_def fx_iter_def ex_fx_new
      effect_bytes_def ex_effect_limits_def ex_effect_def ex_head_def ex_input_def ex_reservation_def)

lemma ex_session_advanced:
  "session_advance ex_head ex_step ex_read 3 ex_session = (Inr ReadyToValidate, ex_replayed)"
  "session_advance ex_head ex_step ex_read 1 ex_session = (Inr ReadyToValidate, ex_replayed)"
proof -
  have loop: "advance_loop ex_head ex_step ex_read (Suc n) (ex_session\<lparr>rs_phase := PhaseAborted\<rparr>)
      = (Inr (), ex_replayed\<lparr>rs_phase := PhaseAborted\<rparr>)" for n
    using ex_advance_step [of PhaseAborted]
    by (cases n) (simp_all add: ex_session_def ex_replayed_def ex_plan_facts)
  show "session_advance ex_head ex_step ex_read 3 ex_session = (Inr ReadyToValidate, ex_replayed)"
    "session_advance ex_head ex_step ex_read 1 ex_session = (Inr ReadyToValidate, ex_replayed)"
    using loop [of 2] loop [of 0]
    by (simp_all add: session_advance_def Let_def ex_session_def ex_replayed_def ex_plan_facts)
qed

lemma ex_replay_run: "replay_run ex_restore ex_step ex_read 2 ex_plan ex_reservation ex_replayed"
  by (rule replay_run.advance [OF replay_run.first [OF ex_begun] ex_session_advanced(1)])

lemma ex_proposed: "proposed_head ex_reservation = Inr ex_promoted"
  by (simp add: proposed_head_def checked_next_def checked_add_def ex_reservation_def ex_promoted_def ex_head_def)

lemma ex_validated: "session_validate ex_head ex_validator ex_replayed = Inr ex_candidate"
  by (simp add: session_validate_def ex_replayed_def ex_candidate_def ex_plan_facts ex_proposed ex_validator_def)

lemma ex_live_run: "live_run ex_restore ex_step ex_read ex_restore_current ex_submit 2 ex_live"
proof -
  have "live_reserve (live_new 2 2 ex_head 90 ex_effect_limits) ex_plan ex_observation = Inr (ex_reservation, ex_live)"
    using ex_reserved by (simp add: live_reserve_def live_new_def ex_live_def)
  then show ?thesis by (rule live_run.reserve [OF live_run.new])
qed

lemma ex_live_promote: "live_promote ex_live ex_candidate = Inr (ex_promoted, ex_live_promoted)"
proof -
  have "promotion_head (lv_projection ex_live) ex_reservation = Inr ex_promoted"
    by (simp add: ex_live_def promotion_head_def check_reservation_def tp_check_head_def ex_proposed ex_reservation_def [THEN arg_cong [where f = br_expected]])
  moreover have "tp_promote (lv_projection ex_live) ex_reservation = Inr (ex_promoted, lv_projection ex_live_promoted)"
    using ex_promote by (simp add: ex_live_def ex_live_promoted_def)
  ultimately show ?thesis
    by (simp add: live_promote_def Let_def ex_candidate_def ex_replayed_def ex_live_def ex_live_promoted_def
        fx_iter_def ex_fx_new ex_effect_limits_def)
qed

lemma ex_live_final_run: "live_run ex_restore ex_step ex_read ex_restore_current ex_submit 2 ex_live_final"
proof -
  have promoted: "live_run ex_restore ex_step ex_read ex_restore_current ex_submit 2 ex_live_promoted"
    by (rule live_run.promote [OF ex_live_run ex_plan_prepared ex_replay_run ex_validated ex_live_promote])
  have "live_finalize_effects ex_live_promoted ex_promoted 5 = Inr (ex_final, ex_live_final)"
    by (simp add: live_finalize_effects_def tp_finalize_effects_def tp_check_head_def finalized_through_def
        checked_next_def checked_add_def Let_def ex_live_promoted_def ex_live_final_def ex_final_def ex_promoted_def ex_head_def)
  from live_run.finalize [OF promoted this] show ?thesis .
qed

lemma ex_handoff_one:
  "scan_index (Some 5) (rs_effects ex_replayed) = Some 0"
  "scan_index (Some 5) (fx_new 2 ex_effect_limits) = None"
  "handoff_one ex_submit 0 [] (rs_effects ex_replayed) = (Inr (), [10], fx_new 2 ex_effect_limits)"
  by (simp_all add: scan_index_def is_eligible_def finalized_through_def effect_step_def ex_effect_def handoff_one_def
      ex_submit_def effect_bytes_def checked_sub_def swap_slots_def ex_fx_new ex_replayed_def Let_def)

lemma ex_handoff:
  "live_handoff ex_submit (Suc (Suc 0)) [] ex_live_final =
     (Inr 1, [10], ex_live_final\<lparr>lv_effects := fx_new 2 ex_effect_limits\<rparr>)"
proof -
  have "th_effect_finalized (tp_head (lv_projection ex_live_final)) = Some 5" "lv_effects ex_live_final = rs_effects ex_replayed"
    "fx_len (rs_effects ex_replayed) = 1"
    by (simp_all add: ex_live_final_def ex_final_def ex_live_promoted_def ex_replayed_def)
  then show ?thesis by (simp add: live_handoff_def Let_def ex_handoff_one)
qed

section \<open>Claims\<close>

text \<open>
  C22. Replay is independent of how it is sliced: advancing a session by some steps and then by some
  more has the outcome of advancing it by the sum in one call, down to the error, the state, the
  staged effects and the phase; and a budget that covers the remaining inputs leaves the session
  ready to validate unless a step fails.
\<close>
theorem replay_is_slice_independent:
  assumes "unat m + unat n = unat k"
  shows "(case session_advance current model read m s of
       (Inl e, s1) \<Rightarrow> session_advance current model read k s = (Inl e, s1)
     | (Inr _, s1) \<Rightarrow> session_advance current model read n s1 = session_advance current model read k s)
    \<and> (rs_cursor s \<le> length (pl_inputs (rs_plan s)) \<and> length (pl_inputs (rs_plan s)) \<le> rs_cursor s + unat k \<longrightarrow>
         (case session_advance current model read k s of (Inl _, _) \<Rightarrow> True | (Inr ph, s1) \<Rightarrow>
            ph = ReadyToValidate \<and> rs_phase s1 = ReadyToValidate \<and> rs_cursor s1 = length (pl_inputs (rs_plan s))))"
proof
  let ?s = "s\<lparr>rs_phase := PhaseAborted\<rparr>"
  obtain res1 s1 where first: "advance_loop current model read (unat m) ?s = (res1, s1)"
    by (cases "advance_loop current model read (unat m) ?s")
  have s1: "rs_plan s1 = rs_plan s" "s1\<lparr>rs_phase := PhaseAborted\<rparr> = s1"
    using advance_loop_frame [OF first] by simp_all
  have whole: "advance_loop current model read (unat k) ?s =
      (case res1 of Inl e \<Rightarrow> (Inl e, s1) | Inr _ \<Rightarrow> advance_loop current model read (unat n) s1)"
    using advance_loop_plus [of current model read "unat m" "unat n" ?s] first assms by (simp split: sum.splits)
  show "case session_advance current model read m s of
       (Inl e, s1) \<Rightarrow> session_advance current model read k s = (Inl e, s1)
     | (Inr _, s1) \<Rightarrow> session_advance current model read n s1 = session_advance current model read k s"
  proof (cases "rs_phase s = PhaseAborted \<or> (\<exists>e. plan_check_head (rs_plan s) current = Inl e)")
    case True
    then show ?thesis by (auto simp: session_advance_def)
  next
    case False
    then have live: "rs_phase s \<noteq> PhaseAborted" "plan_check_head (rs_plan s) current = Inr ()"
      by (cases "plan_check_head (rs_plan s) current", auto)+
    show ?thesis
    proof (cases res1)
      case (Inl e)
      then show ?thesis using live first whole by (simp add: session_advance_def)
    next
      case (Inr u)
      define ph where "ph = (if rs_cursor s1 = length (pl_inputs (rs_plan s1)) then ReadyToValidate else Replaying)"
      have "session_advance current model read m s = (Inr ph, s1\<lparr>rs_phase := ph\<rparr>)" "ph \<noteq> PhaseAborted"
        using live first Inr by (simp_all add: session_advance_def ph_def)
      moreover have "session_advance current model read n (s1\<lparr>rs_phase := ph\<rparr>) = session_advance current model read k s"
        using live whole s1 Inr \<open>ph \<noteq> PhaseAborted\<close> by (simp add: session_advance_def)
      ultimately show ?thesis by simp
    qed
  qed
  obtain res2 s2 where run: "advance_loop current model read (unat k) ?s = (res2, s2)"
    by (cases "advance_loop current model read (unat k) ?s")
  show "rs_cursor s \<le> length (pl_inputs (rs_plan s)) \<and> length (pl_inputs (rs_plan s)) \<le> rs_cursor s + unat k \<longrightarrow>
         (case session_advance current model read k s of (Inl _, _) \<Rightarrow> True | (Inr ph, s1) \<Rightarrow>
            ph = ReadyToValidate \<and> rs_phase s1 = ReadyToValidate \<and> rs_cursor s1 = length (pl_inputs (rs_plan s)))"
    using advance_loop_frame [OF run] run by (auto simp: session_advance_def Let_def split: sum.splits)
qed

theorem replay_is_slice_independent_witness:
  "session_advance ex_head ex_step ex_read 2 ex_replayed = (Inr ReadyToValidate, ex_replayed)"
  using replay_is_slice_independent [of 1 2 3 ex_head ex_step ex_read ex_session] ex_session_advanced by simp

text \<open>
  C20. Publishing a correction is atomic and never loses or replaces a finalized effect. In any reachable
  live timeline, promoting the validated candidate of a prepared plan's session installs exactly the
  state the validator accepted for the new head, after all of the plan's inputs were replayed; the
  plan was prepared for the head it replaces; the effects of the corrected and later steps are
  exactly those of the replay, those of earlier steps are kept, and the effects eligible for handoff
  are the same list as before.
\<close>
theorem promotion_keeps_finalized_effects:
  fixes lv :: "('s, 'e) live_timeline"
  assumes "live_run restore model read restore_current submit capacity lv"
    and "plan_prepare expected revision corr inputs limits = Inr pl"
    and "replay_run restore model read capacity pl r s"
    and "session_validate current validator s = Inr c" and "live_promote lv c = Inr (h, lv')"
  shows "live_read lv' = (h, rs_state s) \<and> validator (rs_state s) h = Inr () \<and> rs_cursor s = length (pl_inputs pl)
    \<and> tp_head (lv_projection lv) = expected
    \<and> fx_iter (lv_effects lv') = fx_iter (rs_effects s)
        @ filter (\<lambda>e. effect_step e < corrected_step pl) (fx_iter (lv_effects lv))
    \<and> (\<forall>e\<in>set (fx_iter (rs_effects s)). corrected_step pl \<le> effect_step e)
    \<and> eligible_effects lv' = eligible_effects lv"
proof -
  note p = promoted [OF live_run_inv [OF assms(1)] assms(2-5)]
  let ?final = "finalized_through (th_effect_finalized expected)"
  have early: "effect_step e < corrected_step pl" if "?final (effect_step e)" for e :: "'e staged_effect"
    using corrected_not_final [OF assms(2)] that by (auto simp: finalized_through_def split: option.splits)
  then have "filter (\<lambda>e. ?final (effect_step e)) (fx_iter (rs_effects s)) = []"
    using p(10) by (force simp: filter_empty_conv dest: leD)
  moreover have "filter (\<lambda>e. effect_step e < corrected_step pl \<and> ?final (effect_step e)) es = filter (\<lambda>e. ?final (effect_step e)) es"
    for es :: "'e staged_effect list" using early by (auto intro: filter_cong)
  ultimately have "eligible_effects lv' = eligible_effects lv"
    using p(2,4,8,9) by (simp add: eligible_effects_def conj_commute)
  then show ?thesis using p by (simp add: live_read_def)
qed

theorem promotion_keeps_finalized_effects_witness:
  "live_read ex_live_promoted = (ex_promoted, 110) \<and> fx_iter (lv_effects ex_live_promoted) = [ex_effect]
   \<and> eligible_effects ex_live_promoted = eligible_effects ex_live"
  using promotion_keeps_finalized_effects [OF ex_live_run ex_plan_prepared ex_replay_run ex_validated ex_live_promote]
  by (simp add: ex_replayed_def ex_live_def fx_iter_def fx_new_def)

text \<open>
  C21. The handoff refines its specification: whichever way it selects the next slot, it submits the
  eligible effects in order of logical step and identity, at most the requested number, stops at
  the first refusal or mismatched receipt, and keeps exactly the effects that were not admitted;
  head and state are unchanged.
\<close>
theorem handoff_submits_finalized_in_order:
  assumes "live_run restore model read restore_current submit capacity lv"
    and "live_handoff submit n h lv = (res, h', lv')"
  shows "\<exists>rest. submit_all submit n 0 h (sort_key handoff_key (eligible_effects lv)) = (res, h', rest)
    \<and> mset (fx_iter (lv_effects lv')) = mset rest
        + mset (filter (\<lambda>e. \<not> finalized_through (th_effect_finalized (tp_head (lv_projection lv))) (effect_step e))
            (fx_iter (lv_effects lv)))
    \<and> live_read lv' = live_read lv"
  using handoff_inv(1) [OF live_run_inv [OF assms(1)] assms(2)] by (auto simp: live_read_def)

theorem handoff_submits_finalized_in_order_witness:
  "\<exists>rest. submit_all ex_submit (Suc (Suc 0)) 0 [] (sort_key handoff_key (eligible_effects ex_live_final)) = (Inr 1, [10], rest)"
  using handoff_submits_finalized_in_order [OF ex_live_final_run ex_handoff] by blast

end
