(* ===== verification/Timeline_History.thy ===== *)
theory Timeline_History
  imports Timeline_Live
begin

text \<open>
  The bounded history store of \<open>penelope-timeline/src/history.rs\<close>: inputs, complete snapshots and
  branch lineage in slots of fixed number. The consumer's payload types enter through their
  \<open>HistoryPayload\<close> operations and their \<open>Clone\<close> functions, which are arguments. A machine word
  of the host is taken to hold 64 bits, so that \<open>usize::try_from\<close> of a \<open>u64\<close> succeeds; slot
  positions are natural numbers. Operations that may fail after a partial change
  (\<open>expire_before\<close>, \<open>retire_branch\<close>) return their result together with the new store.
\<close>

section \<open>Data\<close>

record 'p history_payload =
  payload_digest :: "'p \<Rightarrow> digest"
  payload_len :: "'p \<Rightarrow> u64"

record history_limits =
  hl_max_input_bytes :: u64
  hl_max_snapshot_bytes :: u64
  hl_max_total_bytes :: u64

record 'i stored_input =
  in_record :: input_record
  in_payload :: 'i
  in_bytes :: u64
  in_canonical :: bool

record 's stored_anchor =
  an_anchor :: state_anchor
  an_state :: 's
  an_bytes :: u64
  an_canonical :: bool

record lineage =
  ln_branch :: timeline_branch_id
  ln_parent :: "timeline_branch_id option"
  ln_inherited_through :: timeline_step
  ln_admitted_through :: timeline_step
  ln_state_changed_from :: timeline_step
  ln_input_override :: "input_record option"
  ln_state_override :: "state_anchor option"

record ('s, 'i) fixed_history =
  fh_scope :: timeline_scope
  fh_inputs :: "'i stored_input option list"
  fh_anchors :: "'s stored_anchor option list"
  fh_branches :: "lineage option list"
  fh_floor :: timeline_step
  fh_last_branch :: timeline_branch_id
  fh_bytes :: u64
  fh_limits :: history_limits

text \<open>The consumer's payload operations for states and inputs.\<close>

record ('s, 'i) payloads =
  of_state :: "'s history_payload"
  of_input :: "'i history_payload"

definition input_count :: "('s, 'i) fixed_history \<Rightarrow> nat" where
  "input_count h = length (somes (fh_inputs h))"

definition anchor_count :: "('s, 'i) fixed_history \<Rightarrow> nat" where
  "anchor_count h = length (somes (fh_anchors h))"

definition branch_count :: "('s, 'i) fixed_history \<Rightarrow> nat" where
  "branch_count h = length (somes (fh_branches h))"

section \<open>Checks and lookups\<close>

definition hist_check_scope :: "('s, 'i) fixed_history \<Rightarrow> timeline_scope \<Rightarrow> timeline_error + unit" where
  "hist_check_scope h scope = (if scope \<noteq> fh_scope h then Inl TlScopeMismatch else Inr ())"

definition hist_lineage :: "('s, 'i) fixed_history \<Rightarrow> timeline_branch_id \<Rightarrow> timeline_error + lineage" where
  "hist_lineage h branch = ok_or HistoryUnavailable (find (\<lambda>l. ln_branch l = branch) (somes (fh_branches h)))"

definition check_payload :: "'p history_payload \<Rightarrow> 'p \<Rightarrow> digest \<Rightarrow> u64 \<Rightarrow> timeline_error + u64" where
  "check_payload ops payload digest limit =
     (let bytes = payload_len ops payload in
      if limit < bytes then Inl Capacity
      else if payload_digest ops payload \<noteq> digest then Inl InputMismatch
      else Inr bytes)"

definition verify_input :: "('s, 'i) payloads \<Rightarrow> ('s, 'i) fixed_history \<Rightarrow> 'i stored_input \<Rightarrow> timeline_error + unit" where
  "verify_input ops h e =
     bindR (check_payload (of_input ops) (in_payload e) (ir_digest (in_record e)) (hl_max_input_bytes (fh_limits h)))
       (\<lambda>bytes. if bytes \<noteq> in_bytes e then Inl InputMismatch else Inr ())"

definition verify_anchor :: "('s, 'i) payloads \<Rightarrow> ('s, 'i) fixed_history \<Rightarrow> 's stored_anchor \<Rightarrow> timeline_error + unit" where
  "verify_anchor ops h e =
     bindR (check_payload (of_state ops) (an_state e) (sa_digest (an_anchor e)) (hl_max_snapshot_bytes (fh_limits h)))
       (\<lambda>bytes. if bytes \<noteq> an_bytes e then Inl InputMismatch else Inr ())"

definition input_slot_hint :: "('s, 'i) fixed_history \<Rightarrow> timeline_step \<Rightarrow> 'i stored_input option" where
  "input_slot_hint h step =
     Option.bind (checked_sub step (fh_floor h)) (\<lambda>offset.
     Option.bind (checked_sub offset 1) (\<lambda>index.
       if unat index < length (fh_inputs h) then fh_inputs h ! unat index else None))"

text \<open>\<open>Option::filter\<close> and \<open>Option::or_else\<close>\<close>

definition filter_option :: "('a \<Rightarrow> bool) \<Rightarrow> 'a option \<Rightarrow> 'a option" where
  "filter_option P x = (case x of None \<Rightarrow> None | Some y \<Rightarrow> if P y then Some y else None)"

definition or_else :: "'a option \<Rightarrow> 'a option \<Rightarrow> 'a option" where
  "or_else x y = (case x of None \<Rightarrow> y | Some _ \<Rightarrow> x)"

definition exact_input ::
  "('s, 'i) payloads \<Rightarrow> ('s, 'i) fixed_history \<Rightarrow> input_record \<Rightarrow> timeline_error + 'i stored_input" where
  "exact_input ops h r =
     bindR (hist_check_scope h (ir_scope r)) (\<lambda>_.
       if ir_step r \<le> fh_floor h then Inl HistoryUnavailable
       else bindR (ok_or HistoryUnavailable
              (or_else (filter_option (\<lambda>e. in_record e = r) (input_slot_hint h (ir_step r)))
                 (find (\<lambda>e. ir_step (in_record e) = ir_step r \<and> in_record e = r) (somes (fh_inputs h)))))
            (\<lambda>e. bindR (verify_input ops h e) (\<lambda>_. Inr e)))"

definition exact_anchor ::
  "('s, 'i) payloads \<Rightarrow> ('s, 'i) fixed_history \<Rightarrow> state_anchor \<Rightarrow> timeline_error + 's stored_anchor" where
  "exact_anchor ops h a =
     bindR (hist_check_scope h (sa_scope a)) (\<lambda>_.
       if sa_step a < fh_floor h then Inl HistoryUnavailable
       else bindR (ok_or HistoryUnavailable
              (find (\<lambda>e. sa_step (an_anchor e) = sa_step a \<and> an_anchor e = a) (somes (fh_anchors h))))
            (\<lambda>e. bindR (verify_anchor ops h e) (\<lambda>_. Inr e)))"

definition canonical_input :: "timeline_branch_id \<Rightarrow> timeline_step \<Rightarrow> 'i stored_input \<Rightarrow> bool" where
  "canonical_input branch step e \<longleftrightarrow>
     ir_step (in_record e) = step \<and> ir_branch (in_record e) = branch \<and> in_canonical e"

text \<open>\<open>for _depth in 0..BRANCHES\<close>, walking from a branch to its ancestors.\<close>

primrec resolve_input_loop ::
  "('s, 'i) payloads \<Rightarrow> ('s, 'i) fixed_history \<Rightarrow> timeline_step \<Rightarrow> nat \<Rightarrow> timeline_branch_id \<Rightarrow>
     timeline_error + 'i stored_input" where
  "resolve_input_loop ops h step 0 branch = Inl HistoryUnavailable"
| "resolve_input_loop ops h step (Suc depth) branch =
     bindR (hist_lineage h branch) (\<lambda>l.
       if ln_admitted_through l < step then Inl HistoryUnavailable
       else case or_else (filter_option (canonical_input branch step) (input_slot_hint h step))
                   (if ln_parent l \<noteq> None \<and> step \<le> ln_inherited_through l then None
                    else find (canonical_input branch step) (somes (fh_inputs h))) of
              Some e \<Rightarrow> bindR (verify_input ops h e) (\<lambda>_. Inr e)
            | None \<Rightarrow>
                (case filter_option (\<lambda>r. ir_step r = step) (ln_input_override l) of
                   Some r \<Rightarrow> exact_input ops h r
                 | None \<Rightarrow>
                     if ln_inherited_through l < step then Inl HistoryUnavailable
                     else bindR (ok_or HistoryUnavailable (ln_parent l)) (resolve_input_loop ops h step depth)))"

definition resolve_input ::
  "('s, 'i) payloads \<Rightarrow> ('s, 'i) fixed_history \<Rightarrow> timeline_branch_id \<Rightarrow> timeline_step \<Rightarrow>
     timeline_error + 'i stored_input" where
  "resolve_input ops h branch step =
     (if step \<le> fh_floor h then Inl HistoryUnavailable
      else resolve_input_loop ops h step (length (fh_branches h)) branch)"

definition canonical_anchor :: "timeline_branch_id \<Rightarrow> timeline_step \<Rightarrow> 's stored_anchor \<Rightarrow> bool" where
  "canonical_anchor branch step e \<longleftrightarrow>
     sa_step (an_anchor e) = step \<and> sa_branch (an_anchor e) = branch \<and> an_canonical e"

primrec resolve_anchor_loop ::
  "('s, 'i) payloads \<Rightarrow> ('s, 'i) fixed_history \<Rightarrow> timeline_step \<Rightarrow> nat \<Rightarrow> timeline_branch_id \<Rightarrow>
     timeline_error + 's stored_anchor" where
  "resolve_anchor_loop ops h step 0 branch = Inl HistoryUnavailable"
| "resolve_anchor_loop ops h step (Suc depth) branch =
     bindR (hist_lineage h branch) (\<lambda>l.
       if ln_admitted_through l < step then Inl HistoryUnavailable
       else case find (canonical_anchor branch step) (somes (fh_anchors h)) of
              Some e \<Rightarrow> bindR (verify_anchor ops h e) (\<lambda>_. Inr e)
            | None \<Rightarrow>
                (case filter_option (\<lambda>a. sa_step a = step) (ln_state_override l) of
                   Some a \<Rightarrow> exact_anchor ops h a
                 | None \<Rightarrow>
                     if ln_state_changed_from l \<le> step then Inl HistoryUnavailable
                     else bindR (ok_or HistoryUnavailable (ln_parent l)) (resolve_anchor_loop ops h step depth)))"

definition resolve_anchor ::
  "('s, 'i) payloads \<Rightarrow> ('s, 'i) fixed_history \<Rightarrow> timeline_branch_id \<Rightarrow> timeline_step \<Rightarrow>
     timeline_error + 's stored_anchor" where
  "resolve_anchor ops h branch step =
     (if step < fh_floor h then Inl HistoryUnavailable
      else resolve_anchor_loop ops h step (length (fh_branches h)) branch)"

definition source_input ::
  "('s, 'i) payloads \<Rightarrow> ('s, 'i) fixed_history \<Rightarrow> input_record \<Rightarrow> timeline_error + 'i stored_input" where
  "source_input ops h r =
     bindR (hist_check_scope h (ir_scope r)) (\<lambda>_.
     bindR (resolve_input ops h (ir_branch r) (ir_step r)) (\<lambda>source.
       if (in_record source)\<lparr>ir_branch := ir_branch r\<rparr> \<noteq> r then Inl InputMismatch else Inr source))"

definition input_at ::
  "('s, 'i) payloads \<Rightarrow> ('s, 'i) fixed_history \<Rightarrow> timeline_branch_id \<Rightarrow> timeline_step \<Rightarrow>
     timeline_error + input_record" where
  "input_at ops h branch step =
     bindR (resolve_input ops h branch step) (\<lambda>e. Inr ((in_record e)\<lparr>ir_branch := branch\<rparr>))"

definition snapshot_at ::
  "('s, 'i) payloads \<Rightarrow> ('s, 'i) fixed_history \<Rightarrow> timeline_branch_id \<Rightarrow> timeline_step \<Rightarrow>
     timeline_error + state_anchor" where
  "snapshot_at ops h branch step =
     bindR (resolve_anchor ops h branch step) (\<lambda>e. Inr ((an_anchor e)\<lparr>sa_branch := branch\<rparr>))"

section \<open>Admission\<close>

definition first_vacant :: "'a \<Rightarrow> 'a option list \<Rightarrow> timeline_error + 'a option list" where
  "first_vacant x slots = ok_or Capacity (replace_first (\<lambda>slot. slot = None) (Some x) slots)"

definition charge :: "('s, 'i) fixed_history \<Rightarrow> u64 \<Rightarrow> timeline_error + u64" where
  "charge h bytes =
     bindR (ok_or Capacity (checked_add (fh_bytes h) bytes)) (\<lambda>total.
       if hl_max_total_bytes (fh_limits h) < total then Inl Capacity else Inr total)"

definition holds_branch :: "timeline_branch_id \<Rightarrow> lineage option \<Rightarrow> bool" where
  "holds_branch branch slot = (case slot of None \<Rightarrow> False | Some l \<Rightarrow> ln_branch l = branch)"

definition admit_through :: "timeline_branch_id \<Rightarrow> timeline_step \<Rightarrow> lineage option list \<Rightarrow> lineage option list option" where
  "admit_through branch step slots =
     (case find (holds_branch branch) slots of
        None \<Rightarrow> None | Some None \<Rightarrow> None
      | Some (Some l) \<Rightarrow>
          replace_first (holds_branch branch)
            (Some (l\<lparr>ln_admitted_through := step\<rparr>)) slots)"

definition append_input ::
  "('s, 'i) payloads \<Rightarrow> ('s, 'i) fixed_history \<Rightarrow> input_record \<Rightarrow> 'i \<Rightarrow> timeline_error + ('s, 'i) fixed_history" where
  "append_input ops h r payload =
     bindR (hist_check_scope h (ir_scope r)) (\<lambda>_.
     bindR (hist_lineage h (ir_branch r)) (\<lambda>l.
       if ir_step r \<le> fh_floor h then Inl HistoryUnavailable
       else if ir_step r \<le> ln_admitted_through l
       then bindR (source_input ops h r) (\<lambda>original.
              if payload_digest (of_input ops) payload = ir_digest r
                 \<and> payload_len (of_input ops) payload = in_bytes original
              then Inr h else Inl InputMismatch)
       else bindR (ok_or CounterExhausted (checked_next (ln_admitted_through l))) (\<lambda>next_step.
         if ir_step r \<noteq> next_step then Inl InputMismatch
         else bindR (check_payload (of_input ops) payload (ir_digest r) (hl_max_input_bytes (fh_limits h))) (\<lambda>bytes.
              bindR (charge h bytes) (\<lambda>total.
              bindR (ok_or HistoryUnavailable (admit_through (ir_branch r) (ir_step r) (fh_branches h))) (\<lambda>branches.
              bindR (first_vacant \<lparr> in_record = r, in_payload = payload, in_bytes = bytes, in_canonical = True \<rparr>
                       (fh_inputs h)) (\<lambda>inputs.
                Inr (h\<lparr>fh_inputs := inputs, fh_branches := branches, fh_bytes := total\<rparr>))))))))"

definition import_input ::
  "('s, 'i) payloads \<Rightarrow> ('s, 'i) fixed_history \<Rightarrow> input_record \<Rightarrow> 'i \<Rightarrow> timeline_error + ('s, 'i) fixed_history" where
  "import_input ops h r payload =
     bindR (hist_check_scope h (ir_scope r)) (\<lambda>_.
     bindR (hist_lineage h (ir_branch r)) (\<lambda>l.
       if ir_step r \<le> fh_floor h \<or> ln_admitted_through l < ir_step r then Inl HistoryUnavailable
       else bindR (check_payload (of_input ops) payload (ir_digest r) (hl_max_input_bytes (fh_limits h))) (\<lambda>bytes.
         case find (\<lambda>e. ir_branch (in_record e) = ir_branch r \<and> ir_step (in_record e) = ir_step r
                     \<and> ir_revision (in_record e) = ir_revision r) (somes (fh_inputs h)) of
           Some old \<Rightarrow> if in_record old = r \<and> in_bytes old = bytes then Inr h else Inl InputMismatch
         | None \<Rightarrow>
             bindR (charge h bytes) (\<lambda>total.
             bindR (first_vacant \<lparr> in_record = r, in_payload = payload, in_bytes = bytes, in_canonical = False \<rparr>
                      (fh_inputs h)) (\<lambda>inputs.
               Inr (h\<lparr>fh_inputs := inputs, fh_bytes := total\<rparr>))))))"

definition check_anchor_admission ::
  "('s, 'i) payloads \<Rightarrow> ('s, 'i) fixed_history \<Rightarrow> state_anchor \<Rightarrow> 's \<Rightarrow> bool \<Rightarrow>
     timeline_error + (u64 \<times> u64) option" where
  "check_anchor_admission ops h a s canonical =
     bindR (hist_check_scope h (sa_scope a)) (\<lambda>_.
     bindR (hist_lineage h (sa_branch a)) (\<lambda>l.
       if sa_step a < fh_floor h \<or> ln_admitted_through l < sa_step a then Inl HistoryUnavailable
       else bindR (check_payload (of_state ops) s (sa_digest a) (hl_max_snapshot_bytes (fh_limits h))) (\<lambda>bytes.
         case find (\<lambda>e. an_anchor e = a) (somes (fh_anchors h)) of
           Some old \<Rightarrow> if an_bytes old = bytes \<and> (\<not> canonical \<or> an_canonical old) then Inr None else Inl InputMismatch
         | None \<Rightarrow>
             if canonical \<and> list_ex (canonical_anchor (sa_branch a) (sa_step a)) (somes (fh_anchors h))
             then Inl InputMismatch
             else bindR (charge h bytes) (\<lambda>total.
               if list_all (\<lambda>slot. slot \<noteq> None) (fh_anchors h) then Inl Capacity
               else Inr (Some (bytes, total))))))"

definition insert_anchor ::
  "('s, 'i) payloads \<Rightarrow> ('s, 'i) fixed_history \<Rightarrow> state_anchor \<Rightarrow> 's \<Rightarrow> bool \<Rightarrow>
     timeline_error + ('s, 'i) fixed_history" where
  "insert_anchor ops h a s canonical =
     bindR (check_anchor_admission ops h a s canonical) (\<lambda>admission.
       case admission of
         None \<Rightarrow> Inr h
       | Some (bytes, charged) \<Rightarrow>
           bindR (first_vacant \<lparr> an_anchor = a, an_state = s, an_bytes = bytes, an_canonical = canonical \<rparr>
                    (fh_anchors h)) (\<lambda>anchors.
             Inr (h\<lparr>fh_anchors := anchors, fh_bytes := charged\<rparr>)))"

definition import_anchor ::
  "('s, 'i) payloads \<Rightarrow> ('s, 'i) fixed_history \<Rightarrow> state_anchor \<Rightarrow> 's \<Rightarrow> timeline_error + ('s, 'i) fixed_history" where
  "import_anchor ops h a s = insert_anchor ops h a s False"

definition insert_snapshot ::
  "('s, 'i) payloads \<Rightarrow> ('s, 'i) fixed_history \<Rightarrow> state_anchor \<Rightarrow> 's \<Rightarrow> timeline_error + ('s, 'i) fixed_history" where
  "insert_snapshot ops h a s = insert_anchor ops h a s True"

definition hist_capture ::
  "('s, 'i) payloads \<Rightarrow> ('s \<Rightarrow> 's) \<Rightarrow> ('s, 'i) fixed_history \<Rightarrow> state_anchor \<Rightarrow> 's \<Rightarrow>
     timeline_error + ('s, 'i) fixed_history" where
  "hist_capture ops clone h a s =
     bindR (check_anchor_admission ops h a s True) (\<lambda>admission.
       case admission of None \<Rightarrow> Inr h | Some _ \<Rightarrow> insert_snapshot ops h a (clone s))"

definition hist_new ::
  "nat \<Rightarrow> nat \<Rightarrow> nat \<Rightarrow> ('s, 'i) payloads \<Rightarrow> state_anchor \<Rightarrow> 's \<Rightarrow> history_limits \<Rightarrow>
     timeline_error + ('s, 'i) fixed_history" where
  "hist_new inputs anchors branches ops a s limits =
     (if branches = 0 then Inl Capacity
      else insert_anchor ops
        \<lparr> fh_scope = sa_scope a, fh_inputs = replicate inputs None, fh_anchors = replicate anchors None,
          fh_branches = Some \<lparr> ln_branch = sa_branch a, ln_parent = None, ln_inherited_through = sa_step a,
            ln_admitted_through = sa_step a, ln_state_changed_from = sa_step a, ln_input_override = None,
            ln_state_override = None \<rparr> # replicate (branches - 1) None,
          fh_floor = sa_step a, fh_last_branch = sa_branch a, fh_bytes = 0, fh_limits = limits \<rparr>
        a s True)"

section \<open>Plans and forks\<close>

fun check_sources ::
  "('s, 'i) payloads \<Rightarrow> ('s, 'i) fixed_history \<Rightarrow> replay_plan \<Rightarrow> nat list \<Rightarrow> timeline_error + unit" where
  "check_sources ops h pl [] = Inr ()"
| "check_sources ops h pl (offset # offsets) =
     bindR (ok_or HistoryUnavailable (plan_input pl offset)) (\<lambda>r.
     bindR (if Some r \<noteq> pl_replacement pl then bindR (source_input ops h r) (\<lambda>_. Inr ()) else Inr ()) (\<lambda>_.
       check_sources ops h pl offsets))"

definition check_plan_anchor ::
  "('s, 'i) payloads \<Rightarrow> ('s, 'i) fixed_history \<Rightarrow> replay_plan \<Rightarrow> timeline_branch_id \<Rightarrow> timeline_error + unit" where
  "check_plan_anchor ops h pl branch =
     bindR (snapshot_at ops h branch (sa_step (pl_anchor pl))) (\<lambda>a.
       if a \<noteq> pl_anchor pl then Inl InputMismatch else Inr ())"

definition check_plan :: "('s, 'i) payloads \<Rightarrow> ('s, 'i) fixed_history \<Rightarrow> replay_plan \<Rightarrow> timeline_error + unit" where
  "check_plan ops h pl =
     bindR (hist_check_scope h (th_scope (pl_expected pl))) (\<lambda>_.
     bindR (hist_lineage h (th_branch (pl_expected pl))) (\<lambda>parent.
       if ln_admitted_through parent < th_step (pl_expected pl) then Inl HistoryUnavailable
       else bindR
         (case pl_replacement pl of
            Some r \<Rightarrow> bindR (exact_input ops h r) (\<lambda>_. check_plan_anchor ops h pl (ln_branch parent))
          | None \<Rightarrow>
              (case exact_anchor ops h (pl_anchor pl) of
                 Inr _ \<Rightarrow> Inr ()
               | Inl HistoryUnavailable \<Rightarrow> check_plan_anchor ops h pl (ln_branch parent)
               | Inl e \<Rightarrow> Inl e))
         (\<lambda>_. check_sources ops h pl [0..<length (pl_inputs pl)])))"

definition hist_fork ::
  "('s, 'i) payloads \<Rightarrow> ('s, 'i) fixed_history \<Rightarrow> replay_plan \<Rightarrow> branch_reservation \<Rightarrow>
     timeline_error + ('s, 'i) fixed_history" where
  "hist_fork ops h pl r =
     (if br_expected r \<noteq> pl_expected pl \<or> ao_step (br_observation r) \<noteq> corrected_step pl
         \<or> ao_digest (br_observation r) \<noteq> corrected_digest pl
      then Inl TlConflict
      else bindR (check_plan ops h pl) (\<lambda>_.
           bindR (hist_lineage h (th_branch (pl_expected pl))) (\<lambda>parent.
             if br_branch r \<le> fh_last_branch h then Inl TlConflict
             else bindR (first_vacant
                    \<lparr> ln_branch = br_branch r, ln_parent = Some (ln_branch parent),
                      ln_inherited_through = th_step (pl_expected pl),
                      ln_admitted_through = th_step (pl_expected pl), ln_state_changed_from = corrected_step pl,
                      ln_input_override = pl_replacement pl,
                      ln_state_override = (if pl_replacement pl = None then Some (pl_anchor pl) else None) \<rparr>
                    (fh_branches h)) (\<lambda>branches.
               Inr (h\<lparr>fh_branches := branches, fh_last_branch := br_branch r\<rparr>)))))"

primrec collect_loop ::
  "('s, 'i) payloads \<Rightarrow> ('s, 'i) fixed_history \<Rightarrow> timeline_branch_id \<Rightarrow> timeline_step \<Rightarrow> input_record list \<Rightarrow>
     (timeline_error + unit) \<times> input_record list" where
  "collect_loop ops h branch step [] = (Inr (), [])"
| "collect_loop ops h branch step (slot # slots) =
     (case checked_next step of
        None \<Rightarrow> (Inl CounterExhausted, slot # slots)
      | Some next_step \<Rightarrow>
          (case input_at ops h branch next_step of
             Inl e \<Rightarrow> (Inl e, slot # slots)
           | Inr r \<Rightarrow> (case collect_loop ops h branch next_step slots of (res, rest) \<Rightarrow> (res, r # rest))))"

definition collect_inputs ::
  "('s, 'i) payloads \<Rightarrow> ('s, 'i) fixed_history \<Rightarrow> timeline_branch_id \<Rightarrow> timeline_step \<Rightarrow> timeline_step \<Rightarrow>
     input_record list \<Rightarrow> (timeline_error + input_record list) \<times> input_record list" where
  "collect_inputs ops h branch after through scratch =
     (if after < fh_floor h \<or> through < after then (Inl HistoryUnavailable, scratch)
      else case checked_sub through after of
        None \<Rightarrow> (Inl CounterExhausted, scratch)
      | Some count \<Rightarrow>
          if length scratch < unat count then (Inl Capacity, scratch)
          else case collect_loop ops h branch after (take (unat count) scratch) of
            (Inl e, selected) \<Rightarrow> (Inl e, selected @ drop (unat count) scratch)
          | (Inr _, selected) \<Rightarrow> (Inr selected, selected @ drop (unat count) scratch))"

section \<open>The store as input and snapshot store\<close>

definition hist_restore ::
  "('s, 'i) payloads \<Rightarrow> ('s \<Rightarrow> 's) \<Rightarrow> ('s, 'i) fixed_history \<Rightarrow> ('s, timeline_error) snapshot_store" where
  "hist_restore ops clone h a scratch =
     bindR (hist_check_scope h (sa_scope a)) (\<lambda>_.
     bindR (case exact_anchor ops h a of
              Inr source \<Rightarrow> Inr source
            | Inl HistoryUnavailable \<Rightarrow>
                bindR (resolve_anchor ops h (sa_branch a) (sa_step a)) (\<lambda>source.
                  if (an_anchor source)\<lparr>sa_branch := sa_branch a\<rparr> \<noteq> a then Inl InputMismatch else Inr source)
            | Inl e \<Rightarrow> Inl e) (\<lambda>source.
       Inr (a, clone (an_state source))))"

definition hist_read :: "('s, 'i) payloads \<Rightarrow> ('s, 'i) fixed_history \<Rightarrow> ('i, timeline_error) input_store" where
  "hist_read ops h r =
     bindR (case exact_input ops h r of
              Inr source \<Rightarrow> Inr source
            | Inl HistoryUnavailable \<Rightarrow> source_input ops h r
            | Inl e \<Rightarrow> Inl e) (\<lambda>source.
       Inr (r, in_payload source))"

definition hist_restore_current ::
  "('s, 'i) payloads \<Rightarrow> ('s \<Rightarrow> 's) \<Rightarrow> ('s, 'i) fixed_history \<Rightarrow> ('s, timeline_error) live_snapshot_store" where
  "hist_restore_current ops clone h expected a scratch =
     bindR (hist_check_scope h (th_scope expected)) (\<lambda>_.
     bindR (snapshot_at ops h (th_branch expected) (th_step expected)) (\<lambda>current.
       if current \<noteq> a then Inl InputMismatch else hist_restore ops clone h a scratch))"

definition begin_replay ::
  "nat \<Rightarrow> ('s, 'i) payloads \<Rightarrow> ('s \<Rightarrow> 's) \<Rightarrow> ('s, 'i) fixed_history \<Rightarrow> replay_plan \<Rightarrow> branch_reservation \<Rightarrow> 's \<Rightarrow>
     effect_limits \<Rightarrow> timeline_error restore_error + ('s, 'e) replay_session" where
  "begin_replay capacity ops clone h pl r scratch limits =
     bindR (map_err RestoreTimeline (check_plan ops h pl)) (\<lambda>_.
       session_begin capacity pl r scratch (hist_restore ops clone h) limits)"

section \<open>Reclaiming\<close>

text \<open>One of the loops that empty slots, stopping where the charge would underflow.\<close>

fun evict_slots ::
  "('a \<Rightarrow> bool) \<Rightarrow> ('a \<Rightarrow> u64) \<Rightarrow> 'a option list \<Rightarrow> u64 \<Rightarrow> (timeline_error + unit) \<times> 'a option list \<times> u64" where
  "evict_slots P bytes_of [] bytes = (Inr (), [], bytes)"
| "evict_slots P bytes_of (slot # slots) bytes =
     (case filter_option P slot of
        Some e \<Rightarrow>
          (case checked_sub bytes (bytes_of e) of
             None \<Rightarrow> (Inl Capacity, slot # slots, bytes)
           | Some left \<Rightarrow>
               (case evict_slots P bytes_of slots left of (res, slots', bytes') \<Rightarrow> (res, None # slots', bytes')))
      | None \<Rightarrow> (case evict_slots P bytes_of slots bytes of (res, slots', bytes') \<Rightarrow> (res, slot # slots', bytes')))"

definition evict ::
  "('i stored_input \<Rightarrow> bool) \<Rightarrow> ('s stored_anchor \<Rightarrow> bool) \<Rightarrow> ('s, 'i) fixed_history \<Rightarrow>
     (timeline_error + unit) \<times> ('s, 'i) fixed_history" where
  "evict P Q h =
     (case evict_slots P in_bytes (fh_inputs h) (fh_bytes h) of
        (res, inputs, bytes) \<Rightarrow>
          let h1 = h\<lparr>fh_inputs := inputs, fh_bytes := bytes\<rparr> in
          case res of
            Inl e \<Rightarrow> (Inl e, h1)
          | Inr _ \<Rightarrow>
              (case evict_slots Q an_bytes (fh_anchors h1) (fh_bytes h1) of
                 (res, anchors, bytes) \<Rightarrow> (res, h1\<lparr>fh_anchors := anchors, fh_bytes := bytes\<rparr>)))"

fun check_floor ::
  "('s, 'i) payloads \<Rightarrow> ('s, 'i) fixed_history \<Rightarrow> timeline_step \<Rightarrow> lineage list \<Rightarrow> timeline_error + unit" where
  "check_floor ops h floor [] = Inr ()"
| "check_floor ops h floor (l # ls) =
     (if ln_admitted_through l < floor then Inl HistoryUnavailable
      else bindR (snapshot_at ops h (ln_branch l) floor) (\<lambda>_. check_floor ops h floor ls))"

definition expire_before ::
  "('s, 'i) payloads \<Rightarrow> ('s, 'i) fixed_history \<Rightarrow> timeline_step \<Rightarrow> (timeline_error + unit) \<times> ('s, 'i) fixed_history" where
  "expire_before ops h floor =
     (if floor < fh_floor h then (Inl HistoryUnavailable, h)
      else case check_floor ops h floor (somes (fh_branches h)) of
        Inl e \<Rightarrow> (Inl e, h)
      | Inr _ \<Rightarrow>
          evict (\<lambda>e. ir_step (in_record e) \<le> floor) (\<lambda>e. sa_step (an_anchor e) < floor) (h\<lparr>fh_floor := floor\<rparr>))"

definition retire_branch ::
  "('s, 'i) fixed_history \<Rightarrow> timeline_branch_id \<Rightarrow> timeline_head \<Rightarrow>
     (timeline_error + unit) \<times> ('s, 'i) fixed_history" where
  "retire_branch h branch live =
     (case bindR (hist_check_scope h (th_scope live)) (\<lambda>_. hist_lineage h (th_branch live)) of
        Inl e \<Rightarrow> (Inl e, h)
      | Inr _ \<Rightarrow>
          if branch = th_branch live \<or> list_ex (\<lambda>l. ln_parent l = Some branch) (somes (fh_branches h))
          then (Inl TlConflict, h)
          else case replace_first (holds_branch branch) None (fh_branches h) of
            None \<Rightarrow> (Inl HistoryUnavailable, h)
          | Some branches \<Rightarrow>
              (case evict (\<lambda>e. ir_branch (in_record e) = branch) (\<lambda>e. sa_branch (an_anchor e) = branch) h of
                 (Inl e, h') \<Rightarrow> (Inl e, h')
               | (Inr _, h') \<Rightarrow> (Inr (), h'\<lparr>fh_branches := branches\<rparr>)))"

section \<open>Materialisation\<close>

definition materialized_step :: "('s, 'i) fixed_history \<Rightarrow> nat \<Rightarrow> timeline_error + timeline_step" where
  "materialized_step h offset =
     (if 2 ^ 64 \<le> offset then Inl Capacity
      else ok_or CounterExhausted (checked_add (fh_floor h) (of_nat offset)))"

fun measure_branch ::
  "('s, 'i) payloads \<Rightarrow> ('s, 'i) fixed_history \<Rightarrow> timeline_branch_id \<Rightarrow> u64 \<Rightarrow> nat \<Rightarrow> nat list \<Rightarrow>
     timeline_error + (u64 \<times> nat)" where
  "measure_branch ops h branch bytes anchors [] = Inr (bytes, anchors)"
| "measure_branch ops h branch bytes anchors (offset # offsets) =
     bindR (materialized_step h offset) (\<lambda>step.
     bindR (if offset \<noteq> 0
            then bindR (resolve_input ops h branch step) (\<lambda>e. ok_or Capacity (checked_add bytes (in_bytes e)))
            else Inr bytes) (\<lambda>bytes1.
       case resolve_anchor ops h branch step of
         Inr a \<Rightarrow> bindR (ok_or Capacity (checked_add bytes1 (an_bytes a))) (\<lambda>bytes2.
           measure_branch ops h branch bytes2 (anchors + 1) offsets)
       | Inl HistoryUnavailable \<Rightarrow> measure_branch ops h branch bytes1 anchors offsets
       | Inl e \<Rightarrow> Inl e))"

text \<open>\<open>checked_add(..).filter(|total| *total <= max).ok_or(Capacity)\<close>\<close>

definition add_within :: "u64 \<Rightarrow> u64 \<Rightarrow> u64 \<Rightarrow> timeline_error + u64" where
  "add_within limit charged bytes = ok_or Capacity (filter_option (\<lambda>t. t \<le> limit) (checked_add charged bytes))"

text \<open>\<open>*slots.next().ok_or(Capacity)? = Some(x)\<close> for an iterator that stands at a slot.\<close>

definition put_slot :: "nat \<Rightarrow> 'a \<Rightarrow> 'a option list \<Rightarrow> timeline_error + 'a option list" where
  "put_slot i x slots = (if length slots \<le> i then Inl Capacity else Inr (slots[i := Some x]))"

definition copy_input ::
  "('s, 'i) payloads \<Rightarrow> ('i \<Rightarrow> 'i) \<Rightarrow> ('s, 'i) fixed_history \<Rightarrow> timeline_branch_id \<Rightarrow> timeline_step \<Rightarrow>
     u64 \<Rightarrow> nat \<Rightarrow> 'i stored_input option list \<Rightarrow> timeline_error + (u64 \<times> 'i stored_input option list)" where
  "copy_input ops clone h branch step bytes i slots =
     bindR (resolve_input ops h branch step) (\<lambda>source.
       let record = (in_record source)\<lparr>ir_branch := branch\<rparr>; payload = clone (in_payload source) in
       bindR (check_payload (of_input ops) payload (ir_digest record) (hl_max_input_bytes (fh_limits h))) (\<lambda>b.
       bindR (add_within (hl_max_total_bytes (fh_limits h)) bytes b) (\<lambda>bytes'.
       bindR (put_slot i \<lparr> in_record = record, in_payload = payload, in_bytes = b, in_canonical = True \<rparr> slots)
         (\<lambda>slots'. Inr (bytes', slots')))))"

text \<open>A missing anchor is skipped: the flag says whether a slot was filled.\<close>

definition copy_anchor ::
  "('s, 'i) payloads \<Rightarrow> ('s \<Rightarrow> 's) \<Rightarrow> ('s, 'i) fixed_history \<Rightarrow> timeline_branch_id \<Rightarrow> timeline_step \<Rightarrow>
     u64 \<Rightarrow> nat \<Rightarrow> 's stored_anchor option list \<Rightarrow> timeline_error + (u64 \<times> nat \<times> 's stored_anchor option list)" where
  "copy_anchor ops clone h branch step bytes j slots =
     (case resolve_anchor ops h branch step of
        Inr source \<Rightarrow>
          let a = (an_anchor source)\<lparr>sa_branch := branch\<rparr>; state = clone (an_state source) in
          bindR (check_payload (of_state ops) state (sa_digest a) (hl_max_snapshot_bytes (fh_limits h))) (\<lambda>b.
          bindR (add_within (hl_max_total_bytes (fh_limits h)) bytes b) (\<lambda>bytes'.
          bindR (put_slot j \<lparr> an_anchor = a, an_state = state, an_bytes = b, an_canonical = True \<rparr> slots)
            (\<lambda>slots'. Inr (bytes', j + 1, slots'))))
      | Inl HistoryUnavailable \<Rightarrow> Inr (bytes, j, slots)
      | Inl e \<Rightarrow> Inl e)"

fun copy_branch ::
  "('s, 'i) payloads \<Rightarrow> ('s \<Rightarrow> 's) \<Rightarrow> ('i \<Rightarrow> 'i) \<Rightarrow> ('s, 'i) fixed_history \<Rightarrow> timeline_branch_id \<Rightarrow>
     u64 \<Rightarrow> nat \<Rightarrow> nat \<Rightarrow> 'i stored_input option list \<Rightarrow> 's stored_anchor option list \<Rightarrow> nat list \<Rightarrow>
     timeline_error + (u64 \<times> 'i stored_input option list \<times> 's stored_anchor option list)" where
  "copy_branch ops clone_s clone_i h branch bytes i j inputs anchors [] = Inr (bytes, inputs, anchors)"
| "copy_branch ops clone_s clone_i h branch bytes i j inputs anchors (offset # offsets) =
     bindR (materialized_step h offset) (\<lambda>step.
     bindR (copy_input ops clone_i h branch step bytes i inputs) (\<lambda>(bytes1, inputs').
     bindR (copy_anchor ops clone_s h branch step bytes1 j anchors) (\<lambda>(bytes2, j', anchors').
       copy_branch ops clone_s clone_i h branch bytes2 (i + 1) j' inputs' anchors' offsets)))"

definition materialize_branch ::
  "('s, 'i) payloads \<Rightarrow> ('s \<Rightarrow> 's) \<Rightarrow> ('i \<Rightarrow> 'i) \<Rightarrow> ('s, 'i) fixed_history \<Rightarrow> timeline_branch_id \<Rightarrow>
     timeline_error + ('s, 'i) fixed_history" where
  "materialize_branch ops clone_s clone_i h branch =
     bindR (hist_lineage h branch) (\<lambda>l.
     bindR (ok_or HistoryUnavailable (checked_sub (ln_admitted_through l) (fh_floor h))) (\<lambda>distance.
       let count = unat distance in
       if length (fh_inputs h) < count then Inl Capacity
       else bindR (resolve_anchor ops h branch (fh_floor h)) (\<lambda>base.
            bindR (measure_branch ops h branch 0 0 [0..<count + 1]) (\<lambda>(bytes, anchors).
              if length (fh_anchors h) < anchors \<or> hl_max_total_bytes (fh_limits h) < bytes then Inl Capacity
              else bindR (hist_new (length (fh_inputs h)) (length (fh_anchors h)) (length (fh_branches h)) ops
                            ((an_anchor base)\<lparr>sa_branch := branch\<rparr>) (clone_s (an_state base)) (fh_limits h)) (\<lambda>result.
                   bindR (copy_branch ops clone_s clone_i h branch (fh_bytes result) 0 1 (fh_inputs result)
                            (fh_anchors result) [1..<count + 1]) (\<lambda>(bytes, inputs, anchors).
                     case fh_branches result of
                       Some root # rest \<Rightarrow>
                         Inr (result\<lparr>fh_inputs := inputs, fh_anchors := anchors, fh_bytes := bytes,
                           fh_branches := Some (root\<lparr>ln_admitted_through := ln_admitted_through l\<rparr>) # rest,
                           fh_last_branch := fh_last_branch h\<rparr>)
                     | _ \<Rightarrow> Inl HistoryUnavailable))))))"

end
