(* ===== verification/Timeline_History_Invariants.thy ===== *)
theory Timeline_History_Invariants
  imports Timeline_History Timeline_Properties
begin

text \<open>
  Lookup in the history store, against a reference: the source of an input is defined by rules on
  the lineage alone, without slot hints, skipped scans or a depth bound. Under the store's
  invariant the lookup of the code finds the source exactly for the admitted steps above the
  floor of a known branch.
\<close>

section \<open>Slots\<close>

lemma somes_append [simp]: "somes (xs @ ys) = somes xs @ somes ys"
  by (simp add: somes_def)

lemma somes_Cons: "somes (x # xs) = (case x of None \<Rightarrow> somes xs | Some y \<Rightarrow> y # somes xs)"
  by (cases x) (simp_all add: somes_def)

lemma somes_simps3 [simp]: "somes [] = []" "somes (None # xs) = somes xs" "somes (Some x # xs) = x # somes xs"
  by (simp_all add: somes_def)

lemma somes_replicate [simp]: "somes (replicate n None) = []"
  by (induction n) simp_all

lemma set_somes: "x \<in> set (somes xs) \<longleftrightarrow> Some x \<in> set xs"
  by (induction xs) (auto simp: somes_Cons split: option.splits)

lemma length_somes: "length (somes xs) \<le> length xs"
  by (simp add: somes_def)

lemma somes_map [simp]: "somes (map Some xs) = xs"
  by (induction xs) simp_all

lemma first_vacant_Inr:
  "first_vacant x slots = Inr slots' \<Longrightarrow>
     mset (somes slots') = add_mset x (mset (somes slots)) \<and> length slots' = length slots"
proof -
  have "replace_first (\<lambda>slot. slot = None) (Some x) slots = Some slots' \<Longrightarrow>
     mset (somes slots') = add_mset x (mset (somes slots)) \<and> length slots' = length slots" for slots slots'
    by (induction slots arbitrary: slots') (auto simp: somes_Cons split: if_splits option.splits)
  then show "first_vacant x slots = Inr slots' \<Longrightarrow>
     mset (somes slots') = add_mset x (mset (somes slots)) \<and> length slots' = length slots"
    by (simp add: first_vacant_def result_simps)
qed

lemma admit_through_Some:
  "admit_through branch step slots = Some slots' \<Longrightarrow> distinct (map ln_branch (somes slots)) \<Longrightarrow>
     somes slots' = map (\<lambda>l. if ln_branch l = branch then l\<lparr>ln_admitted_through := step\<rparr> else l) (somes slots)
     \<and> length slots' = length slots"
proof (induction slots arbitrary: slots')
  case (Cons slot slots)
  show ?case
  proof (cases "holds_branch branch slot")
    case True
    then obtain l where "slot = Some l" "ln_branch l = branch" by (auto simp: holds_branch_def split: option.splits)
    moreover from this have "\<forall>m\<in>set (somes slots). ln_branch m \<noteq> branch" using Cons.prems(2) by (auto simp: image_iff)
    moreover from this have "map (\<lambda>m. if ln_branch m = branch then m\<lparr>ln_admitted_through := step\<rparr> else m) (somes slots) = somes slots"
      by (intro map_idI) auto
    ultimately show ?thesis using Cons.prems(1) True by (auto simp: admit_through_def)
  next
    case False
    then obtain rest where "admit_through branch step slots = Some rest" "slots' = slot # rest"
      using Cons.prems(1) by (auto simp: admit_through_def split: option.splits)
    then show ?thesis
      using Cons.IH Cons.prems(2) False by (auto simp: somes_Cons holds_branch_def split: option.splits)
  qed
qed (simp add: admit_through_def)

definition sum_bytes :: "('a \<Rightarrow> u64) \<Rightarrow> 'a list \<Rightarrow> nat" where
  "sum_bytes f xs = sum_list (map (\<lambda>x. unat (f x)) xs)"

lemma sum_bytes_simps [simp]:
  "sum_bytes f [] = 0" "sum_bytes f (x # xs) = unat (f x) + sum_bytes f xs"
  "sum_bytes f (xs @ ys) = sum_bytes f xs + sum_bytes f ys"
  by (simp_all add: sum_bytes_def)

lemma sum_bytes_mset: "mset xs = mset ys \<Longrightarrow> sum_bytes f xs = sum_bytes f ys"
  unfolding sum_bytes_def by (metis mset_map sum_mset_sum_list)

lemma sum_bytes_filter: "sum_bytes f xs = sum_bytes f (filter P xs) + sum_bytes f (filter (\<lambda>x. \<not> P x) xs)"
  by (induction xs) auto

lemma evict_slots_Inr:
  "sum_bytes bytes_of (filter P (somes slots)) \<le> unat bytes \<Longrightarrow>
     \<exists>slots' bytes'. evict_slots P bytes_of slots bytes = (Inr (), slots', bytes')
       \<and> somes slots' = filter (\<lambda>e. \<not> P e) (somes slots) \<and> length slots' = length slots
       \<and> unat bytes = unat bytes' + sum_bytes bytes_of (filter P (somes slots))"
proof (induction slots arbitrary: bytes)
  case (Cons slot slots)
  show ?case
  proof (cases "filter_option P slot")
    case None
    then have "slot = None \<or> (\<exists>e. slot = Some e \<and> \<not> P e)" by (auto simp: filter_option_def split: option.splits if_splits)
    then show ?thesis using Cons.IH [of bytes] Cons.prems None by (auto simp: filter_option_def)
  next
    case (Some e)
    then have e: "slot = Some e" "P e" by (auto simp: filter_option_def split: option.splits if_splits)
    then obtain remaining where r: "checked_sub bytes (bytes_of e) = Some remaining" "unat bytes = unat remaining + unat (bytes_of e)"
      using Cons.prems by (cases "checked_sub bytes (bytes_of e)") (auto simp: checked_sub_None checked_sub_Some)
    then show ?thesis using Cons.IH [of remaining] Cons.prems Some e by auto
  qed
qed simp

section \<open>Invariant\<close>

definition knows :: "('s, 'i) fixed_history \<Rightarrow> timeline_branch_id \<Rightarrow> lineage \<Rightarrow> bool" where
  "knows h branch l \<longleftrightarrow> l \<in> set (somes (fh_branches h)) \<and> ln_branch l = branch"

definition lineage_ok :: "('s, 'i) fixed_history \<Rightarrow> lineage \<Rightarrow> bool" where
  "lineage_ok h l \<longleftrightarrow>
     ln_branch l \<le> fh_last_branch h \<and> fh_floor h \<le> ln_admitted_through l
     \<and> ln_inherited_through l \<le> ln_admitted_through l
     \<and> (case ln_parent l of
          None \<Rightarrow> ln_input_override l = None
        | Some p \<Rightarrow> p < ln_branch l \<and> (\<exists>m. knows h p m \<and> ln_inherited_through l \<le> ln_admitted_through m)
            \<and> (\<forall>r. ln_input_override l = Some r \<longrightarrow>
                 ir_branch r = p \<and> ir_scope r = fh_scope h \<and> ir_step r \<le> ln_inherited_through l
                 \<and> (fh_floor h < ir_step r \<longrightarrow> (\<exists>e\<in>set (somes (fh_inputs h)). in_record e = r))))"

definition branches_ok :: "('s, 'i) fixed_history \<Rightarrow> bool" where
  "branches_ok h \<longleftrightarrow>
     distinct (map ln_branch (somes (fh_branches h))) \<and> (\<forall>l\<in>set (somes (fh_branches h)). lineage_ok h l)"

definition input_ok :: "('s, 'i) payloads \<Rightarrow> ('s, 'i) fixed_history \<Rightarrow> 'i stored_input \<Rightarrow> bool" where
  "input_ok ops h e \<longleftrightarrow>
     verify_input ops h e = Inr () \<and> ir_scope (in_record e) = fh_scope h \<and> fh_floor h < ir_step (in_record e)
     \<and> (\<exists>l. knows h (ir_branch (in_record e)) l \<and> ir_step (in_record e) \<le> ln_admitted_through l
          \<and> (in_canonical e \<and> ln_parent l \<noteq> None \<longrightarrow> ln_inherited_through l < ir_step (in_record e)))"

definition input_key :: "'i stored_input \<Rightarrow> timeline_branch_id \<times> timeline_step \<times> input_revision" where
  "input_key e = (ir_branch (in_record e), ir_step (in_record e), ir_revision (in_record e))"

definition input_place :: "'i stored_input \<Rightarrow> timeline_branch_id \<times> timeline_step" where
  "input_place e = (ir_branch (in_record e), ir_step (in_record e))"

text \<open>Each branch stores its own steps, from the floor or from its fork up to what it admitted.\<close>

definition own_step :: "('s, 'i) fixed_history \<Rightarrow> lineage \<Rightarrow> timeline_step \<Rightarrow> bool" where
  "own_step h l step \<longleftrightarrow>
     fh_floor h < step \<and> step \<le> ln_admitted_through l \<and> (ln_parent l \<noteq> None \<longrightarrow> ln_inherited_through l < step)"

definition inputs_ok :: "('s, 'i) payloads \<Rightarrow> ('s, 'i) fixed_history \<Rightarrow> bool" where
  "inputs_ok ops h \<longleftrightarrow>
     (\<forall>e\<in>set (somes (fh_inputs h)). input_ok ops h e)
     \<and> distinct (map input_key (somes (fh_inputs h)))
     \<and> distinct (map input_place (filter in_canonical (somes (fh_inputs h))))
     \<and> (\<forall>l\<in>set (somes (fh_branches h)). \<forall>step. own_step h l step \<longrightarrow>
          (\<exists>e\<in>set (somes (fh_inputs h)). canonical_input (ln_branch l) step e))"

definition anchor_ok :: "('s, 'i) payloads \<Rightarrow> ('s, 'i) fixed_history \<Rightarrow> 's stored_anchor \<Rightarrow> bool" where
  "anchor_ok ops h e \<longleftrightarrow>
     verify_anchor ops h e = Inr () \<and> sa_scope (an_anchor e) = fh_scope h \<and> fh_floor h \<le> sa_step (an_anchor e)
     \<and> (\<exists>l. knows h (sa_branch (an_anchor e)) l \<and> sa_step (an_anchor e) \<le> ln_admitted_through l)"

definition anchor_place :: "'s stored_anchor \<Rightarrow> timeline_branch_id \<times> timeline_step" where
  "anchor_place e = (sa_branch (an_anchor e), sa_step (an_anchor e))"

definition anchors_ok :: "('s, 'i) payloads \<Rightarrow> ('s, 'i) fixed_history \<Rightarrow> bool" where
  "anchors_ok ops h \<longleftrightarrow>
     (\<forall>e\<in>set (somes (fh_anchors h)). anchor_ok ops h e)
     \<and> distinct (map anchor_place (filter an_canonical (somes (fh_anchors h))))"

definition charges_ok :: "('s, 'i) fixed_history \<Rightarrow> bool" where
  "charges_ok h \<longleftrightarrow>
     unat (fh_bytes h) = sum_bytes in_bytes (somes (fh_inputs h)) + sum_bytes an_bytes (somes (fh_anchors h))
     \<and> fh_bytes h \<le> hl_max_total_bytes (fh_limits h)"

definition hist_inv :: "('s, 'i) payloads \<Rightarrow> ('s, 'i) fixed_history \<Rightarrow> bool" where
  "hist_inv ops h \<longleftrightarrow> branches_ok h \<and> inputs_ok ops h \<and> anchors_ok ops h \<and> charges_ok h"

lemma inputs_okD: "inputs_ok ops h \<Longrightarrow> e \<in> set (somes (fh_inputs h)) \<Longrightarrow> input_ok ops h e"
  by (simp add: inputs_ok_def)

lemma find_unique:
  "x \<in> set xs \<Longrightarrow> P x \<Longrightarrow> (\<And>y. y \<in> set xs \<Longrightarrow> P y \<Longrightarrow> y = x) \<Longrightarrow> find P xs = Some x"
proof (induction xs)
  case (Cons y ys)
  show ?case
  proof (cases "P y")
    case True
    then show ?thesis using Cons.prems(3) [of y] by simp
  next
    case False
    then have "x \<in> set ys" using Cons.prems(1,2) by auto
    from Cons.IH [OF this Cons.prems(2)] have "find P ys = Some x" using Cons.prems(3) by (meson list.set_intros(2))
    then show ?thesis using False by simp
  qed
qed simp

lemma find_SomeD: "find P xs = Some x \<Longrightarrow> x \<in> set xs \<and> P x"
  by (induction xs) (auto split: if_splits)

lemma knows_unique: "branches_ok h \<Longrightarrow> knows h b l \<Longrightarrow> knows h b m \<Longrightarrow> l = m"
  by (auto simp: branches_ok_def knows_def distinct_map dest: inj_onD)

lemma hist_lineage_eq: "branches_ok h \<Longrightarrow> hist_lineage h b = Inr l \<longleftrightarrow> knows h b l"
proof
  assume "hist_lineage h b = Inr l"
  then show "knows h b l" by (auto simp: hist_lineage_def knows_def result_simps dest: find_SomeD)
next
  assume ok: "branches_ok h" and l: "knows h b l"
  have "find (\<lambda>l. ln_branch l = b) (somes (fh_branches h)) = Some l"
  proof (rule find_unique)
    show "l \<in> set (somes (fh_branches h))" "ln_branch l = b" using l by (simp_all add: knows_def)
    show "m = l" if "m \<in> set (somes (fh_branches h))" "ln_branch m = b" for m
      using knows_unique [OF ok l] that by (auto simp: knows_def)
  qed
  then show "hist_lineage h b = Inr l" by (simp add: hist_lineage_def)
qed

lemma hist_lineage_known: "hist_lineage h b = Inr l \<Longrightarrow> knows h b l"
  by (auto simp: hist_lineage_def knows_def result_simps dest: find_SomeD)

lemma hist_lineage_unknown: "\<nexists>l. knows h b l \<Longrightarrow> hist_lineage h b = Inl HistoryUnavailable"
  by (cases "hist_lineage h b") (auto simp: hist_lineage_def knows_def result_simps dest: find_SomeD)

section \<open>The source of an input\<close>

inductive input_source ::
  "('s, 'i) fixed_history \<Rightarrow> timeline_step \<Rightarrow> timeline_branch_id \<Rightarrow> 'i stored_input \<Rightarrow> bool"
  for h step where
  own: "knows h b l \<Longrightarrow> step \<le> ln_admitted_through l \<Longrightarrow> e \<in> set (somes (fh_inputs h)) \<Longrightarrow>
    canonical_input b step e \<Longrightarrow> input_source h step b e"
| replaced: "knows h b l \<Longrightarrow> step \<le> ln_admitted_through l \<Longrightarrow> ln_input_override l = Some r \<Longrightarrow> ir_step r = step \<Longrightarrow>
    e \<in> set (somes (fh_inputs h)) \<Longrightarrow> in_record e = r \<Longrightarrow> input_source h step b e"
| inherited: "knows h b l \<Longrightarrow> step \<le> ln_inherited_through l \<Longrightarrow> (\<And>r. ln_input_override l = Some r \<Longrightarrow> ir_step r \<noteq> step) \<Longrightarrow>
    ln_parent l = Some p \<Longrightarrow> input_source h step p e \<Longrightarrow> input_source h step b e"

lemma entry_unique:
  assumes "inputs_ok ops h" "e \<in> set (somes (fh_inputs h))" "e' \<in> set (somes (fh_inputs h))" "in_record e = in_record e'"
  shows "e = e'"
proof -
  have "inj_on input_key (set (somes (fh_inputs h)))" using assms(1) by (simp add: inputs_ok_def distinct_map)
  then show ?thesis using assms(2-4) by (simp add: inj_on_def input_key_def)
qed

lemma canonical_unique:
  assumes "inputs_ok ops h" "e \<in> set (somes (fh_inputs h))" "e' \<in> set (somes (fh_inputs h))"
    "canonical_input b step e" "canonical_input b step e'"
  shows "e = e'"
proof -
  have "inj_on input_place {e \<in> set (somes (fh_inputs h)). in_canonical e}"
    using assms(1) by (simp add: inputs_ok_def distinct_map)
  then show ?thesis using assms(2-5) by (simp add: inj_on_def input_place_def canonical_input_def)
qed

lemma hint_in: "input_slot_hint h step = Some e \<Longrightarrow> e \<in> set (somes (fh_inputs h))"
  by (auto simp: input_slot_hint_def set_somes Option.bind_eq_Some_conv split: if_splits) (metis nth_mem)

lemma exact_input_stored:
  assumes ok: "inputs_ok ops h" and e: "e \<in> set (somes (fh_inputs h))"
  shows "exact_input ops h (in_record e) = Inr e"
proof -
  have in_ok: "input_ok ops h e" using ok e by (simp add: inputs_ok_def)
  have "find (\<lambda>x. ir_step (in_record x) = ir_step (in_record e) \<and> in_record x = in_record e) (somes (fh_inputs h)) = Some e"
    using e entry_unique [OF ok] by (intro find_unique) auto
  moreover have "filter_option (\<lambda>x. in_record x = in_record e) (input_slot_hint h (ir_step (in_record e))) \<in> {None, Some e}"
    using hint_in [of h] entry_unique [OF ok _ e] by (auto simp: filter_option_def split: option.splits)
  ultimately have "or_else (filter_option (\<lambda>x. in_record x = in_record e) (input_slot_hint h (ir_step (in_record e))))
      (find (\<lambda>x. ir_step (in_record x) = ir_step (in_record e) \<and> in_record x = in_record e) (somes (fh_inputs h))) = Some e"
    by (auto simp: or_else_def)
  moreover have "\<not> ir_step (in_record e) \<le> fh_floor h" using in_ok by (auto simp: input_ok_def)
  ultimately show ?thesis using in_ok by (simp add: exact_input_def hist_check_scope_def input_ok_def)
qed

lemma exact_input_Inr:
  "exact_input ops h r = Inr e \<Longrightarrow> e \<in> set (somes (fh_inputs h)) \<and> in_record e = r \<and> ir_scope r = fh_scope h \<and> fh_floor h < ir_step r"
  using hint_in [of h "ir_step r"]
  by (auto simp: exact_input_def hist_check_scope_def result_simps or_else_def filter_option_def not_le
      split: if_splits option.splits dest!: find_SomeD)

text \<open>Hint and scan together find the branch's own entry, if it has one.\<close>

lemma own_lookup:
  assumes inv: "branches_ok h" "inputs_ok ops h" and l: "knows h b l"
  shows "or_else (filter_option (canonical_input b step) (input_slot_hint h step))
      (if ln_parent l \<noteq> None \<and> step \<le> ln_inherited_through l then None
       else find (canonical_input b step) (somes (fh_inputs h)))
    = find (canonical_input b step) (somes (fh_inputs h))"
proof (cases "find (canonical_input b step) (somes (fh_inputs h))")
  case None
  then have "filter_option (canonical_input b step) (input_slot_hint h step) = None"
    using hint_in [of h step] by (auto simp: filter_option_def find_None_iff split: option.splits)
  then show ?thesis using None by (simp add: or_else_def)
next
  case (Some e)
  then have e: "e \<in> set (somes (fh_inputs h))" "canonical_input b step e" using find_SomeD by metis+
  have "input_ok ops h e" using inv(2) e(1) by (simp add: inputs_ok_def)
  then have "\<not> (ln_parent l \<noteq> None \<and> step \<le> ln_inherited_through l)"
    using e(2) knows_unique [OF inv(1) l] by (auto simp: input_ok_def canonical_input_def)
  moreover have "filter_option (canonical_input b step) (input_slot_hint h step) \<in> {None, Some e}"
    using hint_in [of h step] canonical_unique [OF inv(2) _ e(1) _ e(2)] by (auto simp: filter_option_def split: option.splits)
  ultimately show ?thesis using Some by (auto simp: or_else_def)
qed

definition branches_upto :: "('s, 'i) fixed_history \<Rightarrow> timeline_branch_id \<Rightarrow> nat" where
  "branches_upto h b = card {l \<in> set (somes (fh_branches h)). ln_branch l \<le> b}"

lemma branches_upto_less: "knows h b l \<Longrightarrow> p < b \<Longrightarrow> branches_upto h p < branches_upto h b"
  unfolding branches_upto_def by (rule psubset_card_mono, simp, rule psubsetI, force simp: knows_def)
    (metis (mono_tags, lifting) knows_def leD mem_Collect_eq order_refl)

lemma branches_upto_le: "branches_upto h b \<le> length (fh_branches h)"
proof -
  have "branches_upto h b \<le> card (set (somes (fh_branches h)))" unfolding branches_upto_def by (rule card_mono) auto
  also have "\<dots> \<le> length (fh_branches h)" using card_length length_somes order_trans by blast
  finally show ?thesis .
qed

lemma resolve_loop_step:
  assumes inv: "branches_ok h" "inputs_ok ops h" and l: "knows h b l" "step \<le> ln_admitted_through l"
  shows "resolve_input_loop ops h step (Suc depth) b =
    (case find (canonical_input b step) (somes (fh_inputs h)) of
       Some e \<Rightarrow> bindR (verify_input ops h e) (\<lambda>_. Inr e)
     | None \<Rightarrow>
         (case filter_option (\<lambda>r. ir_step r = step) (ln_input_override l) of
            Some r \<Rightarrow> exact_input ops h r
          | None \<Rightarrow>
              if ln_inherited_through l < step then Inl HistoryUnavailable
              else bindR (ok_or HistoryUnavailable (ln_parent l)) (resolve_input_loop ops h step depth)))"
proof -
  have "hist_lineage h b = Inr l" using hist_lineage_eq [OF inv(1)] l(1) by simp
  moreover have "\<not> ln_admitted_through l < step" using l(2) by simp
  ultimately show ?thesis
    unfolding resolve_input_loop.simps by (simp only: bindR.simps if_False own_lookup [OF inv l(1)])
qed

lemma resolve_loop_finds:
  assumes inv: "branches_ok h" "inputs_ok ops h" and step: "fh_floor h < step"
  shows "knows h b l \<Longrightarrow> step \<le> ln_admitted_through l \<Longrightarrow> branches_upto h b \<le> depth \<Longrightarrow>
    \<exists>e. resolve_input_loop ops h step depth b = Inr e \<and> input_source h step b e \<and> e \<in> set (somes (fh_inputs h))"
proof (induction depth arbitrary: b l)
  case 0
  then have "l \<in> {l \<in> set (somes (fh_branches h)). ln_branch l \<le> b}" by (simp add: knows_def)
  then show ?case using 0(3) by (auto simp: branches_upto_def card_eq_0_iff)
next
  case (Suc depth)
  have ok: "lineage_ok h l" using Suc.prems(1) inv(1) by (simp add: knows_def branches_ok_def)
  let ?own = "find (canonical_input b step) (somes (fh_inputs h))"
  show ?case
  proof (cases ?own)
    case (Some e)
    then have e: "e \<in> set (somes (fh_inputs h))" "canonical_input b step e" using find_SomeD by metis+
    then have "verify_input ops h e = Inr ()" using inv(2) by (simp add: inputs_ok_def input_ok_def)
    then have "resolve_input_loop ops h step (Suc depth) b = Inr e"
      using Some unfolding resolve_loop_step [OF inv Suc.prems(1,2)] by simp
    then show ?thesis using e input_source.own [OF Suc.prems(1,2) e] by blast
  next
    case None
    then have none: "\<forall>e\<in>set (somes (fh_inputs h)). \<not> canonical_input b step e" by (auto simp: find_None_iff)
    have "\<not> own_step h l step"
      using none inv(2) Suc.prems(1) unfolding inputs_ok_def knows_def by blast
    then obtain p where p: "ln_parent l = Some p" "step \<le> ln_inherited_through l"
      using step Suc.prems(2) by (auto simp: own_step_def)
    show ?thesis
    proof (cases "filter_option (\<lambda>r. ir_step r = step) (ln_input_override l)")
      case (Some r)
      then have r: "ln_input_override l = Some r" "ir_step r = step" by (auto simp: filter_option_def split: option.splits if_splits)
      then obtain e where e: "e \<in> set (somes (fh_inputs h))" "in_record e = r"
        using ok p step by (auto simp: lineage_ok_def)
      have "resolve_input_loop ops h step (Suc depth) b = Inr e"
        using None Some exact_input_stored [OF inv(2) e(1)] e(2) unfolding resolve_loop_step [OF inv Suc.prems(1,2)] by simp
      then show ?thesis using input_source.replaced [OF Suc.prems(1,2) r e] e(1) by blast
    next
      case no_override: None
      obtain m where m: "knows h p m" "ln_inherited_through l \<le> ln_admitted_through m" "p < b"
        using ok p Suc.prems(1) by (auto simp: lineage_ok_def knows_def)
      have "branches_upto h p \<le> depth" using branches_upto_less [OF Suc.prems(1) m(3)] Suc.prems(3) by simp
      then obtain e where e: "resolve_input_loop ops h step depth p = Inr e" "input_source h step p e" "e \<in> set (somes (fh_inputs h))"
        using Suc.IH [OF m(1)] p(2) m(2) by force
      have "resolve_input_loop ops h step (Suc depth) b = Inr e"
        using None no_override p e(1) unfolding resolve_loop_step [OF inv Suc.prems(1,2)] by simp
      moreover have "input_source h step b e"
        by (rule input_source.inherited [OF Suc.prems(1) p(2) _ p(1) e(2)])
           (use no_override in \<open>auto simp: filter_option_def\<close>)
      ultimately show ?thesis using e(3) by blast
    qed
  qed
qed

lemma own_apart:
  assumes inv: "branches_ok h" "inputs_ok ops h" and l: "knows h b l"
    and e: "e \<in> set (somes (fh_inputs h))" "canonical_input b step e" and p: "ln_parent l \<noteq> None"
  shows "ln_inherited_through l < step"
proof -
  have "input_ok ops h e" using inv(2) e(1) by (simp add: inputs_ok_def)
  then obtain m where "knows h b m" "ln_parent m \<noteq> None \<longrightarrow> ln_inherited_through m < step"
    using e(2) by (auto simp: input_ok_def canonical_input_def)
  then show ?thesis using knows_unique [OF inv(1) l, of m] p by simp
qed

lemma replaced_within:
  assumes "branches_ok h" "knows h b l" "ln_input_override l = Some r"
  shows "ln_parent l = Some (ir_branch r)" "ir_step r \<le> ln_inherited_through l" "ir_scope r = fh_scope h"
proof -
  have "lineage_ok h l" using assms(1,2) by (simp add: branches_ok_def knows_def)
  then show "ln_parent l = Some (ir_branch r)" "ir_step r \<le> ln_inherited_through l" "ir_scope r = fh_scope h"
    using assms(3) by (auto simp: lineage_ok_def split: option.splits)
qed

lemma source_known:
  assumes "branches_ok h" "input_source h step b e"
  shows "\<exists>l. knows h b l \<and> step \<le> ln_admitted_through l" "e \<in> set (somes (fh_inputs h))"
proof -
  show "e \<in> set (somes (fh_inputs h))" using assms(2) by induction
  from assms(2) show "\<exists>l. knows h b l \<and> step \<le> ln_admitted_through l"
  proof cases
    case (inherited l p)
    then have "ln_inherited_through l \<le> ln_admitted_through l"
      using assms(1) by (auto simp: branches_ok_def knows_def lineage_ok_def)
    then show ?thesis using inherited order_trans by blast
  qed blast+
qed

lemma source_unique:
  assumes inv: "branches_ok h" "inputs_ok ops h"
  shows "input_source h step b e \<Longrightarrow> input_source h step b e' \<Longrightarrow> e = e'"
proof (induction arbitrary: e' rule: input_source.induct)
  case (own b l e)
  note apart = own_apart [OF inv own.hyps(1,3,4)]
  from own.prems show ?case
  proof cases
    case (own l')
    then show ?thesis using canonical_unique [OF inv(2) \<open>e \<in> _\<close> _ \<open>canonical_input b step e\<close>] by blast
  next
    case (replaced l' r)
    then have "l' = l" using knows_unique [OF inv(1)] \<open>knows h b l\<close> by blast
    then show ?thesis using replaced_within [OF inv(1) replaced(1,3)] replaced(4) apart by force
  next
    case (inherited l' p)
    then have "l' = l" using knows_unique [OF inv(1)] \<open>knows h b l\<close> by blast
    then show ?thesis using inherited(2,4) apart by force
  qed
next
  case (replaced b l r e)
  note within = replaced_within [OF inv(1) replaced.hyps(1,3)]
  from replaced.prems show ?case
  proof cases
    case (own l')
    then have "l' = l" using knows_unique [OF inv(1)] \<open>knows h b l\<close> by blast
    then show ?thesis using own_apart [OF inv own(1,3,4)] within \<open>ir_step r = step\<close> by force
  next
    case (replaced l' r')
    then have "l' = l" using knows_unique [OF inv(1)] \<open>knows h b l\<close> by blast
    then show ?thesis
      using entry_unique [OF inv(2) \<open>e \<in> _\<close> replaced(5)] replaced(3,6) \<open>in_record e = r\<close> \<open>ln_input_override l = Some r\<close> by simp
  next
    case (inherited l' p)
    then have "l' = l" using knows_unique [OF inv(1)] \<open>knows h b l\<close> by blast
    then show ?thesis using inherited(3) \<open>ln_input_override l = Some r\<close> \<open>ir_step r = step\<close> by blast
  qed
next
  case (inherited b l p e)
  from inherited.prems show ?case
  proof cases
    case (own l')
    then have "l' = l" using knows_unique [OF inv(1)] \<open>knows h b l\<close> by blast
    then show ?thesis using own_apart [OF inv own(1,3,4)] inherited.hyps(2,4) by force
  next
    case (replaced l' r')
    then have "l' = l" using knows_unique [OF inv(1)] \<open>knows h b l\<close> by blast
    then show ?thesis using replaced(3,4) inherited.hyps(3) by blast
  next
    case (inherited l' p')
    then have "l' = l" using knows_unique [OF inv(1)] \<open>knows h b l\<close> by blast
    then show ?thesis using inherited(4,5) inherited.IH \<open>ln_parent l = Some p\<close> by simp
  qed
qed

lemma resolve_input_iff:
  assumes inv: "branches_ok h" "inputs_ok ops h"
  shows "resolve_input ops h b step = Inr e \<longleftrightarrow> fh_floor h < step \<and> input_source h step b e"
proof
  assume res: "resolve_input ops h b step = Inr e"
  then have step: "fh_floor h < step"
    and loop: "resolve_input_loop ops h step (length (fh_branches h)) b = Inr e"
    by (auto simp: resolve_input_def split: if_splits)
  then obtain l where l: "knows h b l" "step \<le> ln_admitted_through l"
    by (cases "length (fh_branches h)") (auto simp: result_simps not_less dest!: hist_lineage_known split: if_splits)
  from resolve_loop_finds [OF inv step l branches_upto_le] show "fh_floor h < step \<and> input_source h step b e"
    using loop step by auto
next
  assume src: "fh_floor h < step \<and> input_source h step b e"
  obtain l where l: "knows h b l" "step \<le> ln_admitted_through l"
    using source_known(1) [OF inv(1)] src by blast
  from resolve_loop_finds [OF inv _ l branches_upto_le] obtain e' where
    "resolve_input_loop ops h step (length (fh_branches h)) b = Inr e'" "input_source h step b e'" using src by blast
  then show "resolve_input ops h b step = Inr e"
    using source_unique [OF inv] src by (auto simp: resolve_input_def leD)
qed

lemma resolve_input_total:
  assumes inv: "branches_ok h" "inputs_ok ops h"
  shows "(\<exists>e. resolve_input ops h b step = Inr e) \<longleftrightarrow> fh_floor h < step \<and> (\<exists>l. knows h b l \<and> step \<le> ln_admitted_through l)"
    and "resolve_input ops h b step = Inl err \<Longrightarrow> err = HistoryUnavailable"
proof -
  have found: "\<exists>e. resolve_input ops h b step = Inr e" if "fh_floor h < step" "knows h b l" "step \<le> ln_admitted_through l" for l
    using resolve_loop_finds [OF inv that branches_upto_le] that(1) by (auto simp: resolve_input_def leD)
  moreover have "fh_floor h < step \<and> (\<exists>l. knows h b l \<and> step \<le> ln_admitted_through l)" if "resolve_input ops h b step = Inr e" for e
    using that by (cases "length (fh_branches h)")
      (auto simp: resolve_input_def result_simps not_less not_le dest!: hist_lineage_known split: if_splits)
  ultimately show iff: "(\<exists>e. resolve_input ops h b step = Inr e) \<longleftrightarrow> fh_floor h < step \<and> (\<exists>l. knows h b l \<and> step \<le> ln_admitted_through l)"
    by blast
  assume err: "resolve_input ops h b step = Inl err"
  then have none: "\<not> (fh_floor h < step \<and> (\<exists>l. knows h b l \<and> step \<le> ln_admitted_through l))" using iff by auto
  show "err = HistoryUnavailable"
  proof (cases "fh_floor h < step")
    case True
    then have "hist_lineage h b = Inl HistoryUnavailable \<or> (\<exists>l. hist_lineage h b = Inr l \<and> ln_admitted_through l < step)"
      using none hist_lineage_known [of h b] by (cases "hist_lineage h b") (auto simp: hist_lineage_def result_simps not_le)
    moreover have "resolve_input_loop ops h step (length (fh_branches h)) b = Inl err"
      using err True by (simp add: resolve_input_def not_le [symmetric])
    ultimately show ?thesis by (cases "length (fh_branches h)") auto
  next
    case False
    then show ?thesis using err by (simp add: resolve_input_def not_less)
  qed
qed

section \<open>Admissions keep the invariant\<close>

lemma distinct_map_add:
  "mset ys = add_mset x (mset xs) \<Longrightarrow> distinct (map f ys) \<longleftrightarrow> f x \<notin> f ` set xs \<and> distinct (map f xs)"
proof -
  assume "mset ys = add_mset x (mset xs)"
  then have "mset (map f ys) = mset (map f (x # xs))" by simp
  then show ?thesis using mset_eq_imp_distinct_iff by fastforce
qed

lemma filter_add: "mset ys = add_mset x (mset xs) \<Longrightarrow>
    mset (filter P ys) = (if P x then add_mset x (mset (filter P xs)) else mset (filter P xs))"
  by (simp add: mset_filter)

lemma set_add: "mset ys = add_mset x (mset xs) \<Longrightarrow> set ys = insert x (set xs)"
  by (metis set_mset_add_mset_insert set_mset_mset)

lemma sum_bytes_add: "mset ys = add_mset x (mset xs) \<Longrightarrow> sum_bytes f ys = unat (f x) + sum_bytes f xs"
  using sum_bytes_mset [of ys "x # xs" f] by simp

lemma charge_Inr: "charge h bytes = Inr c \<longleftrightarrow> unat c = unat (fh_bytes h) + unat bytes \<and> c \<le> hl_max_total_bytes (fh_limits h)"
  by (auto simp: charge_def result_simps not_less split: if_splits)

lemma knows_cong: "fh_branches h' = fh_branches h \<Longrightarrow> knows h' = knows h"
  by (simp add: knows_def fun_eq_iff)

lemma verify_cong:
  "fh_limits h' = fh_limits h \<Longrightarrow> verify_input ops h' = verify_input ops h"
  "fh_limits h' = fh_limits h \<Longrightarrow> verify_anchor ops h' = verify_anchor ops h"
  by (simp_all add: verify_input_def verify_anchor_def fun_eq_iff)

lemma check_payload_Inr:
  "check_payload p x d limit = Inr b \<longleftrightarrow> b = payload_len p x \<and> b \<le> limit \<and> payload_digest p x = d"
  by (auto simp: check_payload_def Let_def not_less)

lemma verify_input_Inr:
  "verify_input ops h e = Inr u \<longleftrightarrow> in_bytes e = payload_len (of_input ops) (in_payload e)
     \<and> in_bytes e \<le> hl_max_input_bytes (fh_limits h) \<and> payload_digest (of_input ops) (in_payload e) = ir_digest (in_record e)"
  by (auto simp: verify_input_def result_simps check_payload_Inr split: if_splits)

lemma verify_anchor_Inr:
  "verify_anchor ops h e = Inr u \<longleftrightarrow> an_bytes e = payload_len (of_state ops) (an_state e)
     \<and> an_bytes e \<le> hl_max_snapshot_bytes (fh_limits h) \<and> payload_digest (of_state ops) (an_state e) = sa_digest (an_anchor e)"
  by (auto simp: verify_anchor_def result_simps check_payload_Inr split: if_splits)

text \<open>
  The admissions never shrink the store: lineages stay, with at least as many admitted steps, and
  so do the inputs.
\<close>

definition grows :: "('s, 'i) fixed_history \<Rightarrow> ('s, 'i) fixed_history \<Rightarrow> bool" where
  "grows h h' \<longleftrightarrow>
     fh_scope h' = fh_scope h \<and> fh_floor h' = fh_floor h \<and> fh_limits h' = fh_limits h
     \<and> fh_last_branch h \<le> fh_last_branch h'
     \<and> set (somes (fh_inputs h)) \<subseteq> set (somes (fh_inputs h'))
     \<and> (\<forall>b l. knows h b l \<longrightarrow> (\<exists>step \<ge> ln_admitted_through l. knows h' b (l\<lparr>ln_admitted_through := step\<rparr>)))"

lemma grows_same:
  "fh_scope h' = fh_scope h \<Longrightarrow> fh_floor h' = fh_floor h \<Longrightarrow> fh_limits h' = fh_limits h \<Longrightarrow>
     fh_last_branch h \<le> fh_last_branch h' \<Longrightarrow> set (somes (fh_inputs h)) \<subseteq> set (somes (fh_inputs h')) \<Longrightarrow>
     set (somes (fh_branches h)) \<subseteq> set (somes (fh_branches h')) \<Longrightarrow> grows h h'"
  by (auto simp: grows_def knows_def intro!: exI [of _ "ln_admitted_through _"])

lemma grows_knows:
  assumes "grows h h'" "knows h b l"
  obtains step where "ln_admitted_through l \<le> step" "knows h' b (l\<lparr>ln_admitted_through := step\<rparr>)"
  using assms unfolding grows_def by blast

lemma lineage_grows:
  assumes g: "grows h h'" and ok: "lineage_ok h l"
  shows "lineage_ok h' l"
proof -
  have "\<exists>m'. knows h' p m' \<and> i \<le> ln_admitted_through m'" if "knows h p m" "i \<le> ln_admitted_through m" for p m i
  proof -
    obtain step where "ln_admitted_through m \<le> step" "knows h' p (m\<lparr>ln_admitted_through := step\<rparr>)"
      using grows_knows [OF g \<open>knows h p m\<close>] .
    then show ?thesis using that(2) by (intro exI [of _ "m\<lparr>ln_admitted_through := step\<rparr>"]) auto
  qed
  then show ?thesis
    using g ok unfolding lineage_ok_def grows_def by (cases "ln_parent l") (auto intro: order_trans, blast+)
qed

lemma input_grows:
  assumes g: "grows h h'" and ok: "input_ok ops h e"
  shows "input_ok ops h' e"
proof -
  obtain l where l: "knows h (ir_branch (in_record e)) l" "ir_step (in_record e) \<le> ln_admitted_through l"
    "in_canonical e \<and> ln_parent l \<noteq> None \<longrightarrow> ln_inherited_through l < ir_step (in_record e)"
    using ok by (auto simp: input_ok_def)
  then obtain step where "ln_admitted_through l \<le> step" "knows h' (ir_branch (in_record e)) (l\<lparr>ln_admitted_through := step\<rparr>)"
    using grows_knows [OF g] by blast
  then show ?thesis
    using ok l g unfolding input_ok_def
    by (auto simp: verify_input_Inr grows_def intro!: exI [of _ "l\<lparr>ln_admitted_through := step\<rparr>"])
qed

lemma anchor_grows:
  assumes g: "grows h h'" and ok: "anchor_ok ops h e"
  shows "anchor_ok ops h' e"
proof -
  obtain l where l: "knows h (sa_branch (an_anchor e)) l" "sa_step (an_anchor e) \<le> ln_admitted_through l"
    using ok by (auto simp: anchor_ok_def)
  then obtain step where "ln_admitted_through l \<le> step" "knows h' (sa_branch (an_anchor e)) (l\<lparr>ln_admitted_through := step\<rparr>)"
    using grows_knows [OF g] by blast
  then show ?thesis
    using ok l g unfolding anchor_ok_def
    by (auto simp: verify_anchor_Inr grows_def intro!: exI [of _ "l\<lparr>ln_admitted_through := step\<rparr>"])
qed

lemma anchor_added:
  assumes inv: "hist_inv ops h" and h': "h' = h\<lparr>fh_anchors := anchors, fh_bytes := c\<rparr>"
    and added: "mset (somes anchors) = add_mset e (mset (somes (fh_anchors h)))"
    and ok: "anchor_ok ops h e"
    and new: "an_canonical e \<Longrightarrow> \<forall>x\<in>set (somes (fh_anchors h)). an_canonical x \<longrightarrow> anchor_place x \<noteq> anchor_place e"
    and c: "unat c = unat (fh_bytes h) + unat (an_bytes e)" "c \<le> hl_max_total_bytes (fh_limits h)"
  shows "hist_inv ops h'" "grows h h'"
proof -
  show g: "grows h h'" by (rule grows_same) (simp_all add: h')
  have "branches_ok h'" using inv lineage_grows [OF g] by (simp add: hist_inv_def branches_ok_def h')
  moreover have "inputs_ok ops h'"
    using inv input_grows [OF g] by (simp add: hist_inv_def inputs_ok_def own_step_def h')
  moreover have "distinct (map anchor_place (filter an_canonical (somes anchors)))"
  proof (cases "an_canonical e")
    case True
    then have "mset (filter an_canonical (somes anchors)) = add_mset e (mset (filter an_canonical (somes (fh_anchors h))))"
      using filter_add [OF added, of an_canonical] by simp
    from distinct_map_add [OF this, of anchor_place] show ?thesis
      using inv new [OF True] by (auto simp: hist_inv_def anchors_ok_def)
  next
    case False
    then have "mset (filter an_canonical (somes anchors)) = mset (filter an_canonical (somes (fh_anchors h)))"
      using filter_add [OF added, of an_canonical] by simp
    then have "mset (map anchor_place (filter an_canonical (somes anchors)))
        = mset (map anchor_place (filter an_canonical (somes (fh_anchors h))))" by simp
    then show ?thesis using inv mset_eq_imp_distinct_iff by (fastforce simp: hist_inv_def anchors_ok_def)
  qed
  then have "anchors_ok ops h'"
    using inv ok set_add [OF added] anchor_grows [OF g] by (auto simp: hist_inv_def anchors_ok_def h')
  moreover have "charges_ok h'"
    using inv c sum_bytes_add [OF added, of an_bytes] by (simp add: hist_inv_def charges_ok_def h')
  ultimately show "hist_inv ops h'" by (simp add: hist_inv_def)
qed

lemma insert_anchor_inv:
  assumes inv: "hist_inv ops h" and ins: "insert_anchor ops h a s canonical = Inr h'"
  shows "hist_inv ops h'" "grows h h'"
proof -
  have b: "branches_ok h" using inv by (simp add: hist_inv_def)
  have "(hist_inv ops h' \<and> grows h h')"
  proof (cases "h' = h")
    case True
    then show ?thesis using inv grows_same [of h h] by simp
  next
    case False
    then obtain l bytes c anchors where adm: "sa_scope a = fh_scope h" "knows h (sa_branch a) l"
      "fh_floor h \<le> sa_step a" "sa_step a \<le> ln_admitted_through l"
      "check_payload (of_state ops) s (sa_digest a) (hl_max_snapshot_bytes (fh_limits h)) = Inr bytes"
      "canonical \<Longrightarrow> \<not> list_ex (canonical_anchor (sa_branch a) (sa_step a)) (somes (fh_anchors h))"
      "charge h bytes = Inr c"
      "first_vacant \<lparr> an_anchor = a, an_state = s, an_bytes = bytes, an_canonical = canonical \<rparr> (fh_anchors h) = Inr anchors"
      "h' = h\<lparr>fh_anchors := anchors, fh_bytes := c\<rparr>"
      using ins
      by (auto simp: insert_anchor_def check_anchor_admission_def hist_check_scope_def result_simps not_less
          hist_lineage_eq [OF b] split: option.splits if_splits prod.splits)
    let ?e = "\<lparr> an_anchor = a, an_state = s, an_bytes = bytes, an_canonical = canonical \<rparr>"
    have "anchor_ok ops h ?e" using adm(1-5) by (auto simp: anchor_ok_def verify_anchor_Inr check_payload_Inr)
    moreover have "\<forall>x\<in>set (somes (fh_anchors h)). an_canonical x \<longrightarrow> anchor_place x \<noteq> anchor_place ?e" if "an_canonical ?e"
      using adm(6) that by (auto simp: list_ex_iff canonical_anchor_def anchor_place_def)
    moreover have "unat c = unat (fh_bytes h) + unat (an_bytes ?e)" "c \<le> hl_max_total_bytes (fh_limits h)"
      using adm(7) by (simp_all add: charge_Inr)
    ultimately show ?thesis
      using anchor_added [OF inv adm(9) conjunct1 [OF first_vacant_Inr [OF adm(8)]]] by blast
  qed
  then show "hist_inv ops h'" "grows h h'" by simp_all
qed

lemma input_added:
  assumes inv: "hist_inv ops h" and g: "grows h h'" and b: "branches_ok h'"
    and added: "mset (somes (fh_inputs h')) = add_mset e (mset (somes (fh_inputs h)))"
    and same: "fh_anchors h' = fh_anchors h" and ok: "input_ok ops h' e"
    and key: "\<forall>x\<in>set (somes (fh_inputs h)). input_key x \<noteq> input_key e"
    and place: "in_canonical e \<Longrightarrow> \<forall>x\<in>set (somes (fh_inputs h)). in_canonical x \<longrightarrow> input_place x \<noteq> input_place e"
    and steps: "\<And>l step. l \<in> set (somes (fh_branches h')) \<Longrightarrow> own_step h' l step \<Longrightarrow>
      (\<exists>l0\<in>set (somes (fh_branches h)). ln_branch l0 = ln_branch l \<and> own_step h l0 step) \<or> canonical_input (ln_branch l) step e"
    and c: "unat (fh_bytes h') = unat (fh_bytes h) + unat (in_bytes e)" "fh_bytes h' \<le> hl_max_total_bytes (fh_limits h')"
  shows "hist_inv ops h'"
proof -
  have i: "inputs_ok ops h" using inv by (simp add: hist_inv_def)
  have keys: "distinct (map input_key (somes (fh_inputs h')))"
    using distinct_map_add [OF added, of input_key] key i by (auto simp: inputs_ok_def)
  have places: "distinct (map input_place (filter in_canonical (somes (fh_inputs h'))))"
  proof (cases "in_canonical e")
    case True
    then have "mset (filter in_canonical (somes (fh_inputs h'))) = add_mset e (mset (filter in_canonical (somes (fh_inputs h))))"
      using filter_add [OF added, of in_canonical] by simp
    from distinct_map_add [OF this, of input_place] show ?thesis
      using i place [OF True] by (auto simp: inputs_ok_def)
  next
    case False
    then have "mset (map input_place (filter in_canonical (somes (fh_inputs h'))))
        = mset (map input_place (filter in_canonical (somes (fh_inputs h))))"
      using filter_add [OF added, of in_canonical] by simp
    then show ?thesis using i mset_eq_imp_distinct_iff by (fastforce simp: inputs_ok_def)
  qed
  have found: "\<exists>x\<in>set (somes (fh_inputs h')). canonical_input (ln_branch l) step x"
    if l: "l \<in> set (somes (fh_branches h'))" and step: "own_step h' l step" for l step
    using steps [OF l step] i set_add [OF added] unfolding inputs_ok_def by (metis insertCI)
  have "inputs_ok ops h'"
    using keys places found ok i input_grows [OF g] set_add [OF added] by (auto simp: inputs_ok_def)
  moreover have "anchors_ok ops h'" using inv anchor_grows [OF g] by (simp add: hist_inv_def anchors_ok_def same)
  moreover have "charges_ok h'"
    using inv c sum_bytes_add [OF added, of in_bytes] by (simp add: hist_inv_def charges_ok_def same)
  ultimately show ?thesis using b by (simp add: hist_inv_def)
qed

lemma import_input_inv:
  assumes inv: "hist_inv ops h" and imp: "import_input ops h r payload = Inr h'"
  shows "hist_inv ops h' \<and> grows h h'"
proof (cases "h' = h")
  case True
  then show ?thesis using inv grows_same [of h h] by simp
next
  case False
  have b: "branches_ok h" using inv by (simp add: hist_inv_def)
  define old where "old = find (\<lambda>e. ir_branch (in_record e) = ir_branch r \<and> ir_step (in_record e) = ir_step r
       \<and> ir_revision (in_record e) = ir_revision r) (somes (fh_inputs h))"
  have none: "old = None"
    using imp False by (cases old) (auto simp: import_input_def old_def [symmetric] result_simps split: if_splits)
  obtain l bytes c inputs where adm: "ir_scope r = fh_scope h" "knows h (ir_branch r) l"
    "fh_floor h < ir_step r" "ir_step r \<le> ln_admitted_through l"
    "check_payload (of_input ops) payload (ir_digest r) (hl_max_input_bytes (fh_limits h)) = Inr bytes"
    "charge h bytes = Inr c"
    "first_vacant \<lparr> in_record = r, in_payload = payload, in_bytes = bytes, in_canonical = False \<rparr> (fh_inputs h) = Inr inputs"
    "h' = h\<lparr>fh_inputs := inputs, fh_bytes := c\<rparr>"
    using imp none unfolding import_input_def old_def [symmetric]
    by (auto simp: hist_check_scope_def result_simps not_less not_le hist_lineage_eq [OF b] split: if_splits)
  let ?e = "\<lparr> in_record = r, in_payload = payload, in_bytes = bytes, in_canonical = False \<rparr>"
  have added: "mset (somes inputs) = add_mset ?e (mset (somes (fh_inputs h)))" using first_vacant_Inr [OF adm(7)] by simp
  have g: "grows h h'" using set_add [OF added] by (intro grows_same) (auto simp: adm(8))
  have "input_ok ops h ?e" using adm(1-5) by (auto simp: input_ok_def verify_input_Inr check_payload_Inr)
  then have ok: "input_ok ops h' ?e" by (rule input_grows [OF g])
  have "branches_ok h'" using b lineage_grows [OF g] by (simp add: branches_ok_def adm(8))
  from input_added [OF inv g this _ _ ok] have "hist_inv ops h'"
    using added adm(6) none by (auto simp: adm(8) old_def find_None_iff input_key_def own_step_def charge_Inr)
  then show ?thesis using g by simp
qed

text \<open>The lineages after an append: one of them admitted one more step.\<close>

definition admitted :: "timeline_branch_id \<Rightarrow> timeline_step \<Rightarrow> lineage \<Rightarrow> lineage" where
  "admitted b step l = (if ln_branch l = b then l\<lparr>ln_admitted_through := step\<rparr> else l)"

lemma admitted_simps [simp]:
  "ln_branch (admitted b step l) = ln_branch l" "ln_parent (admitted b step l) = ln_parent l"
  "ln_inherited_through (admitted b step l) = ln_inherited_through l"
  "ln_input_override (admitted b step l) = ln_input_override l"
  "ln_admitted_through (admitted b step l) = (if ln_branch l = b then step else ln_admitted_through l)"
  by (simp_all add: admitted_def)

lemma next_step_split:
  fixes a step s :: u64
  shows "unat step = unat a + 1 \<Longrightarrow> s \<le> step \<longleftrightarrow> s \<le> a \<or> s = step"
  by (auto simp: word_le_nat_alt word_unat_eq_iff)

lemma appended:
  assumes inv: "hist_inv ops h" and app: "append_input ops h r payload = Inr h'" and new: "h' \<noteq> h"
  obtains l bytes inputs where "ir_scope r = fh_scope h" "knows h (ir_branch r) l" "fh_floor h < ir_step r"
    "unat (ir_step r) = unat (ln_admitted_through l) + 1"
    "check_payload (of_input ops) payload (ir_digest r) (hl_max_input_bytes (fh_limits h)) = Inr bytes"
    "mset (somes inputs) = add_mset \<lparr> in_record = r, in_payload = payload, in_bytes = bytes, in_canonical = True \<rparr>
       (mset (somes (fh_inputs h)))"
    "somes (fh_branches h') = map (admitted (ir_branch r) (ir_step r)) (somes (fh_branches h))"
    "h' = h\<lparr>fh_inputs := inputs, fh_branches := fh_branches h', fh_bytes := fh_bytes h'\<rparr>"
    "unat (fh_bytes h') = unat (fh_bytes h) + unat bytes" "fh_bytes h' \<le> hl_max_total_bytes (fh_limits h)"
proof -
  have b: "branches_ok h" using inv by (simp add: hist_inv_def)
  from app new obtain l bytes c branches inputs where adm: "ir_scope r = fh_scope h" "knows h (ir_branch r) l"
    "fh_floor h < ir_step r" "unat (ir_step r) = unat (ln_admitted_through l) + 1"
    "check_payload (of_input ops) payload (ir_digest r) (hl_max_input_bytes (fh_limits h)) = Inr bytes"
    "charge h bytes = Inr c" "admit_through (ir_branch r) (ir_step r) (fh_branches h) = Some branches"
    "first_vacant \<lparr> in_record = r, in_payload = payload, in_bytes = bytes, in_canonical = True \<rparr> (fh_inputs h) = Inr inputs"
    "h' = h\<lparr>fh_inputs := inputs, fh_branches := branches, fh_bytes := c\<rparr>"
    by (auto simp: append_input_def hist_check_scope_def result_simps not_less not_le hist_lineage_eq [OF b]
        split: if_splits)
  have "somes branches = map (admitted (ir_branch r) (ir_step r)) (somes (fh_branches h))"
    using admit_through_Some [OF adm(7)] b by (simp add: branches_ok_def admitted_def)
  then show thesis
    using that [OF adm(1-5) conjunct1 [OF first_vacant_Inr [OF adm(8)]]] adm(6,9) by (simp add: charge_Inr)
qed

lemma append_input_inv:
  assumes inv: "hist_inv ops h" and app: "append_input ops h r payload = Inr h'"
  shows "hist_inv ops h' \<and> grows h h'"
proof (cases "h' = h")
  case True
  then show ?thesis using inv grows_same [of h h] by simp
next
  case False
  have b: "branches_ok h" and i: "inputs_ok ops h" using inv by (simp_all add: hist_inv_def)
  from inv app False obtain l bytes inputs where adm: "ir_scope r = fh_scope h" "knows h (ir_branch r) l" "fh_floor h < ir_step r"
    "unat (ir_step r) = unat (ln_admitted_through l) + 1"
    "check_payload (of_input ops) payload (ir_digest r) (hl_max_input_bytes (fh_limits h)) = Inr bytes"
    "mset (somes inputs) = add_mset \<lparr> in_record = r, in_payload = payload, in_bytes = bytes, in_canonical = True \<rparr>
       (mset (somes (fh_inputs h)))"
    "somes (fh_branches h') = map (admitted (ir_branch r) (ir_step r)) (somes (fh_branches h))"
    "h' = h\<lparr>fh_inputs := inputs, fh_branches := fh_branches h', fh_bytes := fh_bytes h'\<rparr>"
    "unat (fh_bytes h') = unat (fh_bytes h) + unat bytes" "fh_bytes h' \<le> hl_max_total_bytes (fh_limits h)"
    by (rule appended)
  let ?e = "\<lparr> in_record = r, in_payload = payload, in_bytes = bytes, in_canonical = True \<rparr>"
  let ?up = "admitted (ir_branch r) (ir_step r)"
  have frame: "fh_scope h' = fh_scope h" "fh_floor h' = fh_floor h" "fh_limits h' = fh_limits h"
    "fh_last_branch h' = fh_last_branch h" "fh_inputs h' = inputs" "fh_anchors h' = fh_anchors h"
    by (subst adm(8), simp)+
  note sp = next_step_split [OF adm(4)]
  have only: "m = l" if "m \<in> set (somes (fh_branches h))" "ln_branch m = ir_branch r" for m
    using knows_unique [OF b adm(2), of m] that by (simp add: knows_def)
  have lb: "ln_branch l = ir_branch r" "l \<in> set (somes (fh_branches h))" using adm(2) by (simp_all add: knows_def)
  have more: "ln_admitted_through l \<le> ir_step r" using sp by blast
  have g: "grows h h'"
    unfolding grows_def
  proof (intro conjI allI impI)
    show "\<exists>step \<ge> ln_admitted_through m. knows h' b (m\<lparr>ln_admitted_through := step\<rparr>)" if "knows h b m" for b m
    proof -
      have "?up m \<in> set (somes (fh_branches h'))" using that by (simp add: knows_def adm(7))
      moreover have "ln_admitted_through m \<le> ln_admitted_through (?up m)" using that only more by (auto simp: knows_def)
      moreover have "?up m = m\<lparr>ln_admitted_through := ln_admitted_through (?up m)\<rparr>" by (simp add: admitted_def)
      ultimately show ?thesis using that unfolding knows_def by (metis admitted_simps(1))
    qed
  qed (use set_add [OF adm(6)] in \<open>auto simp: frame\<close>)
  have lin: "lineage_ok h' (?up m)" if m: "m \<in> set (somes (fh_branches h))" for m
  proof -
    have ok: "lineage_ok h' m" using m b lineage_grows [OF g] by (simp add: branches_ok_def)
    have le: "ln_admitted_through m \<le> ln_admitted_through (?up m)" using m only more by auto
    have "fh_floor h' \<le> ln_admitted_through (?up m)" "ln_inherited_through m \<le> ln_admitted_through (?up m)"
      by (rule order_trans [OF _ le], use ok in \<open>simp add: lineage_ok_def\<close>)+
    then show ?thesis using ok unfolding lineage_ok_def admitted_simps(1-4) by simp
  qed
  have br: "branches_ok h'" using lin b by (simp add: branches_ok_def adm(7) comp_def)
  have known: "knows h' (ir_branch r) (?up l)" using lb by (simp add: knows_def adm(7))
  have "ln_inherited_through l \<le> ln_admitted_through l" using b lb(2) by (simp add: branches_ok_def lineage_ok_def)
  then have "ln_inherited_through l < ir_step r" using adm(4) by (simp add: word_le_nat_alt word_less_nat_alt)
  then have ok: "input_ok ops h' ?e"
    unfolding input_ok_def using known adm(1,3,5) lb by (auto simp: frame verify_input_Inr check_payload_Inr intro!: exI [of _ "?up l"])
  have fresh: "input_place x \<noteq> input_place ?e" if x: "x \<in> set (somes (fh_inputs h))" for x
  proof -
    obtain m where "knows h (ir_branch (in_record x)) m" "ir_step (in_record x) \<le> ln_admitted_through m"
      using inputs_okD [OF i x] unfolding input_ok_def by blast
    then show ?thesis
      using knows_unique [OF b adm(2), of m] adm(4) by (auto simp: input_place_def word_le_nat_alt)
  qed
  have steps: "(\<exists>l0\<in>set (somes (fh_branches h)). ln_branch l0 = ln_branch m \<and> own_step h l0 step) \<or> canonical_input (ln_branch m) step ?e"
    if m: "m \<in> set (somes (fh_branches h'))" and own: "own_step h' m step" for m step
  proof -
    obtain m0 where m0: "m0 \<in> set (somes (fh_branches h))" "m = ?up m0" using m by (auto simp: adm(7))
    have "own_step h m0 step \<or> canonical_input (ln_branch m0) step ?e"
    proof (cases "ln_branch m0 = ir_branch r")
      case True
      then have "m0 = l" using only m0(1) by blast
      then show ?thesis using own sp [of step] m0(2) lb by (auto simp: own_step_def frame canonical_input_def)
    next
      case False
      then show ?thesis using own m0(2) by (simp add: own_step_def frame)
    qed
    then show ?thesis using m0 by auto
  qed
  have "hist_inv ops h'"
  proof (rule input_added [OF inv g br _ frame(6) ok _ _ steps])
    show "mset (somes (fh_inputs h')) = add_mset ?e (mset (somes (fh_inputs h)))" using adm(6) by (simp add: frame)
    show "\<forall>x\<in>set (somes (fh_inputs h)). input_key x \<noteq> input_key ?e"
      using fresh by (auto simp: input_key_def input_place_def)
    show "\<forall>x\<in>set (somes (fh_inputs h)). in_canonical x \<longrightarrow> input_place x \<noteq> input_place ?e" using fresh by blast
  qed (use adm(9,10) in \<open>simp_all add: frame\<close>)
  then show ?thesis using g by simp
qed

section \<open>Forks\<close>

lemma check_plan_parent:
  assumes b: "branches_ok h" and plan: "check_plan ops h pl = Inr u"
  obtains parent where "th_scope (pl_expected pl) = fh_scope h" "knows h (th_branch (pl_expected pl)) parent"
    "th_step (pl_expected pl) \<le> ln_admitted_through parent"
    "\<And>r. pl_replacement pl = Some r \<Longrightarrow> \<exists>e\<in>set (somes (fh_inputs h)). in_record e = r"
proof -
  have "\<exists>e. exact_input ops h r = Inr e" if "pl_replacement pl = Some r" for r
    using plan that by (auto simp: check_plan_def result_simps split: if_splits)
  then have "\<And>r. pl_replacement pl = Some r \<Longrightarrow> \<exists>e\<in>set (somes (fh_inputs h)). in_record e = r"
    using exact_input_Inr by metis
  then show thesis
    using plan that hist_lineage_eq [OF b] by (auto simp: check_plan_def hist_check_scope_def result_simps not_less split: if_splits)
qed

lemma fork_inv:
  assumes inv: "hist_inv ops h" and prep: "plan_prepare expected revision corr inputs limits = Inr pl"
    and fork: "hist_fork ops h pl r = Inr h'"
  shows "hist_inv ops h' \<and> grows h h'"
proof -
  have b: "branches_ok h" using inv by (simp add: hist_inv_def)
  obtain u parent0 branches where f: "check_plan ops h pl = Inr u" "hist_lineage h (th_branch (pl_expected pl)) = Inr parent0"
    "fh_last_branch h < br_branch r"
    "first_vacant \<lparr> ln_branch = br_branch r, ln_parent = Some (ln_branch parent0),
       ln_inherited_through = th_step (pl_expected pl), ln_admitted_through = th_step (pl_expected pl),
       ln_state_changed_from = corrected_step pl, ln_input_override = pl_replacement pl,
       ln_state_override = (if pl_replacement pl = None then Some (pl_anchor pl) else None) \<rparr> (fh_branches h) = Inr branches"
    "h' = h\<lparr>fh_branches := branches, fh_last_branch := br_branch r\<rparr>"
    using fork by (auto simp: hist_fork_def result_simps not_le split: if_splits)
  from b f(1) obtain parent where p: "th_scope (pl_expected pl) = fh_scope h" "knows h (th_branch (pl_expected pl)) parent"
    "th_step (pl_expected pl) \<le> ln_admitted_through parent"
    "\<And>r. pl_replacement pl = Some r \<Longrightarrow> \<exists>e\<in>set (somes (fh_inputs h)). in_record e = r"
    by (rule check_plan_parent) blast
  have parent0: "ln_branch parent0 = th_branch (pl_expected pl)" using f(2) hist_lineage_known by (auto simp: knows_def)
  let ?l = "\<lparr> ln_branch = br_branch r, ln_parent = Some (th_branch (pl_expected pl)),
       ln_inherited_through = th_step (pl_expected pl), ln_admitted_through = th_step (pl_expected pl),
       ln_state_changed_from = corrected_step pl, ln_input_override = pl_replacement pl,
       ln_state_override = (if pl_replacement pl = None then Some (pl_anchor pl) else None) \<rparr>"
  have added: "mset (somes branches) = add_mset ?l (mset (somes (fh_branches h)))"
    using first_vacant_Inr [OF f(4)] by (simp add: parent0)
  have g: "grows h h'" using set_add [OF added] f(3) by (intro grows_same) (auto simp: f(5))
  have plok: "lineage_ok h parent" using b p(2) by (simp add: branches_ok_def knows_def)
  have older: "\<forall>m\<in>set (somes (fh_branches h)). ln_branch m < br_branch r"
    using b f(3) by (auto simp: branches_ok_def lineage_ok_def intro: le_less_trans)
  have exp: "pl_expected pl = expected" using prep by (simp add: plan_prepare_eq_Inr)
  have floor: "fh_floor h \<le> th_step (pl_expected pl)"
  proof (cases "fh_floor h \<le> sa_step (pl_anchor pl)")
    case True
    moreover have "sa_step (pl_anchor pl) \<le> th_step (pl_expected pl)"
      using prep by (auto simp: plan_prepare_eq_Inr plan_spec_def inputs_continue_def word_le_nat_alt split: prod.splits)
    ultimately show ?thesis by (rule order_trans)
  next
    case False
    then have "snapshot_at ops h branch (sa_step (pl_anchor pl)) = Inl HistoryUnavailable" for branch
      by (simp add: snapshot_at_def resolve_anchor_def not_le)
    moreover have "\<And>e. exact_anchor ops h (pl_anchor pl) \<noteq> Inr e" using False by (auto simp: exact_anchor_def result_simps not_le)
    ultimately show ?thesis
      using f(1) by (auto simp: check_plan_def check_plan_anchor_def result_simps split: if_splits option.splits sum.splits timeline_error.splits)
  qed
  have over: "ir_branch x = th_branch expected \<and> ir_scope x = th_scope expected \<and> ir_step x \<le> th_step expected"
    if "pl_replacement pl = Some x" for x
    using prep that by (cases inputs) (auto simp: plan_prepare_eq_Inr plan_spec_def replacement_spec_def inputs_continue_def
        word_le_nat_alt split: prod.splits)
  have frame: "fh_scope h' = fh_scope h" "fh_inputs h' = fh_inputs h" "fh_floor h' = fh_floor h" "fh_last_branch h' = br_branch r"
    by (simp_all add: f(5))
  have "lineage_ok h' ?l"
  proof -
    have "th_branch (pl_expected pl) < br_branch r" using older p(2) by (auto simp: knows_def)
    moreover obtain step where "ln_admitted_through parent \<le> step"
      "knows h' (th_branch (pl_expected pl)) (parent\<lparr>ln_admitted_through := step\<rparr>)"
      using grows_knows [OF g p(2)] .
    then have "\<exists>m. knows h' (th_branch (pl_expected pl)) m \<and> th_step (pl_expected pl) \<le> ln_admitted_through m"
      using p(3) by (intro exI [of _ "parent\<lparr>ln_admitted_through := step\<rparr>"]) auto
    moreover have "ir_branch x = th_branch (pl_expected pl) \<and> ir_scope x = fh_scope h' \<and> ir_step x \<le> th_step (pl_expected pl)
        \<and> (\<exists>e\<in>set (somes (fh_inputs h')). in_record e = x)" if "pl_replacement pl = Some x" for x
      using over [OF that] p(1) p(4) [OF that] unfolding frame exp by metis
    ultimately show ?thesis using floor unfolding lineage_ok_def frame by simp
  qed
  moreover have "distinct (map ln_branch (somes branches))"
    using distinct_map_add [OF added, of ln_branch] older b by (auto simp: branches_ok_def)
  ultimately have "branches_ok h'"
    using set_add [OF added] b lineage_grows [OF g] by (auto simp: branches_ok_def f(5))
  moreover have "inputs_ok ops h'"
    using inv input_grows [OF g] set_add [OF added] by (auto simp: hist_inv_def inputs_ok_def own_step_def f(5))
  moreover have "anchors_ok ops h'" using inv anchor_grows [OF g] by (simp add: hist_inv_def anchors_ok_def f(5))
  moreover have "charges_ok h'" using inv by (simp add: hist_inv_def charges_ok_def f(5))
  ultimately show ?thesis using g by (simp add: hist_inv_def)
qed

end
