(* ===== verification/Timeline_History_Properties.thy ===== *)
theory Timeline_History_Properties
  imports Timeline_History_Invariants
begin

text \<open>
  The history store over time: reclaiming keeps the invariant, so every reachable store satisfies
  it; what a branch has admitted never changes; and materialising a branch copies it faithfully.
\<close>

section \<open>Reclaiming\<close>

lemma evict_Inr:
  assumes inv: "hist_inv ops h"
  obtains inputs anchors bytes where
    "evict P Q h = (Inr (), h\<lparr>fh_inputs := inputs, fh_anchors := anchors, fh_bytes := bytes\<rparr>)"
    "somes inputs = filter (\<lambda>e. \<not> P e) (somes (fh_inputs h))"
    "somes anchors = filter (\<lambda>e. \<not> Q e) (somes (fh_anchors h))"
    "unat bytes = sum_bytes in_bytes (somes inputs) + sum_bytes an_bytes (somes anchors)" "bytes \<le> fh_bytes h"
proof -
  have c: "unat (fh_bytes h) = sum_bytes in_bytes (somes (fh_inputs h)) + sum_bytes an_bytes (somes (fh_anchors h))"
    using inv by (simp add: hist_inv_def charges_ok_def)
  note split_i = sum_bytes_filter [of in_bytes "somes (fh_inputs h)" P]
  note split_a = sum_bytes_filter [of an_bytes "somes (fh_anchors h)" Q]
  have "sum_bytes in_bytes (filter P (somes (fh_inputs h))) \<le> unat (fh_bytes h)" using c split_i by simp
  from evict_slots_Inr [OF this] obtain inputs b1 where i:
    "evict_slots P in_bytes (fh_inputs h) (fh_bytes h) = (Inr (), inputs, b1)"
    "somes inputs = filter (\<lambda>e. \<not> P e) (somes (fh_inputs h))"
    "unat (fh_bytes h) = unat b1 + sum_bytes in_bytes (filter P (somes (fh_inputs h)))" by blast
  have "sum_bytes an_bytes (filter Q (somes (fh_anchors h))) \<le> unat b1" using c split_i split_a i(3) by simp
  from evict_slots_Inr [OF this] obtain anchors b2 where a:
    "evict_slots Q an_bytes (fh_anchors h) b1 = (Inr (), anchors, b2)"
    "somes anchors = filter (\<lambda>e. \<not> Q e) (somes (fh_anchors h))"
    "unat b1 = unat b2 + sum_bytes an_bytes (filter Q (somes (fh_anchors h)))" by blast
  show thesis
  proof (rule that)
    show "evict P Q h = (Inr (), h\<lparr>fh_inputs := inputs, fh_anchors := anchors, fh_bytes := b2\<rparr>)"
      using i(1) a(1) by (simp add: evict_def Let_def)
    show "unat b2 = sum_bytes in_bytes (somes inputs) + sum_bytes an_bytes (somes anchors)"
      using c i(2,3) a(2,3) split_i split_a by simp
    show "b2 \<le> fh_bytes h" using i(3) a(3) by (simp add: word_le_nat_alt)
  qed (rule i(2) a(2))+
qed

text \<open>A store with fewer entries, a higher floor or fewer branches.\<close>

lemma shrunk_inv:
  assumes inv: "hist_inv ops h"
    and same: "fh_scope h' = fh_scope h" "fh_limits h' = fh_limits h" "fh_last_branch h' = fh_last_branch h"
    and inputs: "somes (fh_inputs h') = filter P (somes (fh_inputs h))"
    and anchors: "somes (fh_anchors h') = filter Q (somes (fh_anchors h))"
    and bytes: "unat (fh_bytes h') = sum_bytes in_bytes (somes (fh_inputs h')) + sum_bytes an_bytes (somes (fh_anchors h'))"
      "fh_bytes h' \<le> fh_bytes h"
    and branches: "distinct (map ln_branch (somes (fh_branches h')))"
      "set (somes (fh_branches h')) \<subseteq> set (somes (fh_branches h))"
    and floor: "fh_floor h \<le> fh_floor h'" "\<forall>l\<in>set (somes (fh_branches h')). fh_floor h' \<le> ln_admitted_through l"
    and kept: "\<And>e. e \<in> set (somes (fh_inputs h)) \<Longrightarrow>
      P e \<longleftrightarrow> fh_floor h' < ir_step (in_record e) \<and> (\<exists>l. knows h' (ir_branch (in_record e)) l)"
      "\<And>e. e \<in> set (somes (fh_anchors h)) \<Longrightarrow>
      Q e \<longleftrightarrow> fh_floor h' \<le> sa_step (an_anchor e) \<and> (\<exists>l. knows h' (sa_branch (an_anchor e)) l)"
    and parents: "\<And>l p. l \<in> set (somes (fh_branches h')) \<Longrightarrow> ln_parent l = Some p \<Longrightarrow> \<exists>m. knows h' p m"
  shows "hist_inv ops h'"
proof -
  have b: "branches_ok h" and i: "inputs_ok ops h" and a: "anchors_ok ops h" and c: "charges_ok h"
    using inv by (simp_all add: hist_inv_def)
  have old: "knows h b l" if "knows h' b l" for b l using that branches(2) by (auto simp: knows_def)
  have known: "knows h' b l" if "knows h b l" "knows h' b m" for b l m
    using knows_unique [OF b that(1) old [OF that(2)]] that(2) by simp
  have "lineage_ok h' l" if l: "l \<in> set (somes (fh_branches h'))" for l
  proof -
    have lok: "lineage_ok h l" using l branches(2) b by (auto simp: branches_ok_def)
    show ?thesis
    proof (cases "ln_parent l")
      case None
      then show ?thesis using lok floor l by (simp add: lineage_ok_def same)
    next
      case (Some p)
      obtain m where m: "knows h' p m" using parents [OF l Some] by blast
      moreover obtain m0 where "knows h p m0" "ln_inherited_through l \<le> ln_admitted_through m0"
        using lok Some by (auto simp: lineage_ok_def)
      ultimately have "\<exists>m. knows h' p m \<and> ln_inherited_through l \<le> ln_admitted_through m" using known by blast
      moreover have "\<exists>e\<in>set (somes (fh_inputs h')). in_record e = r"
        if r: "ln_input_override l = Some r" "fh_floor h' < ir_step r" for r
      proof -
        have "fh_floor h < ir_step r" using floor(1) r(2) by (rule le_less_trans)
        then obtain e where e: "e \<in> set (somes (fh_inputs h))" "in_record e = r" "ir_branch r = p"
          using lok Some r(1) by (auto simp: lineage_ok_def)
        then have "P e" using kept(1) [OF e(1)] m r(2) by blast
        then show ?thesis using e by (auto simp: inputs)
      qed
      moreover have "fh_floor h' \<le> ln_admitted_through l" using floor(2) l by blast
      ultimately show ?thesis using lok unfolding lineage_ok_def Some option.case same by blast
    qed
  qed
  then have "branches_ok h'" using branches(1) by (simp add: branches_ok_def)
  moreover have "inputs_ok ops h'"
    unfolding inputs_ok_def
  proof (intro conjI ballI allI impI)
    fix e assume "e \<in> set (somes (fh_inputs h'))"
    then have e: "e \<in> set (somes (fh_inputs h))" "fh_floor h' < ir_step (in_record e)" "\<exists>l. knows h' (ir_branch (in_record e)) l"
      using kept(1) by (auto simp: inputs)
    obtain l where "knows h (ir_branch (in_record e)) l" "ir_step (in_record e) \<le> ln_admitted_through l"
      "in_canonical e \<and> ln_parent l \<noteq> None \<longrightarrow> ln_inherited_through l < ir_step (in_record e)"
      using inputs_okD [OF i e(1)] unfolding input_ok_def by blast
    then show "input_ok ops h' e"
      using inputs_okD [OF i e(1)] e(2,3) known unfolding input_ok_def verify_input_Inr same by metis
  next
    show "distinct (map input_key (somes (fh_inputs h')))"
      using i by (simp add: inputs_ok_def inputs distinct_map_filter)
    have "distinct (map input_place (filter P (filter in_canonical (somes (fh_inputs h)))))"
      using i by (simp only: inputs_ok_def distinct_map_filter)
    then show "distinct (map input_place (filter in_canonical (somes (fh_inputs h'))))"
      by (simp add: inputs conj_commute)
  next
    fix l step assume l: "l \<in> set (somes (fh_branches h'))" and own: "own_step h' l step"
    then have "own_step h l step" using floor(1) by (auto simp: own_step_def)
    then obtain e where e: "e \<in> set (somes (fh_inputs h))" "canonical_input (ln_branch l) step e"
      using i l branches(2) unfolding inputs_ok_def by blast
    have "knows h' (ln_branch l) l" using l by (simp add: knows_def)
    then have "P e" using kept(1) [OF e(1)] e(2) own by (auto simp: canonical_input_def own_step_def)
    then show "\<exists>e\<in>set (somes (fh_inputs h')). canonical_input (ln_branch l) step e" using e by (auto simp: inputs)
  qed
  moreover have "anchors_ok ops h'"
    unfolding anchors_ok_def
  proof (intro conjI ballI)
    fix e assume "e \<in> set (somes (fh_anchors h'))"
    then have e: "e \<in> set (somes (fh_anchors h))" "fh_floor h' \<le> sa_step (an_anchor e)" "\<exists>l. knows h' (sa_branch (an_anchor e)) l"
      using kept(2) by (auto simp: anchors)
    have ok: "anchor_ok ops h e" using a e(1) by (simp add: anchors_ok_def)
    then show "anchor_ok ops h' e"
      using e(2,3) known unfolding anchor_ok_def verify_anchor_Inr same by metis
  next
    have "distinct (map anchor_place (filter Q (filter an_canonical (somes (fh_anchors h)))))"
      using a by (simp only: anchors_ok_def distinct_map_filter)
    then show "distinct (map anchor_place (filter an_canonical (somes (fh_anchors h'))))"
      by (simp add: anchors conj_commute)
  qed
  moreover have "charges_ok h'"
    using c bytes by (auto simp: charges_ok_def same intro: order_trans)
  ultimately show ?thesis by (simp add: hist_inv_def)
qed

lemma check_floor_Inr:
  "check_floor ops h floor ls = Inr u \<Longrightarrow> \<forall>l\<in>set ls. floor \<le> ln_admitted_through l"
  by (induction ls) (auto simp: result_simps not_less split: if_splits)

lemma knows_floor [simp]: "knows (h\<lparr>fh_floor := f\<rparr>) = knows h"
  by (simp add: knows_def fun_eq_iff)

lemma expire_inv:
  assumes inv: "hist_inv ops h" and ex: "expire_before ops h floor = (res, h')"
  shows "hist_inv ops h'"
    and "h' = h \<or> (res = Inr () \<and> fh_floor h' = floor \<and> fh_branches h' = fh_branches h
      \<and> somes (fh_inputs h') = filter (\<lambda>e. \<not> ir_step (in_record e) \<le> floor) (somes (fh_inputs h)))"
proof -
  have "hist_inv ops h' \<and> (h' = h \<or> (res = Inr () \<and> fh_floor h' = floor \<and> fh_branches h' = fh_branches h
      \<and> somes (fh_inputs h') = filter (\<lambda>e. \<not> ir_step (in_record e) \<le> floor) (somes (fh_inputs h))))"
  proof (cases "h' = h")
    case True
    then show ?thesis using inv by simp
  next
    case False
    let ?h = "h\<lparr>fh_floor := floor\<rparr>"
    have ok: "fh_floor h \<le> floor" "\<forall>l\<in>set (somes (fh_branches h)). floor \<le> ln_admitted_through l"
      and run: "evict (\<lambda>e. ir_step (in_record e) \<le> floor) (\<lambda>e. sa_step (an_anchor e) < floor) ?h = (res, h')"
      using ex False by (auto simp: expire_before_def not_less dest: check_floor_Inr split: if_splits sum.splits)
    have "evict P Q ?h = (case evict P Q h of (res, k) \<Rightarrow> (res, k\<lparr>fh_floor := floor\<rparr>))"
      for P :: "'b stored_input \<Rightarrow> bool" and Q :: "'a stored_anchor \<Rightarrow> bool"
      by (simp add: evict_def Let_def split: prod.splits sum.splits)
    moreover obtain inputs anchors bytes where e:
      "evict (\<lambda>e. ir_step (in_record e) \<le> floor) (\<lambda>e. sa_step (an_anchor e) < floor) h
         = (Inr (), h\<lparr>fh_inputs := inputs, fh_anchors := anchors, fh_bytes := bytes\<rparr>)"
      "somes inputs = filter (\<lambda>e. \<not> ir_step (in_record e) \<le> floor) (somes (fh_inputs h))"
      "somes anchors = filter (\<lambda>e. \<not> sa_step (an_anchor e) < floor) (somes (fh_anchors h))"
      "unat bytes = sum_bytes in_bytes (somes inputs) + sum_bytes an_bytes (somes anchors)" "bytes \<le> fh_bytes h"
      by (rule evict_Inr [OF inv])
    ultimately have h': "res = Inr ()" "h' = h\<lparr>fh_floor := floor, fh_inputs := inputs, fh_anchors := anchors, fh_bytes := bytes\<rparr>"
      using run by auto
    have k: "knows h' = knows h" by (simp add: h'(2) knows_def fun_eq_iff)
    have b: "branches_ok h" and i: "inputs_ok ops h" and a: "anchors_ok ops h" using inv by (simp_all add: hist_inv_def)
    have "hist_inv ops h'"
    proof (rule shrunk_inv [OF inv])
      show "somes (fh_inputs h') = filter (\<lambda>e. \<not> ir_step (in_record e) \<le> floor) (somes (fh_inputs h))"
        "somes (fh_anchors h') = filter (\<lambda>e. \<not> sa_step (an_anchor e) < floor) (somes (fh_anchors h))"
        using e by (simp_all add: h'(2))
      show "(\<not> ir_step (in_record x) \<le> floor) = (fh_floor h' < ir_step (in_record x) \<and> (\<exists>l. knows h' (ir_branch (in_record x)) l))"
        if "x \<in> set (somes (fh_inputs h))" for x
        using inputs_okD [OF i that] by (auto simp: input_ok_def h'(2) knows_def)
      show "(\<not> sa_step (an_anchor x) < floor) = (fh_floor h' \<le> sa_step (an_anchor x) \<and> (\<exists>l. knows h' (sa_branch (an_anchor x)) l))"
        if "x \<in> set (somes (fh_anchors h))" for x
      proof -
        have "\<exists>l. knows h' (sa_branch (an_anchor x)) l" using a that unfolding k anchors_ok_def anchor_ok_def by blast
        then show ?thesis by (simp add: h'(2) not_less)
      qed
      show "\<exists>m. knows h' p m" if "l \<in> set (somes (fh_branches h'))" "ln_parent l = Some p" for l p
      proof -
        have "lineage_ok h l" using b that(1) by (simp add: branches_ok_def h'(2))
        then show ?thesis using that(2) unfolding k by (auto simp: lineage_ok_def)
      qed
    qed (use ok e b in \<open>simp_all add: h'(2) branches_ok_def\<close>)
    then show ?thesis using h' e(2) by simp
  qed
  then show "hist_inv ops h'" "h' = h \<or> (res = Inr () \<and> fh_floor h' = floor \<and> fh_branches h' = fh_branches h
      \<and> somes (fh_inputs h') = filter (\<lambda>e. \<not> ir_step (in_record e) \<le> floor) (somes (fh_inputs h)))" by blast+
qed

lemma retired_branches:
  "replace_first (holds_branch b) None slots = Some slots' \<Longrightarrow> distinct (map ln_branch (somes slots)) \<Longrightarrow>
     somes slots' = filter (\<lambda>l. ln_branch l \<noteq> b) (somes slots)"
proof (induction slots arbitrary: slots')
  case (Cons slot slots)
  show ?case
  proof (cases "holds_branch b slot")
    case True
    then obtain l where "slot = Some l" "ln_branch l = b" by (auto simp: holds_branch_def split: option.splits)
    moreover from this have "\<forall>m\<in>set (somes slots). ln_branch m \<noteq> b" using Cons.prems(2) by (auto simp: image_iff)
    ultimately show ?thesis using Cons.prems(1) True by (auto simp: filter_id_conv)
  next
    case False
    then obtain rest where "replace_first (holds_branch b) None slots = Some rest" "slots' = slot # rest"
      using Cons.prems(1) by auto
    moreover from this have "somes rest = filter (\<lambda>l. ln_branch l \<noteq> b) (somes slots)"
      using Cons.IH Cons.prems(2) by (cases slot) auto
    ultimately show ?thesis using False by (cases slot) (auto simp: holds_branch_def)
  qed
qed simp

lemma retire_inv:
  assumes inv: "hist_inv ops h" and rt: "retire_branch h b live = (res, h')"
  shows "hist_inv ops h'"
    and "h' = h \<or> (res = Inr () \<and> fh_floor h' = fh_floor h
      \<and> somes (fh_branches h') = filter (\<lambda>l. ln_branch l \<noteq> b) (somes (fh_branches h))
      \<and> (\<forall>l\<in>set (somes (fh_branches h)). ln_parent l \<noteq> Some b)
      \<and> somes (fh_inputs h') = filter (\<lambda>e. ir_branch (in_record e) \<noteq> b) (somes (fh_inputs h)))"
proof -
  have bo: "branches_ok h" and i: "inputs_ok ops h" and a: "anchors_ok ops h" using inv by (simp_all add: hist_inv_def)
  have "hist_inv ops h' \<and> (h' = h \<or> (res = Inr () \<and> fh_floor h' = fh_floor h
      \<and> somes (fh_branches h') = filter (\<lambda>l. ln_branch l \<noteq> b) (somes (fh_branches h))
      \<and> (\<forall>l\<in>set (somes (fh_branches h)). ln_parent l \<noteq> Some b)
      \<and> somes (fh_inputs h') = filter (\<lambda>e. ir_branch (in_record e) \<noteq> b) (somes (fh_inputs h))))"
  proof (cases "h' = h")
    case True
    then show ?thesis using inv by simp
  next
    case False
    obtain inputs anchors bytes where e:
      "evict (\<lambda>e. ir_branch (in_record e) = b) (\<lambda>e. sa_branch (an_anchor e) = b) h
         = (Inr (), h\<lparr>fh_inputs := inputs, fh_anchors := anchors, fh_bytes := bytes\<rparr>)"
      "somes inputs = filter (\<lambda>e. \<not> ir_branch (in_record e) = b) (somes (fh_inputs h))"
      "somes anchors = filter (\<lambda>e. \<not> sa_branch (an_anchor e) = b) (somes (fh_anchors h))"
      "unat bytes = sum_bytes in_bytes (somes inputs) + sum_bytes an_bytes (somes anchors)" "bytes \<le> fh_bytes h"
      by (rule evict_Inr [OF inv])
    obtain branches where r: "replace_first (holds_branch b) None (fh_branches h) = Some branches"
      "\<forall>l\<in>set (somes (fh_branches h)). ln_parent l \<noteq> Some b" "res = Inr ()"
      "h' = h\<lparr>fh_inputs := inputs, fh_anchors := anchors, fh_bytes := bytes, fh_branches := branches\<rparr>"
      using rt False e(1) by (auto simp: retire_branch_def list_ex_iff split: sum.splits if_splits option.splits)
    have br: "somes branches = filter (\<lambda>l. ln_branch l \<noteq> b) (somes (fh_branches h))"
      using retired_branches [OF r(1)] bo by (simp add: branches_ok_def)
    have k: "knows h' c l \<longleftrightarrow> knows h c l \<and> c \<noteq> b" for c l by (auto simp: r(4) knows_def br)
    have "hist_inv ops h'"
    proof (rule shrunk_inv [OF inv])
      show "somes (fh_inputs h') = filter (\<lambda>e. \<not> ir_branch (in_record e) = b) (somes (fh_inputs h))"
        "somes (fh_anchors h') = filter (\<lambda>e. \<not> sa_branch (an_anchor e) = b) (somes (fh_anchors h))"
        using e by (simp_all add: r(4))
      show "(\<not> ir_branch (in_record x) = b) = (fh_floor h' < ir_step (in_record x) \<and> (\<exists>l. knows h' (ir_branch (in_record x)) l))"
        if "x \<in> set (somes (fh_inputs h))" for x
        using inputs_okD [OF i that] unfolding k by (auto simp: input_ok_def r(4))
      show "(\<not> sa_branch (an_anchor x) = b) = (fh_floor h' \<le> sa_step (an_anchor x) \<and> (\<exists>l. knows h' (sa_branch (an_anchor x)) l))"
        if "x \<in> set (somes (fh_anchors h))" for x
      proof -
        have "anchor_ok ops h x" using a that by (simp add: anchors_ok_def)
        then show ?thesis unfolding k by (auto simp: anchor_ok_def r(4))
      qed
      show "\<exists>m. knows h' p m" if "l \<in> set (somes (fh_branches h'))" "ln_parent l = Some p" for l p
      proof -
        have l: "l \<in> set (somes (fh_branches h))" using that(1) by (simp add: r(4) br)
        then have "lineage_ok h l" using bo by (simp add: branches_ok_def)
        then show ?thesis using that(2) l r(2) unfolding k by (auto simp: lineage_ok_def)
      qed
      show "distinct (map ln_branch (somes (fh_branches h')))"
        using bo by (simp add: r(4) br branches_ok_def distinct_map_filter)
      show "\<forall>l\<in>set (somes (fh_branches h')). fh_floor h' \<le> ln_admitted_through l"
        using bo by (auto simp: r(4) br branches_ok_def lineage_ok_def)
    qed (use e in \<open>auto simp: r(4) br\<close>)
    then show ?thesis using r br e(2) by simp
  qed
  then show "hist_inv ops h'"
    and "h' = h \<or> (res = Inr () \<and> fh_floor h' = fh_floor h
      \<and> somes (fh_branches h') = filter (\<lambda>l. ln_branch l \<noteq> b) (somes (fh_branches h))
      \<and> (\<forall>l\<in>set (somes (fh_branches h)). ln_parent l \<noteq> Some b)
      \<and> somes (fh_inputs h') = filter (\<lambda>e. ir_branch (in_record e) \<noteq> b) (somes (fh_inputs h)))" by blast+
qed

section \<open>Runs of the store\<close>

text \<open>One call that may change the store. A plan only comes from \<open>ReplayPlan::prepare\<close>.\<close>

inductive hist_step :: "('s, 'i) payloads \<Rightarrow> ('s, 'i) fixed_history \<Rightarrow> ('s, 'i) fixed_history \<Rightarrow> bool" for ops where
  append: "append_input ops h r payload = Inr h' \<Longrightarrow> hist_step ops h h'"
| import_in: "import_input ops h r payload = Inr h' \<Longrightarrow> hist_step ops h h'"
| import_an: "import_anchor ops h a s = Inr h' \<Longrightarrow> hist_step ops h h'"
| snapshot: "insert_snapshot ops h a s = Inr h' \<Longrightarrow> hist_step ops h h'"
| capture: "hist_capture ops clone h a s = Inr h' \<Longrightarrow> hist_step ops h h'"
| fork: "plan_prepare expected revision corr inputs limits = Inr pl \<Longrightarrow> hist_fork ops h pl r = Inr h' \<Longrightarrow> hist_step ops h h'"
| expire: "expire_before ops h floor = (res, h') \<Longrightarrow> hist_step ops h h'"
| retire: "retire_branch h b live = (res, h') \<Longrightarrow> hist_step ops h h'"

inductive hist_run :: "('s, 'i) payloads \<Rightarrow> ('s, 'i) fixed_history \<Rightarrow> bool" for ops where
  new: "hist_new inputs anchors branches ops a s limits = Inr h \<Longrightarrow> hist_run ops h"
| step: "hist_run ops h \<Longrightarrow> hist_step ops h h' \<Longrightarrow> hist_run ops h'"
| detach: "hist_run ops h \<Longrightarrow> materialize_branch ops clone_s clone_i h b = Inr h' \<Longrightarrow> hist_run ops h'"

text \<open>What a step does to lineages and inputs: it admits, raises the floor, or drops a leaf.\<close>

definition expires :: "('s, 'i) fixed_history \<Rightarrow> ('s, 'i) fixed_history \<Rightarrow> bool" where
  "expires h h' \<longleftrightarrow> fh_branches h' = fh_branches h
     \<and> somes (fh_inputs h') = filter (\<lambda>e. \<not> ir_step (in_record e) \<le> fh_floor h') (somes (fh_inputs h))"

definition retires :: "timeline_branch_id \<Rightarrow> ('s, 'i) fixed_history \<Rightarrow> ('s, 'i) fixed_history \<Rightarrow> bool" where
  "retires b h h' \<longleftrightarrow> fh_floor h' = fh_floor h
     \<and> somes (fh_branches h') = filter (\<lambda>l. ln_branch l \<noteq> b) (somes (fh_branches h))
     \<and> (\<forall>l\<in>set (somes (fh_branches h)). ln_parent l \<noteq> Some b)
     \<and> somes (fh_inputs h') = filter (\<lambda>e. ir_branch (in_record e) \<noteq> b) (somes (fh_inputs h))"

lemma grows_refl: "grows h h"
  by (rule grows_same) simp_all

lemma step_effect:
  assumes inv: "hist_inv ops h" and step: "hist_step ops h h'"
  shows "hist_inv ops h' \<and> (grows h h' \<or> expires h h' \<or> (\<exists>b. retires b h h'))"
  using step
proof cases
  case (append r payload)
  then show ?thesis using append_input_inv [OF inv] by blast
next
  case (import_in r payload)
  then show ?thesis using import_input_inv [OF inv] by blast
next
  case (import_an a s)
  then show ?thesis using insert_anchor_inv [OF inv] by (auto simp: import_anchor_def)
next
  case (snapshot a s)
  then show ?thesis using insert_anchor_inv [OF inv] by (auto simp: insert_snapshot_def)
next
  case (capture clone a s)
  then have "h' = h \<or> insert_anchor ops h a (clone s) True = Inr h'"
    by (auto simp: hist_capture_def insert_snapshot_def result_simps split: option.splits)
  then show ?thesis using inv insert_anchor_inv [OF inv] grows_refl by blast
next
  case (fork expected revision corr inputs limits pl r)
  then show ?thesis using fork_inv [OF inv] by blast
next
  case (expire floor res)
  show ?thesis using expire_inv [OF inv expire] inv grows_refl unfolding expires_def by metis
next
  case (retire b live res)
  show ?thesis using retire_inv [OF inv retire] inv grows_refl unfolding retires_def by metis
qed

section \<open>Immutability\<close>

lemma source_mono:
  assumes b: "branches_ok h"
    and closed: "\<And>c l p. knows h c l \<Longrightarrow> c \<in> K \<Longrightarrow> ln_parent l = Some p \<Longrightarrow> p \<in> K"
    and lin: "\<And>c l. knows h c l \<Longrightarrow> c \<in> K \<Longrightarrow> \<exists>s \<ge> ln_admitted_through l. knows h' c (l\<lparr>ln_admitted_through := s\<rparr>)"
    and kept: "\<And>e. e \<in> set (somes (fh_inputs h)) \<Longrightarrow> ir_step (in_record e) = step \<Longrightarrow>
      ir_branch (in_record e) \<in> K \<Longrightarrow> e \<in> set (somes (fh_inputs h'))"
  shows "input_source h step c e \<Longrightarrow> c \<in> K \<Longrightarrow> input_source h' step c e"
proof (induction rule: input_source.induct)
  case (own c l e)
  obtain s where s: "ln_admitted_through l \<le> s" "knows h' c (l\<lparr>ln_admitted_through := s\<rparr>)" using lin [OF own.hyps(1) own.prems] by blast
  have "step \<le> ln_admitted_through (l\<lparr>ln_admitted_through := s\<rparr>)" using own.hyps(2) s(1) by simp
  moreover have "e \<in> set (somes (fh_inputs h'))"
    by (rule kept [OF own.hyps(3)]) (use own.hyps(4) own.prems in \<open>simp_all add: canonical_input_def\<close>)
  ultimately show ?case by (rule input_source.own [OF s(2) _ _ own.hyps(4)])
next
  case (replaced c l r e)
  obtain s where s: "ln_admitted_through l \<le> s" "knows h' c (l\<lparr>ln_admitted_through := s\<rparr>)" using lin [OF replaced.hyps(1) replaced.prems] by blast
  have "ir_branch r \<in> K"
    using closed [OF replaced.hyps(1) replaced.prems] replaced_within(1) [OF b replaced.hyps(1,3)] by blast
  then have "e \<in> set (somes (fh_inputs h'))" using kept [OF replaced.hyps(5)] replaced.hyps(4,6) by simp
  then show ?case
    using input_source.replaced [OF s(2) _ _ replaced.hyps(4) _ replaced.hyps(6)] s(1) replaced.hyps(2,3) by simp
next
  case (inherited c l p e)
  obtain s where s: "ln_admitted_through l \<le> s" "knows h' c (l\<lparr>ln_admitted_through := s\<rparr>)" using lin [OF inherited.hyps(1) inherited.prems] by blast
  have "input_source h' step p e" using inherited.IH closed [OF inherited.hyps(1) inherited.prems inherited.hyps(4)] .
  then show ?case
    using input_source.inherited [OF s(2), of step p e] inherited.hyps(2-4) by simp
qed

lemma step_source:
  assumes inv: "hist_inv ops h" and step: "hist_step ops h h'"
    and src: "input_source h step b e" and known: "knows h' b l" and floor: "fh_floor h' < step"
  shows "input_source h' step b e"
proof -
  have bo: "branches_ok h" using inv by (simp add: hist_inv_def)
  have self: "\<exists>s \<ge> ln_admitted_through m. knows h' c (m\<lparr>ln_admitted_through := s\<rparr>)" if "knows h' c m" for c m
    using that by (intro exI [of _ "ln_admitted_through m"]) simp
  from step_effect [OF inv step] consider "grows h h'" | "expires h h'" | x where "retires x h h'" by blast
  then show ?thesis
  proof cases
    case 1
    show ?thesis
      by (rule source_mono [OF bo, of UNIV, OF _ _ _ src]) (use 1 in \<open>auto simp: grows_def\<close>)
  next
    case 2
    show ?thesis
      by (rule source_mono [OF bo, of UNIV, OF _ _ _ src])
         (use 2 floor self in \<open>auto simp: expires_def knows_def\<close>)
  next
    case 3
    have "b \<noteq> x" using known 3 by (auto simp: knows_def retires_def)
    then show ?thesis
      by (intro source_mono [OF bo, of "- {x}", OF _ _ _ src]) (use 3 self in \<open>auto simp: retires_def knows_def\<close>)
  qed
qed

section \<open>New stores and copies of a branch\<close>

lemma new_inv:
  assumes "hist_new inputs anchors branches ops a s limits = Inr h"
  shows "hist_inv ops h"
proof -
  let ?h = "\<lparr> fh_scope = sa_scope a, fh_inputs = replicate inputs None, fh_anchors = replicate anchors None,
      fh_branches = Some \<lparr> ln_branch = sa_branch a, ln_parent = None, ln_inherited_through = sa_step a,
        ln_admitted_through = sa_step a, ln_state_changed_from = sa_step a, ln_input_override = None,
        ln_state_override = None \<rparr> # replicate (branches - 1) None,
      fh_floor = sa_step a, fh_last_branch = sa_branch a, fh_bytes = 0, fh_limits = limits \<rparr>"
  have "hist_inv ops ?h"
    by (auto simp: hist_inv_def branches_ok_def lineage_ok_def inputs_ok_def own_step_def anchors_ok_def charges_ok_def)
  moreover have "insert_anchor ops ?h a s True = Inr h" using assms by (simp add: hist_new_def split: if_splits)
  ultimately show ?thesis by (rule insert_anchor_inv(1))
qed

text \<open>The store that \<open>hist_new\<close> yields.\<close>

lemma new_Inr:
  assumes "hist_new inputs anchors branches ops a s limits = Inr h"
  shows "fh_scope h = sa_scope a \<and> fh_inputs h = replicate inputs None \<and> fh_floor h = sa_step a \<and> fh_limits h = limits
    \<and> fh_branches h = Some \<lparr> ln_branch = sa_branch a, ln_parent = None, ln_inherited_through = sa_step a,
        ln_admitted_through = sa_step a, ln_state_changed_from = sa_step a, ln_input_override = None,
        ln_state_override = None \<rparr> # replicate (branches - 1) None
    \<and> fh_anchors h = Some \<lparr> an_anchor = a, an_state = s, an_bytes = fh_bytes h, an_canonical = True \<rparr> # replicate (anchors - 1) None
    \<and> verify_anchor ops h \<lparr> an_anchor = a, an_state = s, an_bytes = fh_bytes h, an_canonical = True \<rparr> = Inr ()
    \<and> fh_bytes h \<le> hl_max_total_bytes limits"
  proof -
  obtain bytes c slots where i: "check_payload (of_state ops) s (sa_digest a) (hl_max_snapshot_bytes limits) = Inr bytes"
    "unat c = unat bytes" "c \<le> hl_max_total_bytes limits"
    "first_vacant \<lparr> an_anchor = a, an_state = s, an_bytes = bytes, an_canonical = True \<rparr> (replicate anchors None) = Inr slots"
    "h = \<lparr> fh_scope = sa_scope a, fh_inputs = replicate inputs None, fh_anchors = slots,
      fh_branches = Some \<lparr> ln_branch = sa_branch a, ln_parent = None, ln_inherited_through = sa_step a,
        ln_admitted_through = sa_step a, ln_state_changed_from = sa_step a, ln_input_override = None,
        ln_state_override = None \<rparr> # replicate (branches - 1) None,
      fh_floor = sa_step a, fh_last_branch = sa_branch a, fh_bytes = c, fh_limits = limits \<rparr>"
    using assms
    by (auto simp: hist_new_def insert_anchor_def check_anchor_admission_def charge_Inr result_simps split: if_splits)
  then have "c = bytes" by (simp add: word_unat_eq_iff)
  moreover have "slots = Some \<lparr> an_anchor = a, an_state = s, an_bytes = bytes, an_canonical = True \<rparr> # replicate (anchors - 1) None"
    using i(4) by (cases anchors) (auto simp: first_vacant_def)
  ultimately show ?thesis using i by (auto simp: verify_anchor_Inr check_payload_Inr)
qed

definition copied_input ::
  "('s, 'i) payloads \<Rightarrow> ('i \<Rightarrow> 'i) \<Rightarrow> ('s, 'i) fixed_history \<Rightarrow> timeline_branch_id \<Rightarrow> nat \<Rightarrow> 'i stored_input \<Rightarrow> bool" where
  "copied_input ops clone h b offset e \<longleftrightarrow>
     (\<exists>step source. unat step = unat (fh_floor h) + offset \<and> resolve_input ops h b step = Inr source
        \<and> in_record e = (in_record source)\<lparr>ir_branch := b\<rparr> \<and> in_payload e = clone (in_payload source)
        \<and> in_canonical e \<and> verify_input ops h e = Inr ())"

definition copied_anchor ::
  "('s, 'i) payloads \<Rightarrow> ('s \<Rightarrow> 's) \<Rightarrow> ('s, 'i) fixed_history \<Rightarrow> timeline_branch_id \<Rightarrow> nat \<Rightarrow> 's stored_anchor option \<Rightarrow> bool" where
  "copied_anchor ops clone h b offset copy \<longleftrightarrow>
     (\<exists>step. unat step = unat (fh_floor h) + offset
        \<and> (case copy of
             None \<Rightarrow> resolve_anchor ops h b step = Inl HistoryUnavailable
           | Some e \<Rightarrow> \<exists>source. resolve_anchor ops h b step = Inr source
               \<and> an_anchor e = (an_anchor source)\<lparr>sa_branch := b\<rparr> \<and> an_state e = clone (an_state source)
               \<and> an_canonical e \<and> verify_anchor ops h e = Inr ()))"

lemma materialized_step_Inr: "materialized_step h offset = Inr step \<Longrightarrow> unat step = unat (fh_floor h) + offset"
  by (auto simp: materialized_step_def result_simps unat_of_nat take_bit_nat_eq_self split: if_splits)

lemma put_slot_append:
  "put_slot (length xs) x (map Some xs @ replicate k None) = Inr slots \<Longrightarrow> \<exists>k'. slots = map Some (xs @ [x]) @ replicate k' None"
  by (cases k) (auto simp: put_slot_def list_update_append split: if_splits)

lemma add_within_Inr: "add_within limit charged bytes = Inr c \<longleftrightarrow> unat c = unat charged + unat bytes \<and> c \<le> limit"
proof (cases "checked_add charged bytes")
  case None
  then have "2 ^ 64 \<le> unat charged + unat bytes" by (simp add: checked_add_None)
  then show ?thesis using None unat_less_exp [of c] by (auto simp: add_within_def filter_option_def)
next
  case (Some y)
  then have y: "unat y = unat charged + unat bytes" by (simp add: checked_add_Some)
  have "unat c = unat charged + unat bytes \<longleftrightarrow> c = y" unfolding y [symmetric] word_unat_eq_iff ..
  then show ?thesis using Some by (auto simp: add_within_def filter_option_def)
qed

lemma copy_input_Inr:
  assumes "copy_input ops clone h b step bytes (length ins) (map Some ins @ replicate k None) = Inr (bytes', slots)"
    and step: "unat step = unat (fh_floor h) + offset"
  obtains e k' where "slots = map Some (ins @ [e]) @ replicate k' None" "copied_input ops clone h b offset e"
    "unat bytes' = unat bytes + unat (in_bytes e)" "bytes' \<le> hl_max_total_bytes (fh_limits h)"
proof -
  obtain source n where s: "resolve_input ops h b step = Inr source"
    "check_payload (of_input ops) (clone (in_payload source)) (ir_digest ((in_record source)\<lparr>ir_branch := b\<rparr>))
       (hl_max_input_bytes (fh_limits h)) = Inr n"
    "add_within (hl_max_total_bytes (fh_limits h)) bytes n = Inr bytes'"
    "put_slot (length ins) \<lparr> in_record = (in_record source)\<lparr>ir_branch := b\<rparr>, in_payload = clone (in_payload source),
       in_bytes = n, in_canonical = True \<rparr> (map Some ins @ replicate k None) = Inr slots"
    using assms(1) by (auto simp: copy_input_def Let_def result_simps)
  let ?e = "\<lparr> in_record = (in_record source)\<lparr>ir_branch := b\<rparr>, in_payload = clone (in_payload source),
       in_bytes = n, in_canonical = True \<rparr>"
  have "copied_input ops clone h b offset ?e"
    using s(1,2) step unfolding copied_input_def by (auto simp: verify_input_Inr check_payload_Inr)
  then show thesis using that put_slot_append [OF s(4)] s(3) by (auto simp: add_within_Inr)
qed

lemma copy_anchor_Inr:
  assumes "copy_anchor ops clone h b step bytes (length ans) (map Some ans @ replicate k None) = Inr (bytes', j, slots)"
    and step: "unat step = unat (fh_floor h) + offset" and max: "bytes \<le> hl_max_total_bytes (fh_limits h)"
  obtains copy k' where "slots = map Some (ans @ somes [copy]) @ replicate k' None" "j = length (ans @ somes [copy])"
    "copied_anchor ops clone h b offset copy"
    "unat bytes' = unat bytes + sum_bytes an_bytes (somes [copy])" "bytes' \<le> hl_max_total_bytes (fh_limits h)"
proof (cases "resolve_anchor ops h b step")
  case (Inl e)
  then have "e = HistoryUnavailable" "bytes' = bytes" "j = length ans" "slots = map Some ans @ replicate k None"
    using assms(1) by (auto simp: copy_anchor_def split: timeline_error.splits)
  then show thesis using that [of None k] Inl step max by (auto simp: copied_anchor_def)
next
  case (Inr source)
  then obtain n where s:
    "check_payload (of_state ops) (clone (an_state source)) (sa_digest ((an_anchor source)\<lparr>sa_branch := b\<rparr>))
       (hl_max_snapshot_bytes (fh_limits h)) = Inr n"
    "add_within (hl_max_total_bytes (fh_limits h)) bytes n = Inr bytes'" "j = length ans + 1"
    "put_slot (length ans) \<lparr> an_anchor = (an_anchor source)\<lparr>sa_branch := b\<rparr>, an_state = clone (an_state source),
       an_bytes = n, an_canonical = True \<rparr> (map Some ans @ replicate k None) = Inr slots"
    using assms(1) by (auto simp: copy_anchor_def Let_def result_simps)
  let ?e = "\<lparr> an_anchor = (an_anchor source)\<lparr>sa_branch := b\<rparr>, an_state = clone (an_state source),
       an_bytes = n, an_canonical = True \<rparr>"
  obtain k' where "slots = map Some (ans @ [?e]) @ replicate k' None" using put_slot_append [OF s(4)] by blast
  moreover have "copied_anchor ops clone h b offset (Some ?e)"
    using s(1) step Inr unfolding copied_anchor_def by (auto simp: verify_anchor_Inr check_payload_Inr)
  ultimately show thesis using that [of "Some ?e" k'] s(2,3) by (auto simp: add_within_Inr)
qed

lemma copy_branch_Inr:
  "copy_branch ops cs ci h b bytes (length ins) (length ans) (map Some ins @ replicate k None) (map Some ans @ replicate m None) offsets
      = Inr (bytes', inputs, anchors) \<Longrightarrow>
   bytes \<le> hl_max_total_bytes (fh_limits h) \<Longrightarrow>
   \<exists>ins' copies k' m'. inputs = map Some (ins @ ins') @ replicate k' None
     \<and> anchors = map Some (ans @ somes copies) @ replicate m' None
     \<and> list_all2 (copied_input ops ci h b) offsets ins' \<and> list_all2 (copied_anchor ops cs h b) offsets copies
     \<and> unat bytes' = unat bytes + sum_bytes in_bytes ins' + sum_bytes an_bytes (somes copies)
     \<and> bytes' \<le> hl_max_total_bytes (fh_limits h)"
proof (induction offsets arbitrary: bytes ins ans k m)
  case Nil
  then show ?case by (auto intro!: exI [of _ "[]"])
next
  case (Cons offset offsets)
  obtain step b1 in1 b2 j an2 where c: "materialized_step h offset = Inr step"
    "copy_input ops ci h b step bytes (length ins) (map Some ins @ replicate k None) = Inr (b1, in1)"
    "copy_anchor ops cs h b step b1 (length ans) (map Some ans @ replicate m None) = Inr (b2, j, an2)"
    "copy_branch ops cs ci h b b2 (length ins + 1) j in1 an2 offsets = Inr (bytes', inputs, anchors)"
    using Cons.prems(1) by (auto simp: result_simps)
  note st = materialized_step_Inr [OF c(1)]
  obtain e k1 where e: "in1 = map Some (ins @ [e]) @ replicate k1 None" "copied_input ops ci h b offset e"
    "unat b1 = unat bytes + unat (in_bytes e)" "b1 \<le> hl_max_total_bytes (fh_limits h)"
    by (rule copy_input_Inr [OF c(2) st])
  obtain copy m1 where a: "an2 = map Some (ans @ somes [copy]) @ replicate m1 None" "j = length (ans @ somes [copy])"
    "copied_anchor ops cs h b offset copy" "unat b2 = unat b1 + sum_bytes an_bytes (somes [copy])"
    "b2 \<le> hl_max_total_bytes (fh_limits h)"
    by (rule copy_anchor_Inr [OF c(3) st e(4)])
  have "copy_branch ops cs ci h b b2 (length (ins @ [e])) (length (ans @ somes [copy]))
      (map Some (ins @ [e]) @ replicate k1 None) (map Some (ans @ somes [copy]) @ replicate m1 None) offsets
      = Inr (bytes', inputs, anchors)"
    using c(4) e(1) a(1,2) by simp
  from Cons.IH [OF this a(5)] obtain ins' copies k' m' where r:
    "inputs = map Some ((ins @ [e]) @ ins') @ replicate k' None"
    "anchors = map Some ((ans @ somes [copy]) @ somes copies) @ replicate m' None"
    "list_all2 (copied_input ops ci h b) offsets ins'" "list_all2 (copied_anchor ops cs h b) offsets copies"
    "unat bytes' = unat b2 + sum_bytes in_bytes ins' + sum_bytes an_bytes (somes copies)"
    "bytes' \<le> hl_max_total_bytes (fh_limits h)" by blast
  show ?case
    using r e(2,3) a(3,4) by (intro exI [of _ "e # ins'"] exI [of _ "copy # copies"] exI [of _ k'] exI [of _ m'])
      (auto simp: somes_Cons split: option.splits)
qed

lemma exact_anchor_Inr:
  "exact_anchor ops h a = Inr e \<Longrightarrow> e \<in> set (somes (fh_anchors h)) \<and> an_anchor e = a"
  by (auto simp: exact_anchor_def result_simps split: if_splits dest!: find_SomeD)

lemma resolve_anchor_Inr:
  assumes "resolve_anchor ops h b step = Inr e"
  shows "e \<in> set (somes (fh_anchors h)) \<and> sa_step (an_anchor e) = step"
proof -
  have "resolve_anchor_loop ops h step depth b = Inr e \<Longrightarrow> e \<in> set (somes (fh_anchors h)) \<and> sa_step (an_anchor e) = step" for depth b
    by (induction depth arbitrary: b)
       (auto simp: result_simps filter_option_def canonical_anchor_def split: if_splits option.splits
         dest!: find_SomeD exact_anchor_Inr)
  then show ?thesis using assms by (auto simp: resolve_anchor_def split: if_splits)
qed

definition root_lineage :: "timeline_branch_id \<Rightarrow> timeline_step \<Rightarrow> timeline_step \<Rightarrow> lineage" where
  "root_lineage b floor through =
     \<lparr> ln_branch = b, ln_parent = None, ln_inherited_through = floor, ln_admitted_through = through,
       ln_state_changed_from = floor, ln_input_override = None, ln_state_override = None \<rparr>"

lemma root_lineage_simps [simp]:
  "ln_branch (root_lineage b f t) = b" "ln_parent (root_lineage b f t) = None" "ln_inherited_through (root_lineage b f t) = f"
  "ln_admitted_through (root_lineage b f t) = t" "ln_state_changed_from (root_lineage b f t) = f"
  "ln_input_override (root_lineage b f t) = None" "ln_state_override (root_lineage b f t) = None"
  by (simp_all add: root_lineage_def)

text \<open>The detached store: one root, the branch's inputs in order and its available anchors.\<close>

definition detached ::
  "('s, 'i) payloads \<Rightarrow> ('s \<Rightarrow> 's) \<Rightarrow> ('i \<Rightarrow> 'i) \<Rightarrow> ('s, 'i) fixed_history \<Rightarrow> timeline_branch_id \<Rightarrow> lineage \<Rightarrow>
     'i stored_input list \<Rightarrow> 's stored_anchor option list \<Rightarrow> ('s, 'i) fixed_history \<Rightarrow> bool" where
  "detached ops cs ci h b l ins copies h' \<longleftrightarrow>
     knows h b l \<and> fh_floor h \<le> ln_admitted_through l
     \<and> fh_scope h' = fh_scope h \<and> fh_floor h' = fh_floor h \<and> fh_limits h' = fh_limits h
     \<and> fh_last_branch h' = fh_last_branch h \<and> fh_branches h' \<noteq> []
     \<and> somes (fh_branches h') = [root_lineage b (fh_floor h) (ln_admitted_through l)]
     \<and> somes (fh_inputs h') = ins \<and> somes (fh_anchors h') = somes copies
     \<and> list_all2 (copied_input ops ci h b) [1..<unat (ln_admitted_through l) - unat (fh_floor h) + 1] ins
     \<and> list_all2 (copied_anchor ops cs h b) [0..<unat (ln_admitted_through l) - unat (fh_floor h) + 1] copies
     \<and> unat (fh_bytes h') = sum_bytes in_bytes ins + sum_bytes an_bytes (somes copies)
     \<and> fh_bytes h' \<le> hl_max_total_bytes (fh_limits h)"

lemma guard_eq_Inr: "(if P then Inl e else x) = Inr y \<longleftrightarrow> \<not> P \<and> x = Inr y"
  by simp

lemma materialize_detached:
  assumes inv: "hist_inv ops h" and mat: "materialize_branch ops cs ci h b = Inr h'"
  shows "\<exists>l ins copies. detached ops cs ci h b l ins copies h'"
proof -
  have bo: "branches_ok h" and ao: "anchors_ok ops h" using inv by (simp_all add: hist_inv_def)
  obtain l d base m result c where s: "hist_lineage h b = Inr l"
    "checked_sub (ln_admitted_through l) (fh_floor h) = Some d" "resolve_anchor ops h b (fh_floor h) = Inr base"
    "measure_branch ops h b 0 0 [0..<unat d + 1] = Inr m"
    "hist_new (length (fh_inputs h)) (length (fh_anchors h)) (length (fh_branches h)) ops
       ((an_anchor base)\<lparr>sa_branch := b\<rparr>) (cs (an_state base)) (fh_limits h) = Inr result"
    "copy_branch ops cs ci h b (fh_bytes result) 0 1 (fh_inputs result) (fh_anchors result) [1..<unat d + 1] = Inr c"
    and last: "(case c of (bytes, inputs, anchors) \<Rightarrow>
      (case fh_branches result of
         Some root # rest \<Rightarrow>
           Inr (result\<lparr>fh_inputs := inputs, fh_anchors := anchors, fh_bytes := bytes,
             fh_branches := Some (root\<lparr>ln_admitted_through := ln_admitted_through l\<rparr>) # rest,
             fh_last_branch := fh_last_branch h\<rparr>)
       | _ \<Rightarrow> Inl HistoryUnavailable)) = Inr h'"
    using mat unfolding materialize_branch_def Let_def
    by (simp only: bindR_eq_Inr ok_or_eq_Inr case_prod_beta guard_eq_Inr) blast
  let ?a = "(an_anchor base)\<lparr>sa_branch := b\<rparr>"
  let ?e = "\<lparr> an_anchor = ?a, an_state = cs (an_state base), an_bytes = fh_bytes result, an_canonical = True \<rparr>"
  let ?root = "\<lparr> ln_branch = b, ln_parent = None, ln_inherited_through = fh_floor h, ln_admitted_through = fh_floor h,
        ln_state_changed_from = fh_floor h, ln_input_override = None, ln_state_override = None \<rparr>"
  note r = new_Inr [OF s(5)]
  note base = resolve_anchor_Inr [OF s(3)]
  have scope: "sa_scope ?a = fh_scope h" "sa_step ?a = fh_floor h"
    using base ao by (auto simp: anchors_ok_def anchor_ok_def)
  have d: "unat d = unat (ln_admitted_through l) - unat (fh_floor h)" "fh_floor h \<le> ln_admitted_through l"
    using s(2) by (auto simp: checked_sub_Some word_le_nat_alt)
  obtain bytes inputs anchors where c: "c = (bytes, inputs, anchors)" by (cases c) auto
  have "fh_branches result = Some ?root # replicate (length (fh_branches h) - 1) None" using r scope by simp
  then have h': "h' = result\<lparr>fh_inputs := inputs, fh_anchors := anchors, fh_bytes := bytes,
      fh_branches := Some (root_lineage b (fh_floor h) (ln_admitted_through l)) # replicate (length (fh_branches h) - 1) None,
      fh_last_branch := fh_last_branch h\<rparr>"
    using last by (simp add: c root_lineage_def)
  have "copy_branch ops cs ci h b (fh_bytes result) (length ([] :: 'b stored_input list)) (length [?e])
      (map Some [] @ replicate (length (fh_inputs h)) None) (map Some [?e] @ replicate (length (fh_anchors h) - 1) None)
      [1..<unat d + 1] = Inr (bytes, inputs, anchors)"
    using s(6) r by (simp add: c del: upt_Suc)
  from copy_branch_Inr [OF this] r obtain ins copies k m where cp:
    "inputs = map Some ins @ replicate k None" "anchors = map Some ([?e] @ somes copies) @ replicate m None"
    "list_all2 (copied_input ops ci h b) [1..<unat d + 1] ins" "list_all2 (copied_anchor ops cs h b) [1..<unat d + 1] copies"
    "unat bytes = unat (fh_bytes result) + sum_bytes in_bytes ins + sum_bytes an_bytes (somes copies)"
    "bytes \<le> hl_max_total_bytes (fh_limits h)" by (auto simp del: upt_Suc)
  have "verify_anchor ops h ?e = Inr ()" using r by (auto simp: verify_anchor_Inr)
  then have "copied_anchor ops cs h b 0 (Some ?e)" using s(3) unfolding copied_anchor_def by auto
  then have copies: "list_all2 (copied_anchor ops cs h b) [0..<unat d + 1] (Some ?e # copies)"
    using cp(4) by (simp add: upt_conv_Cons del: upt_Suc)
  have "detached ops cs ci h b l ins (Some ?e # copies) h'"
    unfolding detached_def d(1) [symmetric]
    using hist_lineage_known [OF s(1)] d(2) cp copies r scope by (simp add: h' del: upt_Suc)
  then show ?thesis by blast
qed

section \<open>The detached store\<close>

lemma source_step: "input_source h step b e \<Longrightarrow> ir_step (in_record e) = step"
  by (induction rule: input_source.induct) (simp_all add: canonical_input_def)

lemma offset_of_step: "unat step = unat floor + offset \<Longrightarrow> unat step - unat floor = offset"
  by simp

lemma list_all2_key: "list_all2 (\<lambda>k x. f x = k) ks xs \<longleftrightarrow> map f xs = ks"
  by (induction ks xs rule: list_induct2') auto

lemma list_all2_key_somes:
  "list_all2 (\<lambda>k c. \<forall>x. c = Some x \<longrightarrow> f x = k) ks cs \<Longrightarrow> distinct ks \<Longrightarrow>
     distinct (map f (somes cs)) \<and> f ` set (somes cs) \<subseteq> set ks"
  by (induction rule: list_all2_induct) (auto simp: somes_Cons split: option.splits)

lemma copied_input_facts:
  assumes inv: "hist_inv ops h" and copy: "copied_input ops clone h b offset e"
  obtains step source where "unat step = unat (fh_floor h) + offset" "resolve_input ops h b step = Inr source"
    "in_record e = (in_record source)\<lparr>ir_branch := b\<rparr>" "in_payload e = clone (in_payload source)"
    "ir_step (in_record e) = step" "ir_scope (in_record e) = fh_scope h" "fh_floor h < step"
    "in_canonical e" "verify_input ops h e = Inr ()"
proof -
  have ok: "branches_ok h" "inputs_ok ops h" using inv by (simp_all add: hist_inv_def)
  obtain step source where c: "unat step = unat (fh_floor h) + offset" "resolve_input ops h b step = Inr source"
    "in_record e = (in_record source)\<lparr>ir_branch := b\<rparr>" "in_payload e = clone (in_payload source)"
    "in_canonical e" "verify_input ops h e = Inr ()"
    using copy unfolding copied_input_def by blast
  have src: "fh_floor h < step" "input_source h step b source" using c(2) resolve_input_iff [OF ok] by blast+
  have "ir_scope (in_record source) = fh_scope h"
    using source_known(2) [OF ok(1) src(2)] inputs_okD [OF ok(2)] by (simp add: input_ok_def)
  then show thesis using that c src source_step [OF src(2)] by simp
qed

lemma copied_anchor_facts:
  assumes inv: "hist_inv ops h" and copy: "copied_anchor ops clone h b offset (Some e)"
  obtains step source where "unat step = unat (fh_floor h) + offset" "resolve_anchor ops h b step = Inr source"
    "an_anchor e = (an_anchor source)\<lparr>sa_branch := b\<rparr>" "an_state e = clone (an_state source)"
    "sa_step (an_anchor e) = step" "sa_scope (an_anchor e) = fh_scope h" "an_canonical e" "verify_anchor ops h e = Inr ()"
proof -
  obtain step source where c: "unat step = unat (fh_floor h) + offset" "resolve_anchor ops h b step = Inr source"
    "an_anchor e = (an_anchor source)\<lparr>sa_branch := b\<rparr>" "an_state e = clone (an_state source)"
    "an_canonical e" "verify_anchor ops h e = Inr ()"
    using copy unfolding copied_anchor_def by auto
  moreover have "sa_scope (an_anchor source) = fh_scope h"
    using resolve_anchor_Inr [OF c(2)] inv by (simp add: hist_inv_def anchors_ok_def anchor_ok_def)
  ultimately show thesis using that resolve_anchor_Inr [OF c(2)] by simp
qed

lemma detached_branches:
  assumes inv: "hist_inv ops h" and d: "detached ops cs ci h b l ins copies h'"
  shows "branches_ok h'" "knows h' c m \<longleftrightarrow> c = b \<and> m = root_lineage b (fh_floor h) (ln_admitted_through l)"
proof -
  have k: "knows h b l" "fh_floor h \<le> ln_admitted_through l" "fh_floor h' = fh_floor h" "fh_last_branch h' = fh_last_branch h"
    and br: "somes (fh_branches h') = [root_lineage b (fh_floor h) (ln_admitted_through l)]"
    using d by (simp_all add: detached_def)
  have "lineage_ok h l" using inv k(1) by (simp add: hist_inv_def branches_ok_def knows_def)
  then have "b \<le> fh_last_branch h" using k(1) by (simp add: lineage_ok_def knows_def)
  then show "branches_ok h'" using br k by (simp add: branches_ok_def lineage_ok_def)
  show "knows h' c m \<longleftrightarrow> c = b \<and> m = root_lineage b (fh_floor h) (ln_admitted_through l)"
    by (auto simp: knows_def br)
qed

lemma detached_input:
  assumes inv: "hist_inv ops h" and d: "detached ops cs ci h b l ins copies h'"
    and step: "fh_floor h < step" "step \<le> ln_admitted_through l"
  obtains e source where "e \<in> set ins" "canonical_input b step e" "resolve_input ops h b step = Inr source"
    "in_record e = (in_record source)\<lparr>ir_branch := b\<rparr>" "in_payload e = ci (in_payload source)"
proof -
  let ?n = "unat (ln_admitted_through l) - unat (fh_floor h)"
  have all: "list_all2 (copied_input ops ci h b) [1..<?n + 1] ins" using d by (simp add: detached_def)
  have "unat step - unat (fh_floor h) \<in> set [1..<?n + 1]"
    using step by (auto simp: word_less_nat_alt word_le_nat_alt)
  from list_all2_in1 [OF all this] obtain e where e: "e \<in> set ins" "copied_input ops ci h b (unat step - unat (fh_floor h)) e" by blast
  obtain step' source where c: "unat step' = unat (fh_floor h) + (unat step - unat (fh_floor h))"
    "resolve_input ops h b step' = Inr source" "in_record e = (in_record source)\<lparr>ir_branch := b\<rparr>"
    "in_payload e = ci (in_payload source)" "ir_step (in_record e) = step'" "in_canonical e"
    by (rule copied_input_facts [OF inv e(2)]) (rule that)
  have "step' = step" using c(1) step(1) by (simp add: word_unat_eq_iff word_less_nat_alt)
  then show thesis using that e(1) c by (simp add: canonical_input_def)
qed

lemma detached_inputs:
  assumes inv: "hist_inv ops h" and d: "detached ops cs ci h b l ins copies h'"
  shows "inputs_ok ops h'"
proof -
  let ?n = "unat (ln_admitted_through l) - unat (fh_floor h)"
  let ?f = "\<lambda>e :: 'b stored_input. unat (ir_step (in_record e)) - unat (fh_floor h)"
  have all: "list_all2 (copied_input ops ci h b) [1..<?n + 1] ins"
    and frame: "fh_scope h' = fh_scope h" "fh_floor h' = fh_floor h" "fh_limits h' = fh_limits h" "somes (fh_inputs h') = ins"
      "somes (fh_branches h') = [root_lineage b (fh_floor h) (ln_admitted_through l)]"
    and le: "fh_floor h \<le> ln_admitted_through l"
    using d by (simp_all add: detached_def)
  note known = detached_branches(2) [OF inv d]
  have offset: "?f e = k" if "copied_input ops ci h b k e" for k e
    by (rule copied_input_facts [OF inv that]) simp
  have "list_all2 (\<lambda>k x. ?f x = k) [1..<?n + 1] ins"
    using all by (rule list_all2_mono) (rule offset)
  then have "map ?f ins = [1..<?n + 1]" by (simp only: list_all2_key)
  then have "distinct (map ?f ins)" by (simp only: distinct_upt)
  then have steps: "distinct (map (\<lambda>e. ir_step (in_record e)) ins)"
    by (auto simp: distinct_map inj_on_def)
  have keys: "distinct (map input_key ins)" "distinct (map input_place (filter in_canonical ins))"
    using steps by (auto simp: distinct_map inj_on_def input_key_def input_place_def)
  have "input_ok ops h' e" if e: "e \<in> set ins" for e
  proof -
    obtain k where k: "k \<in> set [1..<?n + 1]" "copied_input ops ci h b k e" using list_all2_in2 [OF all e] by blast
    obtain step source where c: "unat step = unat (fh_floor h) + k" "resolve_input ops h b step = Inr source" "in_record e = (in_record source)\<lparr>ir_branch := b\<rparr>"
      "ir_step (in_record e) = step" "ir_scope (in_record e) = fh_scope h" "fh_floor h < step" "verify_input ops h e = Inr ()"
      by (rule copied_input_facts [OF inv k(2)]) (rule that)
    have "step \<le> ln_admitted_through l" using c(1) k(1) le by (auto simp: word_le_nat_alt)
    then show ?thesis using c by (auto simp: input_ok_def known frame verify_input_Inr)
  qed
  moreover have "\<exists>e\<in>set ins. canonical_input b step e" if "fh_floor h < step" "step \<le> ln_admitted_through l" for step
    using detached_input [OF inv d that] by blast
  ultimately show ?thesis using keys by (simp add: inputs_ok_def frame own_step_def)
qed

lemma detached_anchors:
  assumes inv: "hist_inv ops h" and d: "detached ops cs ci h b l ins copies h'"
  shows "anchors_ok ops h'"
proof -
  let ?n = "unat (ln_admitted_through l) - unat (fh_floor h)"
  let ?f = "\<lambda>e :: 'a stored_anchor. unat (sa_step (an_anchor e)) - unat (fh_floor h)"
  have all: "list_all2 (copied_anchor ops cs h b) [0..<?n + 1] copies"
    and frame: "fh_scope h' = fh_scope h" "fh_floor h' = fh_floor h" "fh_limits h' = fh_limits h"
      "somes (fh_anchors h') = somes copies"
    and le: "fh_floor h \<le> ln_admitted_through l"
    using d by (simp_all add: detached_def del: upt_Suc)
  note known = detached_branches(2) [OF inv d]
  have offset: "?f e = k" if "copied_anchor ops cs h b k (Some e)" for k e
    by (rule copied_anchor_facts [OF inv that]) simp
  have "list_all2 (\<lambda>k c. \<forall>x. c = Some x \<longrightarrow> ?f x = k) [0..<?n + 1] copies"
    using all by (rule list_all2_mono) (use offset in blast)
  from list_all2_key_somes [OF this] have "distinct (map ?f (somes copies))" by (simp only: distinct_upt)
  then have "distinct (map (\<lambda>e. sa_step (an_anchor e)) (somes copies))"
    by (auto simp: distinct_map inj_on_def)
  then have keys: "distinct (map anchor_place (filter an_canonical (somes copies)))"
    by (auto simp: distinct_map inj_on_def anchor_place_def)
  have "anchor_ok ops h' e" if "e \<in> set (somes copies)" for e
  proof -
    have "Some e \<in> set copies" using that by (simp add: set_somes)
    from list_all2_in2 [OF all this] obtain k where k: "k \<in> set [0..<?n + 1]" "copied_anchor ops cs h b k (Some e)" by blast
    obtain step source where c: "unat step = unat (fh_floor h) + k" "resolve_anchor ops h b step = Inr source" "an_anchor e = (an_anchor source)\<lparr>sa_branch := b\<rparr>"
      "sa_step (an_anchor e) = step" "sa_scope (an_anchor e) = fh_scope h" "verify_anchor ops h e = Inr ()"
      by (rule copied_anchor_facts [OF inv k(2)]) (rule that)
    have "step \<le> ln_admitted_through l" "fh_floor h \<le> step" using c(1) k(1) le by (auto simp: word_le_nat_alt)
    then show ?thesis using c by (auto simp: anchor_ok_def known frame verify_anchor_Inr)
  qed
  then show ?thesis using keys by (simp add: anchors_ok_def frame)
qed

lemma detached_inv:
  assumes "hist_inv ops h" "detached ops cs ci h b l ins copies h'"
  shows "hist_inv ops h'"
  unfolding hist_inv_def charges_ok_def
  using detached_branches(1) [OF assms] detached_inputs [OF assms] detached_anchors [OF assms] assms(2)
  by (simp add: detached_def del: upt_Suc)

lemma hist_run_inv: "hist_run ops h \<Longrightarrow> hist_inv ops h"
proof (induction rule: hist_run.induct)
  case (detach h clone_s clone_i b h')
  then show ?case using materialize_detached detached_inv by metis
qed (blast intro: new_inv dest: step_effect)+

lemma detached_input_at:
  assumes inv: "hist_inv ops h" and d: "detached ops cs ci h b l ins copies h'"
  shows "resolve_input ops h b step = Inr source \<Longrightarrow>
      \<exists>e. resolve_input ops h' b step = Inr e \<and> in_record e = (in_record source)\<lparr>ir_branch := b\<rparr> \<and> in_payload e = ci (in_payload source)"
    and "input_at ops h' b step = input_at ops h b step"
proof -
  have ok: "branches_ok h" "inputs_ok ops h" and ok': "branches_ok h'" "inputs_ok ops h'"
    using inv detached_inv [OF inv d] by (simp_all add: hist_inv_def)
  have frame: "fh_floor h' = fh_floor h" "somes (fh_inputs h') = ins" "knows h b l" using d by (simp_all add: detached_def)
  let ?l = "root_lineage b (fh_floor h) (ln_admitted_through l)"
  have k: "knows h' b ?l" by (simp add: detached_branches(2) [OF inv d])
  have found: "\<exists>e. resolve_input ops h' b step = Inr e \<and> in_record e = (in_record source)\<lparr>ir_branch := b\<rparr> \<and> in_payload e = ci (in_payload source)"
    if res: "resolve_input ops h b step = Inr source" for source
  proof -
    have step: "fh_floor h < step" "step \<le> ln_admitted_through l"
      using resolve_input_total(1) [OF ok, of b step] res knows_unique [OF ok(1) frame(3)] by auto
    obtain e source' where e: "e \<in> set ins" "canonical_input b step e" "resolve_input ops h b step = Inr source'"
      "in_record e = (in_record source')\<lparr>ir_branch := b\<rparr>" "in_payload e = ci (in_payload source')"
      by (rule detached_input [OF inv d step])
    have "input_source h' step b e" using k step(2) e(1,2) by (intro input_source.own [of h' b ?l]) (simp_all add: frame)
    then have "resolve_input ops h' b step = Inr e" using resolve_input_iff [OF ok'] step(1) by (simp add: frame)
    then show ?thesis using e(3-5) res by simp
  qed
  then show "resolve_input ops h b step = Inr source \<Longrightarrow>
      \<exists>e. resolve_input ops h' b step = Inr e \<and> in_record e = (in_record source)\<lparr>ir_branch := b\<rparr> \<and> in_payload e = ci (in_payload source)" .
  show "input_at ops h' b step = input_at ops h b step"
  proof (cases "resolve_input ops h b step")
    case (Inr source)
    then show ?thesis using found [OF Inr] by (auto simp: input_at_def)
  next
    case (Inl err)
    then have "\<not> (fh_floor h < step \<and> step \<le> ln_admitted_through l)"
      using resolve_input_total(1) [OF ok, of b step] frame(3) by auto
    then obtain err' where "resolve_input ops h' b step = Inl err'"
      using resolve_input_total(1) [OF ok', of b step] detached_branches(2) [OF inv d, of b]
      by (cases "resolve_input ops h' b step") (auto simp: frame)
    then show ?thesis
      using Inl resolve_input_total(2) [OF ok Inl] resolve_input_total(2) [OF ok'] by (simp add: input_at_def)
  qed
qed

lemma detached_snapshot_at:
  assumes inv: "hist_inv ops h" and d: "detached ops cs ci h b l ins copies h'"
  shows "snapshot_at ops h' b step = snapshot_at ops h b step"
proof -
  let ?n = "unat (ln_admitted_through l) - unat (fh_floor h)"
  let ?l = "root_lineage b (fh_floor h) (ln_admitted_through l)"
  have ok: "branches_ok h" "branches_ok h'" "anchors_ok ops h'" using inv detached_inv [OF inv d] by (simp_all add: hist_inv_def)
  have all: "list_all2 (copied_anchor ops cs h b) [0..<?n + 1] copies"
    and frame: "fh_floor h' = fh_floor h" "somes (fh_anchors h') = somes copies" "knows h b l" "fh_branches h' \<noteq> []"
    using d by (simp_all add: detached_def del: upt_Suc)
  have lin: "hist_lineage h b = Inr l" "hist_lineage h' b = Inr ?l"
    using hist_lineage_eq [OF ok(1)] hist_lineage_eq [OF ok(2)] frame(3) detached_branches(2) [OF inv d] by simp_all
  have ne: "fh_branches h \<noteq> []" using frame(3) by (auto simp: knows_def)
  obtain n n' where lens: "length (fh_branches h) = Suc n" "length (fh_branches h') = Suc n'"
    using ne frame(4) by (metis length_0_conv not0_implies_Suc)
  have loop: "resolve_anchor_loop ops h' step (Suc n') b =
     (if ln_admitted_through l < step then Inl HistoryUnavailable
      else case find (canonical_anchor b step) (somes copies) of
        Some e \<Rightarrow> bindR (verify_anchor ops h' e) (\<lambda>_. Inr e)
      | None \<Rightarrow> if fh_floor h \<le> step then Inl HistoryUnavailable else Inl HistoryUnavailable)"
    using lin(2) by (simp add: filter_option_def frame split: option.splits)
  consider "step < fh_floor h" | "ln_admitted_through l < step" | "fh_floor h \<le> step" "step \<le> ln_admitted_through l" by force
  then show ?thesis
  proof cases
    case 1
    then show ?thesis by (simp add: snapshot_at_def resolve_anchor_def frame)
  next
    case 2
    then show ?thesis using loop lin(1) by (simp add: snapshot_at_def resolve_anchor_def frame lens)
  next
    case 3
    then have at': "resolve_anchor ops h' b step =
       (case find (canonical_anchor b step) (somes copies) of
          Some e \<Rightarrow> bindR (verify_anchor ops h' e) (\<lambda>_. Inr e) | None \<Rightarrow> Inl HistoryUnavailable)"
      using loop by (auto simp: resolve_anchor_def frame lens not_less split: option.splits)
    have "unat step - unat (fh_floor h) \<in> set [0..<?n + 1]" using 3 by (auto simp: word_le_nat_alt)
    from list_all2_in1 [OF all this] obtain copy where copy: "copy \<in> set copies"
      "copied_anchor ops cs h b (unat step - unat (fh_floor h)) copy" by blast
    have same: "step' = step" if "unat step' = unat (fh_floor h) + (unat step - unat (fh_floor h))" for step'
      using that 3(1) by (simp add: word_unat_eq_iff word_le_nat_alt)
    have only: "e = e'" if "e \<in> set (somes copies)" "e' \<in> set (somes copies)" "canonical_anchor b step e" "canonical_anchor b step e'" for e e'
    proof -
      have "inj_on anchor_place {e \<in> set (somes copies). an_canonical e}"
        using ok(3) by (simp add: anchors_ok_def distinct_map frame)
      then show ?thesis using that by (simp add: inj_on_def anchor_place_def canonical_anchor_def)
    qed
    show ?thesis
    proof (cases copy)
      case (Some e)
      obtain step' source where c: "unat step' = unat (fh_floor h) + (unat step - unat (fh_floor h))"
        "resolve_anchor ops h b step' = Inr source" "an_anchor e = (an_anchor source)\<lparr>sa_branch := b\<rparr>"
        "sa_step (an_anchor e) = step'" "an_canonical e"
        by (rule copied_anchor_facts [OF inv copy(2) [unfolded Some]]) (rule that)
      have e: "e \<in> set (somes copies)" "canonical_anchor b step e"
        using copy(1) Some c same [OF c(1)] by (simp_all add: set_somes canonical_anchor_def)
      have "find (canonical_anchor b step) (somes copies) = Some e" using e only by (intro find_unique) blast+
      moreover have "verify_anchor ops h' e = Inr ()" using ok(3) e(1) by (simp add: anchors_ok_def anchor_ok_def frame)
      ultimately show ?thesis using at' c same [OF c(1)] by (simp add: snapshot_at_def)
    next
      case None
      then have gone: "resolve_anchor ops h b step = Inl HistoryUnavailable"
        using copy(2) same by (auto simp: copied_anchor_def)
      have "\<not> canonical_anchor b step e" if "e \<in> set (somes copies)" for e
      proof
        assume can: "canonical_anchor b step e"
        have "Some e \<in> set copies" using that by (simp add: set_somes)
        from list_all2_in2 [OF all this] obtain k where "copied_anchor ops cs h b k (Some e)" by blast
        then obtain step' source where "resolve_anchor ops h b step' = Inr source" "sa_step (an_anchor e) = step'"
          by (rule copied_anchor_facts [OF inv]) (rule that)
        then show False using gone can by (simp add: canonical_anchor_def)
      qed
      then have "find (canonical_anchor b step) (somes copies) = None" by (simp add: find_None_iff)
      then show ?thesis using at' gone by (simp add: snapshot_at_def)
    qed
  qed
qed

section \<open>A small store\<close>

definition ex_payloads :: "(nat, nat) payloads" where
  "ex_payloads = \<lparr> of_state = \<lparr> payload_digest = (\<lambda>_. digest_fill 7), payload_len = (\<lambda>_. 3) \<rparr>,
     of_input = \<lparr> payload_digest = (\<lambda>_. digest_fill 8), payload_len = (\<lambda>_. 2) \<rparr> \<rparr>"

definition ex_hscope :: timeline_scope where
  "ex_hscope = \<lparr> tl_tenant = digest_fill 1, tl_timeline = digest_fill 2, tl_model = digest_fill 3, tl_schema = digest_fill 4 \<rparr>"

definition ex_hlimits :: history_limits where
  "ex_hlimits = \<lparr> hl_max_input_bytes = 4, hl_max_snapshot_bytes = 4, hl_max_total_bytes = 16 \<rparr>"

definition ex_base :: state_anchor where
  "ex_base = \<lparr> sa_scope = ex_hscope, sa_branch = 1, sa_step = 5, sa_snapshot = digest_fill 5, sa_digest = digest_fill 7 \<rparr>"

definition ex_in :: "u64 \<Rightarrow> input_record" where
  "ex_in step = \<lparr> ir_scope = ex_hscope, ir_branch = 1, ir_step = step, ir_identity = digest_fill 6, ir_revision = 1, ir_digest = digest_fill 8 \<rparr>"

definition ex_stored :: "u64 \<Rightarrow> nat \<Rightarrow> nat stored_input" where
  "ex_stored step p = \<lparr> in_record = ex_in step, in_payload = p, in_bytes = 2, in_canonical = True \<rparr>"

definition ex_hist :: "nat stored_input option list \<Rightarrow> u64 \<Rightarrow> u64 \<Rightarrow> (nat, nat) fixed_history" where
  "ex_hist inputs through bytes =
     \<lparr> fh_scope = ex_hscope, fh_inputs = inputs,
       fh_anchors = [Some \<lparr> an_anchor = ex_base, an_state = 40, an_bytes = 3, an_canonical = True \<rparr>, None],
       fh_branches = [Some (root_lineage 1 5 through), None],
       fh_floor = 5, fh_last_branch = 1, fh_bytes = bytes, fh_limits = ex_hlimits \<rparr>"

lemmas ex_hist_defs = ex_hist_def ex_payloads_def ex_hlimits_def ex_base_def ex_in_def ex_stored_def root_lineage_def

lemma ex_stored_simps [simp]:
  "in_record (ex_stored step p) = ex_in step" "in_payload (ex_stored step p) = p" "in_bytes (ex_stored step p) = 2"
  "in_canonical (ex_stored step p)" "(ex_in step)\<lparr>ir_branch := 1\<rparr> = ex_in step" "ir_digest (ex_in step) = digest_fill 8"
  by (simp_all add: ex_stored_def ex_in_def)

lemma ex_hist_new: "hist_new (Suc (Suc 0)) (Suc (Suc 0)) (Suc (Suc 0)) ex_payloads ex_base 40 ex_hlimits = Inr (ex_hist [None, None] 5 3)"
  by (simp add: hist_new_def insert_anchor_def check_anchor_admission_def hist_check_scope_def hist_lineage_def
      check_payload_def charge_def checked_add_def first_vacant_def ex_hist_defs Let_def)

lemma ex_append1: "append_input ex_payloads (ex_hist [None, None] 5 3) (ex_in 6) 50 = Inr (ex_hist [Some (ex_stored 6 50), None] 6 5)"
  by (simp add: append_input_def hist_check_scope_def hist_lineage_def admit_through_def holds_branch_def checked_next_def
      check_payload_def charge_def checked_add_def first_vacant_def ex_hist_defs Let_def)

lemma ex_append2: "append_input ex_payloads (ex_hist [Some (ex_stored 6 50), None] 6 5) (ex_in 7) 60
    = Inr (ex_hist [Some (ex_stored 6 50), Some (ex_stored 7 60)] 7 7)"
  by (simp add: append_input_def hist_check_scope_def hist_lineage_def admit_through_def holds_branch_def checked_next_def
      check_payload_def charge_def checked_add_def first_vacant_def ex_hist_defs Let_def)

lemma ex_hist_run: "hist_run ex_payloads (ex_hist [Some (ex_stored 6 50), None] 6 5)"
  by (rule hist_run.step [OF hist_run.new [OF ex_hist_new] hist_step.append [OF ex_append1]])

lemma ex_resolve: "resolve_input ex_payloads (ex_hist [Some (ex_stored 6 50), None] 6 5) 1 6 = Inr (ex_stored 6 50)"
  by (simp add: resolve_input_def hist_lineage_def input_slot_hint_def checked_sub_def canonical_input_def or_else_def filter_option_def
      verify_input_def check_payload_def ex_hist_defs Let_def)

lemma ex_materialize: "materialize_branch ex_payloads id id (ex_hist [Some (ex_stored 6 50), None] 6 5) 1
    = Inr (ex_hist [Some (ex_stored 6 50), None] 6 5)"
proof -
  let ?h = "ex_hist [Some (ex_stored 6 50), None] 6 5"
  let ?base = "\<lparr> an_anchor = ex_base, an_state = 40, an_bytes = 3, an_canonical = True \<rparr>"
  have anchors: "resolve_anchor ex_payloads ?h 1 5 = Inr ?base" "resolve_anchor ex_payloads ?h 1 6 = Inl HistoryUnavailable"
    by (simp_all add: resolve_anchor_def hist_lineage_def canonical_anchor_def filter_option_def
      verify_anchor_def check_payload_def ex_hist_defs Let_def)
  have frame: "fh_floor ?h = 5" "fh_limits ?h = ex_hlimits" "length (fh_inputs ?h) = Suc (Suc 0)" "length (fh_anchors ?h) = Suc (Suc 0)" "length (fh_branches ?h) = Suc (Suc 0)"
    "hist_lineage ?h 1 = Inr (root_lineage 1 5 6)" "fh_last_branch ?h = 1"
    by (simp_all add: ex_hist_def hist_lineage_def)
  have steps: "materialized_step ?h 0 = Inr 5" "materialized_step ?h (Suc 0) = Inr 6"
    by (simp_all add: materialized_step_def checked_add_def frame)
  have self: "ex_base\<lparr>sa_branch := 1\<rparr> = ex_base" by (simp add: ex_base_def)
  have input_ops: "payload_len (of_input ex_payloads) p = 2" "payload_digest (of_input ex_payloads) p = digest_fill 8"
    "hl_max_input_bytes ex_hlimits = 4" "hl_max_total_bytes ex_hlimits = 16" for p
    by (simp_all add: ex_payloads_def ex_hlimits_def)
  have stored: "\<lparr> in_record = ex_in 6, in_payload = 50, in_bytes = 2, in_canonical = True \<rparr> = ex_stored 6 50" by (simp add: ex_stored_def)
  have m: "measure_branch ex_payloads ?h 1 0 0 [0, 1] = Inr (5, 1)"
    by (simp add: steps anchors ex_resolve checked_add_def)
  have c: "copy_branch ex_payloads id id ?h 1 3 0 1 [None, None] [Some ?base, None] [1]
      = Inr (5, [Some (ex_stored 6 50), None], [Some ?base, None])"
    by (simp add: steps copy_input_def copy_anchor_def anchors ex_resolve put_slot_def add_within_def filter_option_def
        check_payload_def checked_add_def frame Let_def input_ops stored)
  have upto: "[0..<unat (1 :: u64) + 1] = [0, 1]" "[1..<unat (1 :: u64) + 1] = [1]" by simp_all
  have d: "checked_sub (6 :: u64) 5 = Some 1" by (simp add: checked_sub_def)
  have b: "fh_branches (ex_hist [None, None] 5 3) = Some (root_lineage 1 5 5) # [None]" "fh_bytes (ex_hist [None, None] 5 3) = 3"
    "fh_inputs (ex_hist [None, None] 5 3) = [None, None]" "fh_anchors (ex_hist [None, None] 5 3) = [Some ?base, None]"
    by (simp_all add: ex_hist_def)
  show ?thesis
    unfolding materialize_branch_def frame bindR.simps root_lineage_simps d ok_or_simps Let_def anchors upto m case_prod_conv
    by (simp add: self ex_hist_new b c input_ops del: One_nat_def copy_branch.simps) (simp add: ex_hist_def root_lineage_def)
qed

section \<open>Claims\<close>

text \<open>
  C23. The history has no gaps and lookup is exact. In every store the operations can reach, a step of a branch
  can be read exactly when the branch is known and the step lies above the floor and within what
  the branch admitted; the record found is then the one and only source that the lineage rules
  determine (slot hint, skipped scans and the bound on the walk never change the answer), its
  payload has the recorded length and digest, and every other lookup reports
  \<open>HistoryUnavailable\<close>. The charged bytes are those of the stored payloads and within the limit.
\<close>
theorem history_is_gap_free:
  assumes "hist_run ops h"
  shows "(if fh_floor h < step \<and> (\<exists>l. hist_lineage h b = Inr l \<and> step \<le> ln_admitted_through l)
      then \<exists>!e. input_source h step b e \<and> verify_input ops h e = Inr ()
             \<and> input_at ops h b step = Inr ((in_record e)\<lparr>ir_branch := b\<rparr>)
      else input_at ops h b step = Inl HistoryUnavailable)
    \<and> unat (fh_bytes h) = sum_bytes in_bytes (somes (fh_inputs h)) + sum_bytes an_bytes (somes (fh_anchors h))
    \<and> fh_bytes h \<le> hl_max_total_bytes (fh_limits h)"
proof -
  have inv: "hist_inv ops h" by (rule hist_run_inv [OF assms])
  then have ok: "branches_ok h" "inputs_ok ops h" by (simp_all add: hist_inv_def)
  have lookup: "if fh_floor h < step \<and> (\<exists>l. knows h b l \<and> step \<le> ln_admitted_through l)
      then \<exists>!e. input_source h step b e \<and> verify_input ops h e = Inr ()
             \<and> input_at ops h b step = Inr ((in_record e)\<lparr>ir_branch := b\<rparr>)
      else input_at ops h b step = Inl HistoryUnavailable"
  proof (cases "resolve_input ops h b step")
    case (Inl err)
    then show ?thesis
      using resolve_input_total(1) [OF ok, of b step] resolve_input_total(2) [OF ok Inl] by (auto simp: input_at_def)
  next
    case (Inr e)
    have src: "input_source h step b e" using Inr resolve_input_iff [OF ok] by blast
    have "verify_input ops h e = Inr ()"
      using source_known(2) [OF ok(1) src] inputs_okD [OF ok(2)] by (simp add: input_ok_def)
    then have "\<exists>!e. input_source h step b e \<and> verify_input ops h e = Inr ()
             \<and> input_at ops h b step = Inr ((in_record e)\<lparr>ir_branch := b\<rparr>)"
      using Inr src by (intro ex1I [of _ e]) (simp add: input_at_def, blast intro: source_unique [OF ok _ src])
    moreover have "fh_floor h < step \<and> (\<exists>l. knows h b l \<and> step \<le> ln_admitted_through l)"
      using resolve_input_total(1) [OF ok, of b step] Inr by blast
    ultimately show ?thesis by simp
  qed
  show ?thesis using lookup inv unfolding hist_lineage_eq [OF ok(1)] by (simp add: hist_inv_def charges_ok_def)
qed

theorem history_is_gap_free_witness:
  "input_at ex_payloads (ex_hist [Some (ex_stored 6 50), None] 6 5) 1 7 = Inl HistoryUnavailable
   \<and> (\<exists>!e. input_source (ex_hist [Some (ex_stored 6 50), None] 6 5) 6 1 e \<and> verify_input ex_payloads (ex_hist [Some (ex_stored 6 50), None] 6 5) e = Inr ()
       \<and> input_at ex_payloads (ex_hist [Some (ex_stored 6 50), None] 6 5) 1 6 = Inr ((in_record e)\<lparr>ir_branch := 1\<rparr>))"
proof -
  let ?h = "ex_hist [Some (ex_stored 6 50), None] 6 5"
  have "hist_lineage ?h 1 = Inr (root_lineage 1 5 6)" "fh_floor ?h = 5" by (simp_all add: ex_hist_def hist_lineage_def)
  then show ?thesis
    using history_is_gap_free [OF ex_hist_run, of 7 1] history_is_gap_free [OF ex_hist_run, of 6 1] by simp
qed

text \<open>
  C24. Admitted history never changes. Whatever call is made next on a reachable store (an append, an import, a
  snapshot, a fork, an expiry or a retirement, successful or not), a step that could be read on
  a branch before and that is still retained is read afterwards with the same record and payload.
\<close>
theorem history_is_immutable:
  assumes "hist_run ops h" and "hist_step ops h h'"
    and "resolve_input ops h b step = Inr e" and "hist_lineage h' b = Inr l" and "fh_floor h' < step"
  shows "resolve_input ops h' b step = Inr e \<and> input_at ops h' b step = input_at ops h b step"
proof -
  have inv: "hist_inv ops h" by (rule hist_run_inv [OF assms(1)])
  then have ok: "branches_ok h" "inputs_ok ops h" by (simp_all add: hist_inv_def)
  have ok': "branches_ok h'" "inputs_ok ops h'" using step_effect [OF inv assms(2)] by (simp_all add: hist_inv_def)
  have "input_source h step b e" using assms(3) resolve_input_iff [OF ok] by blast
  then have "input_source h' step b e" by (rule step_source [OF inv assms(2) _ hist_lineage_known [OF assms(4)] assms(5)])
  then have "resolve_input ops h' b step = Inr e" using resolve_input_iff [OF ok'] assms(5) by blast
  then show ?thesis using assms(3) by (simp add: input_at_def)
qed

theorem history_is_immutable_witness:
  "resolve_input ex_payloads (ex_hist [Some (ex_stored 6 50), Some (ex_stored 7 60)] 7 7) 1 6 = Inr (ex_stored 6 50)"
proof -
  let ?h = "ex_hist [Some (ex_stored 6 50), Some (ex_stored 7 60)] 7 7"
  have "hist_lineage ?h 1 = Inr (root_lineage 1 5 7)" "fh_floor ?h < 6" by (simp_all add: ex_hist_def hist_lineage_def)
  then show ?thesis using history_is_immutable [OF ex_hist_run hist_step.append [OF ex_append2] ex_resolve] by blast
qed

text \<open>
  C25. Materialising a branch yields a store of its own with the same history: it knows that branch
  only, as a root, answers every lookup of an input or a snapshot on the branch as the source does,
  errors included, holds the cloned payloads, has the same floor, and never hands out an older
  branch identity; it is itself a consistent store.
\<close>
theorem materialize_preserves_branch:
  assumes "hist_run ops h" and "materialize_branch ops clone_s clone_i h b = Inr h'"
  shows "input_at ops h' b step = input_at ops h b step \<and> snapshot_at ops h' b step = snapshot_at ops h b step
    \<and> (\<forall>source. resolve_input ops h b step = Inr source \<longrightarrow>
         (\<exists>e. resolve_input ops h' b step = Inr e \<and> in_payload e = clone_i (in_payload source)))
    \<and> (\<exists>l. somes (fh_branches h') = [l] \<and> ln_branch l = b \<and> ln_parent l = None)
    \<and> fh_floor h' = fh_floor h \<and> fh_last_branch h' = fh_last_branch h \<and> hist_inv ops h'"
proof -
  have inv: "hist_inv ops h" by (rule hist_run_inv [OF assms(1)])
  obtain l ins copies where d: "detached ops clone_s clone_i h b l ins copies h'"
    using materialize_detached [OF inv assms(2)] by blast
  then have "fh_floor h' = fh_floor h" "fh_last_branch h' = fh_last_branch h"
    "somes (fh_branches h') = [root_lineage b (fh_floor h) (ln_admitted_through l)]" by (simp_all add: detached_def)
  moreover have "\<exists>e. resolve_input ops h' b step = Inr e \<and> in_payload e = clone_i (in_payload source)"
    if "resolve_input ops h b step = Inr source" for source
    using detached_input_at(1) [OF inv d that] by blast
  ultimately show ?thesis
    using detached_input_at(2) [OF inv d] detached_snapshot_at [OF inv d] detached_inv [OF inv d] by simp
qed

theorem materialize_preserves_branch_witness:
  "input_at ex_payloads (ex_hist [Some (ex_stored 6 50), None] 6 5) 1 6 = Inr (ex_in 6)
   \<and> hist_inv ex_payloads (ex_hist [Some (ex_stored 6 50), None] 6 5)"
  using materialize_preserves_branch [OF ex_hist_run ex_materialize] ex_resolve
  by (simp add: input_at_def ex_stored_def ex_in_def)

end
