(* ===== verification/Timeline_Ergonomic.thy ===== *)
theory Timeline_Ergonomic
  imports Timeline_History Timeline_Live
begin

text \<open>
  The convenience layer of \<open>penelope-timeline\<close>: owned inputs and snapshots (\<open>captured.rs\<close>), a
  replay session that keeps its input store (\<open>pinned.rs\<close>), inputs applied to owned live state and
  the scoped correction with its cleanup on drop (\<open>ergonomic.rs\<close>).

  The digest of a payload and \<open>Clone\<close> are consumer code and are arguments. The exclusive borrow of
  a scoped correction is the live timeline it holds; when the scope ends, by \<open>publish\<close>, by an error
  or by being dropped, \<open>scoped_drop\<close> gives the live timeline back.
\<close>

section \<open>Captured inputs and snapshots\<close>

record 'i captured_input =
  ci_record :: input_record
  ci_value :: 'i

definition captured_input_new :: "('i \<Rightarrow> digest) \<Rightarrow> input_record \<Rightarrow> 'i \<Rightarrow> timeline_error + 'i captured_input" where
  "captured_input_new dig r v =
     (if dig v \<noteq> ir_digest r then Inl InputMismatch else Inr \<lparr> ci_record = r, ci_value = v \<rparr>)"

definition captured_read :: "('i \<Rightarrow> digest) \<Rightarrow> 'i captured_input \<Rightarrow> ('i, timeline_error) input_store" where
  "captured_read dig c r =
     (if r \<noteq> ci_record c \<or> dig (ci_value c) \<noteq> ir_digest r then Inl InputMismatch else Inr (r, ci_value c))"

text \<open>The slot a contiguous buffer would hold the record in, if it really is there. A \<open>usize\<close> holds every \<open>u64\<close>.\<close>

definition slice_hint :: "'i captured_input list \<Rightarrow> input_record \<Rightarrow> 'i captured_input option" where
  "slice_hint xs r =
     (case xs of
        [] \<Rightarrow> None
      | first # _ \<Rightarrow>
          (case checked_sub (ir_step r) (ir_step (ci_record first)) of
             None \<Rightarrow> None
           | Some offset \<Rightarrow>
               if unat offset < length xs \<and> ci_record (xs ! unat offset) = r then Some (xs ! unat offset) else None))"

definition slice_read :: "('i \<Rightarrow> digest) \<Rightarrow> 'i captured_input list \<Rightarrow> ('i, timeline_error) input_store" where
  "slice_read dig xs r =
     bindR (ok_or HistoryUnavailable
       (case slice_hint xs r of
          Some c \<Rightarrow> Some c
        | None \<Rightarrow> find (\<lambda>c. ir_step (ci_record c) = ir_step r \<and> ci_record c = r) xs)) (\<lambda>c. captured_read dig c r)"

record 's captured_snapshot =
  cs_anchor :: state_anchor
  cs_value :: 's

definition snapshot_capture ::
  "('s \<Rightarrow> digest) \<Rightarrow> timeline_head \<Rightarrow> timeline_step \<Rightarrow> timeline_snapshot_id \<Rightarrow> 's \<Rightarrow> timeline_error + 's captured_snapshot" where
  "snapshot_capture dig head step identity v =
     (if th_step head < step then Inl FutureCorrection
      else Inr \<lparr> cs_anchor = \<lparr> sa_scope = th_scope head, sa_branch = th_branch head, sa_step = step,
                   sa_snapshot = identity, sa_digest = dig v \<rparr>, cs_value = v \<rparr>)"

definition captured_restore ::
  "('s \<Rightarrow> digest) \<Rightarrow> ('s \<Rightarrow> 's) \<Rightarrow> 's captured_snapshot \<Rightarrow> ('s, timeline_error) snapshot_store" where
  "captured_restore dig clone c anchor scratch =
     (if anchor \<noteq> cs_anchor c \<or> dig (cs_value c) \<noteq> sa_digest anchor then Inl InputMismatch
      else Inr (anchor, clone (cs_value c)))"

section \<open>Pinned sessions\<close>

record ('s, 'e, 'i, 'x) pinned_replay_session =
  pn_store :: "('i, 'x) input_store"
  pn_session :: "('s, 'e) replay_session"

definition pin_inputs :: "('s, 'e) replay_session \<Rightarrow> ('i, 'x) input_store \<Rightarrow> ('s, 'e, 'i, 'x) pinned_replay_session" where
  "pin_inputs s store = \<lparr> pn_store = store, pn_session = s \<rparr>"

definition pinned_advance ::
  "timeline_head \<Rightarrow> ('s, 'i, 'e, 'm) model \<Rightarrow> u64 \<Rightarrow> ('s, 'e, 'i, 'x) pinned_replay_session \<Rightarrow>
     (('m, 'x) replay_error + replay_phase) \<times> ('s, 'e, 'i, 'x) pinned_replay_session" where
  "pinned_advance current model max_steps p =
     (case session_advance current model (pn_store p) max_steps (pn_session p) of
        (res, s) \<Rightarrow> (res, p\<lparr>pn_session := s\<rparr>))"

definition pinned_validate ::
  "timeline_head \<Rightarrow> 's validator \<Rightarrow> ('s, 'e, 'i, 'x) pinned_replay_session \<Rightarrow> timeline_error + ('s, 'e) ready_candidate" where
  "pinned_validate current validator p = session_validate current validator (pn_session p)"

definition pinned_abort :: "('s, 'e, 'i, 'x) pinned_replay_session \<Rightarrow> ('s, 'e, 'i, 'x) pinned_replay_session" where
  "pinned_abort p = p\<lparr>pn_session := session_abort (pn_session p)\<rparr>"

section \<open>Applying an input\<close>

datatype 'm apply_error = ApplyTimeline timeline_error | ApplyComputation 'm

definition live_effect_limits :: "('s, 'e) live_timeline \<Rightarrow> effect_limits" where
  "live_effect_limits lv = fx_limits (lv_effects lv)"

definition next_input :: "('i \<Rightarrow> digest) \<Rightarrow> ('s, 'e) live_timeline \<Rightarrow> timeline_input_id \<Rightarrow> 'i \<Rightarrow> timeline_error + input_record" where
  "next_input dig lv identity v =
     (let head = fst (live_read lv) in
      bindR (ok_or CounterExhausted (checked_next (th_step head))) (\<lambda>step.
        Inr \<lparr> ir_scope = th_scope head, ir_branch = th_branch head, ir_step = step, ir_identity = identity,
              ir_revision = 0, ir_digest = dig v \<rparr>))"

text \<open>\<open>capacity\<close> is the constant \<open>EFFECTS\<close>; an error leaves the live timeline as it was.\<close>

definition apply_input ::
  "nat \<Rightarrow> ('i \<Rightarrow> digest) \<Rightarrow> ('s \<Rightarrow> 's) \<Rightarrow> ('s, 'i, 'e, 'm) model \<Rightarrow> timeline_input_id \<Rightarrow> 'i \<Rightarrow> 's validator \<Rightarrow> ('s, 'e) live_timeline \<Rightarrow>
     'm apply_error + (input_record \<times> ('s, 'e) live_timeline)" where
  "apply_input capacity dig clone model identity v validator lv =
     bindR (map_err ApplyTimeline (next_input dig lv identity v)) (\<lambda>record.
     let expected = fst (live_read lv) in
     bindR (map_err ApplyTimeline (tp_append (projection_of_head 0 expected) expected record)) (\<lambda>(head, _).
     let ctx = \<lparr> sc_revision = th_revision head, sc_scope = th_scope expected, sc_branch = th_branch expected, sc_step = ir_step record \<rparr>
     in case run_computation (model (clone (snd (live_read lv))) v ctx) (fx_sink (fx_new capacity (live_effect_limits lv)) ctx) of
          (res, state, sk) \<Rightarrow>
            bindR (map_err ApplyComputation res) (\<lambda>_.
              if sk_poisoned sk then Inl (ApplyTimeline Capacity)
              else bindR (map_err ApplyTimeline (validator state head)) (\<lambda>_.
                bindR (map_err ApplyTimeline (live_append lv
                   \<lparr> rd_expected = expected, rd_input = record, rd_state = state, rd_effects = sk_effects sk \<rparr>)) (\<lambda>(_, lv').
                  Inr (record, lv'))))))"

section \<open>Scoped corrections\<close>

record 's correction_request =
  cq_correction :: correction
  cq_inputs :: "input_record list"
  cq_observation :: authority_observation
  cq_scratch :: 's
  cq_limits :: replay_limits

record ('s, 'e) scoped_correction =
  sx_live :: "('s, 'e) live_timeline"
  sx_reservation :: "branch_reservation option"
  sx_session :: "('s, 'e) replay_session option"

definition scoped_drop :: "('s, 'e) scoped_correction \<Rightarrow> ('s, 'e) live_timeline" where
  "scoped_drop sx =
     (case sx_reservation sx of
        None \<Rightarrow> sx_live sx
      | Some r \<Rightarrow> (case live_abort (sx_live sx) r of Inl _ \<Rightarrow> sx_live sx | Inr lv \<Rightarrow> lv))"

text \<open>A failed start gives the live timeline back beside the error.\<close>

definition begin_correction ::
  "nat \<Rightarrow> 's correction_request \<Rightarrow> ('s, 'x) snapshot_store \<Rightarrow> ('s, 'e) live_timeline \<Rightarrow>
     ('x restore_error \<times> ('s, 'e) live_timeline) + ('s, 'e) scoped_correction" where
  "begin_correction capacity rq restore lv =
     (let head = fst (live_read lv) in
      case plan_prepare head (th_revision head) (cq_correction rq) (cq_inputs rq) (cq_limits rq) of
        Inl e \<Rightarrow> Inl (RestoreTimeline e, lv)
      | Inr pl \<Rightarrow>
          (case live_reserve lv pl (cq_observation rq) of
             Inl e \<Rightarrow> Inl (RestoreTimeline e, lv)
           | Inr (r, lv1) \<Rightarrow>
               let scoped = \<lparr> sx_live = lv1, sx_reservation = Some r, sx_session = None \<rparr> in
               (case session_begin capacity pl r (cq_scratch rq) restore (live_effect_limits lv1) of
                  Inl e \<Rightarrow> Inl (e, scoped_drop scoped)
                | Inr s \<Rightarrow> Inr (scoped\<lparr>sx_session := Some s\<rparr>))))"

definition scoped_read :: "('s, 'e) scoped_correction \<Rightarrow> timeline_head \<times> 's" where
  "scoped_read sx = live_read (sx_live sx)"

definition scoped_advance ::
  "('s, 'i, 'e, 'm) model \<Rightarrow> ('i, 'x) input_store \<Rightarrow> u64 \<Rightarrow> ('s, 'e) scoped_correction \<Rightarrow>
     (('m, 'x) replay_error + replay_phase) \<times> ('s, 'e) scoped_correction" where
  "scoped_advance model read max_steps sx =
     (case sx_session sx of
        None \<Rightarrow> (Inl (ReplayTimeline SessionUnavailable), sx)
      | Some s \<Rightarrow>
          (case session_advance (fst (live_read (sx_live sx))) model read max_steps s of
             (res, s') \<Rightarrow> (res, sx\<lparr>sx_session := Some s'\<rparr>)))"

definition scoped_publish ::
  "'s validator \<Rightarrow> ('s, 'e) scoped_correction \<Rightarrow> (timeline_error + timeline_head) \<times> ('s, 'e) live_timeline" where
  "scoped_publish validator sx =
     (case sx_session sx of
        None \<Rightarrow> (Inl SessionUnavailable, scoped_drop sx)
      | Some s \<Rightarrow>
          let sx1 = sx\<lparr>sx_session := None\<rparr> in
          (case session_validate (fst (live_read (sx_live sx1))) validator s of
             Inl e \<Rightarrow> (Inl e, scoped_drop sx1)
           | Inr candidate \<Rightarrow>
               (case live_promote (sx_live sx1) candidate of
                  Inl e \<Rightarrow> (Inl e, scoped_drop sx1)
                | Inr (head, lv) \<Rightarrow>
                    (Inr head, scoped_drop (sx1\<lparr>sx_live := lv, sx_reservation := None\<rparr>)))))"

end
