(* ===== verification/Timeline_Ergonomic_Properties.thy ===== *)
theory Timeline_Ergonomic_Properties
  imports Timeline_Ergonomic Timeline_Live_Properties
begin

text \<open>
  A scoped correction publishes completely or gives the live timeline back as it was, an applied
  input is a prepared live step appended to the same publication, and a slice of captured inputs
  behaves as a map from descriptors to payloads.
\<close>

section \<open>Reserving and releasing\<close>

lemma replace_first_undo:
  "replace_first (\<lambda>slot. slot = None) (Some r) ss = Some ss' \<Longrightarrow> Some r \<notin> set ss \<Longrightarrow>
     replace_first (\<lambda>slot. slot = Some r) None ss' = Some ss"
  by (induction ss arbitrary: ss') (auto split: if_splits)

lemma reserve_abort:
  assumes inv: "timeline_inv p" and res: "tp_reserve p pl obs = Inr (r, p')"
  shows "tp_abort p' r = Inr (p\<lparr>tp_last_branch := br_branch r\<rparr>)"
proof -
  note facts = tp_reserve_Inr [OF res]
  have "Some r \<notin> set (tp_sessions p)"
  proof
    assume "Some r \<in> set (tp_sessions p)"
    then have "r \<in> set (active (tp_sessions p))" by (simp add: set_active)
    then have "br_branch r \<le> tp_last_branch p" using inv by (auto simp: timeline_inv_def list_all_iff reservation_ok_def)
    then show False using facts(3) by (simp add: word_le_nat_alt)
  qed
  then show ?thesis
    using res replace_first_undo
    by (fastforce simp: tp_reserve_def tp_abort_def result_simps Let_def split: if_splits)
qed

section \<open>Scoped corrections\<close>

text \<open>A correction that was started on \<open>lv\<close>, after any number of calls of \<open>advance\<close>, failed ones included.\<close>

inductive scoped_run ::
  "nat \<Rightarrow> 's correction_request \<Rightarrow> ('s, 'y) snapshot_store \<Rightarrow> ('s, 'i, 'e, 'm) model \<Rightarrow> ('i, 'x) input_store \<Rightarrow>
     ('s, 'e) live_timeline \<Rightarrow> ('s, 'e) scoped_correction \<Rightarrow> bool"
  for capacity rq restore model read lv where
  started: "begin_correction capacity rq restore lv = Inr sx \<Longrightarrow> scoped_run capacity rq restore model read lv sx"
| advanced: "scoped_run capacity rq restore model read lv sx \<Longrightarrow> scoped_advance model read n sx = (res, sx') \<Longrightarrow>
    scoped_run capacity rq restore model read lv sx'"

text \<open>The live timeline after a correction that was not published: at most a branch identity is spent.\<close>

definition spent :: "('s, 'e) live_timeline \<Rightarrow> timeline_branch_id \<Rightarrow> ('s, 'e) live_timeline" where
  "spent lv branch = lv\<lparr>lv_projection := (lv_projection lv)\<lparr>tp_last_branch := branch\<rparr>\<rparr>"

lemma begin_correction_cases:
  assumes "timeline_inv (lv_projection lv)"
  shows "case begin_correction capacity rq restore lv of
      Inl (e, lv') \<Rightarrow> lv' = lv \<or> (\<exists>branch. unat branch = unat (tp_last_branch (lv_projection lv)) + 1 \<and> lv' = spent lv branch)
    | Inr sx \<Rightarrow> \<exists>pl r p s.
        plan_prepare (tp_head (lv_projection lv)) (th_revision (tp_head (lv_projection lv))) (cq_correction rq) (cq_inputs rq) (cq_limits rq) = Inr pl
        \<and> tp_reserve (lv_projection lv) pl (cq_observation rq) = Inr (r, p)
        \<and> session_begin capacity pl r (cq_scratch rq) restore (fx_limits (lv_effects lv)) = Inr s
        \<and> sx = \<lparr> sx_live = lv\<lparr>lv_projection := p\<rparr>, sx_reservation = Some r, sx_session = Some s \<rparr>"
proof -
  have drop: "scoped_drop \<lparr> sx_live = lv\<lparr>lv_projection := p\<rparr>, sx_reservation = Some r, sx_session = ss \<rparr> = spent lv (br_branch r)"
    "unat (br_branch r) = unat (tp_last_branch (lv_projection lv)) + 1"
    if "tp_reserve (lv_projection lv) pl obs = Inr (r, p)" for pl obs r p ss
    using reserve_abort [OF assms that] tp_reserve_Inr(3) [OF that] by (simp_all add: scoped_drop_def live_abort_def spent_def)
  show ?thesis
    using drop by (auto simp: begin_correction_def live_read_def live_reserve_def live_effect_limits_def Let_def
        bindR_eq_Inr bindR_eq_Inl split: sum.splits) blast+
qed

lemma scoped_run_frame:
  assumes "scoped_run capacity rq restore model read lv sx" "timeline_inv (lv_projection lv)"
  shows "\<exists>pl r p s. plan_prepare (tp_head (lv_projection lv)) (th_revision (tp_head (lv_projection lv))) (cq_correction rq) (cq_inputs rq) (cq_limits rq) = Inr pl
    \<and> tp_reserve (lv_projection lv) pl (cq_observation rq) = Inr (r, p) \<and> replay_run restore model read capacity pl r s
    \<and> sx = \<lparr> sx_live = lv\<lparr>lv_projection := p\<rparr>, sx_reservation = Some r, sx_session = Some s \<rparr>"
  using assms(1)
proof (induction rule: scoped_run.induct)
  case (started sx)
  then show ?case using begin_correction_cases [OF assms(2), where capacity = capacity and rq = rq and restore = restore] by (auto intro: replay_run.first)
next
  case (advanced sx n res sx')
  then obtain pl r p s where IH: "plan_prepare (tp_head (lv_projection lv)) (th_revision (tp_head (lv_projection lv))) (cq_correction rq) (cq_inputs rq) (cq_limits rq) = Inr pl"
    "tp_reserve (lv_projection lv) pl (cq_observation rq) = Inr (r, p)" "replay_run restore model read capacity pl r s"
    "sx = \<lparr> sx_live = lv\<lparr>lv_projection := p\<rparr>, sx_reservation = Some r, sx_session = Some s \<rparr>" by blast
  obtain res2 s' where adv: "session_advance (fst (live_read (sx_live sx))) model read n s = (res2, s')" by fastforce
  have "sx' = \<lparr> sx_live = lv\<lparr>lv_projection := p\<rparr>, sx_reservation = Some r, sx_session = Some s' \<rparr>"
    using advanced.hyps(2) IH(4) adv by (auto simp: scoped_advance_def)
  then show ?case using IH(1,2) replay_run.advance [OF IH(3) adv] by blast
qed

lemma replay_run_reservation: "replay_run restore model read capacity pl r s \<Longrightarrow> rs_reservation s = r"
proof (induction rule: replay_run.induct)
  case (first scratch limits s)
  then show ?case by (auto dest!: session_begin_Inr)
next
  case (advance s current max_steps res s')
  then show ?case using session_advance_loop [OF advance.hyps(2)] by (auto dest: advance_loop_frame)
qed (simp add: session_abort_def)

lemma tp_promote_reserved:
  assumes inv: "timeline_inv p" and res: "tp_reserve p pl obs = Inr (r, p')" and prom: "tp_promote p' r = Inr (h, p'')"
  shows "p'' = p\<lparr>tp_last_branch := br_branch r, tp_head := h\<rparr>"
  using reserve_abort [OF inv res] prom by (auto simp: tp_promote_def result_simps)

section \<open>Captured inputs\<close>

definition captured_map :: "'i captured_input list \<Rightarrow> input_record \<Rightarrow> 'i option" where
  "captured_map xs = map_of (map (\<lambda>c. (ci_record c, ci_value c)) xs)"

lemma captured_map_Some:
  "distinct (map ci_record xs) \<Longrightarrow> captured_map xs r = Some v \<longleftrightarrow> (\<exists>c\<in>set xs. ci_record c = r \<and> ci_value c = v)"
  by (auto simp: captured_map_def comp_def image_iff)

lemma captured_map_None: "captured_map xs r = None \<longleftrightarrow> (\<forall>c\<in>set xs. ci_record c \<noteq> r)"
  by (auto simp: captured_map_def map_of_eq_None_iff image_iff)

lemma slice_hint_Some: "slice_hint xs r = Some c \<Longrightarrow> c \<in> set xs \<and> ci_record c = r"
  using nth_mem [where xs = xs]
  by (auto simp: slice_hint_def simp del: nth_mem split: list.split_asm option.split_asm if_split_asm)

definition slice_lookup :: "'i captured_input list \<Rightarrow> input_record \<Rightarrow> 'i captured_input option" where
  "slice_lookup xs r =
     (case slice_hint xs r of
        Some c \<Rightarrow> Some c
      | None \<Rightarrow> find (\<lambda>c. ir_step (ci_record c) = ir_step r \<and> ci_record c = r) xs)"

lemma slice_lookup_Some:
  assumes "slice_lookup xs r = Some c"
  shows "c \<in> set xs \<and> ci_record c = r"
proof (cases "slice_hint xs r")
  case None
  then show ?thesis using assms by (auto simp: slice_lookup_def find_Some_iff)
next
  case (Some d)
  then show ?thesis using assms slice_hint_Some [OF Some] by (simp add: slice_lookup_def)
qed

lemma slice_lookup_None: "slice_lookup xs r = None \<longleftrightarrow> (\<forall>c\<in>set xs. ci_record c \<noteq> r)"
proof (cases "slice_hint xs r")
  case None
  then show ?thesis by (auto simp: slice_lookup_def find_None_iff)
next
  case (Some d)
  then show ?thesis using slice_hint_Some [OF Some] by (auto simp: slice_lookup_def)
qed

section \<open>Applied inputs\<close>

text \<open>The live step that applying an input stands for: the state itself is the restored snapshot, the value the stored input.\<close>

definition applied_request ::
  "('s, 'e) live_timeline \<Rightarrow> input_record \<Rightarrow> timeline_snapshot_id \<Rightarrow> digest \<Rightarrow> 's live_step_request" where
  "applied_request lv record snapshot d =
     (let head = fst (live_read lv) in
      \<lparr> lr_expected = head,
        lr_anchor = \<lparr> sa_scope = th_scope head, sa_branch = th_branch head, sa_step = th_step head,
                      sa_snapshot = snapshot, sa_digest = d \<rparr>,
        lr_input = record, lr_scratch = snd (live_read lv), lr_limits = live_effect_limits lv \<rparr>)"

fun applied_error :: "('m, unit, unit) step_error \<Rightarrow> 'm apply_error" where
  "applied_error (StepTimeline e) = ApplyTimeline e"
| "applied_error (StepComputation e) = ApplyComputation e"
| "applied_error (StepInput _) = ApplyTimeline InputMismatch"
| "applied_error (StepSnapshot _) = ApplyTimeline InputMismatch"

lemma next_input_Inr:
  "next_input dig lv identity v = Inr record \<Longrightarrow>
     ir_scope record = th_scope (fst (live_read lv)) \<and> ir_branch record = th_branch (fst (live_read lv))
     \<and> unat (ir_step record) = unat (th_step (fst (live_read lv))) + 1 \<and> ir_identity record = identity
     \<and> ir_revision record = 0 \<and> ir_digest record = dig v"
  by (auto simp: next_input_def result_simps Let_def)

text \<open>Applying an input is a prepared live step followed by its append, errors included.\<close>

lemma apply_input_step:
  "apply_input capacity dig clone model identity v validator lv =
     bindR (map_err ApplyTimeline (next_input dig lv identity v)) (\<lambda>record.
       bindR (map_err applied_error (prepare_live_step capacity (applied_request lv record snapshot d) model
           (\<lambda>r. Inr (r, v)) (\<lambda>_ anchor scratch. Inr (anchor, clone scratch)) validator)) (\<lambda>st.
         bindR (map_err ApplyTimeline (live_append lv st)) (\<lambda>(_, lv'). Inr (record, lv'))))"
proof (cases "next_input dig lv identity v")
  case (Inr ri)
  show ?thesis
  proof (cases "tp_append (projection_of_head 0 (fst (live_read lv))) (fst (live_read lv)) ri")
    case append: (Inr hp)
    obtain head p where hp: "hp = (head, p)" by (cases hp)
    let ?ctx = "\<lparr> sc_revision = th_revision head, sc_scope = th_scope (fst (live_read lv)),
      sc_branch = th_branch (fst (live_read lv)), sc_step = ir_step ri \<rparr>"
    obtain res state sk where run: "run_computation (model (clone (snd (live_read lv))) v ?ctx)
        (fx_sink (fx_new capacity (live_effect_limits lv)) ?ctx) = (res, state, sk)" by (metis prod.exhaust)
    show ?thesis
      using Inr append hp run
      by (cases res; cases "validator state head")
        (auto simp: apply_input_def prepare_live_step_def applied_request_def Let_def)
  qed (use Inr in \<open>auto simp: apply_input_def prepare_live_step_def applied_request_def Let_def\<close>)
qed (simp add: apply_input_def)

text \<open>An applied input keeps the live invariant: no retained effect lies beyond the head.\<close>

lemma apply_input_inv:
  assumes "live_inv lv" "apply_input capacity dig clone model identity v validator lv = Inr (ri, lv')"
  shows "live_inv lv' \<and> next_input dig lv identity v = Inr ri"
proof -
  obtain st h where "prepare_live_step capacity (applied_request lv ri undefined undefined) model
        (\<lambda>r. Inr (r, v)) (\<lambda>_ anchor scratch. Inr (anchor, clone scratch)) validator = (Inr st :: (_, unit, unit) step_error + _)"
      "live_append lv st = Inr (h, lv')" "next_input dig lv identity v = Inr ri"
    using assms(2) unfolding apply_input_step [where snapshot = undefined and d = undefined]
    by (auto simp: result_simps)
  then show ?thesis using append_inv [OF assms(1)] by blast
qed

section \<open>A concrete correction\<close>

definition ex_request :: "nat correction_request" where
  "ex_request = \<lparr> cq_correction = ex_correction, cq_inputs = [ex_input 5 1 10], cq_observation = ex_observation,
     cq_scratch = 0, cq_limits = ex_limits \<rparr>"

definition ex_idle :: "(nat, nat) live_timeline" where
  "ex_idle = live_new 2 2 ex_head 90 ex_effect_limits"

definition ex_scoped :: "(nat, nat) scoped_correction" where
  "ex_scoped = \<lparr> sx_live = ex_live, sx_reservation = Some ex_reservation, sx_session = Some ex_replayed \<rparr>"

lemma ex_idle_reads: "lv_projection ex_idle = \<lparr> tp_head = ex_head, tp_last_branch = 0, tp_sessions = [None, None] \<rparr>"
  "lv_state ex_idle = 90" "lv_effects ex_idle = fx_new 2 ex_effect_limits"
  by (simp_all add: ex_idle_def live_new_def projection_of_head_def ex_head_def numeral_2_eq_2)

lemma ex_idle_begin:
  "begin_correction 2 ex_request ex_restore ex_idle = Inr (ex_scoped\<lparr>sx_session := Some ex_session\<rparr>)"
proof -
  have "live_reserve ex_idle ex_plan ex_observation = Inr (ex_reservation, ex_live)"
    using ex_reserved by (simp add: live_reserve_def live_new_def ex_idle_def ex_live_def)
  moreover have "live_effect_limits ex_live = ex_effect_limits" by (simp add: live_effect_limits_def ex_live_def fx_new_def)
  moreover have "th_revision ex_head = 7" by (simp add: ex_head_def)
  ultimately show ?thesis
    using ex_plan_prepared by (simp add: begin_correction_def live_read_def ex_idle_reads ex_request_def ex_begun ex_scoped_def)
qed

lemma ex_scoped_run: "scoped_run 2 ex_request ex_restore ex_step ex_read ex_idle ex_scoped"
proof -
  have "scoped_advance ex_step ex_read 3 (ex_scoped\<lparr>sx_session := Some ex_session\<rparr>) = (Inr ReadyToValidate, ex_scoped)"
    by (simp add: scoped_advance_def ex_scoped_def live_read_def ex_live_def [THEN arg_cong [where f = lv_projection]] ex_session_advanced)
  then show ?thesis by (rule scoped_run.advanced [OF scoped_run.started [OF ex_idle_begin]])
qed

lemma ex_scoped_publish: "scoped_publish ex_validator ex_scoped = (Inr ex_promoted, ex_live_promoted)"
proof -
  have "tp_head (lv_projection ex_live) = ex_head" by (simp add: ex_live_def)
  then show ?thesis by (simp add: scoped_publish_def ex_scoped_def live_read_def ex_validated ex_live_promote scoped_drop_def)
qed

definition ex_digest :: "nat \<Rightarrow> digest" where
  "ex_digest v = digest_fill (of_nat v)"

definition ex_captured :: "nat captured_input list" where
  "ex_captured = [\<lparr> ci_record = ex_input 5 1 10, ci_value = 10 \<rparr>, \<lparr> ci_record = ex_input 6 1 12, ci_value = 12 \<rparr>]"

section \<open>Claims\<close>

text \<open>
  C26. A scoped correction is all or nothing and always releases its reservation. Started on a timeline
  that satisfies the projection's invariant and advanced by any calls, failed ones included, it leaves the
  publication readable as before. Dropping it, or a publication that fails, gives the live timeline back
  with the same head, state, effects and reservations; only the counter of branch identities has moved
  by one. When it publishes, the session was complete, the replayed state is the one the validator
  accepted and is live under a head on the new branch with the next revision, and the reservations are
  again those of before.
\<close>
theorem scoped_correction_is_all_or_nothing:
  assumes "timeline_inv (lv_projection lv)" and "scoped_run capacity rq restore model read lv sx"
    and "scoped_publish validator sx = (res, lv')"
  shows "\<exists>branch s. unat branch = unat (tp_last_branch (lv_projection lv)) + 1
    \<and> scoped_read sx = live_read lv \<and> scoped_drop sx = spent lv branch \<and> sx_session sx = Some s
    \<and> (case res of
         Inl _ \<Rightarrow> lv' = spent lv branch
       | Inr head \<Rightarrow> live_read lv' = (head, rs_state s) \<and> rs_phase s = ReadyToValidate \<and> validator (rs_state s) head = Inr ()
           \<and> th_branch head = branch \<and> unat (th_revision head) = unat (th_revision (fst (live_read lv))) + 1
           \<and> th_step head = th_step (fst (live_read lv))
           \<and> lv_projection lv' = (lv_projection lv)\<lparr>tp_last_branch := branch, tp_head := head\<rparr>)"
proof -
  obtain pl r p s where sx: "tp_reserve (lv_projection lv) pl (cq_observation rq) = Inr (r, p)" "replay_run restore model read capacity pl r s"
    "plan_prepare (tp_head (lv_projection lv)) (th_revision (tp_head (lv_projection lv))) (cq_correction rq) (cq_inputs rq) (cq_limits rq) = Inr pl"
    "sx = \<lparr> sx_live = lv\<lparr>lv_projection := p\<rparr>, sx_reservation = Some r, sx_session = Some s \<rparr>"
    using scoped_run_frame [OF assms(2,1)] by blast
  note facts = tp_reserve_Inr [OF sx(1)]
  have drop: "scoped_drop \<lparr> sx_live = lv\<lparr>lv_projection := p\<rparr>, sx_reservation = Some r, sx_session = ss \<rparr> = spent lv (br_branch r)" for ss
    using reserve_abort [OF assms(1) sx(1)] by (simp add: scoped_drop_def live_abort_def spent_def)
  have r: "br_expected r = tp_head (lv_projection lv)" using facts(2) by (metis branch_reservation.select_convs(1))
  have res_s: "rs_reservation s = r" by (rule replay_run_reservation [OF sx(2)])
  have pub: "case res of
         Inl _ \<Rightarrow> lv' = spent lv (br_branch r)
       | Inr head \<Rightarrow> \<exists>c. session_validate (tp_head p) validator s = Inr c \<and> live_promote (lv\<lparr>lv_projection := p\<rparr>) c = Inr (head, lv')"
    using assms(3) drop unfolding sx(4)
    by (auto simp: scoped_publish_def live_read_def Let_def scoped_drop_def split: sum.splits)
  have "case res of
         Inl _ \<Rightarrow> lv' = spent lv (br_branch r)
       | Inr head \<Rightarrow> live_read lv' = (head, rs_state s) \<and> rs_phase s = ReadyToValidate \<and> validator (rs_state s) head = Inr ()
           \<and> th_branch head = br_branch r \<and> unat (th_revision head) = unat (th_revision (fst (live_read lv))) + 1
           \<and> th_step head = th_step (fst (live_read lv))
           \<and> lv_projection lv' = (lv_projection lv)\<lparr>tp_last_branch := br_branch r, tp_head := head\<rparr>"
  proof (cases res)
    case (Inr head)
    then obtain c where c: "session_validate (tp_head p) validator s = Inr c" "live_promote (lv\<lparr>lv_projection := p\<rparr>) c = Inr (head, lv')"
      using pub by auto
    have v: "rs_phase s = ReadyToValidate" "rc_reservation c = r" "rc_state c = rs_state s"
      "\<exists>h. proposed_head r = Inr h \<and> validator (rs_state s) h = Inr ()"
      using c(1) res_s by (auto simp: session_validate_def result_simps split: if_splits)
    obtain p'' where prom: "tp_promote p r = Inr (head, p'')" "lv_projection lv' = p''" "lv_state lv' = rs_state s"
      using c(2) v(2,3) by (auto simp: live_promote_def result_simps Let_def split: if_splits)
    note h = tp_promote_Inr [OF prom(1)] and p'' = tp_promote_reserved [OF assms(1) sx(1) prom(1)]
    note ph = proposed_head_Inr [OF h(3)]
    show ?thesis using Inr prom p'' v h(3) ph r by (auto simp: live_read_def)
  qed (use pub in simp)
  then show ?thesis
    using facts(3,7) drop [of "Some s"] sx(4)
    by (intro exI [of _ "br_branch r"] exI [of _ s]) (auto simp: scoped_read_def live_read_def)
qed

theorem scoped_correction_is_all_or_nothing_witness:
  "live_read ex_live_promoted = (ex_promoted, 110) \<and> (\<exists>branch. scoped_drop ex_scoped = spent ex_idle branch)"
proof -
  have "timeline_inv (lv_projection ex_idle)" using ex_start(1) by (simp add: ex_idle_def live_new_def)
  from scoped_correction_is_all_or_nothing [OF this ex_scoped_run ex_scoped_publish]
  show ?thesis by (auto simp: ex_scoped_def ex_replayed_def)
qed

text \<open>
  A slice of captured inputs is a finite map from descriptors to payloads. When every input was
  captured, so that its digest is the payload's, and no descriptor occurs twice, reading a descriptor
  gives its payload bound to that descriptor and reading any other one reports unavailable history:
  the shortcut through the slot the step suggests changes no answer.
\<close>
theorem slice_read_is_map:
  assumes "\<forall>c\<in>set xs. captured_input_new dig (ci_record c) (ci_value c) = Inr c" and "distinct (map ci_record xs)"
  shows "slice_read dig xs r =
    (case map_of (map (\<lambda>c. (ci_record c, ci_value c)) xs) r of None \<Rightarrow> Inl HistoryUnavailable | Some v \<Rightarrow> Inr (r, v))"
proof (cases "slice_lookup xs r")
  case None
  then have "captured_map xs r = None" by (simp add: captured_map_None slice_lookup_None)
  then show ?thesis using None by (simp add: slice_read_def slice_lookup_def captured_map_def)
next
  case (Some c)
  then have c: "c \<in> set xs" "ci_record c = r" using slice_lookup_Some by blast+
  then have "captured_map xs r = Some (ci_value c)" "dig (ci_value c) = ir_digest r"
    using assms by (auto simp: captured_map_Some captured_input_new_def split: if_splits)
  then show ?thesis using Some c by (simp add: slice_read_def slice_lookup_def captured_map_def captured_read_def)
qed

theorem slice_read_is_map_witness:
  "slice_read ex_digest ex_captured (ex_input 6 1 12) = Inr (ex_input 6 1 12, 12)
   \<and> slice_read ex_digest ex_captured (ex_input 6 2 12) = Inl HistoryUnavailable"
proof -
  have "\<forall>c\<in>set ex_captured. captured_input_new ex_digest (ci_record c) (ci_value c) = Inr c" "distinct (map ci_record ex_captured)"
    by (simp_all add: ex_captured_def captured_input_new_def ex_digest_def ex_input_def)
  note m = slice_read_is_map [OF this]
  show ?thesis unfolding m by (simp add: ex_captured_def ex_input_def)
qed

end
