(* ===== verification/Process_Values.thy ===== *)
theory Process_Values
  imports Saga_Engine
begin

text \<open>
  The protocol values of \<open>penelope-ports/src/implementation.rs\<close>: receipts and the requests they
  must match, quotas and diagnostics, outbox and timer leases, reconciliation evidence, manual
  review, and external effects. The traits of that file are interfaces of adapters; they enter
  the model of their callers as arguments. The \<open>validate\<close> methods of the domain records that
  accept everything are kept as functions, so that each guard reads as in the source.
\<close>

section \<open>Limits and errors\<close>

definition MAX_OUTBOX_DELIVERY_ATTEMPTS :: u32 where "MAX_OUTBOX_DELIVERY_ATTEMPTS = 64"
definition MAX_OUTBOX_CLAIM_BATCH :: u16 where "MAX_OUTBOX_CLAIM_BATCH = 128"
definition MAX_TIMER_CLAIM_BATCH :: u16 where "MAX_TIMER_CLAIM_BATCH = 128"
definition MAX_REDACTED_DIAGNOSTIC_BYTES :: u32 where "MAX_REDACTED_DIAGNOSTIC_BYTES = 4096"
definition MAX_QUOTA_CAPACITY :: u32 where "MAX_QUOTA_CAPACITY = 1000000"

datatype port_error =
    PeUnavailable | PeConflict | PeUnauthorized | PeQuotaExceeded | PeTimedOut | PeCancelled
  | PeAmbiguous | PeInvariant

text \<open>The validation of domain records.\<close>

definition input_validate :: "process_input \<Rightarrow> domain_error + unit" where
  "input_validate x = Inr ()"

definition outcome_validate :: "process_outcome \<Rightarrow> domain_error + unit" where
  "outcome_validate x = Inr ()"

definition action_validate :: "process_action \<Rightarrow> domain_error + unit" where
  "action_validate x = Inr ()"

definition review_validate :: "manual_review \<Rightarrow> domain_error + unit" where
  "review_validate x = Inr ()"

definition event_validate :: "canonical_event \<Rightarrow> domain_error + unit" where
  "event_validate e = validate_canonical_resource_scope (ce_resource_ids e)"

section \<open>Receipts\<close>

record definition_lookup =
  dl_definition_id :: definition_id
  dl_definition_version :: definition_version

record definition_registration_receipt =
  rr_definition_id :: definition_id
  rr_definition_version :: definition_version
  rr_definition_digest :: content_digest
  rr_duplicate :: bool

datatype definition_registration_receipt_error = DefinitionMismatch

definition registration_receipt_validate_for ::
  "definition_registration_receipt \<Rightarrow> process_definition \<Rightarrow> definition_registration_receipt_error + unit" where
  "registration_receipt_validate_for r d =
     (if rr_definition_id r = pd_definition_id d
         \<and> rr_definition_version r = pd_definition_version d
         \<and> rr_definition_digest r = pd_definition_digest d
      then Inr () else Inl DefinitionMismatch)"

record definition_migration_receipt =
  gr_migration_id :: migration_id
  gr_duplicate :: bool

datatype definition_migration_receipt_error = MigrationMismatch

definition migration_receipt_validate_for ::
  "definition_migration_receipt \<Rightarrow> definition_migration \<Rightarrow> definition_migration_receipt_error + unit" where
  "migration_receipt_validate_for r mig =
     (if gr_migration_id r = dm_migration_id mig then Inr () else Inl MigrationMismatch)"

record inbox_acceptance_receipt =
  xr_tenant_id :: tenant_id
  xr_process_id :: process_id
  xr_input_id :: input_id
  xr_duplicate :: bool

datatype inbox_receipt_error = IrInputMismatch | IrScopeMismatch

definition inbox_receipt_validate_for ::
  "inbox_acceptance_receipt \<Rightarrow> process_input \<Rightarrow> inbox_receipt_error + unit" where
  "inbox_receipt_validate_for r x =
     (if xr_tenant_id r \<noteq> pi_tenant_id x \<or> xr_process_id r \<noteq> pi_process_id x then Inl IrScopeMismatch
      else if xr_input_id r = pi_input_id x then Inr ()
      else Inl IrInputMismatch)"

record action_dispatch_receipt =
  ar_scope :: process_scope
  ar_action_id :: action_id
  ar_duplicate :: bool

datatype action_receipt_error = ArActionMismatch | ArScopeMismatch

definition action_receipt_validate_for ::
  "action_dispatch_receipt \<Rightarrow> process_action \<Rightarrow> action_receipt_error + unit" where
  "action_receipt_validate_for r a =
     (if ar_scope r \<noteq> action_scope a then Inl ArScopeMismatch
      else if ar_action_id r = pa_action_id a then Inr ()
      else Inl ArActionMismatch)"

record canonical_submit_receipt =
  sr_tenant_id :: tenant_id
  sr_action_id :: action_id
  sr_duplicate :: bool

datatype canonical_submit_receipt_error = SrActionMismatch | SrScopeMismatch

definition submit_receipt_validate_for ::
  "canonical_submit_receipt \<Rightarrow> canonical_command \<Rightarrow> canonical_submit_receipt_error + unit" where
  "submit_receipt_validate_for r c =
     (if sr_tenant_id r \<noteq> cc_tenant_id c then Inl SrScopeMismatch
      else if sr_action_id r = cc_action_id c then Inr ()
      else Inl SrActionMismatch)"

datatype manual_review_operation = ReviewOpen | ReviewClaim | ReviewDecide

record manual_review_receipt =
  vr_review_id :: review_id
  vr_operation :: manual_review_operation
  vr_duplicate :: bool

datatype manual_review_receipt_error = VrReviewMismatch | VrOperationMismatch

definition review_receipt_new_for_operation ::
  "review_id \<Rightarrow> manual_review_operation \<Rightarrow> bool \<Rightarrow> manual_review_receipt" where
  "review_receipt_new_for_operation i op dup = \<lparr> vr_review_id = i, vr_operation = op, vr_duplicate = dup \<rparr>"

definition review_receipt_new :: "review_id \<Rightarrow> bool \<Rightarrow> manual_review_receipt" where
  "review_receipt_new i dup = review_receipt_new_for_operation i ReviewOpen dup"

definition review_receipt_validate_for ::
  "manual_review_receipt \<Rightarrow> review_id \<Rightarrow> manual_review_receipt_error + unit" where
  "review_receipt_validate_for r i = (if vr_review_id r = i then Inr () else Inl VrReviewMismatch)"

definition review_receipt_validate_for_operation ::
  "manual_review_receipt \<Rightarrow> review_id \<Rightarrow> manual_review_operation \<Rightarrow> manual_review_receipt_error + unit" where
  "review_receipt_validate_for_operation r i op =
     bindR (review_receipt_validate_for r i) (\<lambda>_.
       if vr_operation r = op then Inr () else Inl VrOperationMismatch)"

section \<open>Diagnostics and quotas\<close>

datatype diagnostic_class =
    DcValidation | DcAuthorization | DcConflict | DcAvailability | DcTimeout | DcAmbiguous | DcInvariant

fun from_port_error :: "port_error \<Rightarrow> diagnostic_class" where
  "from_port_error PeUnavailable = DcAvailability"
| "from_port_error PeCancelled = DcAvailability"
| "from_port_error PeConflict = DcConflict"
| "from_port_error PeUnauthorized = DcAuthorization"
| "from_port_error PeQuotaExceeded = DcInvariant"
| "from_port_error PeInvariant = DcInvariant"
| "from_port_error PeTimedOut = DcTimeout"
| "from_port_error PeAmbiguous = DcAmbiguous"

datatype quota_kind = OpenProcesses | OutstandingActions | DeliveryAttempts | OutcomeWrites

record quota_request =
  qr_kind :: quota_kind
  qr_requested :: "32 nonzero"
  qr_capacity :: "32 nonzero"

datatype quota_error = CapacityLimitExceeded | RequestExceedsCapacity

definition quota_validate :: "quota_request \<Rightarrow> quota_error + unit" where
  "quota_validate q =
     (if MAX_QUOTA_CAPACITY < nz_get (qr_capacity q) then Inl CapacityLimitExceeded
      else if nz_get (qr_capacity q) < nz_get (qr_requested q) then Inl RequestExceedsCapacity
      else Inr ())"

definition quota_new :: "quota_kind \<Rightarrow> 32 nonzero \<Rightarrow> 32 nonzero \<Rightarrow> quota_error + quota_request" where
  "quota_new kind requested capacity =
     (let q = \<lparr> qr_kind = kind, qr_requested = requested, qr_capacity = capacity \<rparr>
      in case quota_validate q of Inr _ \<Rightarrow> Inr q | Inl e \<Rightarrow> Inl e)"

record redacted_diagnostic =
  rd_scope :: process_scope
  rd_class :: diagnostic_class
  rd_evidence_digest :: content_digest
  rd_metadata_bytes :: u32

datatype diagnostic_error = MetadataLimitExceeded

definition diagnostic_new ::
  "process_scope \<Rightarrow> diagnostic_class \<Rightarrow> content_digest \<Rightarrow> u32 \<Rightarrow> diagnostic_error + redacted_diagnostic" where
  "diagnostic_new scope cls evidence bytes =
     (if MAX_REDACTED_DIAGNOSTIC_BYTES < bytes then Inl MetadataLimitExceeded
      else Inr \<lparr> rd_scope = scope, rd_class = cls, rd_evidence_digest = evidence, rd_metadata_bytes = bytes \<rparr>)"

section \<open>Outbox\<close>

datatype outbox_lease_token = OutboxLeaseToken (token_value: "64 nonzero")

datatype outbox_acknowledgement = AckPending | Acknowledged

record outbox_record =
  ob_action :: process_action
  ob_delivery_attempt :: u32
  ob_acknowledgement :: outbox_acknowledgement

definition outbox_record_new :: "process_action \<Rightarrow> outbox_record" where
  "outbox_record_new a = \<lparr> ob_action = a, ob_delivery_attempt = 0, ob_acknowledgement = AckPending \<rparr>"

definition outbox_record_validate :: "outbox_record \<Rightarrow> port_error + unit" where
  "outbox_record_validate r =
     (if isl (action_validate (ob_action r)) \<or> MAX_OUTBOX_DELIVERY_ATTEMPTS \<le> ob_delivery_attempt r
      then Inl PeInvariant else Inr ())"

definition outbox_record_acknowledge :: "outbox_record \<Rightarrow> port_error + outbox_record" where
  "outbox_record_acknowledge r =
     bindR (outbox_record_validate r) (\<lambda>_. Inr (r\<lparr>ob_acknowledgement := Acknowledged\<rparr>))"

definition next_delivery_attempt :: "outbox_record \<Rightarrow> port_error + outbox_record" where
  "next_delivery_attempt r =
     bindR (outbox_record_validate r) (\<lambda>_.
       if ob_acknowledgement r \<noteq> AckPending
          \<or> MAX_OUTBOX_DELIVERY_ATTEMPTS \<le> saturating_add (ob_delivery_attempt r) 1
       then Inl PeInvariant
       else Inr (r\<lparr>ob_delivery_attempt := saturating_add (ob_delivery_attempt r) 1\<rparr>))"

record outbox_claim_request =
  oc_scope :: process_scope
  oc_owner :: principal_id
  oc_limit :: "16 nonzero"

definition outbox_claim_validate :: "outbox_claim_request \<Rightarrow> port_error + unit" where
  "outbox_claim_validate q =
     (if MAX_OUTBOX_CLAIM_BATCH < nz_get (oc_limit q) then Inl PeQuotaExceeded else Inr ())"

definition outbox_claim_new ::
  "process_scope \<Rightarrow> principal_id \<Rightarrow> 16 nonzero \<Rightarrow> port_error + outbox_claim_request" where
  "outbox_claim_new scope owner limit =
     (let q = \<lparr> oc_scope = scope, oc_owner = owner, oc_limit = limit \<rparr>
      in bindR (outbox_claim_validate q) (\<lambda>_. Inr q))"

record outbox_lease =
  ol_record :: outbox_record
  ol_owner :: principal_id
  ol_token :: outbox_lease_token
  ol_lease_expires_at :: logical_time

definition outbox_lease_validate :: "outbox_lease \<Rightarrow> port_error + unit" where
  "outbox_lease_validate l = outbox_record_validate (ol_record l)"

definition outbox_lease_validate_for_claim :: "outbox_lease \<Rightarrow> outbox_claim_request \<Rightarrow> port_error + unit" where
  "outbox_lease_validate_for_claim l q =
     bindR (outbox_claim_validate q) (\<lambda>_.
     bindR (outbox_lease_validate l) (\<lambda>_.
       let a = ob_action (ol_record l) in
       if pa_tenant_id a \<noteq> ps_tenant_id (oc_scope q)
          \<or> pa_process_id a \<noteq> ps_process_id (oc_scope q)
          \<or> pa_definition_id a \<noteq> ps_definition_id (oc_scope q)
          \<or> pa_definition_version a \<noteq> ps_definition_version (oc_scope q)
          \<or> pa_definition_digest a \<noteq> ps_definition_digest (oc_scope q)
       then Inl PeInvariant
       else if ol_owner l \<noteq> oc_owner q then Inl PeInvariant
       else Inr ()))"

definition outbox_lease_is_expired_at :: "outbox_lease \<Rightarrow> logical_time \<Rightarrow> bool" where
  "outbox_lease_is_expired_at l now \<longleftrightarrow> ol_lease_expires_at l < now"

definition outbox_lease_validate_at :: "outbox_lease \<Rightarrow> logical_time \<Rightarrow> port_error + unit" where
  "outbox_lease_validate_at l now =
     bindR (outbox_lease_validate l) (\<lambda>_.
       if outbox_lease_is_expired_at l now then Inl PeTimedOut else Inr ())"

definition outbox_lease_validate_for_claim_at ::
  "outbox_lease \<Rightarrow> outbox_claim_request \<Rightarrow> logical_time \<Rightarrow> port_error + unit" where
  "outbox_lease_validate_for_claim_at l q now =
     bindR (outbox_lease_validate_for_claim l q) (\<lambda>_. outbox_lease_validate_at l now)"

definition outbox_lease_acknowledge_at :: "outbox_lease \<Rightarrow> logical_time \<Rightarrow> port_error + outbox_record" where
  "outbox_lease_acknowledge_at l now =
     bindR (outbox_lease_validate_at l now) (\<lambda>_. outbox_record_acknowledge (ol_record l))"

definition outbox_lease_renew_at ::
  "outbox_lease \<Rightarrow> logical_time \<Rightarrow> logical_time \<Rightarrow> port_error + outbox_lease" where
  "outbox_lease_renew_at l now new_expiry =
     bindR (outbox_lease_validate_at l now) (\<lambda>_.
       if ob_acknowledgement (ol_record l) \<noteq> AckPending \<or> new_expiry \<le> ol_lease_expires_at l
       then Inl PeInvariant
       else Inr (l\<lparr>ol_lease_expires_at := new_expiry\<rparr>))"

section \<open>Timers\<close>

datatype timer_error = TvInvalidAction | TvInvalidActionKind

definition timer_validate :: "timer_schedule \<Rightarrow> timer_error + unit" where
  "timer_validate t =
     (if isl (action_validate (ts_action t)) then Inl TvInvalidAction
      else if pa_kind (ts_action t) \<noteq> TimerKind then Inl TvInvalidActionKind
      else Inr ())"

record timer_claim_request =
  tc_scope :: process_scope
  tc_owner :: principal_id
  tc_now :: logical_time
  tc_limit :: "16 nonzero"

definition timer_claim_validate :: "timer_claim_request \<Rightarrow> port_error + unit" where
  "timer_claim_validate q =
     (if MAX_TIMER_CLAIM_BATCH < nz_get (tc_limit q) then Inl PeQuotaExceeded else Inr ())"

definition timer_claim_new ::
  "process_scope \<Rightarrow> principal_id \<Rightarrow> logical_time \<Rightarrow> 16 nonzero \<Rightarrow> port_error + timer_claim_request" where
  "timer_claim_new scope owner now limit =
     (let q = \<lparr> tc_scope = scope, tc_owner = owner, tc_now = now, tc_limit = limit \<rparr>
      in bindR (timer_claim_validate q) (\<lambda>_. Inr q))"

record timer_lease =
  tl_timer :: timer_schedule
  tl_owner :: principal_id
  tl_token :: outbox_lease_token
  tl_lease_expires_at :: logical_time

definition timer_lease_validate_for_claim :: "timer_lease \<Rightarrow> timer_claim_request \<Rightarrow> port_error + unit" where
  "timer_lease_validate_for_claim l q =
     bindR (timer_claim_validate q) (\<lambda>_.
     bindR (map_err (\<lambda>_. PeInvariant) (timer_validate (tl_timer l))) (\<lambda>_.
       let a = ts_action (tl_timer l) in
       if pa_tenant_id a \<noteq> ps_tenant_id (tc_scope q)
          \<or> pa_process_id a \<noteq> ps_process_id (tc_scope q)
          \<or> pa_definition_id a \<noteq> ps_definition_id (tc_scope q)
          \<or> pa_definition_version a \<noteq> ps_definition_version (tc_scope q)
          \<or> pa_definition_digest a \<noteq> ps_definition_digest (tc_scope q)
          \<or> tl_owner l \<noteq> tc_owner q
          \<or> tc_now q < ts_due_at (tl_timer l)
       then Inl PeInvariant
       else if tl_lease_expires_at l < tc_now q then Inl PeTimedOut
       else Inr ()))"

definition timer_lease_validate_at :: "timer_lease \<Rightarrow> logical_time \<Rightarrow> port_error + unit" where
  "timer_lease_validate_at l now =
     bindR (map_err (\<lambda>_. PeInvariant) (timer_validate (tl_timer l))) (\<lambda>_.
       if tl_lease_expires_at l < now then Inl PeTimedOut else Inr ())"

definition timer_lease_acknowledge_at :: "timer_lease \<Rightarrow> logical_time \<Rightarrow> port_error + timer_schedule" where
  "timer_lease_acknowledge_at l now = bindR (timer_lease_validate_at l now) (\<lambda>_. Inr (tl_timer l))"

section \<open>Reconciliation of canonical effects\<close>

datatype reconciliation_error =
    RvActionMismatch | RvScopeMismatch | InvalidCommittedEvidence | TenantMismatch

datatype canonical_reconciliation =
    CrCommitted process_scope canonical_event
  | CrNotCommitted process_scope action_id
  | CrUnknown process_scope action_id

fun reconciliation_validate_for ::
  "canonical_reconciliation \<Rightarrow> action_id \<Rightarrow> reconciliation_error + unit" where
  "reconciliation_validate_for r requested =
     (let observed = (case r of
        CrCommitted _ e \<Rightarrow> ce_action_id e | CrNotCommitted _ a \<Rightarrow> a | CrUnknown _ a \<Rightarrow> a)
      in if observed = requested then Inr () else Inl RvActionMismatch)"

definition reconciliation_validate_for_action ::
  "canonical_reconciliation \<Rightarrow> process_action \<Rightarrow> reconciliation_error + unit" where
  "reconciliation_validate_for_action r a =
     (let scope = (case r of CrCommitted s _ \<Rightarrow> s | CrNotCommitted s _ \<Rightarrow> s | CrUnknown s _ \<Rightarrow> s) in
      if scope \<noteq> action_scope a then Inl RvScopeMismatch
      else bindR (reconciliation_validate_for r (pa_action_id a)) (\<lambda>_.
        case r of
          CrCommitted _ e \<Rightarrow>
            if isl (event_validate e) then Inl InvalidCommittedEvidence
            else if ce_tenant_id e \<noteq> pa_tenant_id a then Inl TenantMismatch
            else Inr ()
        | _ \<Rightarrow> Inr ()))"

datatype consistency_window_error = InvalidWindow | WindowNotElapsed | NotRetrySafe

record canonical_reconciliation_window =
  rw_result :: canonical_reconciliation
  rw_checked_at :: logical_time
  rw_consistency_until :: logical_time

datatype recovery_disposition =
    RdCommitted canonical_event
  | RdWait logical_time
  | RdRetry action_id
  | RdEscalate action_id

definition window_new ::
  "canonical_reconciliation \<Rightarrow> logical_time \<Rightarrow> logical_time \<Rightarrow>
     consistency_window_error + canonical_reconciliation_window" where
  "window_new result checked_at until =
     (if until < checked_at then Inl InvalidWindow
      else Inr \<lparr> rw_result = result, rw_checked_at = checked_at, rw_consistency_until = until \<rparr>)"

definition require_retry_safe_at ::
  "canonical_reconciliation_window \<Rightarrow> logical_time \<Rightarrow> consistency_window_error + action_id" where
  "require_retry_safe_at w now =
     (if now < rw_consistency_until w then Inl WindowNotElapsed
      else case rw_result w of
        CrNotCommitted _ a \<Rightarrow> Inr a
      | CrCommitted _ _ \<Rightarrow> Inl NotRetrySafe
      | CrUnknown _ _ \<Rightarrow> Inl NotRetrySafe)"

definition window_validate_for_action ::
  "canonical_reconciliation_window \<Rightarrow> process_action \<Rightarrow> reconciliation_error + unit" where
  "window_validate_for_action w a = reconciliation_validate_for_action (rw_result w) a"

definition window_disposition_at ::
  "canonical_reconciliation_window \<Rightarrow> process_action \<Rightarrow> logical_time \<Rightarrow>
     reconciliation_error + recovery_disposition" where
  "window_disposition_at w a now =
     bindR (window_validate_for_action w a) (\<lambda>_.
       Inr (case rw_result w of
              CrCommitted _ e \<Rightarrow> RdCommitted e
            | CrNotCommitted _ i \<Rightarrow>
                if now < rw_consistency_until w then RdWait (rw_consistency_until w) else RdRetry i
            | CrUnknown _ i \<Rightarrow> RdEscalate i))"

section \<open>Authorization\<close>

datatype process_authorization_operation =
    AuStart | AuCancel | AuRetry | AuDecideReview | AuTerminalOverride | AuDispatch | AuDriveTask
  | AuReconcileEffect | AuDeliverTimer | AuRelayTaskResult

datatype authorization_requirement = AuthenticatedPrincipal | DistinctPrincipals

definition minimum_requirement :: "process_authorization_operation \<Rightarrow> authorization_requirement" where
  "minimum_requirement op =
     (case op of
        AuDecideReview \<Rightarrow> DistinctPrincipals
      | AuTerminalOverride \<Rightarrow> DistinctPrincipals
      | _ \<Rightarrow> AuthenticatedPrincipal)"

record process_authorization_request =
  aq_scope :: process_scope
  aq_principal_id :: principal_id
  aq_operation :: process_authorization_operation

datatype process_authorization_decision = Authorized | Denied

definition is_authorized :: "process_authorization_decision \<Rightarrow> bool" where
  "is_authorized d = (case d of Authorized \<Rightarrow> True | Denied \<Rightarrow> False)"

definition require_authorized :: "process_authorization_decision \<Rightarrow> port_error + unit" where
  "require_authorized d = (case d of Authorized \<Rightarrow> Inr () | Denied \<Rightarrow> Inl PeUnauthorized)"

section \<open>External effects\<close>

datatype external_effect_state = EsSucceeded | EsKnownFailure | EsUnknown

datatype effect_reconciliation_error =
    EvInvalidAction | EvActionMismatch | EvEffectKeyMismatch | EvDeadlineExceeded

record effect_dispatch_request =
  er_action :: process_action
  er_effect_key :: effect_key
  er_deadline :: "logical_time option"

record external_effect_evidence =
  ee_action_id :: action_id
  ee_effect_key :: effect_key
  ee_external_reference_id :: "external_reference_id option"
  ee_state :: external_effect_state

datatype external_effect_disposition = EdCompleted | EdRetry | EdEscalate

definition effect_request_new :: "process_action \<Rightarrow> effect_dispatch_request" where
  "effect_request_new a = \<lparr> er_action = a, er_effect_key = effect_key_of a, er_deadline = None \<rparr>"

definition effect_request_with_deadline :: "effect_dispatch_request \<Rightarrow> logical_time \<Rightarrow> effect_dispatch_request" where
  "effect_request_with_deadline q deadline = q\<lparr>er_deadline := Some deadline\<rparr>"

definition effect_request_validate :: "effect_dispatch_request \<Rightarrow> effect_reconciliation_error + unit" where
  "effect_request_validate q =
     (if isl (action_validate (er_action q)) then Inl EvInvalidAction
      else if er_effect_key q \<noteq> effect_key_of (er_action q) then Inl EvEffectKeyMismatch
      else Inr ())"

definition effect_request_is_expired_at :: "effect_dispatch_request \<Rightarrow> logical_time \<Rightarrow> bool" where
  "effect_request_is_expired_at q now = (case er_deadline q of Some deadline \<Rightarrow> deadline < now | None \<Rightarrow> False)"

definition effect_request_validate_at ::
  "effect_dispatch_request \<Rightarrow> logical_time \<Rightarrow> effect_reconciliation_error + unit" where
  "effect_request_validate_at q now =
     bindR (effect_request_validate q) (\<lambda>_.
       if effect_request_is_expired_at q now then Inl EvDeadlineExceeded else Inr ())"

definition evidence_validate_for ::
  "external_effect_evidence \<Rightarrow> effect_dispatch_request \<Rightarrow> effect_reconciliation_error + unit" where
  "evidence_validate_for e q =
     bindR (effect_request_validate q) (\<lambda>_.
       if ee_action_id e \<noteq> pa_action_id (er_action q) then Inl EvActionMismatch
       else if ee_effect_key e \<noteq> er_effect_key q then Inl EvEffectKeyMismatch
       else Inr ())"

definition evidence_disposition_at ::
  "external_effect_evidence \<Rightarrow> effect_dispatch_request \<Rightarrow> logical_time \<Rightarrow>
     effect_reconciliation_error + external_effect_disposition" where
  "evidence_disposition_at e q now =
     bindR (effect_request_validate q) (\<lambda>_.
     bindR (evidence_validate_for e q) (\<lambda>_.
       Inr (case ee_state e of
              EsSucceeded \<Rightarrow> EdCompleted
            | EsKnownFailure \<Rightarrow> if effect_request_is_expired_at q now then EdEscalate else EdRetry
            | EsUnknown \<Rightarrow> EdEscalate)))"

section \<open>Manual review\<close>

datatype manual_review_control = SingleOperator | DistinctDecider

datatype manual_review_error =
    MvInvalidReview | MvScopeMismatch | MvReviewIdMismatch | MvDualControlViolation | MvExpired

text \<open>\<open>expires_at.is_some_and(|expires_at| at > expires_at)\<close>\<close>

definition after_expiry :: "logical_time option \<Rightarrow> logical_time \<Rightarrow> bool" where
  "after_expiry expires at = (case expires of None \<Rightarrow> False | Some e \<Rightarrow> e < at)"

record manual_review_audit_entry =
  ae_scope :: process_scope
  ae_review_id :: review_id
  ae_operation :: manual_review_operation
  ae_principal_id :: principal_id
  ae_occurred_at :: logical_time
  ae_evidence_digest :: content_digest

datatype manual_review_audit_error = AvReviewMismatch | AvExpired

definition audit_entry_validate_for ::
  "manual_review_audit_entry \<Rightarrow> manual_review \<Rightarrow> manual_review_audit_error + unit" where
  "audit_entry_validate_for e review =
     (if ae_scope e \<noteq> review_scope review \<or> ae_review_id e \<noteq> mr_review_id review then Inl AvReviewMismatch
      else if after_expiry (mr_expires_at review) (ae_occurred_at e) then Inl AvExpired
      else Inr ())"

record manual_review_claim =
  mc_scope :: process_scope
  mc_review_id :: review_id
  mc_claimed_by :: principal_id
  mc_claimed_at :: logical_time

record manual_review_decision =
  md_scope :: process_scope
  md_review_id :: review_id
  md_claimed_by :: principal_id
  md_decided_by :: principal_id
  md_decided_at :: logical_time
  md_resolution :: manual_review_resolution
  md_control :: manual_review_control
  md_evidence_digest :: content_digest

definition review_claim_validate_for :: "manual_review_claim \<Rightarrow> manual_review \<Rightarrow> manual_review_error + unit" where
  "review_claim_validate_for c review =
     (if isl (review_validate review) then Inl MvInvalidReview
      else if mc_review_id c \<noteq> mr_review_id review then Inl MvReviewIdMismatch
      else if mc_scope c \<noteq> review_scope review then Inl MvScopeMismatch
      else if after_expiry (mr_expires_at review) (mc_claimed_at c) then Inl MvExpired
      else Inr ())"

definition review_decision_validate_for ::
  "manual_review_decision \<Rightarrow> manual_review \<Rightarrow> manual_review_error + unit" where
  "review_decision_validate_for d review =
     (if isl (review_validate review) then Inl MvInvalidReview
      else if md_review_id d \<noteq> mr_review_id review then Inl MvReviewIdMismatch
      else if md_scope d \<noteq> review_scope review then Inl MvScopeMismatch
      else if after_expiry (mr_expires_at review) (md_decided_at d) then Inl MvExpired
      else if md_control d = DistinctDecider \<and> md_claimed_by d = md_decided_by d
      then Inl MvDualControlViolation
      else Inr ())"

end
