(* ===== verification/Process_Commits.thy ===== *)
theory Process_Commits
  imports Process_Values
begin

text \<open>
  Atomic commits, replay pages and the in-memory outcome log of
  \<open>penelope-ports/src/implementation.rs\<close>. A \<open>HashSet\<close> of identities is a set; \<open>append\<close> mutates
  the log in place and so returns the log beside its result.
\<close>

section \<open>Atomic commits\<close>

definition MAX_OUTCOMES_PER_ATOMIC_COMMIT :: nat where "MAX_OUTCOMES_PER_ATOMIC_COMMIT = 128"
definition MAX_ACTIONS_PER_ATOMIC_COMMIT :: nat where "MAX_ACTIONS_PER_ATOMIC_COMMIT = 128"
definition MAX_OUTCOMES_PER_READ_PAGE :: u16 where "MAX_OUTCOMES_PER_READ_PAGE = 512"
definition MAX_OUTCOMES_PER_REPLAY_LOG :: nat where "MAX_OUTCOMES_PER_REPLAY_LOG = 4096"

datatype commit_error =
    CvEmptyOutcomes | CvInvalidInput | CvNonContiguousSequence | CvOutcomeLimitExceeded
  | CvDuplicateOutcomeId | CvInvalidOutcome | CvInvalidAction | CvOutcomeScopeMismatch
  | CvActionScopeMismatch | CvActionLimitExceeded | CvDuplicateActionId | CvDuplicateActionEffectKey
  | CvInputScopeMismatch | CvCanonicalSourceWithoutInput | CvCanonicalSourceWithWrongInputKind
  | CvInputNotCausallyRecorded | CvSequenceOverflow

record atomic_process_commit =
  cm_expected_sequence :: u64
  cm_input :: "process_input option"
  cm_canonical_source_event_id :: "canonical_event_id option"
  cm_outcomes :: "process_outcome list"
  cm_actions :: "process_action list"

definition same_effect_key :: "process_action \<Rightarrow> process_action \<Rightarrow> bool" where
  "same_effect_key a b \<longleftrightarrow>
     pa_step_id a = pa_step_id b \<and> pa_attempt a = pa_attempt b \<and> pa_kind a = pa_kind b
     \<and> pa_payload_digest a = pa_payload_digest b \<and> pa_tenant_id a = pa_tenant_id b
     \<and> pa_process_id a = pa_process_id b \<and> pa_definition_id a = pa_definition_id b
     \<and> pa_definition_version a = pa_definition_version b
     \<and> pa_definition_digest a = pa_definition_digest b"

text \<open>The loop over the outcomes; the remaining list is what \<open>skip(index + 1)\<close> leaves.\<close>

fun check_outcomes :: "process_scope \<Rightarrow> u64 \<Rightarrow> process_outcome list \<Rightarrow> commit_error + unit" where
  "check_outcomes scope expected [] = Inr ()"
| "check_outcomes scope expected (x # xs) =
     (if isl (outcome_validate x) then Inl CvInvalidOutcome
      else if isl (validate_for_scope x scope) then Inl CvOutcomeScopeMismatch
      else if po_sequence x \<noteq> expected then Inl CvNonContiguousSequence
      else if list_ex (\<lambda>y. po_outcome_id y = po_outcome_id x) xs then Inl CvDuplicateOutcomeId
      else bindR (ok_or CvSequenceOverflow (checked_add expected 1)) (\<lambda>next_sequence.
        check_outcomes scope next_sequence xs))"

fun check_actions :: "process_outcome \<Rightarrow> process_action list \<Rightarrow> commit_error + unit" where
  "check_actions first [] = Inr ()"
| "check_actions first (a # as) =
     (if isl (action_validate a) then Inl CvInvalidAction
      else if pa_tenant_id a \<noteq> po_tenant_id first
         \<or> pa_process_id a \<noteq> po_process_id first
         \<or> pa_definition_id a \<noteq> po_definition_id first
         \<or> pa_definition_version a \<noteq> po_definition_version first
         \<or> pa_definition_digest a \<noteq> po_definition_digest first then Inl CvActionScopeMismatch
      else if list_ex (\<lambda>b. pa_action_id b = pa_action_id a) as then Inl CvDuplicateActionId
      else if list_ex (\<lambda>b. same_effect_key a b) as then Inl CvDuplicateActionEffectKey
      else check_actions first as)"

definition commit_check_input :: "process_outcome \<Rightarrow> process_input option \<Rightarrow> commit_error + unit" where
  "commit_check_input first x =
     (case x of
        None \<Rightarrow> Inr ()
      | Some x \<Rightarrow>
          if isl (input_validate x) then Inl CvInvalidInput
          else if pi_tenant_id x \<noteq> po_tenant_id first \<or> pi_process_id x \<noteq> po_process_id first
          then Inl CvInputScopeMismatch
          else Inr ())"

definition commit_validate :: "atomic_process_commit \<Rightarrow> commit_error + unit" where
  "commit_validate c =
     (case cm_outcomes c of
        [] \<Rightarrow> Inl CvEmptyOutcomes
      | first # _ \<Rightarrow>
          if MAX_OUTCOMES_PER_ATOMIC_COMMIT < length (cm_outcomes c) then Inl CvOutcomeLimitExceeded
          else bindR (check_outcomes (outcome_scope first) (cm_expected_sequence c) (cm_outcomes c)) (\<lambda>_.
            if MAX_ACTIONS_PER_ATOMIC_COMMIT < length (cm_actions c) then Inl CvActionLimitExceeded
            else bindR (check_actions first (cm_actions c)) (\<lambda>_.
                 bindR (commit_check_input first (cm_input c)) (\<lambda>_.
                 bindR (case cm_canonical_source_event_id c of
                          None \<Rightarrow> Inr ()
                        | Some _ \<Rightarrow>
                            (case cm_input c of
                               None \<Rightarrow> Inl CvCanonicalSourceWithoutInput
                             | Some x \<Rightarrow>
                                 if pi_kind x \<noteq> IkCanonicalEvent then Inl CvCanonicalSourceWithWrongInputKind
                                 else Inr ())) (\<lambda>_.
                   case cm_input c of
                     Some x \<Rightarrow>
                       if \<not> list_ex (\<lambda>y. po_causation_id y = CausedByInput (pi_input_id x)) (cm_outcomes c)
                       then Inl CvInputNotCausallyRecorded else Inr ()
                   | None \<Rightarrow> Inr ())))))"

definition commit_new ::
  "u64 \<Rightarrow> process_input option \<Rightarrow> process_outcome list \<Rightarrow> process_action list \<Rightarrow>
     commit_error + atomic_process_commit" where
  "commit_new expected x outcomes actions =
     (let c = \<lparr> cm_expected_sequence = expected, cm_input = x, cm_canonical_source_event_id = None,
                cm_outcomes = outcomes, cm_actions = actions \<rparr>
      in bindR (commit_validate c) (\<lambda>_. Inr c))"

definition with_canonical_source_event ::
  "atomic_process_commit \<Rightarrow> canonical_event_id \<Rightarrow> atomic_process_commit" where
  "with_canonical_source_event c e = c\<lparr>cm_canonical_source_event_id := Some e\<rparr>"

record atomic_process_commit_receipt =
  cr_committed_through_sequence :: u64
  cr_duplicate_input :: bool

datatype commit_receipt_error = CrInvalidCommit | CrSequenceMismatch | CrDuplicateInputWithoutInput

definition commit_receipt_validate_for ::
  "atomic_process_commit_receipt \<Rightarrow> atomic_process_commit \<Rightarrow> commit_receipt_error + unit" where
  "commit_receipt_validate_for r c =
     (if isl (commit_validate c) then Inl CrInvalidCommit
      else let expected_last = checked_add (cm_expected_sequence c) (of_nat (length (cm_outcomes c) - 1)) in
        if expected_last \<noteq> Some (cr_committed_through_sequence r) then Inl CrSequenceMismatch
        else if cr_duplicate_input r \<and> cm_input c = None then Inl CrDuplicateInputWithoutInput
        else Inr ())"

section \<open>Replay pages\<close>

datatype outcome_page_error =
    PvLimitExceeded | PvInvalidOutcome | PvOutcomeScopeMismatch | PvNonContiguousSequence
  | PvInvalidContinuation | PvSequenceOverflow

record outcome_replay_request =
  oq_scope :: process_scope
  oq_from_sequence :: u64
  oq_limit :: "16 nonzero"

definition replay_request_validate :: "outcome_replay_request \<Rightarrow> outcome_page_error + unit" where
  "replay_request_validate q =
     (if MAX_OUTCOMES_PER_READ_PAGE < nz_get (oq_limit q) then Inl PvLimitExceeded else Inr ())"

definition replay_request_new ::
  "process_scope \<Rightarrow> u64 \<Rightarrow> 16 nonzero \<Rightarrow> outcome_page_error + outcome_replay_request" where
  "replay_request_new scope from limit =
     (let q = \<lparr> oq_scope = scope, oq_from_sequence = from, oq_limit = limit \<rparr>
      in bindR (replay_request_validate q) (\<lambda>_. Inr q))"

record outcome_replay_page =
  pg_scope :: process_scope
  pg_from_sequence :: u64
  pg_outcomes :: "process_outcome list"
  pg_next_sequence :: "u64 option"

fun check_page_outcomes ::
  "process_scope \<Rightarrow> u64 \<Rightarrow> process_outcome list \<Rightarrow> outcome_page_error + u64" where
  "check_page_outcomes scope expected [] = Inr expected"
| "check_page_outcomes scope expected (x # xs) =
     (if isl (outcome_validate x) then Inl PvInvalidOutcome
      else if po_tenant_id x \<noteq> ps_tenant_id scope
         \<or> po_process_id x \<noteq> ps_process_id scope
         \<or> po_definition_id x \<noteq> ps_definition_id scope
         \<or> po_definition_version x \<noteq> ps_definition_version scope
         \<or> po_definition_digest x \<noteq> ps_definition_digest scope then Inl PvOutcomeScopeMismatch
      else if po_sequence x \<noteq> expected then Inl PvNonContiguousSequence
      else bindR (ok_or PvSequenceOverflow (checked_add expected 1)) (\<lambda>next_sequence.
        check_page_outcomes scope next_sequence xs))"

definition page_validate :: "outcome_replay_page \<Rightarrow> outcome_page_error + unit" where
  "page_validate pg =
     (if unat MAX_OUTCOMES_PER_READ_PAGE < length (pg_outcomes pg) then Inl PvLimitExceeded
      else bindR (check_page_outcomes (pg_scope pg) (pg_from_sequence pg) (pg_outcomes pg)) (\<lambda>expected.
        if pg_outcomes pg = [] \<and> pg_next_sequence pg \<noteq> None then Inl PvInvalidContinuation
        else if (case pg_next_sequence pg of None \<Rightarrow> False | Some n \<Rightarrow> n \<noteq> expected)
        then Inl PvInvalidContinuation
        else Inr ()))"

definition page_new ::
  "process_scope \<Rightarrow> u64 \<Rightarrow> process_outcome list \<Rightarrow> u64 option \<Rightarrow> outcome_page_error + outcome_replay_page" where
  "page_new scope from outcomes next_sequence =
     (let pg = \<lparr> pg_scope = scope, pg_from_sequence = from, pg_outcomes = outcomes, pg_next_sequence = next_sequence \<rparr>
      in bindR (page_validate pg) (\<lambda>_. Inr pg))"

section \<open>The outcome log\<close>

datatype outcome_log_error =
    LvScopeMismatch | LvNonContiguousSequence | LvDuplicateOutcomeId | LvLimitExceeded
  | LvInvalidOutcome | LvSequenceOverflow

record outcome_log =
  lg_scope :: process_scope
  lg_outcomes :: "process_outcome list"
  lg_seen_outcome_ids :: "outcome_id set"

definition log_new :: "process_scope \<Rightarrow> outcome_log" where
  "log_new scope = \<lparr> lg_scope = scope, lg_outcomes = [], lg_seen_outcome_ids = {} \<rparr>"

definition log_append_one ::
  "outcome_log \<Rightarrow> process_outcome \<Rightarrow> u64 \<Rightarrow> (outcome_log_error + unit) \<times> outcome_log" where
  "log_append_one lg x expected =
     (if isl (outcome_validate x) then (Inl LvInvalidOutcome, lg)
      else if isl (validate_for_scope x (lg_scope lg)) then (Inl LvScopeMismatch, lg)
      else if po_sequence x \<noteq> expected then (Inl LvNonContiguousSequence, lg)
      else if po_outcome_id x \<in> lg_seen_outcome_ids lg then (Inl LvDuplicateOutcomeId, lg)
      else (Inr (), lg\<lparr>lg_outcomes := lg_outcomes lg @ [x],
        lg_seen_outcome_ids := insert (po_outcome_id x) (lg_seen_outcome_ids lg)\<rparr>))"

text \<open>The bulk loop: the identities of the batch, collected while they are checked.\<close>

fun check_batch ::
  "outcome_log \<Rightarrow> u64 \<Rightarrow> outcome_id set \<Rightarrow> process_outcome list \<Rightarrow> outcome_log_error + outcome_id set" where
  "check_batch lg expected new_ids [] = Inr new_ids"
| "check_batch lg expected new_ids (x # xs) =
     (if isl (outcome_validate x) then Inl LvInvalidOutcome
      else if po_tenant_id x \<noteq> ps_tenant_id (lg_scope lg)
         \<or> po_process_id x \<noteq> ps_process_id (lg_scope lg)
         \<or> po_definition_id x \<noteq> ps_definition_id (lg_scope lg)
         \<or> po_definition_version x \<noteq> ps_definition_version (lg_scope lg)
         \<or> po_definition_digest x \<noteq> ps_definition_digest (lg_scope lg) then Inl LvScopeMismatch
      else if po_sequence x \<noteq> expected then Inl LvNonContiguousSequence
      else if po_outcome_id x \<in> lg_seen_outcome_ids lg \<or> po_outcome_id x \<in> new_ids then Inl LvDuplicateOutcomeId
      else bindR (ok_or LvSequenceOverflow (checked_add expected 1)) (\<lambda>next_sequence.
        check_batch lg next_sequence (insert (po_outcome_id x) new_ids) xs))"

definition log_append ::
  "outcome_log \<Rightarrow> process_outcome list \<Rightarrow> (outcome_log_error + unit) \<times> outcome_log" where
  "log_append lg xs =
     (if MAX_OUTCOMES_PER_REPLAY_LOG < length (lg_outcomes lg) + length xs then (Inl LvLimitExceeded, lg)
      else let expected = of_nat (length (lg_outcomes lg)) :: u64 in
        case xs of
          [x] \<Rightarrow> log_append_one lg x expected
        | _ \<Rightarrow>
            (case check_batch lg expected {} xs of
               Inl e \<Rightarrow> (Inl e, lg)
             | Inr new_ids \<Rightarrow>
                 (Inr (), lg\<lparr>lg_outcomes := lg_outcomes lg @ xs,
                    lg_seen_outcome_ids := lg_seen_outcome_ids lg \<union> new_ids\<rparr>)))"

definition log_from_ordered :: "process_scope \<Rightarrow> process_outcome list \<Rightarrow> outcome_log_error + outcome_log" where
  "log_from_ordered scope xs =
     (case log_append (log_new scope) xs of (Inl e, _) \<Rightarrow> Inl e | (Inr _, lg) \<Rightarrow> Inr lg)"

definition log_next_sequence :: "outcome_log \<Rightarrow> u64" where
  "log_next_sequence lg = (if length (lg_outcomes lg) < 2 ^ 64 then of_nat (length (lg_outcomes lg)) else - 1)"

end
