(* ===== verification/Process_Services.thy ===== *)
theory Process_Services
  imports Process_Commits
begin

text \<open>
  The bounded integration calls of \<open>penelope-executor/src/services.rs\<close> with the batch check of
  \<open>lease_batch_index.rs\<close> and the timer inputs of \<open>timer_input.rs\<close>.

  The ports are adapters of the host. Their methods are the functions of a record; what a method
  answers may depend on all earlier calls, so each takes the trace of them. A call appends itself
  with its answer to the trace. An awaited call is a call; the functions hold no state between
  calls, so dropping one at an \<open>await\<close> leaves the trace so far. SHA-256 and the JSON encoding of
  a timer are arguments.
\<close>

section \<open>Ports\<close>

datatype service_call =
    SAuthorize process_authorization_request "port_error + process_authorization_decision"
  | SNow "port_error + logical_time"
  | SClaim outbox_claim_request "port_error + outbox_lease list"
  | SDispatch process_action "port_error + action_dispatch_receipt"
  | SAcknowledge outbox_lease logical_time "port_error + unit"
  | SClaimDue timer_claim_request "port_error + timer_lease list"
  | SPutPayload process_scope content_digest "byte list" "port_error + content_digest"
  | SAccept process_input "port_error + inbox_acceptance_receipt"
  | SAcknowledgeTimer timer_lease logical_time "port_error + unit"
  | SReconcile effect_dispatch_request "port_error + external_effect_evidence"
  | SCommit atomic_process_commit "port_error + atomic_process_commit_receipt"

type_synonym service_trace = "service_call list"

record service_ports =
  authorizer_authorize :: "service_trace \<Rightarrow> process_authorization_request \<Rightarrow> port_error + process_authorization_decision"
  clock_now :: "service_trace \<Rightarrow> port_error + logical_time"
  outbox_claim :: "service_trace \<Rightarrow> outbox_claim_request \<Rightarrow> port_error + outbox_lease list"
  dispatcher_dispatch :: "service_trace \<Rightarrow> process_action \<Rightarrow> port_error + action_dispatch_receipt"
  outbox_acknowledge :: "service_trace \<Rightarrow> outbox_lease \<Rightarrow> logical_time \<Rightarrow> port_error + unit"
  timers_claim_due :: "service_trace \<Rightarrow> timer_claim_request \<Rightarrow> port_error + timer_lease list"
  inbox_put_payload :: "service_trace \<Rightarrow> process_scope \<Rightarrow> content_digest \<Rightarrow> byte list \<Rightarrow> port_error + content_digest"
  inbox_accept :: "service_trace \<Rightarrow> process_input \<Rightarrow> port_error + inbox_acceptance_receipt"
  timers_acknowledge :: "service_trace \<Rightarrow> timer_lease \<Rightarrow> logical_time \<Rightarrow> port_error + unit"
  executor_reconcile :: "service_trace \<Rightarrow> effect_dispatch_request \<Rightarrow> port_error + external_effect_evidence"
  store_commit :: "service_trace \<Rightarrow> atomic_process_commit \<Rightarrow> port_error + atomic_process_commit_receipt"

type_synonym ('e, 'a) svc = "service_trace \<Rightarrow> ('e + 'a) \<times> service_trace"

definition svc_pure :: "'e + 'a \<Rightarrow> ('e, 'a) svc" where
  "svc_pure r t = (r, t)"

definition svc_bind :: "('e, 'a) svc \<Rightarrow> ('a \<Rightarrow> ('e, 'b) svc) \<Rightarrow> ('e, 'b) svc" where
  "svc_bind m f t = (case m t of (Inl e, t') \<Rightarrow> (Inl e, t') | (Inr x, t') \<Rightarrow> f x t')"

definition svc_map_err :: "('e \<Rightarrow> 'f) \<Rightarrow> ('e, 'a) svc \<Rightarrow> ('f, 'a) svc" where
  "svc_map_err f m t = (case m t of (r, t') \<Rightarrow> (map_err f r, t'))"

text \<open>One awaited port call.\<close>

definition svc_call :: "(service_trace \<Rightarrow> port_error + 'a) \<Rightarrow> (port_error + 'a \<Rightarrow> service_call) \<Rightarrow> (port_error, 'a) svc" where
  "svc_call port entry t = (let r = port t in (r, t @ [entry r]))"

section \<open>Authorization\<close>

definition authorize ::
  "service_ports \<Rightarrow> process_scope \<Rightarrow> principal_id \<Rightarrow> process_authorization_operation \<Rightarrow> (port_error, unit) svc" where
  "authorize P scope who op =
     (let q = \<lparr> aq_scope = scope, aq_principal_id = who, aq_operation = op \<rparr> in
      svc_bind (svc_call (\<lambda>t. authorizer_authorize P t q) (SAuthorize q)) (\<lambda>d.
        svc_pure (require_authorized d)))"

section \<open>Duplicate leases in a batch\<close>

text \<open>\<open>enumerate().find_map\<close> of the first entry that conflicts with a later one.\<close>

fun find_conflict :: "('a \<Rightarrow> 'a \<Rightarrow> bool) \<Rightarrow> nat \<Rightarrow> 'a list \<Rightarrow> nat option" where
  "find_conflict C i [] = None"
| "find_conflict C i (x # xs) = (if list_ex (C x) xs then Some i else find_conflict C (i + 1) xs)"

definition same_identity :: "('a \<Rightarrow> string \<times> 'tok) \<Rightarrow> 'a \<Rightarrow> 'a \<Rightarrow> bool" where
  "same_identity identity x y \<longleftrightarrow> fst (identity x) = fst (identity y) \<or> snd (identity x) = snd (identity y)"

text \<open>\<open>Iterator::min\<close>\<close>

definition iter_min :: "nat list \<Rightarrow> nat option" where
  "iter_min xs = (if xs = [] then None else Some (Min (set xs)))"

text \<open>
  \<open>windows(2)\<close> of the sorted names, keeping the positions of equal neighbours. The unstable sort may
  order equal names in any way; \<open>sort_key\<close> is one of them.
\<close>

definition adjacent_duplicates :: "(string \<times> nat) list \<Rightarrow> nat list" where
  "adjacent_duplicates names =
     concat (map (\<lambda>(x, y). [snd x, snd y]) (filter (\<lambda>(x, y). fst x = fst y) (zip names (tl names))))"

definition first_duplicate_index :: "'a list \<Rightarrow> ('a \<Rightarrow> string \<times> 'tok) \<Rightarrow> nat option" where
  "first_duplicate_index leases identity =
     (if length leases \<le> 16 \<or> 128 < length leases
      then find_conflict (same_identity identity) 0 leases
      else
        let names = sort_key fst (map (\<lambda>(i, l). (fst (identity l), i)) (zip [0..<length leases] leases));
            action_duplicate = iter_min (adjacent_duplicates names);
            token_duplicate = find_conflict (\<lambda>a b. b = a) 0 (map (\<lambda>l. snd (identity l)) leases)
        in iter_min ((case action_duplicate of None \<Rightarrow> [] | Some i \<Rightarrow> [i])
             @ (case token_duplicate of None \<Rightarrow> [] | Some i \<Rightarrow> [i])))"

fun validate_small :: "('a \<Rightarrow> string \<times> 'tok) \<Rightarrow> ('a \<Rightarrow> port_error + unit) \<Rightarrow> 'a list \<Rightarrow> port_error + unit" where
  "validate_small identity validate [] = Inr ()"
| "validate_small identity validate (l # ls) =
     bindR (validate l) (\<lambda>_.
       if list_ex (same_identity identity l) ls then Inl PeInvariant
       else validate_small identity validate ls)"

fun validate_indexed :: "nat option \<Rightarrow> ('a \<Rightarrow> port_error + unit) \<Rightarrow> nat \<Rightarrow> 'a list \<Rightarrow> port_error + unit" where
  "validate_indexed duplicate validate i [] = Inr ()"
| "validate_indexed duplicate validate i (l # ls) =
     bindR (validate l) (\<lambda>_.
       if duplicate = Some i then Inl PeInvariant
       else validate_indexed duplicate validate (i + 1) ls)"

definition validate_batch ::
  "'a list \<Rightarrow> ('a \<Rightarrow> string \<times> 'tok) \<Rightarrow> ('a \<Rightarrow> port_error + unit) \<Rightarrow> port_error + unit" where
  "validate_batch leases identity validate =
     (if length leases \<le> 16 then validate_small identity validate leases
      else validate_indexed (first_duplicate_index leases identity) validate 0 leases)"

section \<open>Claiming the outbox\<close>

definition outbox_identity :: "outbox_lease \<Rightarrow> string \<times> outbox_lease_token" where
  "outbox_identity l = (action_str (pa_action_id (ob_action (ol_record l))), ol_token l)"

fun check_small_claim :: "outbox_claim_request \<Rightarrow> logical_time \<Rightarrow> outbox_lease list \<Rightarrow> port_error + unit" where
  "check_small_claim q now [] = Inr ()"
| "check_small_claim q now (l # ls) =
     bindR (outbox_lease_validate_for_claim_at l q now) (\<lambda>_.
       if ob_acknowledgement (ol_record l) \<noteq> AckPending
          \<or> list_ex (\<lambda>m. pa_action_id (ob_action (ol_record m)) = pa_action_id (ob_action (ol_record l))
               \<or> ol_token m = ol_token l) ls
       then Inl PeInvariant
       else check_small_claim q now ls)"

definition check_claim :: "outbox_claim_request \<Rightarrow> logical_time \<Rightarrow> outbox_lease list \<Rightarrow> port_error + unit" where
  "check_claim q now leases =
     (if length leases \<le> 16 then check_small_claim q now leases
      else validate_batch leases outbox_identity (\<lambda>l.
        bindR (outbox_lease_validate_for_claim_at l q now) (\<lambda>_.
          if ob_acknowledgement (ol_record l) \<noteq> AckPending then Inl PeInvariant else Inr ())))"

definition claim_outbox ::
  "service_ports \<Rightarrow> outbox_claim_request \<Rightarrow> logical_time \<Rightarrow> (port_error, outbox_lease list) svc" where
  "claim_outbox P q now =
     svc_bind (svc_pure (outbox_claim_validate q)) (\<lambda>_.
     svc_bind (authorize P (oc_scope q) (oc_owner q) AuDispatch) (\<lambda>_.
     svc_bind (svc_call (\<lambda>t. outbox_claim P t q) (SClaim q)) (\<lambda>leases.
       if unat (nz_get (oc_limit q)) < length leases then svc_pure (Inl PeInvariant)
       else svc_bind (svc_pure (check_claim q now leases)) (\<lambda>_. svc_pure (Inr leases)))))"

section \<open>Dispatching the outbox\<close>

record dispatch_report =
  dr_claimed :: u16
  dr_delivered :: u16
  dr_acknowledged :: u16
  dr_duplicate_deliveries :: u16

datatype dispatch_stage = DsClock | DsClaim | DsValidate | DsDispatch | DsReceipt | DsAcknowledge

record dispatch_error =
  de_stage :: dispatch_stage
  de_report :: dispatch_report
  de_source :: port_error

definition dispatch_fail :: "dispatch_stage \<Rightarrow> dispatch_report \<Rightarrow> port_error \<Rightarrow> dispatch_error" where
  "dispatch_fail stage report e = \<lparr> de_stage = stage, de_report = report, de_source = e \<rparr>"

definition dispatch_one :: "service_ports \<Rightarrow> dispatch_report \<Rightarrow> outbox_lease \<Rightarrow> (dispatch_error, dispatch_report) svc" where
  "dispatch_one P report l =
     svc_bind (svc_map_err (dispatch_fail DsClock report) (svc_call (clock_now P) SNow)) (\<lambda>dispatch_time.
     svc_bind (svc_pure (map_err (dispatch_fail DsValidate report) (outbox_lease_validate_at l dispatch_time))) (\<lambda>_.
     svc_bind (svc_map_err (dispatch_fail DsDispatch report)
         (svc_call (\<lambda>t. dispatcher_dispatch P t (ob_action (ol_record l))) (SDispatch (ob_action (ol_record l))))) (\<lambda>receipt.
     svc_bind (svc_pure (map_err (\<lambda>_. dispatch_fail DsReceipt report PeInvariant)
         (action_receipt_validate_for receipt (ob_action (ol_record l))))) (\<lambda>_.
     let report1 = report\<lparr>dr_delivered := saturating_add (dr_delivered report) 1\<rparr>;
         report2 = (if ar_duplicate receipt
           then report1\<lparr>dr_duplicate_deliveries := saturating_add (dr_duplicate_deliveries report1) 1\<rparr> else report1) in
     svc_bind (svc_map_err (dispatch_fail DsClock report2) (svc_call (clock_now P) SNow)) (\<lambda>acknowledge_time.
     svc_bind (svc_map_err (dispatch_fail DsAcknowledge report2)
         (svc_call (\<lambda>t. outbox_acknowledge P t l acknowledge_time) (SAcknowledge l acknowledge_time))) (\<lambda>_.
       svc_pure (Inr (report2\<lparr>dr_acknowledged := saturating_add (dr_acknowledged report2) 1\<rparr>))))))))"

fun dispatch_loop :: "service_ports \<Rightarrow> dispatch_report \<Rightarrow> outbox_lease list \<Rightarrow> (dispatch_error, dispatch_report) svc" where
  "dispatch_loop P report [] = svc_pure (Inr report)"
| "dispatch_loop P report (l # ls) =
     svc_bind (dispatch_one P report l) (\<lambda>report'. dispatch_loop P report' ls)"

definition dispatch_outbox :: "service_ports \<Rightarrow> outbox_claim_request \<Rightarrow> (dispatch_error, dispatch_report) svc" where
  "dispatch_outbox P q =
     (let report = \<lparr> dr_claimed = 0, dr_delivered = 0, dr_acknowledged = 0, dr_duplicate_deliveries = 0 \<rparr> in
      svc_bind (svc_map_err (dispatch_fail DsClock report) (svc_call (clock_now P) SNow)) (\<lambda>now.
      svc_bind (svc_map_err (dispatch_fail DsClaim report) (claim_outbox P q now)) (\<lambda>leases.
        if 2 ^ 16 \<le> length leases then svc_pure (Inl (dispatch_fail DsValidate report PeInvariant))
        else dispatch_loop P (report\<lparr>dr_claimed := of_nat (length leases)\<rparr>) leases)))"

section \<open>Timer inputs\<close>

definition hex_digit :: "nat \<Rightarrow> char" where
  "hex_digit n = (if n < 10 then char_of (48 + n) else char_of (87 + n))"

text \<open>\<open>{byte:02x}\<close>\<close>

definition hex_byte :: "byte \<Rightarrow> string" where
  "hex_byte b = [hex_digit (unat b div 16), hex_digit (unat b mod 16)]"

definition timer_key :: "process_action \<Rightarrow> byte list" where
  "timer_key a = str_bytes ''penelope.timer-input.v1'' @ [0] @ action_effect_key_bytes a @ str_bytes (action_str (pa_action_id a))"

definition timer_identity :: "(byte list \<Rightarrow> digest) \<Rightarrow> process_action \<Rightarrow> string" where
  "timer_identity sha a = ''inp_timer_'' @ concat (map hex_byte (digest_bytes (sha (timer_key a))))"

definition timer_input ::
  "(byte list \<Rightarrow> digest) \<Rightarrow> (timer_schedule \<Rightarrow> (byte list) option) \<Rightarrow> timer_lease \<Rightarrow>
     port_error + (process_input \<times> byte list)" where
  "timer_input sha wire l =
     bindR (ok_or PeInvariant (wire (tl_timer l))) (\<lambda>bytes.
     let a = ts_action (tl_timer l) in
     bindR (map_err (\<lambda>_. PeInvariant) (input_id_new (timer_identity sha a))) (\<lambda>i.
       Inr (\<lparr> pi_tenant_id = pa_tenant_id a, pi_process_id = pa_process_id a, pi_input_id = i,
              pi_kind = IkTimerFired, pi_payload_digest = sha bytes \<rparr>, bytes)))"

section \<open>Draining timers\<close>

record timer_drain_report =
  tr_claimed :: u16
  tr_acknowledged :: u16
  tr_duplicate_inputs :: u16

datatype timer_drain_stage =
    TdAuthorization | TdClock | TdClaim | TdValidate | TdPayload | TdInbox | TdAcknowledge

record timer_drain_error =
  te_stage :: timer_drain_stage
  te_report :: timer_drain_report
  te_source :: port_error

definition drain_fail :: "timer_drain_stage \<Rightarrow> timer_drain_report \<Rightarrow> port_error \<Rightarrow> timer_drain_error" where
  "drain_fail stage report e = \<lparr> te_stage = stage, te_report = report, te_source = e \<rparr>"

definition timer_lease_identity :: "timer_lease \<Rightarrow> string \<times> outbox_lease_token" where
  "timer_lease_identity l = (action_str (pa_action_id (ts_action (tl_timer l))), tl_token l)"

fun check_small_timers :: "timer_claim_request \<Rightarrow> timer_lease list \<Rightarrow> port_error + unit" where
  "check_small_timers q [] = Inr ()"
| "check_small_timers q (l # ls) =
     bindR (timer_lease_validate_for_claim l q) (\<lambda>_.
       if list_ex (\<lambda>m. pa_action_id (ts_action (tl_timer m)) = pa_action_id (ts_action (tl_timer l))
            \<or> tl_token m = tl_token l) ls
       then Inl PeInvariant
       else check_small_timers q ls)"

definition check_timers :: "timer_claim_request \<Rightarrow> timer_lease list \<Rightarrow> port_error + unit" where
  "check_timers q leases =
     (if length leases \<le> 16 then check_small_timers q leases
      else validate_batch leases timer_lease_identity (\<lambda>l. timer_lease_validate_for_claim l q))"

definition drain_one ::
  "(byte list \<Rightarrow> digest) \<Rightarrow> (timer_schedule \<Rightarrow> (byte list) option) \<Rightarrow> service_ports \<Rightarrow> timer_claim_request \<Rightarrow>
     timer_drain_report \<Rightarrow> timer_lease \<Rightarrow> (timer_drain_error, timer_drain_report) svc" where
  "drain_one sha wire P q report l =
     svc_bind (svc_pure (map_err (drain_fail TdPayload report) (timer_input sha wire l))) (\<lambda>(x, bytes).
     svc_bind (svc_map_err (drain_fail TdPayload report)
         (svc_call (\<lambda>t. inbox_put_payload P t (tc_scope q) (pi_payload_digest x) bytes)
            (SPutPayload (tc_scope q) (pi_payload_digest x) bytes))) (\<lambda>digest.
     if digest \<noteq> pi_payload_digest x then svc_pure (Inl (drain_fail TdPayload report PeInvariant))
     else
     svc_bind (svc_map_err (drain_fail TdInbox report) (svc_call (\<lambda>t. inbox_accept P t x) (SAccept x))) (\<lambda>receipt.
     svc_bind (svc_pure (map_err (\<lambda>_. drain_fail TdInbox report PeInvariant) (inbox_receipt_validate_for receipt x))) (\<lambda>_.
     let report1 = (if xr_duplicate receipt
           then report\<lparr>tr_duplicate_inputs := saturating_add (tr_duplicate_inputs report) 1\<rparr> else report) in
     svc_bind (svc_map_err (drain_fail TdClock report1) (svc_call (clock_now P) SNow)) (\<lambda>now.
     svc_bind (svc_map_err (drain_fail TdAcknowledge report1)
         (svc_call (\<lambda>t. timers_acknowledge P t l now) (SAcknowledgeTimer l now))) (\<lambda>_.
       svc_pure (Inr (report1\<lparr>tr_acknowledged := saturating_add (tr_acknowledged report1) 1\<rparr>))))))))"

fun drain_loop ::
  "(byte list \<Rightarrow> digest) \<Rightarrow> (timer_schedule \<Rightarrow> (byte list) option) \<Rightarrow> service_ports \<Rightarrow> timer_claim_request \<Rightarrow>
     timer_drain_report \<Rightarrow> timer_lease list \<Rightarrow> (timer_drain_error, timer_drain_report) svc" where
  "drain_loop sha wire P q report [] = svc_pure (Inr report)"
| "drain_loop sha wire P q report (l # ls) =
     svc_bind (drain_one sha wire P q report l) (\<lambda>report'. drain_loop sha wire P q report' ls)"

definition drain_timers ::
  "(byte list \<Rightarrow> digest) \<Rightarrow> (timer_schedule \<Rightarrow> (byte list) option) \<Rightarrow> service_ports \<Rightarrow> timer_claim_request \<Rightarrow>
     (timer_drain_error, timer_drain_report) svc" where
  "drain_timers sha wire P q =
     (let report = \<lparr> tr_claimed = 0, tr_acknowledged = 0, tr_duplicate_inputs = 0 \<rparr> in
      svc_bind (svc_pure (map_err (drain_fail TdValidate report) (timer_claim_validate q))) (\<lambda>_.
      svc_bind (svc_map_err (drain_fail TdAuthorization report) (authorize P (tc_scope q) (tc_owner q) AuDeliverTimer)) (\<lambda>_.
      svc_bind (svc_map_err (drain_fail TdClock report) (svc_call (clock_now P) SNow)) (\<lambda>now.
      let trusted = q\<lparr>tc_now := now\<rparr> in
      svc_bind (svc_map_err (drain_fail TdClaim report) (svc_call (\<lambda>t. timers_claim_due P t trusted) (SClaimDue trusted))) (\<lambda>leases.
        if unat (nz_get (tc_limit trusted)) < length leases then svc_pure (Inl (drain_fail TdValidate report PeInvariant))
        else if 2 ^ 16 \<le> length leases then svc_pure (Inl (drain_fail TdValidate report PeInvariant))
        else
          let report1 = report\<lparr>tr_claimed := of_nat (length leases)\<rparr> in
          svc_bind (svc_pure (map_err (drain_fail TdValidate report1) (check_timers trusted leases))) (\<lambda>_.
            drain_loop sha wire P trusted report1 leases))))))"

end
