(* ===== verification/Process_Tasks.thy ===== *)
theory Process_Tasks
  imports Process_Services Task_Control Graph_Engine
begin

text \<open>
  The join between sagas and tasks: the binding of an external effect to a task and the
  verification of its output (\<open>penelope-ports/src/tasks.rs\<close>), admission, recovery and the relay of
  results (\<open>penelope-executor/src/composition.rs\<close>), and the services that drive a task, reconcile an
  effect and relay a result (\<open>services.rs\<close>).

  Process stores and task adapters are separate: a function that uses both threads the trace of
  service calls and the trace of task ports. Classifier and verifier are consumer code and are
  arguments, as is SHA-256.
\<close>

section \<open>Binding an effect to a task\<close>

definition task_scope_for_effect ::
  "sha \<Rightarrow> effect_dispatch_request \<Rightarrow> task_definition \<Rightarrow> task_error + task_scope" where
  "task_scope_for_effect sha q d =
     bindR (map_err (\<lambda>_. ScopeMismatch) (effect_request_validate q)) (\<lambda>_.
     bindR (definition_validate d) (\<lambda>_.
       if pa_kind (er_action q) \<noteq> ExternalEffectKind then Inl ScopeMismatch
       else Inr \<lparr> scope_tenant = digest_of sha (str_bytes (tenant_str (pa_tenant_id (er_action q)))),
                  scope_task = digest_of sha (effect_key_bytes (er_effect_key q)),
                  scope_definition = fingerprint sha d,
                  scope_input = pa_payload_digest (er_action q) \<rparr>))"

record task_effect_binding =
  tb_request :: effect_dispatch_request
  tb_definition :: task_definition
  tb_scope :: task_scope

definition binding_new :: "sha \<Rightarrow> effect_dispatch_request \<Rightarrow> task_definition \<Rightarrow> task_error + task_effect_binding" where
  "binding_new sha q d =
     bindR (task_scope_for_effect sha q d) (\<lambda>scope. Inr \<lparr> tb_request = q, tb_definition = d, tb_scope = scope \<rparr>)"

definition binding_validate ::
  "sha \<Rightarrow> task_effect_binding \<Rightarrow> effect_dispatch_request \<Rightarrow> task_definition \<Rightarrow> byte list \<Rightarrow> task_error + unit" where
  "binding_validate sha b q d inp =
     (if q \<noteq> tb_request b \<or> d \<noteq> tb_definition b then Inl ScopeMismatch
      else bindR (task_scope_for_effect sha q d) (\<lambda>scope.
        if scope \<noteq> tb_scope b \<or> unat (max_input_bytes (budget d)) < length inp
           \<or> digest_of sha inp \<noteq> scope_input (tb_scope b)
        then Inl ScopeMismatch else Inr ()))"

definition relay_key :: "sha \<Rightarrow> task_effect_binding \<Rightarrow> byte list" where
  "relay_key sha b =
     str_bytes ''penelope.task-effect-relay.v1'' @ [0] @ effect_key_bytes (er_effect_key (tb_request b))
       @ digest_bytes (fingerprint sha (tb_definition b)) @ str_bytes (action_str (pa_action_id (er_action (tb_request b))))"

definition relay_identity :: "sha \<Rightarrow> task_effect_binding \<Rightarrow> digest" where
  "relay_identity sha b = digest_of sha (relay_key sha b)"

definition task_effect_evidence ::
  "sha \<Rightarrow> effect_dispatch_request \<Rightarrow> task_projection \<Rightarrow> task_error + external_effect_evidence" where
  "task_effect_evidence sha q p =
     bindR (task_scope_for_effect sha q (p_definition p)) (\<lambda>scope.
       if p_scope p \<noteq> scope then Inl ScopeMismatch
       else Inr \<lparr> ee_action_id = pa_action_id (er_action q), ee_effect_key = er_effect_key q,
                  ee_external_reference_id = None,
                  ee_state = (case p_status p of
                      StCompleted \<Rightarrow> EsSucceeded
                    | StExhausted \<Rightarrow> if effects (p_definition p) = PureEffects then EsKnownFailure else EsUnknown
                    | _ \<Rightarrow> EsUnknown) \<rparr>)"

section \<open>Verified results\<close>

datatype task_effect_verification_error =
    TeBindingMismatch | TeNotCompleted | TeCorruptOutput | TeInvalidOutput | TeUnresolved
  | TeMissingEvidence | TeEvidenceMismatch

text \<open>The traits \<open>TaskOutputClassifier\<close> and \<open>TaskEffectEvidenceVerifier\<close>.\<close>

record task_output_classifier =
  classifier_identity :: digest
  classify :: "task_effect_binding \<Rightarrow> blob_ref \<Rightarrow> byte list \<Rightarrow> task_effect_verification_error + external_effect_state"

type_synonym evidence_verifier =
  "task_effect_binding \<Rightarrow> task_generation \<Rightarrow> blob_ref \<Rightarrow> byte list \<Rightarrow> task_effect_verification_error + external_effect_evidence"

record verified_task_effect_outcome =
  vo_binding :: task_effect_binding
  vo_generation :: task_generation
  vo_output :: blob_ref
  vo_classifier :: digest
  vo_evidence :: external_effect_evidence

definition effect_proof ::
  "task_effect_binding \<Rightarrow> task_generation \<Rightarrow> blob_ref \<Rightarrow> byte list \<Rightarrow> external_effect_state \<Rightarrow> evidence_verifier option \<Rightarrow>
     task_effect_verification_error + external_effect_evidence" where
  "effect_proof b g output bytes state verifier =
     (if effects (tb_definition b) = PureEffects
      then Inr \<lparr> ee_action_id = pa_action_id (er_action (tb_request b)), ee_effect_key = er_effect_key (tb_request b),
                 ee_external_reference_id = None, ee_state = state \<rparr>
      else bindR (ok_or TeMissingEvidence verifier) (\<lambda>verify.
           bindR (verify b g output bytes) (\<lambda>e.
           bindR (map_err (\<lambda>_. TeEvidenceMismatch) (evidence_validate_for e (tb_request b))) (\<lambda>_.
             if ee_state e = EsUnknown then Inl TeUnresolved
             else if ee_state e \<noteq> state then Inl TeEvidenceMismatch
             else Inr e))))"

definition outcome_verify ::
  "sha \<Rightarrow> task_effect_binding \<Rightarrow> task_projection \<Rightarrow> task_generation \<Rightarrow> byte list \<Rightarrow> task_output_classifier \<Rightarrow>
     evidence_verifier option \<Rightarrow> task_effect_verification_error + verified_task_effect_outcome" where
  "outcome_verify sha b p g bytes classifier verifier =
     (if p_scope p \<noteq> tb_scope b \<or> p_definition p \<noteq> tb_definition b \<or> p_generation p \<noteq> g then Inl TeBindingMismatch
      else if p_status p \<noteq> StCompleted then Inl TeNotCompleted
      else bindR (ok_or TeNotCompleted (p_output p)) (\<lambda>output.
        if unat (blob_bytes output) \<noteq> length bytes \<or> digest_of sha bytes \<noteq> blob_digest output then Inl TeCorruptOutput
        else bindR (classify classifier b output bytes) (\<lambda>state.
          if state = EsUnknown then Inl TeUnresolved
          else bindR (effect_proof b g output bytes state verifier) (\<lambda>e.
            Inr \<lparr> vo_binding = b, vo_generation = g, vo_output = output,
                  vo_classifier = classifier_identity classifier, vo_evidence = e \<rparr>))))"

section \<open>Committing and admitting a task\<close>

datatype task_composition_error =
    TcBindingMismatch | TcInvalidReceipt | TcProcess port_error | TcTask task_error | TcSupervisor supervisor_error

record committed_task_effect =
  ce_binding :: task_effect_binding
  ce_receipt :: atomic_process_commit_receipt

definition store_and_check :: "service_ports \<Rightarrow> atomic_process_commit \<Rightarrow> (task_composition_error, atomic_process_commit_receipt) svc" where
  "store_and_check P c =
     svc_bind (svc_map_err TcProcess (svc_call (\<lambda>t. store_commit P t c) (SCommit c))) (\<lambda>receipt.
     svc_bind (svc_pure (map_err (\<lambda>_. TcInvalidReceipt) (commit_receipt_validate_for receipt c))) (\<lambda>_.
       svc_pure (Inr receipt)))"

definition commit_task_effect ::
  "service_ports \<Rightarrow> atomic_process_commit \<Rightarrow> task_effect_binding \<Rightarrow> (task_composition_error, committed_task_effect) svc" where
  "commit_task_effect P c b =
     svc_bind (svc_pure (map_err (\<lambda>_. TcBindingMismatch) (commit_validate c))) (\<lambda>_.
     svc_bind (svc_pure (if \<not> list_ex (\<lambda>a. a = er_action (tb_request b)) (cm_actions c) then Inl TcBindingMismatch else Inr ())) (\<lambda>_.
     svc_bind (store_and_check P c) (\<lambda>receipt.
       svc_pure (Inr \<lparr> ce_binding = b, ce_receipt = receipt \<rparr>))))"

definition other_schema :: "u32 \<Rightarrow> task_projection \<Rightarrow> bool" where
  "other_schema schema p = (case p_input p of None \<Rightarrow> True | Some reference \<Rightarrow> blob_schema reference \<noteq> schema)"

definition recover ::
  "nat \<Rightarrow> ports \<Rightarrow> sha \<Rightarrow> committed_task_effect \<Rightarrow> byte list \<Rightarrow> u32 \<Rightarrow> task_tick \<Rightarrow> trace \<Rightarrow>
     (task_composition_error + task_control) \<times> trace" where
  "recover N TP sha ce inp schema tick tr =
     (let b = ce_binding ce in
      case binding_validate sha b (tb_request b) (tb_definition b) inp of
        Inl e \<Rightarrow> (Inl (TcTask e), tr)
      | Inr _ \<Rightarrow>
          (case supervisor_restore N TP sha (tb_scope b) (tb_definition b) tick tr of
             (Inl e, tr') \<Rightarrow> (Inl (TcSupervisor e), tr')
           | (Inr s, tr') \<Rightarrow>
               if other_schema schema (c_projection s) then (Inl TcBindingMismatch, tr') else (Inr s, tr')))"

text \<open>The part of \<open>accept\<close> that works on the task: restore, then submit or compare the schema.\<close>

definition admit_task ::
  "nat \<Rightarrow> ports \<Rightarrow> sha \<Rightarrow> task_effect_binding \<Rightarrow> byte list \<Rightarrow> u32 \<Rightarrow> task_tick \<Rightarrow> trace \<Rightarrow>
     (task_composition_error + task_control) \<times> trace" where
  "admit_task N TP sha b inp schema tick tr =
     (case supervisor_restore N TP sha (tb_scope b) (tb_definition b) tick tr of
        (Inl e, tr') \<Rightarrow> (Inl (TcSupervisor e), tr')
      | (Inr s, tr') \<Rightarrow>
          if p_status (c_projection s) = StEmpty then
            (case ctl_submit TP sha inp schema tick s of
               (Inl e, s') \<Rightarrow> (Inl (TcSupervisor e), c_trace s')
             | (Inr _, s') \<Rightarrow> (Inr s', c_trace s'))
          else if other_schema schema (c_projection s) then (Inl TcBindingMismatch, tr')
          else (Inr s, tr'))"

definition accept ::
  "nat \<Rightarrow> service_ports \<Rightarrow> ports \<Rightarrow> sha \<Rightarrow> committed_task_effect \<Rightarrow> outbox_claim_request \<Rightarrow> outbox_lease \<Rightarrow> logical_time \<Rightarrow>
     byte list \<Rightarrow> u32 \<Rightarrow> task_tick \<Rightarrow> trace \<Rightarrow> service_trace \<Rightarrow>
     ((task_composition_error + task_control) \<times> trace) \<times> service_trace" where
  "accept N P TP sha ce claim lease now inp schema tick tr st =
     (let b = ce_binding ce in
      case outbox_lease_validate_for_claim_at lease claim now of
        Inl e \<Rightarrow> ((Inl (TcProcess e), tr), st)
      | Inr _ \<Rightarrow>
          if ob_action (ol_record lease) \<noteq> er_action (tb_request b) then ((Inl TcBindingMismatch, tr), st)
          else
            (case binding_validate sha b (tb_request b) (tb_definition b) inp of
               Inl e \<Rightarrow> ((Inl (TcTask e), tr), st)
             | Inr _ \<Rightarrow>
                 (case admit_task N TP sha b inp schema tick tr of
                    (Inl e, tr') \<Rightarrow> ((Inl e, tr'), st)
                  | (Inr s, tr') \<Rightarrow>
                      (case svc_call (\<lambda>t. outbox_acknowledge P t lease now) (SAcknowledge lease now) st of
                         (Inl e, st') \<Rightarrow> ((Inl (TcProcess e), tr'), st')
                       | (Inr _, st') \<Rightarrow> ((Inr s, tr'), st')))))"

section \<open>Relaying a result\<close>

record task_result_relay =
  rl_outcome :: verified_task_effect_outcome
  rl_input :: process_input

definition relay_input_identity :: "digest \<Rightarrow> string" where
  "relay_input_identity d = ''inp_task_'' @ concat (map hex_byte (digest_bytes d))"

fun state_tag :: "external_effect_state \<Rightarrow> byte option" where
  "state_tag EsSucceeded = Some 1"
| "state_tag EsKnownFailure = Some 2"
| "state_tag EsUnknown = None"

definition relay_payload :: "digest \<Rightarrow> verified_task_effect_outcome \<Rightarrow> byte \<Rightarrow> byte list" where
  "relay_payload identity v tag =
     str_bytes ''penelope.task-effect-result.v1'' @ [0] @ digest_bytes identity
       @ u32_to_be_bytes (vo_generation v) @ digest_bytes (blob_digest (vo_output v))
       @ u32_to_be_bytes (blob_bytes (vo_output v)) @ u32_to_be_bytes (blob_schema (vo_output v))
       @ digest_bytes (vo_classifier v) @ [tag]
       @ (case ee_external_reference_id (vo_evidence v) of
            Some reference \<Rightarrow> 1 # str_bytes (external_reference_str reference)
          | None \<Rightarrow> [0])"

definition relay_new :: "sha \<Rightarrow> verified_task_effect_outcome \<Rightarrow> task_composition_error + task_result_relay" where
  "relay_new sha v =
     (let identity = relay_identity sha (vo_binding v); a = er_action (tb_request (vo_binding v)) in
      bindR (ok_or TcBindingMismatch (state_tag (ee_state (vo_evidence v)))) (\<lambda>tag.
      bindR (map_err (\<lambda>_. TcBindingMismatch) (input_id_new (relay_input_identity identity))) (\<lambda>i.
        Inr \<lparr> rl_outcome = v,
              rl_input = \<lparr> pi_tenant_id = pa_tenant_id a, pi_process_id = pa_process_id a, pi_input_id = i,
                pi_kind = IkTaskEffectResult, pi_payload_digest = digest_of sha (relay_payload identity v tag) \<rparr> \<rparr>)))"

definition relay_observation :: "task_result_relay \<Rightarrow> action_result_observation" where
  "relay_observation r =
     \<lparr> ob_action_id = pa_action_id (er_action (tb_request (vo_binding (rl_outcome r)))),
       ob_result = (case ee_state (vo_evidence (rl_outcome r)) of
           EsSucceeded \<Rightarrow> ArSucceeded | EsKnownFailure \<Rightarrow> ArTerminalFailure | EsUnknown \<Rightarrow> ArUnknown) \<rparr>"

definition linear_input :: "task_result_relay \<Rightarrow> action_id option \<Rightarrow> linear_saga_input" where
  "linear_input r next = InActionResult (pi_input_id (rl_input r)) (relay_observation r) next"

definition graph_input :: "task_result_relay \<Rightarrow> action_id option \<Rightarrow> graph_saga_input" where
  "graph_input r next = GiActionResult (pi_input_id (rl_input r)) (relay_observation r) next"

definition relay_commit ::
  "service_ports \<Rightarrow> task_result_relay \<Rightarrow> atomic_process_commit \<Rightarrow> (task_composition_error, atomic_process_commit_receipt) svc" where
  "relay_commit P r c =
     svc_bind (svc_pure
       (if cm_input c \<noteq> Some (rl_input r) \<or> cm_canonical_source_event_id c \<noteq> None
           \<or> list_ex (\<lambda>y. outcome_scope y \<noteq> action_scope (er_action (tb_request (vo_binding (rl_outcome r))))) (cm_outcomes c)
        then Inl TcBindingMismatch else Inr ())) (\<lambda>_.
     svc_bind (svc_pure (map_err (\<lambda>_. TcBindingMismatch) (commit_validate c))) (\<lambda>_.
       store_and_check P c))"

section \<open>Services\<close>

definition reconcile_effect ::
  "service_ports \<Rightarrow> principal_id \<Rightarrow> task_effect_binding \<Rightarrow> (port_error, external_effect_evidence) svc" where
  "reconcile_effect P who b =
     (let q = tb_request b in
      svc_bind (authorize P (action_scope (er_action q)) who AuReconcileEffect) (\<lambda>_.
      svc_bind (svc_call (\<lambda>t. executor_reconcile P t q) (SReconcile q)) (\<lambda>evidence.
      svc_bind (svc_pure (map_err (\<lambda>_. PeInvariant) (evidence_validate_for evidence q))) (\<lambda>_.
        svc_pure (Inr evidence)))))"

definition relay_task_result ::
  "service_ports \<Rightarrow> principal_id \<Rightarrow> task_result_relay \<Rightarrow> atomic_process_commit \<Rightarrow>
     (task_composition_error, atomic_process_commit_receipt) svc" where
  "relay_task_result P who r c =
     svc_bind (svc_map_err TcProcess (authorize P (action_scope (er_action (tb_request (vo_binding (rl_outcome r))))) who AuRelayTaskResult))
       (\<lambda>_. relay_commit P r c)"

record task_drive_report =
  td_changed :: bool
  td_status :: task_status
  td_generation :: task_generation

text \<open>The clock is read after the authorization; its answer may depend on the calls so far.\<close>

definition drive_task_once ::
  "nat \<Rightarrow> service_ports \<Rightarrow> ports \<Rightarrow> sha \<Rightarrow> principal_id \<Rightarrow> committed_task_effect \<Rightarrow> (service_trace \<Rightarrow> task_tick) \<Rightarrow>
     task_control \<Rightarrow> service_trace \<Rightarrow> ((task_composition_error + task_drive_report) \<times> task_control) \<times> service_trace" where
  "drive_task_once N P TP sha who ce clock s st =
     (let b = ce_binding ce in
      if p_scope (c_projection s) \<noteq> tb_scope b \<or> p_definition (c_projection s) \<noteq> tb_definition b
      then ((Inl TcBindingMismatch, s), st)
      else
        (case authorize P (action_scope (er_action (tb_request b))) who AuDriveTask st of
           (Inl e, st') \<Rightarrow> ((Inl (TcProcess e), s), st')
         | (Inr _, st') \<Rightarrow>
             (let tick = clock st' in
              case (if p_status (c_projection s) = StRunning then supervisor_poll N TP sha tick s
                    else supervisor_advance N TP sha tick s) of
                (Inl e, s') \<Rightarrow> ((Inl (TcSupervisor e), s'), st')
              | (Inr changed, s') \<Rightarrow>
                  ((Inr \<lparr> td_changed = changed, td_status = p_status (c_projection s'),
                          td_generation = p_generation (c_projection s') \<rparr>, s'), st'))))"

end
