(* ===== verification/Process_Properties.thy ===== *)
theory Process_Properties
  imports Process_Commits
begin

text \<open>
  What the protocol values of a process guarantee: the commit check decides a declarative
  specification, the outcome log is an ordered, duplicate-free sequence that only grows by whole
  valid batches, and a valid commit is exactly what extends it.
\<close>

section \<open>Scopes\<close>

lemma outcome_validate_ok [simp]: "outcome_validate x = Inr ()"
  by (simp add: outcome_validate_def)

lemma action_validate_ok [simp]: "action_validate a = Inr ()"
  by (simp add: action_validate_def)

lemma input_validate_ok [simp]: "input_validate x = Inr ()"
  by (simp add: input_validate_def)

lemma outcome_in_scope:
  "isl (validate_for_scope x s) \<longleftrightarrow> outcome_scope x \<noteq> s"
  by (cases s) (auto simp: validate_for_scope_def outcome_scope_def)

lemma outcome_out_of_scope:
  "po_tenant_id x \<noteq> ps_tenant_id s \<or> po_process_id x \<noteq> ps_process_id s \<or> po_definition_id x \<noteq> ps_definition_id s
     \<or> po_definition_version x \<noteq> ps_definition_version s \<or> po_definition_digest x \<noteq> ps_definition_digest s
   \<longleftrightarrow> outcome_scope x \<noteq> s"
  by (cases s) (auto simp: outcome_scope_def)

lemma action_out_of_scope:
  "pa_tenant_id a \<noteq> po_tenant_id x \<or> pa_process_id a \<noteq> po_process_id x \<or> pa_definition_id a \<noteq> po_definition_id x
     \<or> pa_definition_version a \<noteq> po_definition_version x \<or> pa_definition_digest a \<noteq> po_definition_digest x
   \<longleftrightarrow> action_scope a \<noteq> outcome_scope x"
  by (auto simp: outcome_scope_def action_scope_def)

lemma action_scope_mismatch:
  "pa_tenant_id a \<noteq> ps_tenant_id s \<or> pa_process_id a \<noteq> ps_process_id s \<or> pa_definition_id a \<noteq> ps_definition_id s
     \<or> pa_definition_version a \<noteq> ps_definition_version s \<or> pa_definition_digest a \<noteq> ps_definition_digest s
   \<longleftrightarrow> action_scope a \<noteq> s"
  by (cases s) (auto simp: action_scope_def)

lemma same_effect_key_iff: "same_effect_key a b \<longleftrightarrow> effect_key_of a = effect_key_of b"
  by (auto simp: same_effect_key_def effect_key_of_def)

section \<open>Contiguous sequences\<close>

text \<open>The outcomes carry the sequence numbers that follow \<open>n\<close>, within the scope.\<close>

definition numbered :: "process_scope \<Rightarrow> nat \<Rightarrow> process_outcome list \<Rightarrow> bool" where
  "numbered s n xs \<longleftrightarrow>
     map (\<lambda>x. unat (po_sequence x)) xs = [n..<n + length xs] \<and> (\<forall>x\<in>set xs. outcome_scope x = s)"

lemma numbered_simps [simp]:
  "numbered s n []"
  "numbered s n (x # xs) \<longleftrightarrow> unat (po_sequence x) = n \<and> outcome_scope x = s \<and> numbered s (Suc n) xs"
  by (auto simp: numbered_def upt_conv_Cons simp del: upt_Suc)

lemma numbered_append: "numbered s n (xs @ ys) \<longleftrightarrow> numbered s n xs \<and> numbered s (n + length xs) ys"
  by (induction xs arbitrary: n) auto

lemma list_ex_key: "list_ex (\<lambda>y. f y = k) ys \<longleftrightarrow> k \<in> f ` set ys"
  by (induction ys) auto

lemma next_word: "checked_add (k :: u64) 1 = Some k' \<Longrightarrow> unat k' = Suc (unat k)"
  by (simp add: checked_add_Some)

lemma check_outcomes_iff:
  "check_outcomes s k xs = Inr () \<longleftrightarrow>
     numbered s (unat k) xs \<and> distinct (map po_outcome_id xs) \<and> unat k + length xs < 2 ^ 64"
proof (induction xs arbitrary: k)
  case Nil
  show ?case using unat_less_exp [of k] by simp
next
  case (Cons x xs)
  have fresh: "list_ex (\<lambda>y. po_outcome_id y = po_outcome_id x) xs \<longleftrightarrow> po_outcome_id x \<in> po_outcome_id ` set xs"
    by (simp add: list_ex_key)
  show ?case
  proof (cases "checked_add k 1")
    case None
    then have "2 ^ 64 \<le> unat k + length (x # xs)" by (simp add: checked_add_None)
    then show ?thesis using None by simp
  next
    case (Some k')
    note k' = next_word [OF Some]
    show ?thesis
      using Cons.IH [of k'] Some k' by (auto simp: outcome_in_scope fresh word_unat_eq_iff)
  qed
qed

lemma check_page_Cons:
  "check_page_outcomes s k (x # xs) =
     (if outcome_scope x \<noteq> s then Inl PvOutcomeScopeMismatch
      else if po_sequence x \<noteq> k then Inl PvNonContiguousSequence
      else bindR (ok_or PvSequenceOverflow (checked_add k 1)) (\<lambda>k'. check_page_outcomes s k' xs))"
  unfolding check_page_outcomes.simps outcome_out_of_scope by simp

lemma check_page_iff:
  "check_page_outcomes s k xs = Inr k' \<longleftrightarrow> numbered s (unat k) xs \<and> unat k' = unat k + length xs"
proof (induction xs arbitrary: k)
  case Nil
  show ?case by (auto simp: word_unat_eq_iff)
next
  case (Cons x xs)
  show ?case
  proof (cases "checked_add k 1")
    case None
    then have "2 ^ 64 \<le> unat k + length (x # xs)" by (simp add: checked_add_None)
    then have "unat k' \<noteq> unat k + length (x # xs)" using unat_less_exp [of k'] by simp
    then show ?thesis using None unfolding check_page_Cons by simp
  next
    case (Some l)
    then show ?thesis
      using Cons.IH [of l] next_word [OF Some] unfolding check_page_Cons by (auto simp: word_unat_eq_iff)
  qed
qed

lemma check_actions_Cons:
  "check_actions x (a # as) =
     (if action_scope a \<noteq> outcome_scope x then Inl CvActionScopeMismatch
      else if pa_action_id a \<in> pa_action_id ` set as then Inl CvDuplicateActionId
      else if effect_key_of a \<in> effect_key_of ` set as then Inl CvDuplicateActionEffectKey
      else check_actions x as)"
  unfolding check_actions.simps action_out_of_scope list_ex_key same_effect_key_iff eq_commute [of "effect_key_of a"] by simp

lemma check_actions_iff:
  "check_actions x as = Inr () \<longleftrightarrow>
     (\<forall>a\<in>set as. action_scope a = outcome_scope x) \<and> distinct (map pa_action_id as) \<and> distinct (map effect_key_of as)"
proof (induction as)
  case (Cons a as)
  then show ?case unfolding check_actions_Cons by auto
qed simp

section \<open>Commits\<close>

definition input_recorded :: "process_scope \<Rightarrow> process_outcome list \<Rightarrow> process_input \<Rightarrow> bool" where
  "input_recorded s outcomes x \<longleftrightarrow>
     pi_tenant_id x = ps_tenant_id s \<and> pi_process_id x = ps_process_id s
     \<and> (\<exists>y\<in>set outcomes. po_causation_id y = CausedByInput (pi_input_id x))"

text \<open>What may be committed: declaratively, for the scope of the process.\<close>

definition commit_spec :: "process_scope \<Rightarrow> atomic_process_commit \<Rightarrow> bool" where
  "commit_spec s c \<longleftrightarrow>
     cm_outcomes c \<noteq> [] \<and> length (cm_outcomes c) \<le> 128 \<and> length (cm_actions c) \<le> 128
     \<and> numbered s (unat (cm_expected_sequence c)) (cm_outcomes c)
     \<and> unat (cm_expected_sequence c) + length (cm_outcomes c) < 2 ^ 64
     \<and> distinct (map po_outcome_id (cm_outcomes c))
     \<and> (\<forall>a\<in>set (cm_actions c). action_scope a = s)
     \<and> distinct (map pa_action_id (cm_actions c)) \<and> distinct (map effect_key_of (cm_actions c))
     \<and> (\<forall>x. cm_input c = Some x \<longrightarrow> input_recorded s (cm_outcomes c) x)
     \<and> (cm_canonical_source_event_id c \<noteq> None \<longrightarrow> (\<exists>x. cm_input c = Some x \<and> pi_kind x = IkCanonicalEvent))"

lemma numbered_first: "numbered s n xs \<Longrightarrow> xs \<noteq> [] \<Longrightarrow> outcome_scope (hd xs) = s"
  by (cases xs) auto

lemma commit_validate_scope:
  assumes "cm_outcomes c = x # xs"
  shows "commit_validate c = Inr () \<longleftrightarrow> commit_spec (outcome_scope x) c"
proof -
  have recorded: "list_ex (\<lambda>y. po_causation_id y = CausedByInput i) ys \<longleftrightarrow> (\<exists>y\<in>set ys. po_causation_id y = CausedByInput i)" for i ys
    by (simp add: list_ex_iff)
  have scope: "ps_tenant_id (outcome_scope x) = po_tenant_id x" "ps_process_id (outcome_scope x) = po_process_id x"
    by (simp_all add: outcome_scope_def)
  have outs: "check_outcomes (outcome_scope x) (cm_expected_sequence c) (cm_outcomes c) = Inr () \<longleftrightarrow>
      numbered (outcome_scope x) (unat (cm_expected_sequence c)) (cm_outcomes c) \<and> distinct (map po_outcome_id (cm_outcomes c))
      \<and> unat (cm_expected_sequence c) + length (cm_outcomes c) < 2 ^ 64"
    by (rule check_outcomes_iff)
  have first: "commit_validate c =
    (if 128 < length (cm_outcomes c) then Inl CvOutcomeLimitExceeded
     else bindR (check_outcomes (outcome_scope x) (cm_expected_sequence c) (cm_outcomes c)) (\<lambda>_.
        if 128 < length (cm_actions c) then Inl CvActionLimitExceeded
        else bindR (check_actions x (cm_actions c)) (\<lambda>_.
             bindR (commit_check_input x (cm_input c)) (\<lambda>_.
             bindR (case cm_canonical_source_event_id c of
                      None \<Rightarrow> Inr ()
                    | Some _ \<Rightarrow> (case cm_input c of
                         None \<Rightarrow> Inl CvCanonicalSourceWithoutInput
                       | Some x \<Rightarrow> if pi_kind x \<noteq> IkCanonicalEvent then Inl CvCanonicalSourceWithWrongInputKind else Inr ())) (\<lambda>_.
               case cm_input c of
                 Some x \<Rightarrow> if \<not> list_ex (\<lambda>y. po_causation_id y = CausedByInput (pi_input_id x)) (cm_outcomes c)
                   then Inl CvInputNotCausallyRecorded else Inr ()
               | None \<Rightarrow> Inr ())))))"
    unfolding commit_validate_def MAX_OUTCOMES_PER_ATOMIC_COMMIT_def MAX_ACTIONS_PER_ATOMIC_COMMIT_def
    by (subst assms) simp
  have ne: "cm_outcomes c \<noteq> []" using assms by simp
  show ?thesis
    unfolding first commit_spec_def input_recorded_def commit_check_input_def scope
    using ne
    by (auto simp: result_simps outs check_actions_iff recorded not_less split: option.splits if_splits simp del: check_outcomes.simps)
qed

lemma commit_validate_spec: "commit_validate c = Inr () \<longleftrightarrow> (\<exists>s. commit_spec s c)"
proof (cases "cm_outcomes c")
  case Nil
  then show ?thesis by (simp add: commit_validate_def commit_spec_def)
next
  case (Cons x xs)
  have "s = outcome_scope x" if "commit_spec s c" for s
    using that Cons by (simp add: commit_spec_def)
  then show ?thesis using commit_validate_scope [OF Cons] by blast
qed

section \<open>The outcome log\<close>

inductive log_run :: "process_scope \<Rightarrow> outcome_log \<Rightarrow> bool" for s where
  new: "log_run s (log_new s)"
| append: "log_run s lg \<Longrightarrow> log_append lg xs = (res, lg') \<Longrightarrow> log_run s lg'"

definition log_inv :: "process_scope \<Rightarrow> outcome_log \<Rightarrow> bool" where
  "log_inv s lg \<longleftrightarrow>
     lg_scope lg = s \<and> numbered s 0 (lg_outcomes lg) \<and> distinct (map po_outcome_id (lg_outcomes lg))
     \<and> lg_seen_outcome_ids lg = po_outcome_id ` set (lg_outcomes lg) \<and> length (lg_outcomes lg) \<le> 4096"

text \<open>The batches that a log takes.\<close>

definition extends :: "outcome_log \<Rightarrow> process_outcome list \<Rightarrow> bool" where
  "extends lg xs \<longleftrightarrow>
     numbered (lg_scope lg) (length (lg_outcomes lg)) xs
     \<and> distinct (map po_outcome_id (lg_outcomes lg @ xs)) \<and> length (lg_outcomes lg @ xs) \<le> 4096"

definition extended :: "outcome_log \<Rightarrow> process_outcome list \<Rightarrow> outcome_log" where
  "extended lg xs =
     lg\<lparr>lg_outcomes := lg_outcomes lg @ xs, lg_seen_outcome_ids := lg_seen_outcome_ids lg \<union> po_outcome_id ` set xs\<rparr>"

lemma check_batch_Cons:
  "check_batch lg k ids (x # xs) =
     (if outcome_scope x \<noteq> lg_scope lg then Inl LvScopeMismatch
      else if po_sequence x \<noteq> k then Inl LvNonContiguousSequence
      else if po_outcome_id x \<in> lg_seen_outcome_ids lg \<or> po_outcome_id x \<in> ids then Inl LvDuplicateOutcomeId
      else bindR (ok_or LvSequenceOverflow (checked_add k 1)) (\<lambda>k'. check_batch lg k' (insert (po_outcome_id x) ids) xs))"
  unfolding check_batch.simps outcome_out_of_scope by simp

lemma check_batch_iff:
  "unat k + length xs < 2 ^ 64 \<Longrightarrow>
   check_batch lg k ids xs = Inr ids' \<longleftrightarrow>
     numbered (lg_scope lg) (unat k) xs \<and> distinct (map po_outcome_id xs)
     \<and> po_outcome_id ` set xs \<inter> (lg_seen_outcome_ids lg \<union> ids) = {} \<and> ids' = ids \<union> po_outcome_id ` set xs"
proof (induction xs arbitrary: k ids)
  case Nil
  show ?case by auto
next
  case (Cons x xs)
  then obtain k' where k: "checked_add k 1 = Some k'" by (cases "checked_add k 1") (auto simp: checked_add_None)
  note k' = next_word [OF k]
  have bound: "unat k' + length xs < 2 ^ 64" using Cons.prems k' by simp
  show ?case
    using Cons.IH [OF bound, of "insert (po_outcome_id x) ids"] k k' unfolding check_batch_Cons
    by (auto simp: word_unat_eq_iff)
qed

lemma log_append_cases:
  assumes inv: "log_inv s lg"
  shows "extends lg xs \<Longrightarrow> log_append lg xs = (Inr (), extended lg xs)"
    and "\<not> extends lg xs \<Longrightarrow> \<exists>e. log_append lg xs = (Inl e, lg)"
proof -
  let ?n = "length (lg_outcomes lg)"
  have seen: "lg_seen_outcome_ids lg = po_outcome_id ` set (lg_outcomes lg)" and dist: "distinct (map po_outcome_id (lg_outcomes lg))"
    and n: "?n \<le> 4096" using inv by (simp_all add: log_inv_def)
  have word: "unat (of_nat ?n :: u64) = ?n" using n by (simp add: unat_of_nat take_bit_nat_eq_self)
  have fresh: "distinct (map po_outcome_id (lg_outcomes lg @ xs)) \<longleftrightarrow>
      distinct (map po_outcome_id xs) \<and> po_outcome_id ` set xs \<inter> lg_seen_outcome_ids lg = {}"
    using dist by (auto simp: seen)
  have batch: "check_batch lg (of_nat ?n) {} xs = Inr ids \<longleftrightarrow> extends lg xs \<and> ids = po_outcome_id ` set xs"
    if "?n + length xs \<le> 4096" for ids
    using that check_batch_iff [of "of_nat ?n" xs lg "{}" ids] unfolding extends_def fresh by (simp add: word)
  have single: "log_append_one lg x (of_nat ?n) = (if extends lg [x] then (Inr (), extended lg [x]) else (fst (log_append_one lg x (of_nat ?n)), lg))"
    "\<not> extends lg [x] \<Longrightarrow> isl (fst (log_append_one lg x (of_nat ?n)))"
    if "?n + 1 \<le> 4096" "xs = [x]" for x
    using that fresh by (auto simp: log_append_one_def extends_def extended_def outcome_in_scope word_unat_eq_iff word)
  have "?n + length xs \<le> 4096 \<and> extends lg xs \<longleftrightarrow> extends lg xs" by (auto simp: extends_def)
  moreover have "log_append lg xs = (Inr (), extended lg xs)" if "extends lg xs" "?n + length xs \<le> 4096"
  proof (cases "\<exists>x. xs = [x]")
    case True
    then show ?thesis using that single(1) by (auto simp: log_append_def MAX_OUTCOMES_PER_REPLAY_LOG_def)
  next
    case False
    have "check_batch lg (of_nat ?n) {} xs = Inr (po_outcome_id ` set xs)" using batch that by blast
    then show ?thesis using False that
      by (auto simp: log_append_def MAX_OUTCOMES_PER_REPLAY_LOG_def extended_def Let_def split: list.splits)
  qed
  ultimately show "extends lg xs \<Longrightarrow> log_append lg xs = (Inr (), extended lg xs)" by blast
  show "\<exists>e. log_append lg xs = (Inl e, lg)" if no: "\<not> extends lg xs"
  proof (cases "?n + length xs \<le> 4096")
    case False
    then show ?thesis by (simp add: log_append_def MAX_OUTCOMES_PER_REPLAY_LOG_def)
  next
    case True
    show ?thesis
    proof (cases "\<exists>x. xs = [x]")
      case single_x: True
      then obtain x where x: "xs = [x]" by blast
      then have "log_append_one lg x (of_nat ?n) = (fst (log_append_one lg x (of_nat ?n)), lg)"
        "isl (fst (log_append_one lg x (of_nat ?n)))"
        using single [of x] True no by auto
      then show ?thesis using x True
        by (cases "fst (log_append_one lg x (of_nat ?n))") (auto simp: log_append_def MAX_OUTCOMES_PER_REPLAY_LOG_def)
    next
      case False
      obtain e where "check_batch lg (of_nat ?n) {} xs = Inl e"
        using batch [OF True] no by (cases "check_batch lg (of_nat ?n) {} xs") auto
      then show ?thesis using False True
        by (auto simp: log_append_def MAX_OUTCOMES_PER_REPLAY_LOG_def Let_def split: list.splits)
    qed
  qed
qed

lemma extended_inv: "log_inv s lg \<Longrightarrow> extends lg xs \<Longrightarrow> log_inv s (extended lg xs)"
  by (auto simp: log_inv_def extends_def extended_def numbered_append)

lemma log_run_inv: "log_run s lg \<Longrightarrow> log_inv s lg"
proof (induction rule: log_run.induct)
  case new
  then show ?case by (simp add: log_inv_def log_new_def)
next
  case (append lg xs res lg')
  then show ?case using log_append_cases [OF append.IH, of xs] extended_inv [OF append.IH, of xs] by (cases "extends lg xs") auto
qed

lemma log_new_inv: "log_inv s (log_new s)"
  by (simp add: log_inv_def log_new_def)

lemma extends_append: "log_inv s lg \<Longrightarrow> extends lg (xs @ ys) \<longleftrightarrow> extends lg xs \<and> extends (extended lg xs) ys"
  by (auto simp: extends_def extended_def numbered_append)

lemma extended_append: "extended lg (xs @ ys) = extended (extended lg xs) ys"
  by (simp add: extended_def Un_assoc image_Un)

lemma log_append_Inr: "log_inv s lg \<Longrightarrow> log_append lg xs = (Inr (), lg') \<longleftrightarrow> extends lg xs \<and> lg' = extended lg xs"
  using log_append_cases [of s lg xs] by (cases "extends lg xs") auto

lemma log_rebuilt:
  assumes "log_inv s lg"
  shows "log_from_ordered s (lg_outcomes lg) = Inr lg"
proof -
  have "extends (log_new s) (lg_outcomes lg)" "extended (log_new s) (lg_outcomes lg) = lg"
    using assms by (auto simp: log_inv_def extends_def extended_def log_new_def)
  then show ?thesis using log_append_cases(1) [OF log_new_inv] by (simp add: log_from_ordered_def)
qed

section \<open>Recovery decisions\<close>

text \<open>A canonical effect is retried only after its authoritative absence and the consistency horizon.\<close>

lemma window_retry_iff:
  "window_disposition_at w a now = Inr (RdRetry i) \<longleftrightarrow>
     rw_result w = CrNotCommitted (action_scope a) i \<and> i = pa_action_id a \<and> rw_consistency_until w \<le> now"
  by (cases "rw_result w")
     (auto simp: window_disposition_at_def window_validate_for_action_def reconciliation_validate_for_action_def
       Let_def not_less result_simps split: if_splits)

lemma window_retry_safe:
  "window_disposition_at w a now = Inr (RdRetry i) \<Longrightarrow> require_retry_safe_at w now = Inr i"
  by (auto simp: window_retry_iff require_retry_safe_at_def)

lemma evidence_retry_iff:
  "evidence_disposition_at e q now = Inr EdRetry \<longleftrightarrow>
     ee_state e = EsKnownFailure \<and> \<not> effect_request_is_expired_at q now
     \<and> ee_action_id e = pa_action_id (er_action q) \<and> ee_effect_key e = effect_key_of (er_action q)
     \<and> er_effect_key q = effect_key_of (er_action q)"
  by (cases "ee_state e")
     (auto simp: evidence_disposition_at_def evidence_validate_for_def effect_request_validate_def result_simps split: if_splits)

section \<open>A small commit\<close>

definition ex_scope :: process_scope where
  "ex_scope = \<lparr> ps_tenant_id = TenantId ''tnt_a'', ps_process_id = ProcessId ''prc_a'', ps_definition_id = DefinitionId ''def_a'',
     ps_definition_version = DefinitionVersion ''dfv_1'', ps_definition_digest = digest_fill 1 \<rparr>"

definition ex_outcome :: "u64 \<Rightarrow> string \<Rightarrow> process_outcome" where
  "ex_outcome n i = outcome_new ex_scope n
     \<lparr> pf_outcome_id = OutcomeId i, pf_causation_id = CausedByInput (InputId ''inp_a''), pf_actor = System, pf_occurred_at = 9,
       pf_kind = OkInputAccepted, pf_payload_digest = digest_fill 2 \<rparr>"

definition ex_commit :: atomic_process_commit where
  "ex_commit = \<lparr> cm_expected_sequence = 0,
     cm_input = Some \<lparr> pi_tenant_id = TenantId ''tnt_a'', pi_process_id = ProcessId ''prc_a'', pi_input_id = InputId ''inp_a'',
       pi_kind = IkTimerFired, pi_payload_digest = digest_fill 3 \<rparr>,
     cm_canonical_source_event_id = None, cm_outcomes = [ex_outcome 0 ''out_a'', ex_outcome 1 ''out_b''],
     cm_actions = [action_new ex_scope (ActionId ''act_a'') (StepId ''stp_a'') 1 TimerKind (digest_fill 4)] \<rparr>"

lemma ex_outcome_simps [simp]:
  "outcome_scope (ex_outcome n i) = ex_scope" "po_sequence (ex_outcome n i) = n" "po_outcome_id (ex_outcome n i) = OutcomeId i"
  "po_causation_id (ex_outcome n i) = CausedByInput (InputId ''inp_a'')"
  by (simp_all add: ex_outcome_def outcome_new_def outcome_scope_def ex_scope_def)

lemma ex_commit_spec: "commit_spec ex_scope ex_commit"
  by (simp add: commit_spec_def ex_commit_def input_recorded_def action_new_def action_scope_def)
     (simp add: ex_scope_def)

section \<open>Claims\<close>

definition receipt_spec :: "atomic_process_commit_receipt \<Rightarrow> atomic_process_commit \<Rightarrow> bool" where
  "receipt_spec r c \<longleftrightarrow>
     unat (cr_committed_through_sequence r) + 1 = unat (cm_expected_sequence c) + length (cm_outcomes c)
     \<and> (cr_duplicate_input r \<longrightarrow> cm_input c \<noteq> None)"

lemma receipt_iff:
  "commit_receipt_validate_for r c = Inr () \<longleftrightarrow> commit_validate c = Inr () \<and> receipt_spec r c"
proof (cases "commit_validate c")
  case (Inr u)
  then obtain s where "commit_spec s c" using commit_validate_spec [of c] by (cases u) auto
  then have n: "cm_outcomes c \<noteq> []" "length (cm_outcomes c) \<le> 128" by (simp_all add: commit_spec_def)
  have "checked_add (cm_expected_sequence c) (of_nat (length (cm_outcomes c) - 1)) = Some x \<longleftrightarrow>
      unat x + 1 = unat (cm_expected_sequence c) + length (cm_outcomes c)" for x
  proof -
    have "unat (of_nat (length (cm_outcomes c) - 1) :: u64) = length (cm_outcomes c) - 1"
      using n(2) by (simp add: unat_of_nat take_bit_nat_eq_self)
    then show ?thesis using n(1) by (cases "cm_outcomes c") (auto simp: checked_add_Some)
  qed
  then show ?thesis using Inr by (auto simp: commit_receipt_validate_for_def receipt_spec_def Let_def)
next
  case (Inl e)
  then show ?thesis by (simp add: commit_receipt_validate_for_def)
qed

text \<open>
  C29. The commit check decides its specification: a batch is accepted exactly when it holds between
  one and 128 outcomes and at most 128 actions of one process scope, the outcomes carry distinct
  identities and the sequence numbers from the expected one on without overflow, actions differ
  pairwise in identity and in semantic effect, an accepted input belongs to the process and causes
  an outcome, and a canonical source event comes with a canonical-event input. A receipt is accepted
  exactly when the batch is and the receipt names its last sequence number.
\<close>
theorem commit_accepted_iff:
  "(commit_validate c = Inr () \<longleftrightarrow> (\<exists>s. commit_spec s c))
   \<and> (commit_receipt_validate_for r c = Inr () \<longleftrightarrow> (\<exists>s. commit_spec s c) \<and> receipt_spec r c)"
  using commit_validate_spec receipt_iff by blast

text \<open>
  C30. The outcome log is an ordered set of outcomes and appending is atomic. From an empty log, through any
  calls of \<open>append\<close>, failed ones included, the log holds outcomes of its scope numbered 0, 1, 2 and so on,
  with distinct identities, at most 4096. A batch is appended as a whole exactly when it continues the
  log, otherwise the log is unchanged; appending in two pieces is the same as appending at once; and
  rebuilding from the stored outcomes, as deserialisation does, gives back the same log.
\<close>
theorem outcome_log_is_atomic:
  assumes "log_run s lg" and "log_append lg xs = (res, lg')"
  shows "log_inv s lg'
    \<and> (if extends lg xs then res = Inr () \<and> lg' = extended lg xs else res \<noteq> Inr () \<and> lg' = lg)
    \<and> log_from_ordered s (lg_outcomes lg') = Inr lg'
    \<and> (log_append lg (xs @ ys) = (Inr (), lg2) \<longleftrightarrow> res = Inr () \<and> log_append lg' ys = (Inr (), lg2))"
proof -
  note inv = log_run_inv [OF assms(1)]
  have inv': "log_inv s lg'" by (rule log_run_inv [OF log_run.append [OF assms]])
  have append: "if extends lg xs then res = Inr () \<and> lg' = extended lg xs else res \<noteq> Inr () \<and> lg' = lg"
    using log_append_cases [OF inv, of xs] assms(2) by auto
  then have "log_append lg (xs @ ys) = (Inr (), lg2) \<longleftrightarrow> res = Inr () \<and> log_append lg' ys = (Inr (), lg2)"
    using log_append_Inr [OF inv] log_append_Inr [OF inv'] extends_append [OF inv, of xs ys] extended_append [of lg xs ys]
    by (auto split: if_splits)
  then show ?thesis using inv' append log_rebuilt [OF inv'] by blast
qed

theorem outcome_log_is_atomic_witness:
  "log_append (log_new ex_scope) [ex_outcome 0 ''out_a'', ex_outcome 1 ''out_a''] = (Inl LvDuplicateOutcomeId, log_new ex_scope)
   \<and> log_inv ex_scope (log_new ex_scope)"
proof -
  have run: "log_append (log_new ex_scope) [ex_outcome 0 ''out_a'', ex_outcome 1 ''out_a''] = (Inl LvDuplicateOutcomeId, log_new ex_scope)"
    by (simp add: log_append_def MAX_OUTCOMES_PER_REPLAY_LOG_def check_batch_Cons log_new_def checked_add_def del: check_batch.simps(2))
  show ?thesis using outcome_log_is_atomic [OF log_run.new run] run by blast
qed

text \<open>
  A committed batch continues the log: if a batch passes the commit check for the scope and the next
  sequence of a reachable log, brings new outcome identities and fits, then the log takes all of its
  outcomes, a valid receipt names the sequence just before the next one of the grown log, and the
  batch passes the check of a replay page read from its expected sequence.
\<close>
theorem committed_outcomes_extend_log:
  assumes "log_run s lg" and "commit_validate c = Inr ()" and "outcome_scope (hd (cm_outcomes c)) = s"
    and "cm_expected_sequence c = log_next_sequence lg"
    and "po_outcome_id ` set (cm_outcomes c) \<inter> lg_seen_outcome_ids lg = {}"
    and "length (lg_outcomes lg) + length (cm_outcomes c) \<le> MAX_OUTCOMES_PER_REPLAY_LOG"
    and "commit_receipt_validate_for r c = Inr ()"
  shows "\<exists>lg'. log_append lg (cm_outcomes c) = (Inr (), lg') \<and> lg_outcomes lg' = lg_outcomes lg @ cm_outcomes c
      \<and> unat (log_next_sequence lg') = unat (cr_committed_through_sequence r) + 1
      \<and> page_validate \<lparr> pg_scope = s, pg_from_sequence = cm_expected_sequence c, pg_outcomes = cm_outcomes c,
           pg_next_sequence = None \<rparr> = Inr ()"
proof -
  note inv = log_run_inv [OF assms(1)]
  obtain s' where "commit_spec s' c" using assms(2) commit_validate_spec by blast
  then have c: "numbered s (unat (cm_expected_sequence c)) (cm_outcomes c)" "distinct (map po_outcome_id (cm_outcomes c))"
    "unat (cm_expected_sequence c) + length (cm_outcomes c) < 2 ^ 64" "length (cm_outcomes c) \<le> 128"
    using assms(3) numbered_first by (auto simp: commit_spec_def)
  have word: "unat (of_nat n :: u64) = n" if "n \<le> 4096" for n using that by (simp add: unat_of_nat take_bit_nat_eq_self)
  have room: "length (lg_outcomes lg) + length (cm_outcomes c) \<le> 4096" using assms(6) by (simp add: MAX_OUTCOMES_PER_REPLAY_LOG_def)
  have n: "unat (cm_expected_sequence c) = length (lg_outcomes lg)"
    using assms(4) word room by (simp add: log_next_sequence_def)
  have ext: "extends lg (cm_outcomes c)"
    using c(1,2) n room inv assms(5) by (auto simp: extends_def log_inv_def)
  let ?lg = "extended lg (cm_outcomes c)"
  have "unat (log_next_sequence ?lg) = length (lg_outcomes lg) + length (cm_outcomes c)"
    using word [OF room] room by (simp add: log_next_sequence_def extended_def del: of_nat_add)
  moreover have "receipt_spec r c" using assms(7) receipt_iff by blast
  ultimately have through: "unat (log_next_sequence ?lg) = unat (cr_committed_through_sequence r) + 1"
    using n by (simp add: receipt_spec_def)
  have "check_page_outcomes s (cm_expected_sequence c) (cm_outcomes c)
      = Inr (of_nat (length (lg_outcomes lg) + length (cm_outcomes c)))"
    using c(1) n word [OF room] by (simp add: check_page_iff del: of_nat_add)
  then have "page_validate \<lparr> pg_scope = s, pg_from_sequence = cm_expected_sequence c, pg_outcomes = cm_outcomes c,
           pg_next_sequence = None \<rparr> = Inr ()"
    using c(4) by (simp add: page_validate_def MAX_OUTCOMES_PER_READ_PAGE_def)
  then show ?thesis using log_append_cases(1) [OF inv ext] through by (auto simp: extended_def)
qed

theorem committed_outcomes_extend_log_witness:
  "\<exists>lg'. log_append (log_new ex_scope) (cm_outcomes ex_commit) = (Inr (), lg') \<and> lg_outcomes lg' = cm_outcomes ex_commit
     \<and> unat (log_next_sequence lg') = 2"
proof -
  let ?r = "\<lparr> cr_committed_through_sequence = 1, cr_duplicate_input = False \<rparr>"
  have v: "commit_validate ex_commit = Inr ()" using ex_commit_spec commit_validate_spec by blast
  have "receipt_spec ?r ex_commit" by (simp add: receipt_spec_def ex_commit_def)
  then have r: "commit_receipt_validate_for ?r ex_commit = Inr ()" using v receipt_iff by blast
  have "outcome_scope (hd (cm_outcomes ex_commit)) = ex_scope" "cm_expected_sequence ex_commit = log_next_sequence (log_new ex_scope)"
    "po_outcome_id ` set (cm_outcomes ex_commit) \<inter> lg_seen_outcome_ids (log_new ex_scope) = {}"
    "length (lg_outcomes (log_new ex_scope)) + length (cm_outcomes ex_commit) \<le> MAX_OUTCOMES_PER_REPLAY_LOG"
    by (simp_all add: ex_commit_def log_new_def log_next_sequence_def MAX_OUTCOMES_PER_REPLAY_LOG_def)
  from committed_outcomes_extend_log [OF log_run.new v this r] show ?thesis by (auto simp: log_new_def)
qed

end
