(* ===== verification/Process_Services_Properties.thy ===== *)
theory Process_Services_Properties
  imports Process_Services Process_Properties "HOL-Library.Multiset"
begin

text \<open>
  The integration calls: the indexed duplicate check agrees with the plain loop on every batch, a
  lease is acknowledged only after its verified delivery, whatever the ports answer, and the
  identity of a timer input depends on the timer alone.
\<close>

section \<open>The duplicate check of a batch\<close>

definition least_of :: "nat set \<Rightarrow> nat option" where
  "least_of S = (if S = {} then None else Some (Min S))"

lemma iter_min_set: "iter_min xs = least_of (set xs)"
  by (simp add: iter_min_def least_of_def)

lemma least_of_union:
  assumes "finite A" "finite B"
  shows "least_of (A \<union> B) =
    iter_min ((case least_of A of None \<Rightarrow> [] | Some i \<Rightarrow> [i]) @ (case least_of B of None \<Rightarrow> [] | Some i \<Rightarrow> [i]))"
  using assms by (auto simp: least_of_def iter_min_def Min_Un)

lemma find_conflict_None: "find_conflict C k xs = None \<longleftrightarrow> (\<forall>j<length xs. \<forall>i<j. \<not> C (xs ! i) (xs ! j))"
proof (induction xs arbitrary: k)
  case (Cons x xs)
  have "(\<forall>j<length (x # xs). \<forall>i<j. \<not> C ((x # xs) ! i) ((x # xs) ! j)) \<longleftrightarrow>
      (\<forall>j<length xs. \<not> C x (xs ! j)) \<and> (\<forall>j<length xs. \<forall>i<j. \<not> C (xs ! i) (xs ! j))"
    by (simp add: All_less_Suc2) blast
  then show ?case using Cons.IH [of "k + 1"] by (simp add: list_ex_length)
qed simp

lemma find_conflict_Some:
  "find_conflict C k xs = Some m \<Longrightarrow>
     \<exists>i j. m = k + i \<and> i < j \<and> j < length xs \<and> C (xs ! i) (xs ! j) \<and> (\<forall>i' j'. i' < i \<and> i' < j' \<and> j' < length xs \<longrightarrow> \<not> C (xs ! i') (xs ! j'))"
proof (induction xs arbitrary: k)
  case (Cons x xs)
  show ?case
  proof (cases "list_ex (C x) xs")
    case True
    then obtain j where "j < length xs" "C x (xs ! j)" by (auto simp: list_ex_iff in_set_conv_nth)
    then show ?thesis using Cons.prems True by (intro exI [of _ 0] exI [of _ "Suc j"]) auto
  next
    case False
    then have none: "\<not> C x (xs ! j)" if "j < length xs" for j using that by (auto simp: list_ex_iff)
    from False Cons.prems obtain i j where ij: "m = k + 1 + i" "i < j" "j < length xs" "C (xs ! i) (xs ! j)"
      "\<And>i' j'. i' < i \<Longrightarrow> i' < j' \<Longrightarrow> j' < length xs \<Longrightarrow> \<not> C (xs ! i') (xs ! j')"
      using Cons.IH [of "k + 1"] by auto
    have "\<not> C ((x # xs) ! i') ((x # xs) ! j')" if "i' < Suc i" "i' < j'" "j' < length (x # xs)" for i' j'
      using that none ij(5) by (cases i'; cases j') auto
    then show ?thesis using ij by (intro exI [of _ "Suc i"] exI [of _ "Suc j"]) auto
  qed
qed simp

definition conflicting :: "('a \<Rightarrow> 'a \<Rightarrow> bool) \<Rightarrow> 'a list \<Rightarrow> nat set" where
  "conflicting C xs = {i. i < length xs \<and> (\<exists>j<length xs. j \<noteq> i \<and> C (xs ! i) (xs ! j))}"

lemma conflicting_finite: "finite (conflicting C xs)"
  by (simp add: conflicting_def)

lemma find_conflict_least:
  assumes sym: "\<And>x y. C x y \<Longrightarrow> C y x"
  shows "find_conflict C 0 xs = least_of (conflicting C xs)"
proof (cases "find_conflict C 0 xs")
  case None
  have "\<not> C (xs ! i) (xs ! j)" if "i < length xs" "j < length xs" "j \<noteq> i" for i j
    using None that sym by (metis find_conflict_None linorder_neqE_nat)
  then have "conflicting C xs = {}" by (auto simp: conflicting_def)
  then show ?thesis using None by (simp add: least_of_def)
next
  case (Some m)
  from find_conflict_Some [OF this] obtain j where m: "m < j" "j < length xs" "C (xs ! m) (xs ! j)"
    "\<And>i' j'. i' < m \<Longrightarrow> i' < j' \<Longrightarrow> j' < length xs \<Longrightarrow> \<not> C (xs ! i') (xs ! j')" by auto
  have "m \<in> conflicting C xs" using m by (auto simp: conflicting_def)
  moreover have "m \<le> i" if i: "i \<in> conflicting C xs" for i
  proof (rule ccontr)
    assume less: "\<not> m \<le> i"
    obtain k where k: "k < length xs" "k \<noteq> i" "C (xs ! i) (xs ! k)" using i by (auto simp: conflicting_def)
    show False
    proof (cases "i < k")
      case True
      then show ?thesis using m(4) [of i k] k less by simp
    next
      case False
      then show ?thesis using m(4) [of k i] sym [OF k(3)] k less i by (simp add: conflicting_def)
    qed
  qed
  ultimately have "Min (conflicting C xs) = m" using conflicting_finite by (intro Min_eqI) auto
  then show ?thesis using Some \<open>m \<in> conflicting C xs\<close> by (auto simp: least_of_def)
qed

text \<open>Neighbours of a list sorted by name, in whatever order equal names come.\<close>

lemma adjacent_duplicates_simps:
  "adjacent_duplicates [] = []" "adjacent_duplicates [x] = []"
  "adjacent_duplicates (x # y # zs) = (if fst x = fst y then [snd x, snd y] else []) @ adjacent_duplicates (y # zs)"
  by (simp_all add: adjacent_duplicates_def)

lemma adjacent_duplicates_set:
  "sorted (map fst names) \<Longrightarrow> distinct (map snd names) \<Longrightarrow>
     set (adjacent_duplicates names) = {i. \<exists>a j. (a, i) \<in> set names \<and> (a, j) \<in> set names \<and> j \<noteq> i}"
proof (induction names)
  case (Cons x names)
  show ?case
  proof (cases names)
    case Nil
    then show ?thesis by (cases x) (auto simp: adjacent_duplicates_simps)
  next
    case (Cons y zs)
    obtain a i b j where xy: "x = (a, i)" "y = (b, j)" by (cases x; cases y)
    have IH: "set (adjacent_duplicates names) = {i. \<exists>a j. (a, i) \<in> set names \<and> (a, j) \<in> set names \<and> j \<noteq> i}"
      using Cons.IH Cons.prems by simp
    have fresh: "(c, i) \<notin> set names" for c using Cons.prems(2) xy(1) by (force simp: image_iff)
    show ?thesis
    proof (cases "a = b")
      case True
      have "i \<noteq> j" using fresh Cons xy(2) by auto
      then have "{k. \<exists>c m. (c, k) \<in> set (x # names) \<and> (c, m) \<in> set (x # names) \<and> m \<noteq> k}
          = {i, j} \<union> {k. \<exists>c m. (c, k) \<in> set names \<and> (c, m) \<in> set names \<and> m \<noteq> k}"
        using fresh True Cons xy by auto
      then show ?thesis using IH True xy Cons by (simp add: adjacent_duplicates_simps)
    next
      case False
      have "a < c" if "(c, k) \<in> set names" for c k
      proof -
        have "a \<le> b" "b \<le> c" using Cons.prems(1) that xy Cons by (auto simp: image_iff)
        then show ?thesis using False by auto
      qed
      then have "{k. \<exists>c m. (c, k) \<in> set (x # names) \<and> (c, m) \<in> set (x # names) \<and> m \<noteq> k}
          = {k. \<exists>c m. (c, k) \<in> set names \<and> (c, m) \<in> set names \<and> m \<noteq> k}"
        using xy(1) by fastforce
      then show ?thesis using IH False xy Cons by (simp add: adjacent_duplicates_simps)
    qed
  qed
qed (simp add: adjacent_duplicates_simps)

lemma sorted_names_conflicts:
  assumes "mset names = mset (map (\<lambda>(i, l). (f l, i)) (zip [0..<length ls] ls))" "sorted (map fst names)"
  shows "set (adjacent_duplicates names) = conflicting (\<lambda>x y. f x = f y) ls"
proof -
  let ?indexed = "map (\<lambda>(i, l). (f l, i)) (zip [0..<length ls] ls)"
  have "set names = set ?indexed" using assms(1) by (rule mset_eq_setD)
  also have "\<dots> = {(f (ls ! i), i) |i. i < length ls}" by (force simp: set_zip image_iff)
  finally have names: "(a, i) \<in> set names \<longleftrightarrow> i < length ls \<and> a = f (ls ! i)" for a i by auto
  have "map snd ?indexed = [0..<length ls]" by (simp add: comp_def split_beta)
  then have "distinct (map snd ?indexed)" by (simp only: distinct_upt)
  moreover have "mset (map snd names) = mset (map snd ?indexed)" using assms(1) by (simp only: mset_map)
  ultimately have "distinct (map snd names)" using mset_eq_imp_distinct_iff by blast
  from adjacent_duplicates_set [OF assms(2) this] show ?thesis by (auto simp: names conflicting_def)
qed

lemma first_duplicate_plain:
  "first_duplicate_index ls identity = find_conflict (same_identity identity) 0 ls"
proof (cases "length ls \<le> 16 \<or> 128 < length ls")
  case True
  then show ?thesis by (simp add: first_duplicate_index_def)
next
  case False
  let ?names = "sort_key fst (map (\<lambda>(i, l). (fst (identity l), i)) (zip [0..<length ls] ls))"
  have "set (adjacent_duplicates ?names) = conflicting (\<lambda>x y. fst (identity x) = fst (identity y)) ls"
    by (rule sorted_names_conflicts) simp_all
  then have names: "iter_min (adjacent_duplicates ?names) = least_of (conflicting (\<lambda>x y. fst (identity x) = fst (identity y)) ls)"
    by (simp add: iter_min_set)
  have "find_conflict (\<lambda>a b. b = a) 0 (map (\<lambda>l. snd (identity l)) ls)
      = least_of (conflicting (\<lambda>a b. b = a) (map (\<lambda>l. snd (identity l)) ls))"
    by (rule find_conflict_least) simp
  also have "conflicting (\<lambda>a b. b = a) (map (\<lambda>l. snd (identity l)) ls) = conflicting (\<lambda>x y. snd (identity x) = snd (identity y)) ls"
    by (auto simp: conflicting_def)
  finally have tokens: "find_conflict (\<lambda>a b. b = a) 0 (map (\<lambda>l. snd (identity l)) ls)
      = least_of (conflicting (\<lambda>x y. snd (identity x) = snd (identity y)) ls)" .
  have "find_conflict (same_identity identity) 0 ls = least_of (conflicting (same_identity identity) ls)"
    by (rule find_conflict_least) (auto simp: same_identity_def)
  also have "conflicting (same_identity identity) ls =
      conflicting (\<lambda>x y. fst (identity x) = fst (identity y)) ls \<union> conflicting (\<lambda>x y. snd (identity x) = snd (identity y)) ls"
    by (auto simp: conflicting_def same_identity_def)
  finally show ?thesis
    unfolding first_duplicate_index_def Let_def names tokens least_of_union [OF conflicting_finite conflicting_finite]
    using False by simp
qed

lemma find_conflict_ge: "find_conflict C k xs = Some m \<Longrightarrow> k \<le> m"
  using find_conflict_Some by fastforce

lemma validate_indexed_plain:
  "validate_indexed (find_conflict (same_identity identity) k ls) validate k ls = validate_small identity validate ls"
proof (induction ls arbitrary: k)
  case (Cons l ls)
  have "find_conflict (same_identity identity) (k + 1) ls \<noteq> Some k" using find_conflict_ge by fastforce
  then show ?case using Cons.IH [of "k + 1"] by (cases "validate l") auto
qed simp

lemma validate_batch_plain: "validate_batch ls identity validate = validate_small identity validate ls"
  by (simp add: validate_batch_def first_duplicate_plain validate_indexed_plain)

lemma validate_small_iff:
  "validate_small identity validate ls = Inr () \<longleftrightarrow>
     (\<forall>l\<in>set ls. validate l = Inr ()) \<and> distinct (map (\<lambda>l. fst (identity l)) ls) \<and> distinct (map (\<lambda>l. snd (identity l)) ls)"
proof (induction ls)
  case (Cons l ls)
  have "list_ex (same_identity identity l) ls \<longleftrightarrow>
      fst (identity l) \<in> (\<lambda>l. fst (identity l)) ` set ls \<or> snd (identity l) \<in> (\<lambda>l. snd (identity l)) ` set ls"
    by (auto simp: list_ex_iff same_identity_def)
  then show ?case using Cons.IH by (auto simp: result_simps split: if_splits)
qed simp

section \<open>Accepted batches\<close>

definition lease_claimed :: "outbox_claim_request \<Rightarrow> logical_time \<Rightarrow> outbox_lease \<Rightarrow> bool" where
  "lease_claimed q now l \<longleftrightarrow>
     action_scope (ob_action (ol_record l)) = oc_scope q \<and> ol_owner l = oc_owner q \<and> now \<le> ol_lease_expires_at l
     \<and> ob_acknowledgement (ol_record l) = AckPending \<and> ob_delivery_attempt (ol_record l) < 64"

definition batch_claimed :: "outbox_claim_request \<Rightarrow> logical_time \<Rightarrow> outbox_lease list \<Rightarrow> bool" where
  "batch_claimed q now ls \<longleftrightarrow>
     length ls \<le> unat (nz_get (oc_limit q)) \<and> (\<forall>l\<in>set ls. lease_claimed q now l)
     \<and> distinct (map (\<lambda>l. pa_action_id (ob_action (ol_record l))) ls) \<and> distinct (map ol_token ls)"

lemma action_str_inject [simp]: "action_str a = action_str b \<longleftrightarrow> a = b"
  by (cases a; cases b) simp

lemma small_claim_plain:
  "check_small_claim q now ls = validate_small outbox_identity (\<lambda>l.
      bindR (outbox_lease_validate_for_claim_at l q now) (\<lambda>_.
        if ob_acknowledgement (ol_record l) \<noteq> AckPending then Inl PeInvariant else Inr ())) ls"
proof (induction ls)
  case (Cons l ls)
  have "list_ex (\<lambda>m. pa_action_id (ob_action (ol_record m)) = pa_action_id (ob_action (ol_record l)) \<or> ol_token m = ol_token l) ls
      \<longleftrightarrow> list_ex (same_identity outbox_identity l) ls"
    by (simp add: list_ex_iff same_identity_def outbox_identity_def) metis
  then show ?case using Cons.IH by (cases "outbox_lease_validate_for_claim_at l q now") auto
qed simp

lemma check_claim_plain:
  "check_claim q now ls = validate_small outbox_identity (\<lambda>l.
      bindR (outbox_lease_validate_for_claim_at l q now) (\<lambda>_.
        if ob_acknowledgement (ol_record l) \<noteq> AckPending then Inl PeInvariant else Inr ())) ls"
  by (simp add: check_claim_def small_claim_plain validate_batch_plain)

lemma lease_claimed_iff:
  "bindR (outbox_lease_validate_for_claim_at l q now) (\<lambda>_.
      if ob_acknowledgement (ol_record l) \<noteq> AckPending then Inl PeInvariant else Inr ()) = Inr () \<longleftrightarrow>
   outbox_claim_validate q = Inr () \<and> lease_claimed q now l"
  unfolding outbox_lease_validate_for_claim_at_def outbox_lease_validate_for_claim_def action_scope_mismatch Let_def
  by (auto simp: result_simps outbox_lease_validate_def outbox_record_validate_def outbox_lease_validate_at_def
      outbox_lease_is_expired_at_def lease_claimed_def MAX_OUTBOX_DELIVERY_ATTEMPTS_def not_less not_le split: if_splits)

lemma check_claim_iff:
  assumes "outbox_claim_validate q = Inr ()" "length ls \<le> unat (nz_get (oc_limit q))"
  shows "check_claim q now ls = Inr () \<longleftrightarrow> batch_claimed q now ls"
  using assms by (simp add: check_claim_plain validate_small_iff lease_claimed_iff batch_claimed_def outbox_identity_def
      distinct_map inj_on_def)

definition timer_claimed :: "timer_claim_request \<Rightarrow> timer_lease \<Rightarrow> bool" where
  "timer_claimed q l \<longleftrightarrow>
     action_scope (ts_action (tl_timer l)) = tc_scope q \<and> pa_kind (ts_action (tl_timer l)) = TimerKind
     \<and> tl_owner l = tc_owner q \<and> ts_due_at (tl_timer l) \<le> tc_now q \<and> tc_now q \<le> tl_lease_expires_at l"

definition timers_claimed :: "timer_claim_request \<Rightarrow> timer_lease list \<Rightarrow> bool" where
  "timers_claimed q ls \<longleftrightarrow>
     length ls \<le> unat (nz_get (tc_limit q)) \<and> (\<forall>l\<in>set ls. timer_claimed q l)
     \<and> distinct (map (\<lambda>l. pa_action_id (ts_action (tl_timer l))) ls) \<and> distinct (map tl_token ls)"

lemma small_timers_plain:
  "check_small_timers q ls = validate_small timer_lease_identity (\<lambda>l. timer_lease_validate_for_claim l q) ls"
proof (induction ls)
  case (Cons l ls)
  have "list_ex (\<lambda>m. pa_action_id (ts_action (tl_timer m)) = pa_action_id (ts_action (tl_timer l)) \<or> tl_token m = tl_token l) ls
      \<longleftrightarrow> list_ex (same_identity timer_lease_identity l) ls"
    by (simp add: list_ex_iff same_identity_def timer_lease_identity_def) metis
  then show ?case using Cons.IH by simp
qed simp

lemma check_timers_plain:
  "check_timers q ls = validate_small timer_lease_identity (\<lambda>l. timer_lease_validate_for_claim l q) ls"
  by (simp add: check_timers_def small_timers_plain validate_batch_plain)

lemma timer_claimed_iff:
  "timer_lease_validate_for_claim l q = Inr () \<longleftrightarrow> timer_claim_validate q = Inr () \<and> timer_claimed q l"
proof -
  have "timer_lease_validate_for_claim l q =
     bindR (timer_claim_validate q) (\<lambda>_.
     bindR (map_err (\<lambda>_. PeInvariant) (timer_validate (tl_timer l))) (\<lambda>_.
       if action_scope (ts_action (tl_timer l)) \<noteq> tc_scope q \<or> tl_owner l \<noteq> tc_owner q \<or> tc_now q < ts_due_at (tl_timer l)
       then Inl PeInvariant
       else if tl_lease_expires_at l < tc_now q then Inl PeTimedOut
       else Inr ()))"
    unfolding timer_lease_validate_for_claim_def Let_def action_scope_mismatch [symmetric] by (simp add: disj_assoc)
  then show ?thesis
    by (auto simp: result_simps timer_validate_def timer_claimed_def not_less split: if_splits)
qed

lemma check_timers_iff:
  assumes "timer_claim_validate q = Inr ()" "length ls \<le> unat (nz_get (tc_limit q))"
  shows "check_timers q ls = Inr () \<longleftrightarrow> timers_claimed q ls"
  using assms by (simp add: check_timers_plain validate_small_iff timer_claimed_iff timers_claimed_def timer_lease_identity_def
      distinct_map inj_on_def)

section \<open>Traces of a dispatch\<close>

text \<open>What one step of a service does, by the answer it gets.\<close>

lemma svc_call_step:
  "svc_bind (svc_map_err f (svc_call port entry)) g t =
     (case port t of Inl e \<Rightarrow> (Inl (f e), t @ [entry (Inl e)]) | Inr x \<Rightarrow> g x (t @ [entry (Inr x)]))"
  by (simp add: svc_bind_def svc_map_err_def svc_call_def Let_def split: sum.splits)

lemma svc_plain_call_step:
  "svc_bind (svc_call port entry) g t =
     (case port t of Inl e \<Rightarrow> (Inl e, t @ [entry (Inl e)]) | Inr x \<Rightarrow> g x (t @ [entry (Inr x)]))"
  by (simp add: svc_bind_def svc_call_def Let_def split: sum.splits)

lemma svc_check_step:
  "svc_bind (svc_pure (map_err f r)) g t = (case r of Inl e \<Rightarrow> (Inl (f e), t) | Inr x \<Rightarrow> g x t)"
  by (simp add: svc_bind_def svc_pure_def split: sum.splits)

lemma svc_pure_step: "svc_bind (svc_pure r) g t = (case r of Inl e \<Rightarrow> (Inl e, t) | Inr x \<Rightarrow> g x t)"
  by (simp add: svc_bind_def svc_pure_def split: sum.splits)

lemma svc_map_err_step: "svc_bind (svc_map_err f m) g t = (case m t of (Inl e, t') \<Rightarrow> (Inl (f e), t') | (Inr x, t') \<Rightarrow> g x t')"
  by (simp add: svc_bind_def svc_map_err_def split: prod.splits sum.splits)

lemma svc_call_run: "svc_call port entry t = (port t, t @ [entry (port t)])"
  by (simp add: svc_call_def Let_def)

lemma svc_pure_run: "svc_pure r t = (r, t)"
  by (simp add: svc_pure_def)

lemma svc_if: "(if b then m else m') t = (if b then m t else m' t)" for m m' :: "('e, 'a) svc"
  by simp

lemmas svc_steps = svc_call_step svc_plain_call_step svc_check_step svc_if

text \<open>
  A loop that handles leases one by one: a handled lease leaves its exact calls in the trace and
  advances the report, and the first that cannot be handled ends the loop.
\<close>

locale delivery_loop =
  fixes one :: "'r \<Rightarrow> 'l \<Rightarrow> ('e, 'r) svc" and loop :: "'r \<Rightarrow> 'l list \<Rightarrow> ('e, 'r) svc"
    and handed :: "'l \<Rightarrow> service_trace \<Rightarrow> bool" and stopped :: "'l \<Rightarrow> 'r \<Rightarrow> 'e \<Rightarrow> service_trace \<Rightarrow> bool"
    and counts :: "nat \<Rightarrow> 'r \<Rightarrow> bool"
  assumes loop_Nil: "loop r [] t = (Inr r, t)"
    and loop_Cons: "loop r (l # ls) t = svc_bind (one r l) (\<lambda>r'. loop r' ls) t"
    and one_handed: "one r l t = (Inr r', t') \<Longrightarrow> \<exists>calls. t' = t @ calls \<and> handed l calls"
    and one_counts: "one r l t = (Inr r', t') \<Longrightarrow> counts n r \<Longrightarrow> Suc n < 2 ^ 16 \<Longrightarrow> counts (Suc n) r'"
    and one_stopped: "one r l t = (Inl e, t') \<Longrightarrow> \<exists>calls. t' = t @ calls \<and> stopped l r e calls"
begin

lemma loop_shape:
  assumes "loop r ls t = (res, t')" "counts n r" "n + length ls < 2 ^ 16"
  shows "\<exists>runs rest. t' = t @ concat runs @ rest \<and> length runs \<le> length ls
    \<and> list_all2 handed (take (length runs) ls) runs
    \<and> (case res of
         Inr r' \<Rightarrow> length runs = length ls \<and> rest = [] \<and> counts (n + length runs) r'
       | Inl e \<Rightarrow> length runs < length ls
           \<and> (\<exists>partial. counts (n + length runs) partial \<and> stopped (ls ! length runs) partial e rest))"
  using assms
proof (induction ls arbitrary: r n t)
  case Nil
  then show ?case by (intro exI [of _ "[]"]) (auto simp: loop_Nil)
next
  case (Cons l ls)
  show ?case
  proof (cases "one r l t")
    case (Pair res1 t1)
    show ?thesis
    proof (cases res1)
      case (Inl e)
      then obtain calls where "t1 = t @ calls" "stopped l r e calls" using one_stopped Pair by blast
      moreover have "res = Inl e" "t' = t1" using Cons.prems(1) Pair Inl by (simp_all add: loop_Cons svc_bind_def)
      ultimately show ?thesis using Cons.prems(2) by (intro exI [of _ "[]"] exI [of _ calls]) auto
    next
      case (Inr r')
      then obtain calls where calls: "t1 = t @ calls" "handed l calls" using one_handed Pair by blast
      have "loop r' ls t1 = (res, t')" using Cons.prems(1) Pair Inr by (simp add: loop_Cons svc_bind_def)
      moreover have "counts (Suc n) r'" using one_counts Pair Inr Cons.prems(2,3) by simp
      ultimately obtain runs rest where IH: "t' = t1 @ concat runs @ rest" "length runs \<le> length ls"
        "list_all2 handed (take (length runs) ls) runs"
        "case res of
           Inr r' \<Rightarrow> length runs = length ls \<and> rest = [] \<and> counts (Suc n + length runs) r'
         | Inl e \<Rightarrow> length runs < length ls
             \<and> (\<exists>partial. counts (Suc n + length runs) partial \<and> stopped (ls ! length runs) partial e rest)"
        using Cons.IH [of r' t1 "Suc n"] Cons.prems(3) by auto
      show ?thesis
        using IH calls by (intro exI [of _ "calls # runs"] exI [of _ rest]) (auto split: sum.splits)
    qed
  qed
qed

lemma loop_from_start:
  assumes "loop r ls (t @ start) = (res, t')" "counts 0 r" "length ls < 2 ^ 16"
  shows "\<exists>runs rest. t' = t @ start @ concat runs @ rest
    \<and> list_all2 handed (take (length runs) ls) runs
    \<and> (case res of
         Inr r' \<Rightarrow> length runs = length ls \<and> rest = [] \<and> counts (length ls) r'
       | Inl e \<Rightarrow> length runs < length ls
           \<and> (\<exists>partial. counts (length runs) partial \<and> stopped (ls ! length runs) partial e rest))"
proof -
  obtain runs rest where "t' = (t @ start) @ concat runs @ rest" "list_all2 handed (take (length runs) ls) runs"
    "case res of
       Inr r' \<Rightarrow> length runs = length ls \<and> rest = [] \<and> counts (0 + length runs) r'
     | Inl e \<Rightarrow> length runs < length ls
         \<and> (\<exists>partial. counts (0 + length runs) partial \<and> stopped (ls ! length runs) partial e rest)"
    using loop_shape [OF assms(1,2)] assms(3) by auto
  then show ?thesis by (intro exI [of _ runs] exI [of _ rest]) (cases res; auto)
qed

end

text \<open>The calls for one lease that was delivered and acknowledged.\<close>

definition handed :: "outbox_lease \<Rightarrow> action_dispatch_receipt \<Rightarrow> service_trace \<Rightarrow> bool" where
  "handed l r calls \<longleftrightarrow>
     (\<exists>t0 t1. calls = [SNow (Inr t0), SDispatch (ob_action (ol_record l)) (Inr r), SNow (Inr t1), SAcknowledge l t1 (Inr ())]
        \<and> outbox_lease_validate_at l t0 = Inr () \<and> action_receipt_validate_for r (ob_action (ol_record l)) = Inr ())"

definition delivered_report :: "dispatch_report \<Rightarrow> action_dispatch_receipt \<Rightarrow> dispatch_report" where
  "delivered_report report r =
     (let report1 = report\<lparr>dr_delivered := saturating_add (dr_delivered report) 1\<rparr> in
      if ar_duplicate r then report1\<lparr>dr_duplicate_deliveries := saturating_add (dr_duplicate_deliveries report1) 1\<rparr> else report1)"

definition acknowledged_report :: "dispatch_report \<Rightarrow> dispatch_report" where
  "acknowledged_report report = report\<lparr>dr_acknowledged := saturating_add (dr_acknowledged report) 1\<rparr>"

text \<open>The ways in which the handling of one lease can stop, with the calls made and the report given.\<close>

inductive dispatch_stopped :: "outbox_lease \<Rightarrow> dispatch_report \<Rightarrow> dispatch_error \<Rightarrow> service_trace \<Rightarrow> bool" for l report where
  no_time: "dispatch_stopped l report (dispatch_fail DsClock report e) [SNow (Inl e)]"
| expired: "outbox_lease_validate_at l t0 = Inl e \<Longrightarrow>
    dispatch_stopped l report (dispatch_fail DsValidate report e) [SNow (Inr t0)]"
| refused: "outbox_lease_validate_at l t0 = Inr () \<Longrightarrow>
    dispatch_stopped l report (dispatch_fail DsDispatch report e) [SNow (Inr t0), SDispatch (ob_action (ol_record l)) (Inl e)]"
| mismatched: "outbox_lease_validate_at l t0 = Inr () \<Longrightarrow> action_receipt_validate_for r (ob_action (ol_record l)) = Inl x \<Longrightarrow>
    dispatch_stopped l report (dispatch_fail DsReceipt report PeInvariant)
      [SNow (Inr t0), SDispatch (ob_action (ol_record l)) (Inr r)]"
| no_ack_time: "outbox_lease_validate_at l t0 = Inr () \<Longrightarrow> action_receipt_validate_for r (ob_action (ol_record l)) = Inr () \<Longrightarrow>
    dispatch_stopped l report (dispatch_fail DsClock (delivered_report report r) e)
      [SNow (Inr t0), SDispatch (ob_action (ol_record l)) (Inr r), SNow (Inl e)]"
| unacknowledged: "outbox_lease_validate_at l t0 = Inr () \<Longrightarrow> action_receipt_validate_for r (ob_action (ol_record l)) = Inr () \<Longrightarrow>
    dispatch_stopped l report (dispatch_fail DsAcknowledge (delivered_report report r) e)
      [SNow (Inr t0), SDispatch (ob_action (ol_record l)) (Inr r), SNow (Inr t1), SAcknowledge l t1 (Inl e)]"

lemma dispatch_one_shape:
  assumes run: "dispatch_one P report l t = (res, t')"
  shows "\<exists>calls. t' = t @ calls \<and> (case res of
      Inr report' \<Rightarrow> \<exists>r. handed l r calls \<and> report' = acknowledged_report (delivered_report report r)
    | Inl e \<Rightarrow> dispatch_stopped l report e calls)"
  using run unfolding dispatch_one_def Let_def svc_steps svc_pure_run
  by (auto simp: handed_def acknowledged_report_def delivered_report_def Let_def split: sum.splits
      intro: dispatch_stopped.intros [unfolded delivered_report_def Let_def])

text \<open>A report after \<open>n\<close> complete deliveries.\<close>

definition reports :: "u16 \<Rightarrow> nat \<Rightarrow> dispatch_report \<Rightarrow> bool" where
  "reports claimed n report \<longleftrightarrow>
     dr_claimed report = claimed \<and> unat (dr_delivered report) = n \<and> unat (dr_acknowledged report) = n"

lemma saturating_Suc: "unat x = n \<Longrightarrow> Suc n < 2 ^ 16 \<Longrightarrow> unat (saturating_add (x :: u16) 1) = Suc n"
  by (simp add: saturating_add_def unat_word_ariths)

lemma reports_next:
  assumes "reports c n report" "Suc n < 2 ^ 16"
  shows "reports c (Suc n) (acknowledged_report (delivered_report report r))"
  using assms by (simp add: reports_def acknowledged_report_def delivered_report_def Let_def saturating_Suc)

interpretation dispatching:
  delivery_loop "dispatch_one P" "dispatch_loop P" "\<lambda>l calls. \<exists>r. handed l r calls" dispatch_stopped "reports c"
  for P c
proof
  fix r l t r' t' n
  assume one: "dispatch_one P r l t = (Inr r', t')"
  from dispatch_one_shape [OF one] show "\<exists>calls. t' = t @ calls \<and> (\<exists>r. handed l r calls)" by auto
  assume "reports c n r" "Suc n < 2 ^ 16"
  then show "reports c (Suc n) r'" using dispatch_one_shape [OF one] reports_next by auto
next
  fix r l t e t'
  assume "dispatch_one P r l t = (Inl e, t')"
  from dispatch_one_shape [OF this] show "\<exists>calls. t' = t @ calls \<and> dispatch_stopped l r e calls" by simp
qed (simp_all add: svc_pure_run)

definition authorization_of :: "process_scope \<Rightarrow> principal_id \<Rightarrow> process_authorization_operation \<Rightarrow> process_authorization_request" where
  "authorization_of scope who op = \<lparr> aq_scope = scope, aq_principal_id = who, aq_operation = op \<rparr>"

lemma authorize_run:
  "authorize P scope who op t =
     (let aq = authorization_of scope who op; r = authorizer_authorize P t aq
      in (bindR r require_authorized, t @ [SAuthorize aq r]))"
  by (auto simp: authorize_def authorization_of_def svc_plain_call_step svc_pure_run Let_def split: sum.splits)

lemma authorize_step:
  "svc_bind (authorize P scope who op) g t =
     (let aq = authorization_of scope who op; r = authorizer_authorize P t aq; t' = t @ [SAuthorize aq r]
      in case bindR r require_authorized of Inl e \<Rightarrow> (Inl e, t') | Inr u \<Rightarrow> g u t')"
  by (simp add: svc_bind_def authorize_run Let_def split: sum.splits)

lemma authorize_map_step:
  "svc_bind (svc_map_err f (authorize P scope who op)) g t =
     (let aq = authorization_of scope who op; r = authorizer_authorize P t aq; t' = t @ [SAuthorize aq r]
      in case bindR r require_authorized of Inl e \<Rightarrow> (Inl (f e), t') | Inr u \<Rightarrow> g u t')"
  by (simp add: svc_map_err_step authorize_run Let_def split: sum.splits)

lemma require_authorized_iff [simp]: "require_authorized d = Inr u \<longleftrightarrow> d = Authorized"
  by (cases d) (simp_all add: require_authorized_def)

lemma authorized_iff: "bindR r require_authorized = Inr u \<longleftrightarrow> r = Inr Authorized"
  by (auto simp: result_simps)

text \<open>Before anything is claimed the operation has been authorized, and nothing is delivered.\<close>

definition prelude_only :: "process_authorization_request \<Rightarrow> service_trace \<Rightarrow> bool" where
  "prelude_only aq start \<longleftrightarrow>
     (\<forall>c\<in>set start. case c of
        SAuthorize _ _ \<Rightarrow> True | SNow _ \<Rightarrow> True
      | SClaim _ _ \<Rightarrow> SAuthorize aq (Inr Authorized) \<in> set start
      | SClaimDue _ _ \<Rightarrow> SAuthorize aq (Inr Authorized) \<in> set start
      | _ \<Rightarrow> False)"

lemma claim_outbox_shape:
  assumes "claim_outbox P q now t = (res, t')"
  defines "aq \<equiv> authorization_of (oc_scope q) (oc_owner q) AuDispatch"
  shows "case res of
      Inr ls \<Rightarrow> t' = t @ [SAuthorize aq (Inr Authorized), SClaim q (Inr ls)] \<and> batch_claimed q now ls \<and> outbox_claim_validate q = Inr ()
    | Inl e \<Rightarrow> \<exists>start. t' = t @ start \<and> prelude_only aq start"
proof (cases "outbox_claim_validate q")
  case (Inl e)
  then show ?thesis using assms(1) by (auto simp: claim_outbox_def svc_pure_step prelude_only_def)
next
  case valid: (Inr u)
  have run: "claim_outbox P q now t = (let r = authorizer_authorize P t aq; t1 = t @ [SAuthorize aq r] in
      case bindR r require_authorized of
        Inl e \<Rightarrow> (Inl e, t1)
      | Inr _ \<Rightarrow> (case outbox_claim P t1 q of
          Inl e \<Rightarrow> (Inl e, t1 @ [SClaim q (Inl e)])
        | Inr ls \<Rightarrow> (if unat (nz_get (oc_limit q)) < length ls then Inl PeInvariant
            else bindR (check_claim q now ls) (\<lambda>_. Inr ls), t1 @ [SClaim q (Inr ls)])))"
    using valid by (auto simp: claim_outbox_def svc_pure_step svc_plain_call_step svc_pure_run authorize_step aq_def Let_def
        split: sum.splits)
  have "check_claim q now ls = Inr () \<longleftrightarrow> batch_claimed q now ls" if "length ls \<le> unat (nz_get (oc_limit q))" for ls
    using check_claim_iff [OF _ that] valid by simp
  then show ?thesis
    using assms(1) valid unfolding run
    by (auto simp: prelude_only_def result_simps not_less Let_def split: sum.splits if_splits)
qed

lemma claim_small:
  assumes "outbox_claim_validate q = Inr ()" "batch_claimed q now ls"
  shows "length ls \<le> 128"
proof -
  have "unat (nz_get (oc_limit q)) \<le> 128"
    using assms(1) by (simp add: outbox_claim_validate_def MAX_OUTBOX_CLAIM_BATCH_def word_le_nat_alt not_less split: if_splits)
  then show ?thesis using assms(2) by (simp add: batch_claimed_def)
qed

section \<open>Traces of a timer drain\<close>

definition timer_handed ::
  "(byte list \<Rightarrow> digest) \<Rightarrow> (timer_schedule \<Rightarrow> (byte list) option) \<Rightarrow> process_scope \<Rightarrow> timer_lease \<Rightarrow>
     inbox_acceptance_receipt \<Rightarrow> service_trace \<Rightarrow> bool" where
  "timer_handed sha wire scope l r calls \<longleftrightarrow>
     (\<exists>x bytes t. timer_input sha wire l = Inr (x, bytes) \<and> inbox_receipt_validate_for r x = Inr ()
        \<and> calls = [SPutPayload scope (pi_payload_digest x) bytes (Inr (pi_payload_digest x)), SAccept x (Inr r), SNow (Inr t),
             SAcknowledgeTimer l t (Inr ())])"

definition accepted_report :: "timer_drain_report \<Rightarrow> inbox_acceptance_receipt \<Rightarrow> timer_drain_report" where
  "accepted_report report r =
     (if xr_duplicate r then report\<lparr>tr_duplicate_inputs := saturating_add (tr_duplicate_inputs report) 1\<rparr> else report)"

inductive drain_stopped ::
  "(byte list \<Rightarrow> digest) \<Rightarrow> (timer_schedule \<Rightarrow> (byte list) option) \<Rightarrow> process_scope \<Rightarrow> timer_lease \<Rightarrow>
     timer_drain_report \<Rightarrow> timer_drain_error \<Rightarrow> service_trace \<Rightarrow> bool" for sha wire scope l report where
  no_input: "timer_input sha wire l = Inl e \<Longrightarrow> drain_stopped sha wire scope l report (drain_fail TdPayload report e) []"
| not_stored: "timer_input sha wire l = Inr (x, bytes) \<Longrightarrow>
    drain_stopped sha wire scope l report (drain_fail TdPayload report e) [SPutPayload scope (pi_payload_digest x) bytes (Inl e)]"
| other_payload: "timer_input sha wire l = Inr (x, bytes) \<Longrightarrow> d \<noteq> pi_payload_digest x \<Longrightarrow>
    drain_stopped sha wire scope l report (drain_fail TdPayload report PeInvariant) [SPutPayload scope (pi_payload_digest x) bytes (Inr d)]"
| refused: "timer_input sha wire l = Inr (x, bytes) \<Longrightarrow>
    drain_stopped sha wire scope l report (drain_fail TdInbox report e)
      [SPutPayload scope (pi_payload_digest x) bytes (Inr (pi_payload_digest x)), SAccept x (Inl e)]"
| mismatched: "timer_input sha wire l = Inr (x, bytes) \<Longrightarrow> inbox_receipt_validate_for r x = Inl y \<Longrightarrow>
    drain_stopped sha wire scope l report (drain_fail TdInbox report PeInvariant)
      [SPutPayload scope (pi_payload_digest x) bytes (Inr (pi_payload_digest x)), SAccept x (Inr r)]"
| no_time: "timer_input sha wire l = Inr (x, bytes) \<Longrightarrow> inbox_receipt_validate_for r x = Inr () \<Longrightarrow>
    drain_stopped sha wire scope l report (drain_fail TdClock (accepted_report report r) e)
      [SPutPayload scope (pi_payload_digest x) bytes (Inr (pi_payload_digest x)), SAccept x (Inr r), SNow (Inl e)]"
| unacknowledged: "timer_input sha wire l = Inr (x, bytes) \<Longrightarrow> inbox_receipt_validate_for r x = Inr () \<Longrightarrow>
    drain_stopped sha wire scope l report (drain_fail TdAcknowledge (accepted_report report r) e)
      [SPutPayload scope (pi_payload_digest x) bytes (Inr (pi_payload_digest x)), SAccept x (Inr r), SNow (Inr t),
       SAcknowledgeTimer l t (Inl e)]"

lemma drain_one_shape:
  assumes run: "drain_one sha wire P q report l t = (res, t')"
  shows "\<exists>calls. t' = t @ calls \<and> (case res of
      Inr report' \<Rightarrow> \<exists>r. timer_handed sha wire (tc_scope q) l r calls
        \<and> report' = (accepted_report report r)\<lparr>tr_acknowledged := saturating_add (tr_acknowledged (accepted_report report r)) 1\<rparr>
    | Inl e \<Rightarrow> drain_stopped sha wire (tc_scope q) l report e calls)"
proof (cases "timer_input sha wire l")
  case (Inl e)
  then show ?thesis using run by (auto simp: drain_one_def svc_pure_step intro: drain_stopped.intros)
next
  case (Inr xb)
  obtain x bytes where xb: "timer_input sha wire l = Inr (x, bytes)" using Inr by (cases xb) simp
  show ?thesis
    using run unfolding drain_one_def xb svc_check_step sum.case prod.case svc_steps Let_def svc_pure_run
      accepted_report_def [symmetric]
    by (auto simp: timer_handed_def xb split: sum.splits if_splits intro: drain_stopped.intros(2-7) [OF xb])
qed

definition drained :: "u16 \<Rightarrow> nat \<Rightarrow> timer_drain_report \<Rightarrow> bool" where
  "drained claimed n report \<longleftrightarrow> tr_claimed report = claimed \<and> unat (tr_acknowledged report) = n"

lemma drained_next:
  assumes "drained c n report" "Suc n < 2 ^ 16"
  shows "drained c (Suc n) ((accepted_report report r)\<lparr>tr_acknowledged := saturating_add (tr_acknowledged (accepted_report report r)) 1\<rparr>)"
  using assms by (simp add: drained_def accepted_report_def saturating_Suc)

interpretation draining:
  delivery_loop "drain_one sha wire P q" "drain_loop sha wire P q" "\<lambda>l calls. \<exists>r. timer_handed sha wire (tc_scope q) l r calls"
    "drain_stopped sha wire (tc_scope q)" "drained c"
  for sha wire P q c
proof
  fix r l t r' t' n
  assume one: "drain_one sha wire P q r l t = (Inr r', t')"
  from drain_one_shape [OF one] show "\<exists>calls. t' = t @ calls \<and> (\<exists>r. timer_handed sha wire (tc_scope q) l r calls)" by auto
  assume "drained c n r" "Suc n < 2 ^ 16"
  then show "drained c (Suc n) r'" using drain_one_shape [OF one] drained_next by auto
next
  fix r l t e t'
  assume "drain_one sha wire P q r l t = (Inl e, t')"
  from drain_one_shape [OF this] show "\<exists>calls. t' = t @ calls \<and> drain_stopped sha wire (tc_scope q) l r e calls" by simp
qed (simp_all add: svc_pure_run)

lemma drain_opening:
  assumes "drain_timers sha wire P q t = (res, t')"
  defines "aq \<equiv> authorization_of (tc_scope q) (tc_owner q) AuDeliverTimer"
  shows "(\<exists>e start. res = Inl e \<and> t' = t @ start \<and> prelude_only aq start)
    \<or> (\<exists>now leases. timers_claimed (q\<lparr>tc_now := now\<rparr>) leases \<and> length leases \<le> 128
         \<and> drain_loop sha wire P (q\<lparr>tc_now := now\<rparr>)
             \<lparr> tr_claimed = of_nat (length leases), tr_acknowledged = 0, tr_duplicate_inputs = 0 \<rparr> leases
             (t @ [SAuthorize aq (Inr Authorized), SNow (Inr now), SClaimDue (q\<lparr>tc_now := now\<rparr>) (Inr leases)]) = (res, t'))"
proof (cases "timer_claim_validate q")
  case (Inl e)
  then show ?thesis using assms(1) by (auto simp: drain_timers_def Let_def svc_pure_step prelude_only_def)
next
  case valid: (Inr u)
  have v: "timer_claim_validate (q\<lparr>tc_now := now\<rparr>) = Inr ()" for now using valid by (simp add: timer_claim_validate_def)
  have small: "length leases \<le> 128" if "length leases \<le> unat (nz_get (tc_limit q))" for leases :: "timer_lease list"
  proof -
    have "unat (nz_get (tc_limit q)) \<le> 128"
      using valid by (simp add: timer_claim_validate_def MAX_TIMER_CLAIM_BATCH_def word_le_nat_alt not_less split: if_splits)
    then show ?thesis using that by simp
  qed
  let ?r0 = "\<lparr> tr_claimed = 0, tr_acknowledged = 0, tr_duplicate_inputs = 0 \<rparr>"
  define r where "r = authorizer_authorize P t aq"
  show ?thesis
  proof (cases "r = Inr Authorized")
    case False
    then obtain e where "bindR r require_authorized = Inl e" using authorized_iff by (cases "bindR r require_authorized") auto
    then have "res = Inl (drain_fail TdAuthorization ?r0 e)" "t' = t @ [SAuthorize aq r]"
      using assms(1) valid r_def
      by (simp_all add: drain_timers_def Let_def svc_pure_step authorize_map_step aq_def)
    then show ?thesis by (auto simp: prelude_only_def)
  next
    case True
    let ?t1 = "t @ [SAuthorize aq (Inr Authorized)]"
    have run: "drain_timers sha wire P q t = (case clock_now P ?t1 of
        Inl e \<Rightarrow> (Inl (drain_fail TdClock ?r0 e), ?t1 @ [SNow (Inl e)])
      | Inr now \<Rightarrow> (let q' = q\<lparr>tc_now := now\<rparr>; t2 = ?t1 @ [SNow (Inr now)] in
          case timers_claim_due P t2 q' of
            Inl e \<Rightarrow> (Inl (drain_fail TdClaim ?r0 e), t2 @ [SClaimDue q' (Inl e)])
          | Inr leases \<Rightarrow> (let t3 = t2 @ [SClaimDue q' (Inr leases)] in
              if unat (nz_get (tc_limit q)) < length leases \<or> 2 ^ 16 \<le> length leases
              then (Inl (drain_fail TdValidate ?r0 PeInvariant), t3)
              else case check_timers q' leases of
                Inl e \<Rightarrow> (Inl (drain_fail TdValidate (?r0\<lparr>tr_claimed := of_nat (length leases)\<rparr>) e), t3)
              | Inr _ \<Rightarrow> drain_loop sha wire P q' (?r0\<lparr>tr_claimed := of_nat (length leases)\<rparr>) leases t3)))"
      using valid True r_def
      by (auto simp: drain_timers_def Let_def svc_pure_step authorize_map_step svc_call_step svc_pure_run aq_def
          require_authorized_def split: sum.splits)
    have "check_timers (q\<lparr>tc_now := now\<rparr>) leases = Inr () \<longleftrightarrow> timers_claimed (q\<lparr>tc_now := now\<rparr>) leases"
      if "length leases \<le> unat (nz_get (tc_limit q))" for now leases
      using check_timers_iff [OF v, of leases now] that by simp
    then show ?thesis
      using assms(1) small unfolding run Let_def
      by (auto simp: prelude_only_def not_less split: sum.splits if_splits)
  qed
qed

section \<open>Identity of timer inputs\<close>

lemma of_hex_digit: "n < 16 \<Longrightarrow> (of_char (hex_digit n) :: nat) = (if n < 10 then 48 + n else 87 + n)"
  by (simp add: hex_digit_def)

lemma hex_digit_inject:
  assumes "m < 16" "n < 16"
  shows "hex_digit m = hex_digit n \<longleftrightarrow> m = n"
proof
  assume "hex_digit m = hex_digit n"
  then have "(of_char (hex_digit m) :: nat) = of_char (hex_digit n)" by simp
  then show "m = n" unfolding of_hex_digit [OF assms(1)] of_hex_digit [OF assms(2)] using assms by (simp split: if_splits)
qed simp

lemma hex_byte_inject [simp]: "hex_byte a = hex_byte b \<longleftrightarrow> a = b"
proof
  assume eq: "hex_byte a = hex_byte b"
  have small: "unat x div 16 < 16" "unat x mod 16 < 16" for x :: byte
    using unat_less_exp [of x] by (simp_all add: less_mult_imp_div_less)
  have "unat a div 16 = unat b div 16 \<and> unat a mod 16 = unat b mod 16"
    using eq small by (simp add: hex_byte_def hex_digit_inject)
  then have "unat a = unat b" by (metis div_mult_mod_eq)
  then show "a = b" by (simp add: word_unat_eq_iff)
qed simp

lemma hex_bytes_inject: "concat (map hex_byte xs) = concat (map hex_byte ys) \<longleftrightarrow> xs = ys"
proof (induction xs arbitrary: ys)
  case Nil
  show ?case by (cases ys) (simp_all add: hex_byte_def)
next
  case (Cons x xs)
  have "length (hex_byte b) = 2" "hex_byte b \<noteq> []" for b by (simp_all add: hex_byte_def)
  then show ?case using Cons.IH by (cases ys) (simp_all add: append_eq_append_conv)
qed

lemma timer_key_inject:
  assumes "action_wf a" "action_wf b"
  shows "timer_key a = timer_key b \<longleftrightarrow> effect_key_of a = effect_key_of b \<and> pa_action_id a = pa_action_id b"
proof
  assume "timer_key a = timer_key b"
  then show "effect_key_of a = effect_key_of b \<and> pa_action_id a = pa_action_id b"
    using assms
    by (auto simp: timer_key_def action_wf_def scope_wf_def step_wf_def action_scope_def action_effect_key_bytes_def
        canonical_effect_key_bytes_def effect_key_of_def field_inject digest_bytes_inject identifier_append_iff
        tenant_id.expand process_id.expand definition_id.expand definition_version.expand step_id.expand)
next
  assume eq: "effect_key_of a = effect_key_of b \<and> pa_action_id a = pa_action_id b"
  then have "action_effect_key_bytes a = action_effect_key_bytes b"
    by (simp add: action_effect_key_bytes_def effect_key_of_def)
  then show "timer_key a = timer_key b" using eq by (simp add: timer_key_def)
qed

lemma identifier_hex: "n < 16 \<Longrightarrow> identifier_byte (hex_digit n)"
  by (simp add: identifier_byte_def less_eq_char_def of_hex_digit)

lemma hex_identifier:
  assumes "length rest \<le> 60" "list_all identifier_byte rest"
  shows "validate_identifier ''inp_'' (''inp_'' @ rest @ concat (map hex_byte (digest_bytes d)))"
proof -
  let ?hex = "concat (map hex_byte (digest_bytes d))"
  have "length (hex_byte b) = 2" for b by (simp add: hex_byte_def)
  then have "length (concat (map hex_byte bs)) = 2 * length bs" for bs by (induction bs) simp_all
  moreover have "length (digest_bytes d) = 32" for d using digest_bytes [of d] by simp
  ultimately have len: "length ?hex = 64" by simp
  have "list_all identifier_byte (hex_byte b)" for b
    using unat_less_exp [of b] by (simp add: hex_byte_def identifier_hex less_mult_imp_div_less)
  then have "list_all identifier_byte ?hex" by (simp add: list_all_iff)
  then show ?thesis
    using len assms by (simp add: validate_identifier_def MAX_IDENTIFIER_LENGTH_def)
qed

lemma timer_identity_valid: "validate_identifier ''inp_'' (timer_identity sha a)"
  using hex_identifier [of "''timer_''"] by (simp add: timer_identity_def identifier_byte_def less_eq_char_def)

lemma timer_input_run:
  "timer_input sha wire l = (case wire (tl_timer l) of
     None \<Rightarrow> Inl PeInvariant
   | Some bytes \<Rightarrow> Inr (\<lparr> pi_tenant_id = pa_tenant_id (ts_action (tl_timer l)), pi_process_id = pa_process_id (ts_action (tl_timer l)),
       pi_input_id = InputId (timer_identity sha (ts_action (tl_timer l))), pi_kind = IkTimerFired, pi_payload_digest = sha bytes \<rparr>, bytes))"
  by (simp add: timer_input_def input_id_new_def identifier_new_def timer_identity_valid Let_def split: option.splits)

section \<open>A small host\<close>

definition ex_lease :: outbox_lease where
  "ex_lease = \<lparr> ol_record = outbox_record_new (action_new ex_scope (ActionId ''act_a'') (StepId ''stp_a'') 1 TimerKind (digest_fill 4)),
     ol_owner = PrincipalId ''pri_a'', ol_token = OutboxLeaseToken (NonZero 1), ol_lease_expires_at = 9 \<rparr>"

definition ex_timer_lease :: timer_lease where
  "ex_timer_lease = \<lparr> tl_timer = \<lparr> ts_action = ob_action (ol_record ex_lease), ts_due_at = 4 \<rparr>,
     tl_owner = PrincipalId ''pri_a'', tl_token = OutboxLeaseToken (NonZero 1), tl_lease_expires_at = 9 \<rparr>"

definition ex_ports :: service_ports where
  "ex_ports = \<lparr> authorizer_authorize = (\<lambda>_ _. Inr Authorized), clock_now = (\<lambda>_. Inr 5), outbox_claim = (\<lambda>_ _. Inr [ex_lease]),
     dispatcher_dispatch = (\<lambda>_ a. Inr \<lparr> ar_scope = action_scope a, ar_action_id = pa_action_id a, ar_duplicate = False \<rparr>),
     outbox_acknowledge = (\<lambda>_ _ _. Inr ()), timers_claim_due = (\<lambda>_ _. Inr [ex_timer_lease]),
     inbox_put_payload = (\<lambda>_ _ d _. Inr d),
     inbox_accept = (\<lambda>_ x. Inr \<lparr> xr_tenant_id = pi_tenant_id x, xr_process_id = pi_process_id x, xr_input_id = pi_input_id x,
        xr_duplicate = True \<rparr>),
     timers_acknowledge = (\<lambda>_ _ _. Inr ()), executor_reconcile = (\<lambda>_ _. Inl PeUnavailable),
     store_commit = (\<lambda>_ _. Inl PeUnavailable) \<rparr>"

definition ex_claim :: outbox_claim_request where
  "ex_claim = \<lparr> oc_scope = ex_scope, oc_owner = PrincipalId ''pri_a'', oc_limit = NonZero 1 \<rparr>"

definition ex_timer_claim :: timer_claim_request where
  "ex_timer_claim = \<lparr> tc_scope = ex_scope, tc_owner = PrincipalId ''pri_a'', tc_now = 0, tc_limit = NonZero 1 \<rparr>"

lemma ex_action_scope: "action_scope (ob_action (ol_record ex_lease)) = ex_scope"
  by (simp add: ex_lease_def outbox_record_new_def action_new_def action_scope_def)

lemma ex_batch: "batch_claimed ex_claim 5 [ex_lease]" "outbox_claim_validate ex_claim = Inr ()"
  by (simp_all add: batch_claimed_def lease_claimed_def ex_action_scope, simp_all add: ex_lease_def outbox_record_new_def ex_claim_def
      outbox_claim_validate_def MAX_OUTBOX_CLAIM_BATCH_def)

lemma ex_timer_batch: "timers_claimed (ex_timer_claim\<lparr>tc_now := 5\<rparr>) [ex_timer_lease]" "timer_claim_validate ex_timer_claim = Inr ()"
  using ex_action_scope
  by (simp_all add: timers_claimed_def timer_claimed_def ex_timer_lease_def ex_timer_claim_def timer_claim_validate_def
      MAX_TIMER_CLAIM_BATCH_def) (simp add: ex_lease_def outbox_record_new_def action_new_def)

lemma ex_dispatch:
  "\<exists>trace. dispatch_outbox ex_ports ex_claim [] =
     (Inr \<lparr> dr_claimed = 1, dr_delivered = 1, dr_acknowledged = 1, dr_duplicate_deliveries = 0 \<rparr>, trace)"
proof -
  have p: "outbox_claim ex_ports t q = Inr [ex_lease]" "authorizer_authorize ex_ports t aq = Inr Authorized"
    "unat (nz_get (oc_limit ex_claim)) = 1" "oc_scope ex_claim = ex_scope" "oc_owner ex_claim = PrincipalId ''pri_a''" for t q aq
    by (simp_all add: ex_ports_def ex_claim_def)
  have "check_claim ex_claim 5 [ex_lease] = Inr ()" using check_claim_iff [of ex_claim "[ex_lease]" 5] ex_batch by (simp add: batch_claimed_def)
  then have c: "claim_outbox ex_ports ex_claim 5 t = (Inr [ex_lease], t @ [SAuthorize (authorization_of ex_scope (PrincipalId ''pri_a'') AuDispatch)
      (Inr Authorized), SClaim ex_claim (Inr [ex_lease])])" for t
    using ex_batch(2) p
    by (simp add: claim_outbox_def svc_pure_step svc_plain_call_step svc_pure_run authorize_step require_authorized_def Let_def)
  have v: "outbox_lease_validate_at ex_lease 5 = Inr ()"
    by (simp add: outbox_lease_validate_at_def outbox_lease_validate_def outbox_record_validate_def outbox_lease_is_expired_at_def
        ex_lease_def outbox_record_new_def MAX_OUTBOX_DELIVERY_ATTEMPTS_def)
  have o: "\<exists>t'. dispatch_one ex_ports \<lparr> dr_claimed = 1, dr_delivered = 0, dr_acknowledged = 0, dr_duplicate_deliveries = 0 \<rparr> ex_lease t
      = (Inr \<lparr> dr_claimed = 1, dr_delivered = 1, dr_acknowledged = 1, dr_duplicate_deliveries = 0 \<rparr>, t')" for t
    by (simp add: dispatch_one_def svc_steps svc_pure_run svc_pure_step Let_def ex_ports_def v action_receipt_validate_for_def saturating_add_def)
  have "\<exists>t'. dispatch_loop ex_ports \<lparr> dr_claimed = 1, dr_delivered = 0, dr_acknowledged = 0, dr_duplicate_deliveries = 0 \<rparr> [ex_lease] t
      = (Inr \<lparr> dr_claimed = 1, dr_delivered = 1, dr_acknowledged = 1, dr_duplicate_deliveries = 0 \<rparr>, t')" for t
    using o [of t] by (auto simp: svc_bind_def svc_pure_run)
  moreover have "clock_now ex_ports [] = Inr 5" by (simp add: ex_ports_def)
  ultimately show ?thesis by (simp add: dispatch_outbox_def svc_call_run svc_map_err_step c Let_def)
qed

lemma ex_drain:
  "\<exists>trace. drain_timers (\<lambda>_. digest_fill 9) (\<lambda>_. Some [1]) ex_ports ex_timer_claim [] =
     (Inr \<lparr> tr_claimed = 1, tr_acknowledged = 1, tr_duplicate_inputs = 1 \<rparr>, trace)"
proof -
  let ?q = "ex_timer_claim\<lparr>tc_now := 5\<rparr>"
  have "timer_claim_validate ?q = Inr ()" using ex_timer_batch(2) by (simp add: timer_claim_validate_def)
  then have c: "check_timers ?q [ex_timer_lease] = Inr ()"
    using check_timers_iff [of ?q "[ex_timer_lease]"] ex_timer_batch(1) by (simp add: timers_claimed_def)
  have o: "\<exists>t'. drain_one (\<lambda>_. digest_fill 9) (\<lambda>_. Some [1]) ex_ports ?q \<lparr> tr_claimed = 1, tr_acknowledged = 0, tr_duplicate_inputs = 0 \<rparr>
      ex_timer_lease t = (Inr \<lparr> tr_claimed = 1, tr_acknowledged = 1, tr_duplicate_inputs = 1 \<rparr>, t')" for t
    by (simp add: drain_one_def svc_steps svc_pure_run svc_pure_step Let_def ex_ports_def timer_input_run inbox_receipt_validate_for_def saturating_add_def)
  have l: "\<exists>t'. drain_loop (\<lambda>_. digest_fill 9) (\<lambda>_. Some [1]) ex_ports ?q \<lparr> tr_claimed = 1, tr_acknowledged = 0, tr_duplicate_inputs = 0 \<rparr>
      [ex_timer_lease] t = (Inr \<lparr> tr_claimed = 1, tr_acknowledged = 1, tr_duplicate_inputs = 1 \<rparr>, t')" for t
    using o [of t] by (auto simp: svc_bind_def svc_pure_run)
  have p: "clock_now ex_ports t = Inr 5" "authorizer_authorize ex_ports t aq = Inr Authorized"
    "timers_claim_due ex_ports t q = Inr [ex_timer_lease]" "unat (nz_get (tc_limit ex_timer_claim)) = 1" for t aq q
    by (simp_all add: ex_ports_def ex_timer_claim_def)
  show ?thesis
    using l ex_timer_batch(2) c
    by (simp add: drain_timers_def svc_call_step svc_check_step svc_pure_step authorize_map_step p Let_def require_authorized_def)
qed

section \<open>Claims\<close>

text \<open>
  C28. The indexed duplicate check of large batches agrees with the plain quadratic loop on every batch: it finds
  the first lease that shares its action identity or its fencing token with a later one, whatever
  the batch size, and validation of a batch, of claimed outbox leases and of claimed timers gives
  the result of the plain loop, the same error at the same precedence included.
\<close>
theorem batch_check_equals_plain_loop:
  "first_duplicate_index ls identity = find_conflict (same_identity identity) 0 ls
   \<and> validate_batch ls identity validate = validate_small identity validate ls
   \<and> check_claim q now leases = validate_small outbox_identity (\<lambda>l.
        bindR (outbox_lease_validate_for_claim_at l q now) (\<lambda>_.
          if ob_acknowledgement (ol_record l) \<noteq> AckPending then Inl PeInvariant else Inr ())) leases
   \<and> check_timers tq timers = validate_small timer_lease_identity (\<lambda>l. timer_lease_validate_for_claim l tq) timers"
  using first_duplicate_plain validate_batch_plain check_claim_plain check_timers_plain by blast

text \<open>
  C27. An outbox lease is acknowledged only after its delivery was verified. Whatever the ports answer, a dispatch
  either ends before anything is delivered, claiming nothing without an authorization, or it
  claimed a batch of distinct, pending, unexpired leases of the requested scope and owner and then
  handled them in order: each with a fresh time at which the lease was valid, one dispatch of its
  action, a receipt for exactly that action, and one acknowledgement at a fresh time. It stops at the
  first lease for which one of these fails, names that stage, and the report counts exactly the
  leases delivered and acknowledged.
\<close>
theorem dispatch_acknowledges_only_delivered:
  assumes "dispatch_outbox P q t = (res, t')"
  shows "(\<exists>e start. res = Inl e \<and> t' = t @ start \<and> prelude_only (authorization_of (oc_scope q) (oc_owner q) AuDispatch) start)
    \<or> (\<exists>now leases runs rest. batch_claimed q now leases
         \<and> t' = t @ [SNow (Inr now), SAuthorize (authorization_of (oc_scope q) (oc_owner q) AuDispatch) (Inr Authorized),
                SClaim q (Inr leases)] @ concat runs @ rest
         \<and> list_all2 (\<lambda>l calls. \<exists>r. handed l r calls) (take (length runs) leases) runs
         \<and> (case res of
              Inr report \<Rightarrow> length runs = length leases \<and> rest = [] \<and> reports (of_nat (length leases)) (length leases) report
            | Inl e \<Rightarrow> length runs < length leases
                \<and> (\<exists>partial. reports (of_nat (length leases)) (length runs) partial
                     \<and> dispatch_stopped (leases ! length runs) partial e rest)))"
proof -
  let ?aq = "authorization_of (oc_scope q) (oc_owner q) AuDispatch"
  let ?r0 = "\<lparr> dr_claimed = 0, dr_delivered = 0, dr_acknowledged = 0, dr_duplicate_deliveries = 0 \<rparr>"
  show ?thesis
  proof (cases "clock_now P t")
    case (Inl e)
    then show ?thesis using assms by (auto simp: dispatch_outbox_def svc_call_step Let_def prelude_only_def)
  next
    case (Inr now)
    let ?t1 = "t @ [SNow (Inr now)]"
    obtain res1 t2 where claim: "claim_outbox P q now ?t1 = (res1, t2)" by (cases "claim_outbox P q now ?t1")
    show ?thesis
    proof (cases res1)
      case (Inl e)
      then obtain start where start: "t2 = ?t1 @ start" "prelude_only ?aq start" using claim_outbox_shape [OF claim] by auto
      have "res = Inl (dispatch_fail DsClaim ?r0 e)" "t' = t @ SNow (Inr now) # start"
        using assms Inr Inl claim start by (simp_all add: dispatch_outbox_def svc_call_run svc_map_err_step Let_def)
      moreover have "prelude_only ?aq (SNow (Inr now) # start)"
        using start(2) by (auto simp: prelude_only_def split: service_call.splits)
      ultimately show ?thesis by blast
    next
      case leases: (Inr leases)
      have c: "t2 = ?t1 @ [SAuthorize ?aq (Inr Authorized), SClaim q (Inr leases)]" "batch_claimed q now leases"
        "outbox_claim_validate q = Inr ()" using claim_outbox_shape [OF claim] leases by simp_all
      have n: "length leases \<le> 128" by (rule claim_small [OF c(3,2)])
      let ?r1 = "?r0\<lparr>dr_claimed := of_nat (length leases)\<rparr>"
      have loop: "dispatch_loop P ?r1 leases (t @ [SNow (Inr now), SAuthorize ?aq (Inr Authorized), SClaim q (Inr leases)]) = (res, t')"
        using assms Inr leases claim n c(1) by (simp add: dispatch_outbox_def svc_call_run svc_map_err_step Let_def)
      have "reports (of_nat (length leases)) 0 ?r1" "length leases < 2 ^ 16" using n by (simp_all add: reports_def)
      from dispatching.loop_from_start [OF loop this] show ?thesis using c(2) by blast
    qed
  qed
qed

theorem dispatch_acknowledges_only_delivered_witness:
  "\<exists>trace runs. dispatch_outbox ex_ports ex_claim [] =
       (Inr \<lparr> dr_claimed = 1, dr_delivered = 1, dr_acknowledged = 1, dr_duplicate_deliveries = 0 \<rparr>, trace)
     \<and> concat runs = drop 3 trace \<and> (\<forall>calls\<in>set runs. \<exists>l r. handed l r calls)"
proof -
  obtain trace where run: "dispatch_outbox ex_ports ex_claim [] =
      (Inr \<lparr> dr_claimed = 1, dr_delivered = 1, dr_acknowledged = 1, dr_duplicate_deliveries = 0 \<rparr>, trace)"
    using ex_dispatch by blast
  from dispatch_acknowledges_only_delivered [OF run] obtain now leases runs where
    "trace = [SNow (Inr now), SAuthorize (authorization_of (oc_scope ex_claim) (oc_owner ex_claim) AuDispatch) (Inr Authorized),
       SClaim ex_claim (Inr leases)] @ concat runs"
    and all: "list_all2 (\<lambda>l calls. \<exists>r. handed l r calls) (take (length runs) leases) runs" by auto
  moreover have "\<forall>calls\<in>set runs. \<exists>l r. handed l r calls" using list_all2_in2 [OF all] by blast
  ultimately show ?thesis using run by (intro exI [of _ trace] exI [of _ runs]) auto
qed

text \<open>
  A timer lease is acknowledged only after its input was durably accepted. Whatever the ports answer,
  draining either ends before any payload is stored, claiming nothing without an authorization, or
  it claimed distinct due timers of the requested scope and owner at the trusted time and then handled
  them in order: the payload was stored under its digest, the inbox accepted exactly the timer's
  input, and the lease was acknowledged at a fresh time. It stops at the first timer for which one of
  these fails, names that stage, and the report counts exactly the timers acknowledged.
\<close>
theorem drain_acknowledges_only_accepted:
  assumes "drain_timers sha wire P q t = (res, t')"
  shows "(\<exists>e start. res = Inl e \<and> t' = t @ start \<and> prelude_only (authorization_of (tc_scope q) (tc_owner q) AuDeliverTimer) start)
    \<or> (\<exists>now leases runs rest. timers_claimed (q\<lparr>tc_now := now\<rparr>) leases
         \<and> t' = t @ [SAuthorize (authorization_of (tc_scope q) (tc_owner q) AuDeliverTimer) (Inr Authorized), SNow (Inr now),
                SClaimDue (q\<lparr>tc_now := now\<rparr>) (Inr leases)] @ concat runs @ rest
         \<and> list_all2 (\<lambda>l calls. \<exists>r. timer_handed sha wire (tc_scope q) l r calls) (take (length runs) leases) runs
         \<and> (case res of
              Inr report \<Rightarrow> length runs = length leases \<and> rest = [] \<and> drained (of_nat (length leases)) (length leases) report
            | Inl e \<Rightarrow> length runs < length leases
                \<and> (\<exists>partial. drained (of_nat (length leases)) (length runs) partial
                     \<and> drain_stopped sha wire (tc_scope q) (leases ! length runs) partial e rest)))"
  using drain_opening [OF assms]
proof (elim disjE exE conjE)
  fix now and leases :: "timer_lease list"
  let ?r = "\<lparr> tr_claimed = of_nat (length leases), tr_acknowledged = 0, tr_duplicate_inputs = 0 \<rparr>"
  assume c: "timers_claimed (q\<lparr>tc_now := now\<rparr>) leases" and n: "length leases \<le> 128"
    and loop: "drain_loop sha wire P (q\<lparr>tc_now := now\<rparr>) ?r leases
      (t @ [SAuthorize (authorization_of (tc_scope q) (tc_owner q) AuDeliverTimer) (Inr Authorized), SNow (Inr now),
        SClaimDue (q\<lparr>tc_now := now\<rparr>) (Inr leases)]) = (res, t')"
  have "drained (of_nat (length leases)) 0 ?r" "length leases < 2 ^ 16" using n by (simp_all add: drained_def)
  moreover have scope: "tc_scope (q\<lparr>tc_now := now\<rparr>) = tc_scope q" by simp
  ultimately show ?thesis using draining.loop_from_start [OF loop] c unfolding scope by blast
qed auto

theorem drain_acknowledges_only_accepted_witness:
  "\<exists>trace runs. drain_timers (\<lambda>_. digest_fill 9) (\<lambda>_. Some [1]) ex_ports ex_timer_claim [] =
       (Inr \<lparr> tr_claimed = 1, tr_acknowledged = 1, tr_duplicate_inputs = 1 \<rparr>, trace)
     \<and> concat runs = drop 3 trace
     \<and> (\<forall>calls\<in>set runs. \<exists>l r. timer_handed (\<lambda>_. digest_fill 9) (\<lambda>_. Some [1]) ex_scope l r calls)"
proof -
  obtain trace where run: "drain_timers (\<lambda>_. digest_fill 9) (\<lambda>_. Some [1]) ex_ports ex_timer_claim [] =
      (Inr \<lparr> tr_claimed = 1, tr_acknowledged = 1, tr_duplicate_inputs = 1 \<rparr>, trace)"
    using ex_drain by blast
  have scope: "tc_scope ex_timer_claim = ex_scope" by (simp add: ex_timer_claim_def)
  from drain_acknowledges_only_accepted [OF run] obtain now leases runs where
    "trace = [SAuthorize (authorization_of (tc_scope ex_timer_claim) (tc_owner ex_timer_claim) AuDeliverTimer) (Inr Authorized),
       SNow (Inr now), SClaimDue (ex_timer_claim\<lparr>tc_now := now\<rparr>) (Inr leases)] @ concat runs"
    and all: "list_all2 (\<lambda>l calls. \<exists>r. timer_handed (\<lambda>_. digest_fill 9) (\<lambda>_. Some [1]) ex_scope l r calls) (take (length runs) leases) runs"
    unfolding scope by auto
  moreover have "\<forall>calls\<in>set runs. \<exists>l r. timer_handed (\<lambda>_. digest_fill 9) (\<lambda>_. Some [1]) ex_scope l r calls"
    using list_all2_in2 [OF all] by blast
  ultimately show ?thesis using run by (intro exI [of _ trace] exI [of _ runs]) auto
qed

text \<open>
  Redelivery of a timer is recognised, and only redelivery. The input built for a timer lease always has a
  valid identity; it depends on the timer alone, never on owner, token or expiry of the lease; and,
  when SHA-256 does not collide on the two keys, the inputs of two leases have the same identity
  exactly when the leases are for the same action identity and the same semantic effect.
\<close>
theorem timer_redelivery_is_stable:
  assumes "action_wf (ts_action (tl_timer l))" "action_wf (ts_action (tl_timer l'))"
    and "sha (timer_key (ts_action (tl_timer l))) = sha (timer_key (ts_action (tl_timer l'))) \<longrightarrow>
      timer_key (ts_action (tl_timer l)) = timer_key (ts_action (tl_timer l'))"
    and "wire (tl_timer l) = Some bytes" "wire (tl_timer l') = Some bytes'"
  shows "\<exists>x x'. timer_input sha wire l = Inr (x, bytes) \<and> timer_input sha wire l' = Inr (x', bytes')
    \<and> validate_identifier ''inp_'' (input_str (pi_input_id x))
    \<and> (pi_input_id x = pi_input_id x' \<longleftrightarrow>
         effect_key_of (ts_action (tl_timer l)) = effect_key_of (ts_action (tl_timer l'))
         \<and> pa_action_id (ts_action (tl_timer l)) = pa_action_id (ts_action (tl_timer l')))
    \<and> (tl_timer l = tl_timer l' \<longrightarrow> x = x')"
proof -
  have "timer_identity sha (ts_action (tl_timer l)) = timer_identity sha (ts_action (tl_timer l')) \<longleftrightarrow>
      timer_key (ts_action (tl_timer l)) = timer_key (ts_action (tl_timer l'))"
    using assms(3) by (auto simp: timer_identity_def hex_bytes_inject digest_bytes_inject)
  then show ?thesis
    using assms(4,5) timer_key_inject [OF assms(1,2)] timer_identity_valid by (auto simp: timer_input_run)
qed

theorem timer_redelivery_is_stable_witness:
  "\<exists>x x'. timer_input (\<lambda>bs. digest_fill (last bs)) (\<lambda>_. Some []) ex_timer_lease = Inr (x, [])
    \<and> timer_input (\<lambda>bs. digest_fill (last bs)) (\<lambda>_. Some [])
        (ex_timer_lease\<lparr>tl_owner := PrincipalId ''pri_b'', tl_lease_expires_at := 20\<rparr>) = Inr (x', []) \<and> pi_input_id x = pi_input_id x'"
proof -
  have wf: "action_wf (ts_action (tl_timer ex_timer_lease))"
    by (simp add: ex_timer_lease_def ex_lease_def outbox_record_new_def action_wf_def scope_wf_def step_wf_def action_scope_def
        action_new_def ex_scope_def ex_identifier_eval less_eq_char_def)
  show ?thesis
    using timer_redelivery_is_stable [of ex_timer_lease "ex_timer_lease\<lparr>tl_owner := PrincipalId ''pri_b'', tl_lease_expires_at := 20\<rparr>"
        "\<lambda>bs. digest_fill (last bs)" "\<lambda>_. Some []" "[]" "[]"] wf by auto
qed

end
