(* ===== verification/Process_Tasks_Properties.thy ===== *)
theory Process_Tasks_Properties
  imports Process_Tasks Process_Services_Properties Task_Control_Properties
begin

text \<open>
  The join between sagas and tasks: an outbox lease is acknowledged only after the task's intent is
  durable, driving a task is one authorized step of its session, denied services touch nothing, and
  the relayed result has one stable identity that pins what was verified.
\<close>

section \<open>Bindings\<close>

text \<open>A binding whose scope is the one derived from its request and definition.\<close>

definition bound :: "sha \<Rightarrow> task_effect_binding \<Rightarrow> bool" where
  "bound sha b \<longleftrightarrow> task_scope_for_effect sha (tb_request b) (tb_definition b) = Inr (tb_scope b)"

lemma binding_new_bound: "binding_new sha q d = Inr b \<Longrightarrow> bound sha b \<and> tb_request b = q \<and> tb_definition b = d"
  by (auto simp: binding_new_def bound_def bindR_eq_Inr)

lemma bound_iff:
  "bound sha b \<longleftrightarrow> er_effect_key (tb_request b) = effect_key_of (er_action (tb_request b))
     \<and> definition_validate (tb_definition b) = Inr () \<and> pa_kind (er_action (tb_request b)) = ExternalEffectKind
     \<and> tb_scope b = \<lparr> scope_tenant = sha (str_bytes (tenant_str (pa_tenant_id (er_action (tb_request b))))),
         scope_task = sha (effect_key_bytes (er_effect_key (tb_request b))),
         scope_definition = fingerprint sha (tb_definition b), scope_input = pa_payload_digest (er_action (tb_request b)) \<rparr>"
  by (auto simp: bound_def task_scope_for_effect_def effect_request_validate_def action_validate_def digest_of_def result_simps
      split: if_splits)

lemma binding_validate_iff:
  "binding_validate sha b (tb_request b) (tb_definition b) inp = Inr () \<longleftrightarrow>
     bound sha b \<and> length inp \<le> unat (max_input_bytes (budget (tb_definition b))) \<and> sha inp = scope_input (tb_scope b)"
  by (auto simp: binding_validate_def bound_def bindR_eq_Inr digest_of_def not_less)

section \<open>Admission\<close>

lemma interrupt_no_start: "started_generations (snd (interrupt_running P scope q t tr)) = started_generations tr"
  by (auto simp: interrupt_running_def Let_def started_generations_def split: sum.splits)

lemma restore_no_start: "started_generations (snd (supervisor_restore N P sha scope d t tr)) = started_generations tr"
  using restore_loop_reads [of P scope _ tr] interrupt_no_start
  by (auto simp: supervisor_restore_def ctl_restore_def restore_projection_def split: sum.splits prod.splits)
    (metis snd_conv)+

lemma submit_trace:
  "\<exists>calls. c_trace (snd (ctl_submit P sha inp schema t s)) = c_trace s @ calls \<and> started_generations calls = []"
proof -
  have "wp (ctl_submit P sha inp schema t) (\<lambda>_ s'. \<exists>calls. c_trace s' = c_trace s @ calls \<and> started_generations calls = []) s"
    by (auto simp: ctl_submit_def ctl_commit_def wp Let_def started_generations_def split: sum.splits)
      (auto simp: wp_def split: sum.splits)
  then show ?thesis by (auto simp: wp_def split: prod.splits)
qed

lemma submit_input:
  assumes "ctl_submit P sha inp schema t s = (Inr u, s')"
  shows "\<exists>reference. p_input (c_projection s') = Some reference \<and> blob_schema reference = schema
     \<and> p_status (c_projection s') = StPending"
proof -
  have post: "p_input p' = Some blob \<and> p_status p' = StPending"
    if "task_apply p r = Inr p'" "r_event r = IntentCommitted d blob" for p r p' d blob
    using that by (auto elim!: task_applyE simp: apply_intent_Inr)
  have schema: "blob_schema blob = schema" if "mk_blob_ref sha inp schema limit = Inr blob" for blob limit
    using that by (auto simp: mk_blob_ref_def Let_def split: if_splits)
  have "wp (ctl_submit P sha inp schema t) (\<lambda>a s'. a = Inr u \<longrightarrow> (\<exists>reference. p_input (c_projection s') = Some reference
      \<and> blob_schema reference = schema \<and> p_status (c_projection s') = StPending)) s"
    by (auto simp: ctl_submit_def wp map_err_eq_Inr propose_Inr split: sum.splits dest!: schema)
      (auto simp: wp_ctl_commit Let_def split: sum.splits dest: post)
  then show ?thesis using assms by (simp add: wp_def)
qed

text \<open>What a task looks like when the outbox may forget the action.\<close>

definition admitted :: "ports \<Rightarrow> sha \<Rightarrow> task_effect_binding \<Rightarrow> byte list \<Rightarrow> u32 \<Rightarrow> task_control \<Rightarrow> bool" where
  "admitted TP sha b inp schema s \<longleftrightarrow>
     session TP sha (tb_scope b) (tb_definition b) s
     \<and> task_replay sha (tb_scope b) (tb_definition b) (acked (c_trace s)) = Inr (c_projection s)
     \<and> (\<exists>reference. p_input (c_projection s) = Some reference \<and> blob_digest reference = sha inp \<and> blob_schema reference = schema)
     \<and> p_status (c_projection s) \<noteq> StRunning"

lemma replay_input_digest:
  assumes "task_replay sha scope d rs = Inr p" "p_input p = Some reference"
  shows "blob_digest reference = scope_input scope"
  using task_replay_inv [OF assms(1)] task_replay_pins [OF assms(1)] assms(2) by (simp add: task_inv_def blobs_ok_def)

lemma session_replay:
  "session TP sha scope d s \<Longrightarrow> task_replay sha scope d (acked (c_trace s)) = Inr (c_projection s)"
  using session_invariant by (auto simp: session_inv_def)

lemma restored_session:
  assumes "supervisor_restore N TP sha scope d t [] = (Inr s, tr)"
  shows "session TP sha scope d s" "c_trace s = tr" "p_status (c_projection s) \<noteq> StRunning"
  using assms session.restored restore_never_executes
  by (auto simp: supervisor_restore_def split: if_splits)
    (auto simp: ctl_restore_def split: prod.splits sum.splits)

lemma admit_task_shape:
  assumes "admit_task N TP sha b inp schema tick [] = (res, tr)"
    and "sha inp = scope_input (tb_scope b)"
  shows "started_generations tr = [] \<and> (\<forall>s. res = Inr s \<longrightarrow> c_trace s = tr \<and> admitted TP sha b inp schema s)"
proof (cases "supervisor_restore N TP sha (tb_scope b) (tb_definition b) tick []")
  case (Pair r tr1)
  have none: "started_generations tr1 = []"
    using restore_no_start [of N TP sha "tb_scope b" "tb_definition b" tick "[]"] Pair by (simp add: started_generations_def)
  show ?thesis
  proof (cases r)
    case (Inl e)
    then show ?thesis using assms(1) Pair none by (auto simp: admit_task_def)
  next
    case (Inr s)
    note restored = restored_session [OF Pair [unfolded Inr]]
    show ?thesis
    proof (cases "p_status (c_projection s) = StEmpty")
      case True
      obtain a s' where submit: "ctl_submit TP sha inp schema tick s = (a, s')" by fastforce
      have session: "session TP sha (tb_scope b) (tb_definition b) s'" by (rule session.submitted [OF restored(1) submit])
      obtain calls where "c_trace s' = tr1 @ calls" "started_generations calls = []"
        using submit_trace [of TP sha inp schema tick s] submit restored(2) by auto
      then have "started_generations (c_trace s') = []" using none by (simp add: started_generations_def)
      moreover have "admitted TP sha b inp schema s'" if "a = Inr u" for u
        using submit_input [of TP sha inp schema tick s u s'] that submit session session_replay [OF session]
          replay_input_digest [OF session_replay [OF session]] assms(2) by (auto simp: admitted_def)
      ultimately show ?thesis
        using assms(1) Pair Inr True submit by (auto simp: admit_task_def split: sum.splits)
    next
      case False
      then show ?thesis
        using assms Pair Inr none restored session_replay [OF restored(1)] replay_input_digest [OF session_replay [OF restored(1)]]
        by (auto simp: admit_task_def admitted_def other_schema_def split: if_splits option.splits)
    qed
  qed
qed

section \<open>One step of a task\<close>

text \<open>The commits a computation attempts, counted by the shape of its code.\<close>

definition commits :: "trace \<Rightarrow> nat" where
  "commits tr = length (filter (\<lambda>c. case c of CCommit _ _ _ \<Rightarrow> True | _ \<Rightarrow> False) tr)"

definition few :: "nat \<Rightarrow> 'a ctl \<Rightarrow> bool" where
  "few n c \<longleftrightarrow> (\<forall>s. commits (c_trace (snd (c s))) \<le> commits (c_trace s) + n)"

lemma commits_snoc: "commits (tr @ [c]) = commits tr + (case c of CCommit _ _ _ \<Rightarrow> 1 | _ \<Rightarrow> 0)"
  by (simp add: commits_def split: port_call.splits)

lemma few_bind0: "few 0 c \<Longrightarrow> (\<And>x. few n (f x)) \<Longrightarrow> few n (bind c f)"
  unfolding few_def bind_def
  by (auto split: prod.splits sum.splits) (metis le_trans nat_le_iff_add add.right_neutral snd_conv add_le_mono1)+

lemma few_bind1: "few (Suc 0) c \<Longrightarrow> (\<And>x. few 0 (f x)) \<Longrightarrow> few (Suc 0) (bind c f)"
  unfolding few_def bind_def
  by (auto split: prod.splits sum.splits) (metis le_trans add.right_neutral snd_conv)+

lemma few_basic:
  "few n (ret x)" "few n (throw e)" "few n projection" "few n poison" "few n (decision r)" "few n (port a)" "few n ensure_healthy"
  "few n (call_read_blob P scope ref buffer)" "few n (call_start P req)" "few n (call_poll P scope g buffer)"
  "few n (call_acknowledge P scope g ref)" "few n (call_fence P scope g)"
  by (simp_all add: few_def ret_def throw_def projection_def poison_def decision_def port_def ensure_healthy_def call_read_blob_def
      call_start_def call_poll_def call_acknowledge_def call_fence_def Let_def commits_snoc split: prod.splits)

lemma few_call_commit: "few (Suc 0) (call_commit P r blob)"
  by (simp add: few_def call_commit_def Let_def commits_snoc)

lemma few_mono: "few 0 c \<Longrightarrow> few n c"
  unfolding few_def by (metis add.right_neutral le_add1 le_trans)

lemma few_poisoning: "few 0 c \<Longrightarrow> few n (\<lambda>s. case c s of (Inl e, s') \<Rightarrow> (f e, s'\<lparr>c_poisoned := True\<rparr>) | (Inr x, s') \<Rightarrow> (g x, h x s'))"
  if "\<And>x s'. c_trace (h x s') = c_trace s'"
  using that unfolding few_def by (auto split: prod.splits sum.splits) (metis le_add1 le_trans snd_conv)+

lemma few_ctl_commit: "few (Suc 0) (ctl_commit P r blob)"
proof -
  have "few 0 (\<lambda>s. (Inr (), s\<lparr>c_projection := p'\<rparr>))" for p' by (simp add: few_def)
  then show ?thesis
    unfolding ctl_commit_def
    by (intro few_bind0 [OF few_basic(7)] few_bind1 [OF few_call_commit]) (auto intro!: few_bind0 few_basic split: sum.split)
qed

lemma few_ctl_fence: "few n (ctl_fence P scope g)"
  unfolding ctl_fence_def by (auto intro!: few_bind0 few_basic split: sum.split)

lemma few_read_verified: "few n (read_verified P sha scope ref schema buffer)"
  unfolding read_verified_def by (auto intro!: few_bind0 few_basic split: prod.split)

lemma few_dispatch: "few n (ctl_dispatch P sha input_buffer checkpoint_buffer)"
  unfolding ctl_dispatch_def by (auto intro!: few_bind0 few_basic few_read_verified split: option.split)

lemma few_reject: "few n (reject_live_proposal P e)"
proof -
  have fenced: "few n (\<lambda>s. case ctl_fence P sc g s of (Inl failure, s') \<Rightarrow> (Inl failure, s'\<lparr>c_poisoned := True\<rparr>)
      | (Inr _, s') \<Rightarrow> (Inl (Decision e), s'\<lparr>c_poisoned := True\<rparr>))" for sc g
    by (rule few_poisoning) (simp_all add: few_ctl_fence)
  show ?thesis
    unfolding reject_live_proposal_def by (simp add: few_basic few_bind0 [OF few_basic(3) fenced])
qed

lemmas few_intros = few_basic few_ctl_fence few_read_verified few_dispatch few_reject

lemma few_advance: "few (Suc 0) (ctl_advance_inner P sha t ws cap)"
proof -
  have dispatch: "few 0 (\<lambda>s. case ctl_dispatch P sha i c s of
      (Inl e, s') \<Rightarrow> (Inl e, s'\<lparr>c_poisoned := True\<rparr>) | (Inr _, s') \<Rightarrow> (Inr True, s'))" for i c
    by (rule few_poisoning) (simp_all add: few_dispatch)
  have capacity: "few 0 (case cap of None \<Rightarrow> ret () | Some capacity \<Rightarrow> decision (validate_poll_capacity d capacity))" for d
    by (auto intro!: few_basic split: option.split)
  have fence: "few 0 (case ev of FaultObserved _ \<Rightarrow> ctl_fence P sc g | _ \<Rightarrow> ret ())" for ev sc g
    by (auto intro!: few_intros split: task_execution_event.split)
  show ?thesis
    unfolding ctl_advance_inner_def
    by (auto intro!: few_bind0 [OF few_basic(3)] few_bind0 [OF few_basic(5)] few_bind0 [OF few_basic(7)] few_bind0 [OF capacity]
        few_bind0 [OF few_basic(1)] few_bind0 [OF fence] few_bind1 [OF few_ctl_commit] dispatch few_intros split: option.split prod.split)
qed

lemma few_admit_proposal: "few (Suc 0) (admit_proposal P obs ev blob t)"
  unfolding admit_proposal_def
  by (auto intro!: few_bind0 [OF few_basic(3)] few_bind0 [OF few_ctl_fence] few_bind0 [OF few_basic(1)] few_bind0 [OF few_basic(11)]
      few_bind0 [OF few_basic(4)] few_bind1 [OF few_ctl_commit] few_intros split: sum.split task_execution_event.split)

lemma few_observe: "few (Suc 0) (ctl_observe P sha obs buffer t)"
  unfolding ctl_observe_def observe_late_def admit_blob_def
  by (auto intro!: few_bind0 [OF few_basic(3)] few_bind0 [OF few_basic(5)] few_bind0 [OF few_basic(7)] few_bind0 [OF few_ctl_fence]
      few_bind1 [OF few_ctl_commit] few_admit_proposal few_intros split: sum.split runtime_progress.split)

lemma few_poll: "few (Suc 0) (ctl_poll_inner P sha t buffer caps)"
proof -
  have capacity: "few 0 (case caps of None \<Rightarrow> ret () | Some (i, c) \<Rightarrow>
      bind (decision (validate_capacity a i)) (\<lambda>_. decision (validate_capacity b c)))" for a b
    by (auto intro!: few_bind0 few_basic split: option.split)
  show ?thesis
    unfolding ctl_poll_inner_def
    by (auto intro!: few_bind0 [OF few_basic(3)] few_bind0 [OF few_basic(5)] few_bind0 [OF few_basic(7)] few_bind0 [OF few_basic(10)]
        few_bind0 [OF few_basic(4)] few_bind0 [OF capacity] few_advance few_observe few_intros split: sum.split)
qed

section \<open>Verified results\<close>

text \<open>The record that gave a task its output.\<close>

definition completes :: "task_record \<Rightarrow> blob_ref \<Rightarrow> bool" where
  "completes r out \<longleftrightarrow> r_event r = EvCompleted out \<or> (\<exists>e. r_event r = EvReconciled (RcCompleted out e))"

lemma output_recorded:
  assumes "task_replay sha scope d rs = Inr p" "p_output p = Some out"
  shows "\<exists>xs r. rs = xs @ [r] \<and> completes r out \<and> r_generation r = p_generation p"
proof (cases rs rule: rev_cases)
  case Nil
  then show ?thesis using assms by (auto simp: task_replay_def projection_new_Inr bindR_eq_Inr)
next
  case (snoc xs r)
  then obtain q where q: "task_replay sha scope d xs = Inr q" "task_apply q r = Inr p"
    using assms(1) by (auto simp: task_replay_snoc bindR_eq_Inr)
  have "p_status p = StCompleted" using task_replay_inv [OF assms(1)] assms(2) by (auto simp: task_inv_def blobs_ok_def)
  moreover have "p_status q \<noteq> StCompleted" using q(2) by (cases "r_event r") (auto elim!: task_applyE simp: task_step split: if_splits)
  ultimately show ?thesis
    using q(2) assms(2) snoc
    by (cases "r_event r") (auto elim!: task_applyE simp: task_step completes_def result_simps word_unat_eq_iff split: reconciliation.splits)
qed

lemma effect_proof_Inr:
  "effect_proof b g out bytes state V = Inr e \<longleftrightarrow>
     (if effects (tb_definition b) = PureEffects
      then e = \<lparr> ee_action_id = pa_action_id (er_action (tb_request b)), ee_effect_key = er_effect_key (tb_request b),
          ee_external_reference_id = None, ee_state = state \<rparr>
      else (\<exists>verify. V = Some verify \<and> verify b g out bytes = Inr e \<and> evidence_validate_for e (tb_request b) = Inr ()
          \<and> ee_state e = state \<and> state \<noteq> EsUnknown))"
  by (auto simp: effect_proof_def result_simps split: if_splits)

lemma evidence_exact:
  "evidence_validate_for e q = Inr () \<Longrightarrow> ee_action_id e = pa_action_id (er_action q) \<and> ee_effect_key e = er_effect_key q"
  by (auto simp: evidence_validate_for_def bindR_eq_Inr split: if_splits)

lemma outcome_verify_Inr:
  "outcome_verify sha b p g bytes C V = Inr v \<longleftrightarrow>
     (\<exists>out state e. p_scope p = tb_scope b \<and> p_definition p = tb_definition b \<and> p_generation p = g \<and> p_status p = StCompleted
        \<and> p_output p = Some out \<and> unat (blob_bytes out) = length bytes \<and> sha bytes = blob_digest out
        \<and> classify C b out bytes = Inr state \<and> state \<noteq> EsUnknown \<and> effect_proof b g out bytes state V = Inr e
        \<and> v = \<lparr> vo_binding = b, vo_generation = g, vo_output = out, vo_classifier = classifier_identity C, vo_evidence = e \<rparr>)"
  by (auto simp: outcome_verify_def digest_of_def result_simps split: if_splits)

section \<open>Relayed inputs\<close>

lemma relay_input_valid: "validate_identifier ''inp_'' (relay_input_identity d)"
  using hex_identifier [of "''task_''" d] by (simp add: relay_input_identity_def identifier_byte_def less_eq_char_def)

lemma relay_new_Inr:
  "relay_new sha v = Inr r \<longleftrightarrow>
     (\<exists>tag. state_tag (ee_state (vo_evidence v)) = Some tag
        \<and> r = \<lparr> rl_outcome = v, rl_input = \<lparr> pi_tenant_id = pa_tenant_id (er_action (tb_request (vo_binding v))),
            pi_process_id = pa_process_id (er_action (tb_request (vo_binding v))),
            pi_input_id = InputId (relay_input_identity (relay_identity sha (vo_binding v))), pi_kind = IkTaskEffectResult,
            pi_payload_digest = sha (relay_payload (relay_identity sha (vo_binding v)) v tag) \<rparr> \<rparr>)"
  by (auto simp: relay_new_def Let_def ok_or_eq_Inr bindR_eq_Inr map_err_eq_Inr input_id_new_def identifier_new_def
      relay_input_valid digest_of_def)

lemma relay_key_inject:
  assumes "bound sha b" "bound sha b'" "action_wf (er_action (tb_request b))" "action_wf (er_action (tb_request b'))"
  shows "relay_key sha b = relay_key sha b' \<longleftrightarrow>
    er_effect_key (tb_request b) = er_effect_key (tb_request b') \<and> fingerprint sha (tb_definition b) = fingerprint sha (tb_definition b')
    \<and> pa_action_id (er_action (tb_request b)) = pa_action_id (er_action (tb_request b'))"
proof
  assume "relay_key sha b = relay_key sha b'"
  then show "er_effect_key (tb_request b) = er_effect_key (tb_request b') \<and> fingerprint sha (tb_definition b) = fingerprint sha (tb_definition b')
    \<and> pa_action_id (er_action (tb_request b)) = pa_action_id (er_action (tb_request b'))"
    using assms
    by (auto simp: relay_key_def bound_iff action_wf_def scope_wf_def step_wf_def action_scope_def effect_key_bytes_def
        canonical_effect_key_bytes_def effect_key_of_def field_inject digest_bytes_inject identifier_append_iff
        tenant_id.expand process_id.expand definition_id.expand definition_version.expand step_id.expand action_id.expand)
qed (simp add: relay_key_def)

lemma relay_payload_inject:
  "relay_payload i v t = relay_payload i v' t' \<longleftrightarrow>
     vo_generation v = vo_generation v' \<and> vo_output v = vo_output v' \<and> vo_classifier v = vo_classifier v' \<and> t = t'
     \<and> ee_external_reference_id (vo_evidence v) = ee_external_reference_id (vo_evidence v')"
proof -
  have "vo_output v = vo_output v' \<longleftrightarrow> blob_digest (vo_output v) = blob_digest (vo_output v')
      \<and> blob_bytes (vo_output v) = blob_bytes (vo_output v') \<and> blob_schema (vo_output v) = blob_schema (vo_output v')"
    by (cases "vo_output v"; cases "vo_output v'") simp
  then show ?thesis
    by (auto simp: relay_payload_def field_inject external_reference_id.expand split: option.splits)
qed

lemma relay_input_inject: "relay_input_identity d = relay_input_identity d' \<longleftrightarrow> d = d'"
  by (simp add: relay_input_identity_def hex_bytes_inject digest_bytes_inject)

section \<open>Denied services\<close>

text \<open>Calls that neither claim nor change anything.\<close>

fun harmless :: "service_call \<Rightarrow> bool" where
  "harmless (SAuthorize _ answer) = (answer \<noteq> Inr Authorized)"
| "harmless (SNow _) = True"
| "harmless _ = False"

definition refused :: "('e, 'a) svc \<Rightarrow> bool" where
  "refused m \<longleftrightarrow> (\<forall>t. \<exists>e calls. m t = (Inl e, t @ calls) \<and> list_all harmless calls)"

lemma refused_pure: "(\<And>x. r = Inr x \<Longrightarrow> refused (g x)) \<Longrightarrow> refused (svc_bind (svc_pure r) g)"
  by (cases r) (simp_all add: refused_def svc_pure_step)

lemma refused_now:
  assumes "\<And>x. refused (g x)"
  shows "refused (svc_bind (svc_map_err f (svc_call (clock_now P) SNow)) g)"
  unfolding refused_def
proof
  fix t
  show "\<exists>e calls. svc_bind (svc_map_err f (svc_call (clock_now P) SNow)) g t = (Inl e, t @ calls) \<and> list_all harmless calls"
  proof (cases "clock_now P t")
    case (Inr now)
    obtain e calls where "g now (t @ [SNow (Inr now)]) = (Inl e, (t @ [SNow (Inr now)]) @ calls)" "list_all harmless calls"
      using assms unfolding refused_def by blast
    then show ?thesis using Inr by (auto simp: svc_call_step intro!: exI [of _ "SNow (Inr now) # calls"])
  qed (auto simp: svc_call_step)
qed

lemma refused_map: "refused m \<Longrightarrow> refused (svc_map_err f m)"
  unfolding refused_def svc_map_err_def by (metis (no_types, lifting) case_prod_conv map_err_simps(1))

lemma refused_bind: "refused m \<Longrightarrow> refused (svc_bind m g)"
  unfolding refused_def
proof
  fix t
  assume "\<forall>t. \<exists>e calls. m t = (Inl e, t @ calls) \<and> list_all harmless calls"
  then obtain e calls where "m t = (Inl e, t @ calls)" "list_all harmless calls" by blast
  then show "\<exists>e calls. svc_bind m g t = (Inl e, t @ calls) \<and> list_all harmless calls" by (simp add: svc_bind_def)
qed

lemma refused_authorize:
  assumes "\<forall>t q. authorizer_authorize P t q \<noteq> Inr Authorized"
  shows "refused (authorize P scope who op)"
  unfolding refused_def
proof
  fix t
  let ?aq = "authorization_of scope who op"
  obtain e where "bindR (authorizer_authorize P t ?aq) require_authorized = Inl e"
    using assms authorized_iff by (cases "bindR (authorizer_authorize P t ?aq) require_authorized") blast+
  then show "\<exists>e calls. authorize P scope who op t = (Inl e, t @ calls) \<and> list_all harmless calls"
    using assms by (simp add: authorize_run Let_def)
qed

lemma refused_claim:
  assumes "\<forall>t q. authorizer_authorize P t q \<noteq> Inr Authorized"
  shows "refused (claim_outbox P q now)"
  unfolding claim_outbox_def by (intro refused_pure refused_bind refused_authorize assms)

section \<open>Batches for the process store\<close>

lemma stored_receipt:
  "case store_and_check P c t of (res, t') \<Rightarrow>
     t' = t @ [SCommit c (store_commit P t c)]
     \<and> (\<forall>receipt. res = Inr receipt \<longrightarrow> store_commit P t c = Inr receipt \<and> receipt_spec receipt c)"
  using receipt_iff
  by (auto simp: store_and_check_def svc_call_step svc_check_step svc_pure_run split: sum.splits)

lemma relay_commit_shape:
  "case relay_commit P r c t of (res, t') \<Rightarrow> t' = t \<and> isl res
     \<or> (\<exists>a. t' = t @ [SCommit c a] \<and> commit_spec (action_scope (er_action (tb_request (vo_binding (rl_outcome r))))) c
          \<and> cm_input c = Some (rl_input r) \<and> cm_canonical_source_event_id c = None
          \<and> (case res of Inl _ \<Rightarrow> True | Inr receipt \<Rightarrow> a = Inr receipt \<and> receipt_spec receipt c))"
proof (cases "cm_input c = Some (rl_input r) \<and> cm_canonical_source_event_id c = None \<and> commit_validate c = Inr ()
    \<and> (\<forall>y\<in>set (cm_outcomes c). outcome_scope y = action_scope (er_action (tb_request (vo_binding (rl_outcome r)))))")
  case True
  then obtain s where s: "commit_spec s c" using commit_validate_spec by blast
  then have "commit_spec (action_scope (er_action (tb_request (vo_binding (rl_outcome r))))) c"
    using True numbered_first [of s "unat (cm_expected_sequence c)" "cm_outcomes c"] by (auto simp: commit_spec_def)
  then show ?thesis
    using True stored_receipt [where P = P and c = c and t = t]
    by (auto simp: relay_commit_def svc_check_step svc_pure_step list_ex_iff split: prod.splits sum.splits)
next
  case False
  then show ?thesis
    by (cases "commit_validate c") (auto simp: relay_commit_def svc_check_step svc_pure_step list_ex_iff)
qed

section \<open>A small task\<close>

definition ex_effect :: "process_action" where
  "ex_effect = action_new Process_Properties.ex_scope (ActionId ''act_t'') (StepId ''stp_a'') 1 ExternalEffectKind (digest_fill 9)"

definition ex_binding :: task_effect_binding where
  "ex_binding = \<lparr> tb_request = effect_request_new ex_effect, tb_definition = ex_def,
     tb_scope = \<lparr> scope_tenant = digest_fill 9, scope_task = digest_fill 9, scope_definition = digest_fill 9,
       scope_input = digest_fill 9 \<rparr> \<rparr>"

definition ex_committed :: committed_task_effect where
  "ex_committed = \<lparr> ce_binding = ex_binding, ce_receipt = \<lparr> cr_committed_through_sequence = 0, cr_duplicate_input = False \<rparr> \<rparr>"

definition ex_effect_lease :: outbox_lease where
  "ex_effect_lease = ex_lease\<lparr>ol_record := outbox_record_new ex_effect\<rparr>"

definition ex_bound_fresh :: task_projection where
  "ex_bound_fresh = ex_fresh\<lparr>p_scope := tb_scope ex_binding\<rparr>"

definition ex_reads :: trace where
  "ex_reads = [CRead (tb_scope ex_binding) 0 (Inr None)]"

lemma ex_bound: "bound ex_sha ex_binding"
  by (simp add: bound_iff ex_binding_def effect_request_new_def ex_effect_def action_new_def ex_sha_def fingerprint_def
      definition_validate_def ex_definition_def)

lemma ex_bound_restored:
  "ctl_restore ex_p ex_sha (tb_scope ex_binding) ex_def 0 [] = (Inr (control ex_reads ex_bound_fresh), ex_reads)"
  by (simp add: ctl_restore_def restore_projection_def restore_loop.simps task_eval ex_session_defs ex_binding_def ex_bound_fresh_def ex_reads_def)

lemma ex_bound_session: "session ex_p ex_sha (tb_scope ex_binding) (tb_definition ex_binding) (control ex_reads ex_bound_fresh)"
  using session.restored [OF ex_bound_restored] by (simp add: ex_binding_def)

definition ex_output_sha :: sha where
  "ex_output_sha bs = (if bs = fingerprint_bytes ex_def then digest_fill 9 else digest_fill 6)"

definition ex_classifier :: task_output_classifier where
  "ex_classifier = \<lparr> classifier_identity = digest_fill 7, classify = (\<lambda>_ _ _. Inr EsSucceeded) \<rparr>"

lemma ex_completed_session:
  "\<exists>s. session (Task_Control_Properties.ex_ports ex_pure_history RpPending) ex_output_sha Task_Properties.ex_scope ex_def s
     \<and> c_projection s = ex_completed"
proof -
  have "task_replay ex_output_sha Task_Properties.ex_scope ex_def ex_pure_history =
      task_replay ex_sha Task_Properties.ex_scope ex_def ex_pure_history"
    by (simp add: task_replay_def projection_new_def fingerprint_def ex_output_sha_def ex_sha_def)
  then have "task_replay ex_output_sha Task_Properties.ex_scope ex_def ex_pure_history = Inr ex_completed" using ex_pure_replay by simp
  then obtain tr where "ctl_restore (Task_Control_Properties.ex_ports ex_pure_history RpPending) ex_output_sha Task_Properties.ex_scope ex_def 20 []
      = (Inr (control tr ex_completed), tr)"
    using restore_returns_history [of "Task_Control_Properties.ex_ports ex_pure_history RpPending" Task_Properties.ex_scope ex_pure_history
        ex_output_sha ex_def ex_completed 20]
    by (auto simp: serves_def Task_Control_Properties.ex_ports_def ex_completed_def)
  from session.restored [OF this] show ?thesis by auto
qed

text \<open>A hash that tells the identity key, the definition and results of different generations apart.\<close>

definition ex_relay_sha :: sha where
  "ex_relay_sha bs = (if bs ! 23 = 115 then digest_fill (bs ! 66) else digest_fill (bs ! 23))"

definition ex_relay_binding :: task_effect_binding where
  "ex_relay_binding = \<lparr> tb_request = effect_request_new ex_effect, tb_definition = ex_def,
     tb_scope = \<lparr> scope_tenant = ex_relay_sha (str_bytes (tenant_str (pa_tenant_id ex_effect))),
       scope_task = ex_relay_sha (effect_key_bytes (effect_key_of ex_effect)),
       scope_definition = fingerprint ex_relay_sha ex_def, scope_input = digest_fill 9 \<rparr> \<rparr>"

definition ex_verified :: "u32 \<Rightarrow> verified_task_effect_outcome" where
  "ex_verified g = \<lparr> vo_binding = ex_relay_binding, vo_generation = g, vo_output = ex_blob 6 1, vo_classifier = digest_fill 7,
     vo_evidence = \<lparr> ee_action_id = ActionId ''act_t'', ee_effect_key = effect_key_of ex_effect, ee_external_reference_id = None,
       ee_state = EsSucceeded \<rparr> \<rparr>"

lemma ex_relay_bound: "bound ex_relay_sha ex_relay_binding"
  by (simp add: bound_iff ex_relay_binding_def effect_request_new_def definition_validate_def ex_definition_def)
    (simp add: ex_effect_def action_new_def)

lemma ex_relay_wf: "action_wf (er_action (tb_request ex_relay_binding))"
  by (simp add: ex_relay_binding_def effect_request_new_def ex_effect_def action_wf_def scope_wf_def step_wf_def action_scope_def
      action_new_def Process_Properties.ex_scope_def ex_identifier_eval less_eq_char_def)

lemma ex_relay_hashes:
  "ex_relay_sha (relay_key ex_relay_sha ex_relay_binding) = digest_fill 108" "ex_relay_sha (fingerprint_bytes ex_def) = digest_fill 110"
  "ex_relay_sha (relay_payload i (ex_verified g) tag) = digest_fill (u32_to_be_bytes g ! 3)"
proof -
  have len: "length (digest_bytes i) = 32" using digest_bytes [of i] by simp
  show "ex_relay_sha (relay_key ex_relay_sha ex_relay_binding) = digest_fill 108"
    by (simp add: ex_relay_sha_def relay_key_def str_bytes_def)
  show "ex_relay_sha (fingerprint_bytes ex_def) = digest_fill 110"
    by (simp add: ex_relay_sha_def fingerprint_bytes_def str_bytes_def)
  show "ex_relay_sha (relay_payload i (ex_verified g) tag) = digest_fill (u32_to_be_bytes g ! 3)"
    using len by (simp add: ex_relay_sha_def relay_payload_def str_bytes_def nth_append ex_verified_def)
qed

section \<open>Claims\<close>

text \<open>
  C31. A leased action is forgotten by the outbox only once its task is durably accepted, and admission never executes
  anything. Whatever the stores, the journal and the runtime answer, \<open>accept\<close> issues no start request.
  It acknowledges the lease at most once, as its last call, and only when the lease is valid for the
  claim at that time and holds exactly the bound action, the input has the action's payload digest, and
  the records the journal vouched for replay to a task of the bound scope and definition that holds an
  input with this digest and schema. It returns that task exactly when the acknowledgement succeeded.
\<close>
theorem accept_acknowledges_durable_task:
  assumes "accept N P TP sha ce claim lease now inp schema tick [] st = ((res, tr), st')"
  shows "started_generations tr = []
    \<and> (st' = st \<and> isl res
       \<or> (\<exists>s answer. st' = st @ [SAcknowledge lease now answer] \<and> c_trace s = tr
            \<and> res = (case answer of Inl e \<Rightarrow> Inl (TcProcess e) | Inr _ \<Rightarrow> Inr s)
            \<and> outbox_lease_validate_for_claim_at lease claim now = Inr ()
            \<and> ob_action (ol_record lease) = er_action (tb_request (ce_binding ce))
            \<and> sha inp = pa_payload_digest (ob_action (ol_record lease))
            \<and> admitted TP sha (ce_binding ce) inp schema s))"
proof -
  let ?b = "ce_binding ce"
  have none: "started_generations [] = []" by (simp add: started_generations_def)
  consider (early) "tr = []" "st' = st" "isl res"
    | (run) "outbox_lease_validate_for_claim_at lease claim now = Inr ()" "ob_action (ol_record lease) = er_action (tb_request ?b)"
        "binding_validate sha ?b (tb_request ?b) (tb_definition ?b) inp = Inr ()"
    using assms by (auto simp: accept_def Let_def split: sum.splits if_splits)
  then show ?thesis
  proof cases
    case run
    have dig: "sha inp = scope_input (tb_scope ?b)" "bound sha ?b" using run(3) by (simp_all add: binding_validate_iff)
    then have pay: "sha inp = pa_payload_digest (ob_action (ol_record lease))" using run(2) by (simp add: bound_iff)
    obtain r tr1 where admit: "admit_task N TP sha ?b inp schema tick [] = (r, tr1)" by fastforce
    note shape = admit_task_shape [OF admit dig(1)]
    show ?thesis
      using assms run admit shape pay
      by (cases r; cases "outbox_acknowledge P st lease now") (auto simp: accept_def svc_call_run Let_def)
  qed (simp add: none)
qed

theorem accept_acknowledges_durable_task_witness:
  "\<exists>s tr. accept 64 Process_Services_Properties.ex_ports ex_p ex_sha ex_committed ex_claim ex_effect_lease 5 [1, 2] 1 0 [] [] =
       ((Inr s, tr), [SAcknowledge ex_effect_lease 5 (Inr ())])
     \<and> started_generations tr = [] \<and> admitted ex_p ex_sha ex_binding [1, 2] 1 s"
proof -
  have lease: "outbox_lease_validate_for_claim_at ex_effect_lease ex_claim 5 = Inr ()"
    by (simp add: outbox_lease_validate_for_claim_at_def outbox_lease_validate_for_claim_def outbox_lease_validate_at_def
        outbox_lease_validate_def outbox_record_validate_def outbox_lease_is_expired_at_def outbox_claim_validate_def ex_effect_lease_def
        ex_lease_def ex_effect_def action_new_def outbox_record_new_def ex_claim_def MAX_OUTBOX_DELIVERY_ATTEMPTS_def
        MAX_OUTBOX_CLAIM_BATCH_def action_validate_def)
  have bind: "binding_validate ex_sha ex_binding (tb_request ex_binding) (tb_definition ex_binding) [1, 2] = Inr ()"
    using ex_bound unfolding binding_validate_iff by (simp add: ex_binding_def ex_sha_def ex_definition_def)
  have "\<exists>s'. ctl_submit ex_p ex_sha [1, 2] 1 0 (control ex_reads ex_bound_fresh) = (Inr (), s')"
    by (simp add: ctl_submit_def ctl_commit_def ctl_eval mk_blob_ref_def propose_def digest_of_def
        task_eval ex_session_defs ex_bound_fresh_def ex_binding_def)
  moreover have "supervisor_restore 64 ex_p ex_sha (tb_scope ex_binding) (tb_definition ex_binding) 0 [] =
      (Inr (control ex_reads ex_bound_fresh), ex_reads)"
    using ex_bound_restored by (simp add: supervisor_restore_def capacities_fit_def ex_binding_def ex_definition_def)
  moreover have "p_status ex_bound_fresh = StEmpty" by (simp add: ex_bound_fresh_def ex_fresh_def)
  ultimately obtain s where "admit_task 64 ex_p ex_sha ex_binding [1, 2] 1 0 [] = (Inr s, c_trace s)"
    by (auto simp: admit_task_def)
  then have run: "accept 64 Process_Services_Properties.ex_ports ex_p ex_sha ex_committed ex_claim ex_effect_lease 5 [1, 2] 1 0 [] [] =
      ((Inr s, c_trace s), [SAcknowledge ex_effect_lease 5 (Inr ())])"
    using lease bind
    by (simp add: accept_def ex_committed_def svc_call_run Process_Services_Properties.ex_ports_def ex_effect_lease_def ex_lease_def
        outbox_record_new_def ex_binding_def effect_request_new_def)
  from accept_acknowledges_durable_task [OF run] run show ?thesis by (auto simp: ex_committed_def)
qed

text \<open>
  C32. Driving a task makes at most one step of its session, and only with authority. Whatever the ports answer, a
  call on a supervisor of another effect changes and asks nothing; otherwise it asks once, for the exact
  scope of the action, principal and operation. Without an authorization the supervisor is as before;
  with one it commits at most one record, stays a session of the same task, and the report is the
  status and generation it left.
\<close>
theorem drive_is_one_authorized_step:
  assumes "session TP sha scope d s" and "drive_task_once N P TP sha who ce clock s st = ((res, s'), st')"
  shows "session TP sha scope d s' \<and> commits (c_trace s') \<le> commits (c_trace s) + 1
    \<and> (if scope \<noteq> tb_scope (ce_binding ce) \<or> d \<noteq> tb_definition (ce_binding ce)
       then res = Inl TcBindingMismatch \<and> s' = s \<and> st' = st
       else \<exists>answer. st' = st @ [SAuthorize (authorization_of (action_scope (er_action (tb_request (ce_binding ce)))) who AuDriveTask) answer]
         \<and> (answer = Inr Authorized \<or> s' = s \<and> (\<exists>e. res = Inl (TcProcess e)))
         \<and> (case res of Inl _ \<Rightarrow> True | Inr report \<Rightarrow>
               td_status report = p_status (c_projection s') \<and> td_generation report = p_generation (c_projection s')))"
proof -
  let ?b = "ce_binding ce" and ?aq = "authorization_of (action_scope (er_action (tb_request (ce_binding ce)))) who AuDriveTask"
  have pins: "p_scope (c_projection s) = scope" "p_definition (c_projection s) = d"
    using task_replay_pins [OF session_replay [OF assms(1)]] by auto
  show ?thesis
  proof (cases "scope \<noteq> tb_scope ?b \<or> d \<noteq> tb_definition ?b")
    case True
    then show ?thesis using assms pins by (auto simp: drive_task_once_def)
  next
    case False
    let ?answer = "authorizer_authorize P st ?aq" and ?st = "st @ [SAuthorize ?aq (authorizer_authorize P st ?aq)]"
    let ?step = "if p_status (c_projection s) = StRunning then supervisor_poll N TP sha (clock ?st) else supervisor_advance N TP sha (clock ?st)"
    obtain a s1 where step: "?step s = (a, s1)" by fastforce
    have "session TP sha scope d s1" "commits (c_trace s1) \<le> commits (c_trace s) + 1"
      using step session.polled [OF assms(1)] session.advanced [OF assms(1)] few_poll [unfolded few_def] few_advance [unfolded few_def]
      by (auto simp: supervisor_poll_def supervisor_advance_def ctl_poll_with_buffer_def ctl_advance_with_workspace_def split: if_splits)
        (metis Suc_eq_plus1 add.commute plus_1_eq_Suc snd_conv)+
    moreover have "drive_task_once N P TP sha who ce clock s st = (case bindR ?answer require_authorized of
        Inl e \<Rightarrow> ((Inl (TcProcess e), s), ?st)
      | Inr _ \<Rightarrow> (case ?step s of
          (Inl e, s') \<Rightarrow> ((Inl (TcSupervisor e), s'), ?st)
        | (Inr changed, s') \<Rightarrow> ((Inr \<lparr> td_changed = changed, td_status = p_status (c_projection s'),
            td_generation = p_generation (c_projection s') \<rparr>, s'), ?st)))"
      using False pins by (simp add: drive_task_once_def authorize_run Let_def split: sum.splits)
    ultimately show ?thesis
      using assms False authorized_iff [of ?answer "()"] unfolding step
      by (cases "bindR ?answer require_authorized"; cases a) auto
  qed
qed

theorem drive_is_one_authorized_step_witness:
  "drive_task_once 64 Process_Services_Properties.ex_ports ex_p ex_sha (PrincipalId ''pri_a'') ex_committed (\<lambda>_. 1)
      (control ex_reads ex_bound_fresh) [] =
      ((Inr \<lparr> td_changed = False, td_status = StEmpty, td_generation = 0 \<rparr>, control ex_reads ex_bound_fresh),
       [SAuthorize (authorization_of Process_Properties.ex_scope (PrincipalId ''pri_a'') AuDriveTask) (Inr Authorized)])
    \<and> commits ex_reads \<le> commits ex_reads + 1"
proof -
  have step: "ctl_advance_inner ex_p ex_sha 1 ws None (control ex_reads ex_bound_fresh) = (Inr False, control ex_reads ex_bound_fresh)" for ws
    by (simp add: ctl_advance_inner_def ctl_eval task_next_def next_event_def ex_bound_fresh_def ex_fresh_def)
  have run: "drive_task_once 64 Process_Services_Properties.ex_ports ex_p ex_sha (PrincipalId ''pri_a'') ex_committed (\<lambda>_. 1)
      (control ex_reads ex_bound_fresh) [] =
      ((Inr \<lparr> td_changed = False, td_status = StEmpty, td_generation = 0 \<rparr>, control ex_reads ex_bound_fresh),
       [SAuthorize (authorization_of Process_Properties.ex_scope (PrincipalId ''pri_a'') AuDriveTask) (Inr Authorized)])"
    using step
    by (simp add: drive_task_once_def authorize_run supervisor_advance_def ctl_advance_with_workspace_def ex_committed_def
        Process_Services_Properties.ex_ports_def ex_binding_def ex_bound_fresh_def ex_fresh_def require_authorized_def
        effect_request_new_def ex_effect_def action_new_def action_scope_def Process_Properties.ex_scope_def)
  show ?thesis using drive_is_one_authorized_step [OF ex_bound_session run] run by simp
qed

text \<open>
  C33. A service that is not authorized does nothing. If the authorizer never grants a request (it may deny or fail,
  differently at every call), then dispatching, draining timers, reconciling an effect, relaying a
  result and driving a task all return an error, and the only calls they make are refused
  authorizations and readings of the clock: nothing is claimed, delivered, acknowledged, stored or
  committed, and no task is touched.
\<close>
theorem denied_services_do_nothing:
  assumes "\<forall>t q. authorizer_authorize P t q \<noteq> Inr Authorized"
  shows "refused (claim_outbox P oq now) \<and> refused (dispatch_outbox P oq) \<and> refused (drain_timers sha wire P tq)
    \<and> refused (reconcile_effect P who b) \<and> refused (relay_task_result P who r c)
    \<and> (\<exists>e calls. drive_task_once N P TP sha who ce clock s st = ((Inl e, s), st @ calls) \<and> list_all harmless calls)"
proof (intro conjI)
  note auth = refused_authorize [OF assms]
  show "refused (claim_outbox P oq now)" by (rule refused_claim [OF assms])
  show "refused (dispatch_outbox P oq)"
    unfolding dispatch_outbox_def Let_def by (intro refused_now refused_bind refused_map refused_claim [OF assms])
  show "refused (drain_timers sha wire P tq)"
    unfolding drain_timers_def Let_def by (intro refused_pure refused_bind refused_map auth)
  show "refused (reconcile_effect P who b)"
    unfolding reconcile_effect_def Let_def by (intro refused_bind auth)
  show "refused (relay_task_result P who r c)"
    unfolding relay_task_result_def by (intro refused_bind refused_map auth)
  obtain e calls where "authorize P (action_scope (er_action (tb_request (ce_binding ce)))) who AuDriveTask st = (Inl e, st @ calls)"
    "list_all harmless calls" using auth unfolding refused_def by blast
  then show "\<exists>e calls. drive_task_once N P TP sha who ce clock s st = ((Inl e, s), st @ calls) \<and> list_all harmless calls"
    by (auto simp: drive_task_once_def Let_def)
qed

theorem denied_services_do_nothing_witness:
  "\<exists>e calls. dispatch_outbox (Process_Services_Properties.ex_ports\<lparr>authorizer_authorize := \<lambda>_ _. Inr Denied\<rparr>) ex_claim [] = (Inl e, calls)
     \<and> list_all harmless calls"
proof -
  have "refused (dispatch_outbox (Process_Services_Properties.ex_ports\<lparr>authorizer_authorize := \<lambda>_ _. Inr Denied\<rparr>) ex_claim)"
    using denied_services_do_nothing [of "Process_Services_Properties.ex_ports\<lparr>authorizer_authorize := \<lambda>_ _. Inr Denied\<rparr>"] by simp
  then show ?thesis unfolding refused_def by (metis append_Nil)
qed

text \<open>
  Only checked batches reach the process store, and authority is derived only from checked receipts. Whatever the
  store answers, committing a task effect and relaying a result each call the store at most once, as
  their last call, with the given batch. The batch then satisfies the commit specification; it plans the
  bound action, or it holds the relay's input as its causally recorded input, no canonical source, and
  outcomes of the action's scope after an authorization for that scope. Success means that the store
  answered with the returned receipt and that the receipt fits the batch.
\<close>
theorem only_checked_batches_are_stored:
  "(case commit_task_effect P c b t of (res, t') \<Rightarrow>
      t' = t \<and> isl res
      \<or> (\<exists>a s. t' = t @ [SCommit c a] \<and> commit_spec s c \<and> er_action (tb_request b) \<in> set (cm_actions c)
           \<and> (case res of Inl _ \<Rightarrow> True | Inr ce \<Rightarrow> ce_binding ce = b \<and> a = Inr (ce_receipt ce) \<and> receipt_spec (ce_receipt ce) c)))
   \<and> (case relay_task_result P who r c t of (res, t') \<Rightarrow>
      \<exists>answer rest. t' = t @ SAuthorize (authorization_of (action_scope (er_action (tb_request (vo_binding (rl_outcome r))))) who AuRelayTaskResult) answer # rest
        \<and> (rest = [] \<and> isl res
           \<or> answer = Inr Authorized
             \<and> (\<exists>a. rest = [SCommit c a] \<and> commit_spec (action_scope (er_action (tb_request (vo_binding (rl_outcome r))))) c
                  \<and> cm_input c = Some (rl_input r) \<and> cm_canonical_source_event_id c = None
                  \<and> (case res of Inl _ \<Rightarrow> True | Inr receipt \<Rightarrow> a = Inr receipt \<and> receipt_spec receipt c))))"
proof
  show "case commit_task_effect P c b t of (res, t') \<Rightarrow>
      t' = t \<and> isl res
      \<or> (\<exists>a s. t' = t @ [SCommit c a] \<and> commit_spec s c \<and> er_action (tb_request b) \<in> set (cm_actions c)
           \<and> (case res of Inl _ \<Rightarrow> True | Inr ce \<Rightarrow> ce_binding ce = b \<and> a = Inr (ce_receipt ce) \<and> receipt_spec (ce_receipt ce) c))"
  proof (cases "commit_validate c = Inr () \<and> er_action (tb_request b) \<in> set (cm_actions c)")
    case True
    then obtain s where "commit_spec s c" using commit_validate_spec by blast
    then show ?thesis
      using True stored_receipt [where P = P and c = c and t = t]
      by (auto simp: commit_task_effect_def svc_check_step svc_pure_step svc_bind_def svc_pure_run list_ex_iff split: prod.splits sum.splits)
  next
    case False
    then show ?thesis
      by (cases "commit_validate c") (auto simp: commit_task_effect_def svc_check_step svc_pure_step list_ex_iff)
  qed
next
  let ?scope = "action_scope (er_action (tb_request (vo_binding (rl_outcome r))))"
  let ?aq = "authorization_of ?scope who AuRelayTaskResult"
  let ?t = "t @ [SAuthorize ?aq (authorizer_authorize P t ?aq)]"
  have run: "relay_task_result P who r c t = (case bindR (authorizer_authorize P t ?aq) require_authorized of
      Inl e \<Rightarrow> (Inl (TcProcess e), ?t) | Inr _ \<Rightarrow> relay_commit P r c ?t)"
    by (simp add: relay_task_result_def authorize_map_step Let_def split: sum.splits)
  have "case relay_commit P r c ?t of (res, t') \<Rightarrow> t' = ?t \<and> isl res
      \<or> (\<exists>a. t' = ?t @ [SCommit c a] \<and> commit_spec ?scope c \<and> cm_input c = Some (rl_input r) \<and> cm_canonical_source_event_id c = None
           \<and> (case res of Inl _ \<Rightarrow> True | Inr receipt \<Rightarrow> a = Inr receipt \<and> receipt_spec receipt c))"
    by (rule relay_commit_shape)
  then show "case relay_task_result P who r c t of (res, t') \<Rightarrow>
      \<exists>answer rest. t' = t @ SAuthorize ?aq answer # rest
        \<and> (rest = [] \<and> isl res \<or> answer = Inr Authorized
             \<and> (\<exists>a. rest = [SCommit c a] \<and> commit_spec ?scope c \<and> cm_input c = Some (rl_input r) \<and> cm_canonical_source_event_id c = None
                  \<and> (case res of Inl _ \<Rightarrow> True | Inr receipt \<Rightarrow> a = Inr receipt \<and> receipt_spec receipt c)))"
    using authorized_iff [of "authorizer_authorize P t ?aq" "()"] unfolding run
    by (cases "bindR (authorizer_authorize P t ?aq) require_authorized") (auto simp: require_authorized_def split: prod.splits)
qed

text \<open>
  C34. A verified result rests on durable and independent evidence. If verification of a session's task succeeds, the
  last record the journal vouched for completed the task with an output of exactly these bytes, in the
  expected generation; the application classified these bytes as success or known failure; the evidence
  names the bound action and effect and agrees with that classification; and for a task with external
  effects it is the verifier's answer for this very output. The result can be relayed, and the saga
  observes success exactly when the classification was success and a terminal failure otherwise.
\<close>
theorem verified_result_is_proved:
  assumes "session TP sha (tb_scope b) (tb_definition b) s" and "outcome_verify sha b (c_projection s) g bytes C V = Inr v"
  shows "(\<exists>xs r. acked (c_trace s) = xs @ [r] \<and> completes r (vo_output v) \<and> r_generation r = g)
    \<and> unat (blob_bytes (vo_output v)) = length bytes \<and> blob_digest (vo_output v) = sha bytes
    \<and> classify C b (vo_output v) bytes = Inr (ee_state (vo_evidence v)) \<and> ee_state (vo_evidence v) \<noteq> EsUnknown
    \<and> ee_action_id (vo_evidence v) = pa_action_id (er_action (tb_request b)) \<and> ee_effect_key (vo_evidence v) = er_effect_key (tb_request b)
    \<and> (effects (tb_definition b) = PureEffects \<or> (\<exists>verify. V = Some verify \<and> verify b g (vo_output v) bytes = Inr (vo_evidence v)))
    \<and> (\<exists>r. relay_new sha v = Inr r \<and> rl_outcome r = v
         \<and> relay_observation r = \<lparr> ob_action_id = pa_action_id (er_action (tb_request b)),
             ob_result = (if ee_state (vo_evidence v) = EsSucceeded then ArSucceeded else ArTerminalFailure) \<rparr>)"
proof -
  obtain out state e where v: "p_generation (c_projection s) = g" "p_output (c_projection s) = Some out"
    "unat (blob_bytes out) = length bytes" "sha bytes = blob_digest out" "classify C b out bytes = Inr state" "state \<noteq> EsUnknown"
    "effect_proof b g out bytes state V = Inr e"
    "v = \<lparr> vo_binding = b, vo_generation = g, vo_output = out, vo_classifier = classifier_identity C, vo_evidence = e \<rparr>"
    using assms(2) unfolding outcome_verify_Inr by blast
  have e: "ee_state e = state" "ee_action_id e = pa_action_id (er_action (tb_request b))" "ee_effect_key e = er_effect_key (tb_request b)"
    "effects (tb_definition b) = PureEffects \<or> (\<exists>verify. V = Some verify \<and> verify b g out bytes = Inr e)"
    using v(7) evidence_exact by (auto simp: effect_proof_Inr split: if_splits)
  moreover obtain tag where "state_tag state = Some tag" using v(6) by (cases state) auto
  then have "\<exists>r. relay_new sha v = Inr r \<and> rl_outcome r = v" using v(8) e(1) by (simp add: relay_new_Inr)
  then have "\<exists>r. relay_new sha v = Inr r \<and> rl_outcome r = v
      \<and> relay_observation r = \<lparr> ob_action_id = pa_action_id (er_action (tb_request b)),
          ob_result = (if ee_state (vo_evidence v) = EsSucceeded then ArSucceeded else ArTerminalFailure) \<rparr>"
    using v(6,8) e(1) by (cases state) (auto simp: relay_observation_def)
  ultimately show ?thesis using output_recorded [OF session_replay [OF assms(1)] v(2)] v by auto
qed

theorem verified_result_is_proved_witness:
  "\<exists>v r. outcome_verify ex_output_sha (ex_binding\<lparr>tb_scope := Task_Properties.ex_scope\<rparr>) ex_completed 2 (replicate 8 0) ex_classifier None = Inr v
     \<and> relay_new ex_output_sha v = Inr r \<and> ob_result (relay_observation r) = ArSucceeded"
proof -
  let ?b = "ex_binding\<lparr>tb_scope := Task_Properties.ex_scope\<rparr>"
  obtain s where s: "session (Task_Control_Properties.ex_ports ex_pure_history RpPending) ex_output_sha (tb_scope ?b) (tb_definition ?b) s"
    "c_projection s = ex_completed" using ex_completed_session by (auto simp: ex_binding_def)
  let ?e = "\<lparr> ee_action_id = pa_action_id (er_action (tb_request ?b)), ee_effect_key = er_effect_key (tb_request ?b),
      ee_external_reference_id = None, ee_state = EsSucceeded \<rparr>"
  have "hd (fingerprint_bytes ex_def) \<noteq> hd (replicate 8 0)" by (simp add: fingerprint_bytes_def str_bytes_def)
  then have other: "replicate 8 0 \<noteq> fingerprint_bytes ex_def" by metis
  have run: "outcome_verify ex_output_sha ?b (c_projection s) 2 (replicate 8 0) ex_classifier None =
      Inr \<lparr> vo_binding = ?b, vo_generation = 2, vo_output = ex_blob 6 1, vo_classifier = digest_fill 7, vo_evidence = ?e \<rparr>"
    unfolding s(2) outcome_verify_Inr using other
    by (simp add: effect_proof_Inr ex_binding_def ex_completed_def ex_classifier_def ex_blob_def ex_output_sha_def, simp add: ex_definition_def)
  from verified_result_is_proved [OF s(1) run] run show ?thesis unfolding s(2) by auto
qed

text \<open>
  A relayed result has one identity and pins its contents. Where SHA-256 does not collide on the byte strings
  involved, two relays of well-formed bindings have the same input identity exactly when effect, task
  definition and action agree, whatever the generation or the evidence; and under one identity the
  payload digests agree exactly when generation, output, classifier, state and external reference all
  do. So a repeated relay is recognised as a duplicate, and an altered result conflicts with it.
\<close>
theorem relay_identity_pins_result:
  assumes "bound sha (vo_binding v)" "bound sha (vo_binding v')"
    and "action_wf (er_action (tb_request (vo_binding v)))" "action_wf (er_action (tb_request (vo_binding v')))"
    and "relay_new sha v = Inr r" "relay_new sha v' = Inr r'"
    and "inj_on sha ({relay_key sha (vo_binding v), relay_key sha (vo_binding v'),
        fingerprint_bytes (tb_definition (vo_binding v)), fingerprint_bytes (tb_definition (vo_binding v'))}
      \<union> {relay_payload (relay_identity sha (vo_binding w)) w tag | w tag. w \<in> {v, v'} \<and> state_tag (ee_state (vo_evidence w)) = Some tag})"
  shows "(pi_input_id (rl_input r) = pi_input_id (rl_input r') \<longleftrightarrow>
       er_effect_key (tb_request (vo_binding v)) = er_effect_key (tb_request (vo_binding v'))
       \<and> tb_definition (vo_binding v) = tb_definition (vo_binding v')
       \<and> pa_action_id (er_action (tb_request (vo_binding v))) = pa_action_id (er_action (tb_request (vo_binding v'))))
    \<and> (pi_input_id (rl_input r) = pi_input_id (rl_input r') \<longrightarrow>
       (pi_payload_digest (rl_input r) = pi_payload_digest (rl_input r') \<longleftrightarrow>
          vo_generation v = vo_generation v' \<and> vo_output v = vo_output v' \<and> vo_classifier v = vo_classifier v'
          \<and> ee_state (vo_evidence v) = ee_state (vo_evidence v')
          \<and> ee_external_reference_id (vo_evidence v) = ee_external_reference_id (vo_evidence v')))"
proof -
  obtain tag tag' where t: "state_tag (ee_state (vo_evidence v)) = Some tag" "state_tag (ee_state (vo_evidence v')) = Some tag'"
    using assms(5,6) by (auto simp: relay_new_Inr)
  have fp: "fingerprint sha (tb_definition (vo_binding v)) = fingerprint sha (tb_definition (vo_binding v')) \<longleftrightarrow>
      tb_definition (vo_binding v) = tb_definition (vo_binding v')"
    using assms(7) by (auto simp: fingerprint_def inj_on_eq_iff fingerprint_bytes_inject)
  have id: "relay_identity sha (vo_binding v) = relay_identity sha (vo_binding v') \<longleftrightarrow>
      relay_key sha (vo_binding v) = relay_key sha (vo_binding v')"
    using assms(7) by (auto simp: relay_identity_def digest_of_def inj_on_eq_iff)
  have tags: "tag = tag' \<longleftrightarrow> ee_state (vo_evidence v) = ee_state (vo_evidence v')"
    using t by (cases "ee_state (vo_evidence v)"; cases "ee_state (vo_evidence v')") auto
  have "sha (relay_payload (relay_identity sha (vo_binding v)) v tag) = sha (relay_payload (relay_identity sha (vo_binding v')) v' tag')
      \<longleftrightarrow> relay_payload (relay_identity sha (vo_binding v)) v tag = relay_payload (relay_identity sha (vo_binding v')) v' tag'"
    by (rule inj_on_eq_iff [OF assms(7)]) (use t in blast)+
  then show ?thesis
    using assms(5,6) t id fp tags relay_key_inject [OF assms(1-4)]
    by (auto simp: relay_new_Inr relay_input_inject relay_payload_inject)
qed

theorem relay_identity_pins_result_witness:
  "\<exists>r r'. relay_new ex_relay_sha (ex_verified 1) = Inr r \<and> relay_new ex_relay_sha (ex_verified 2) = Inr r'
     \<and> pi_input_id (rl_input r) = pi_input_id (rl_input r') \<and> pi_payload_digest (rl_input r) \<noteq> pi_payload_digest (rl_input r')"
proof -
  obtain r r' where r: "relay_new ex_relay_sha (ex_verified 1) = Inr r" "relay_new ex_relay_sha (ex_verified 2) = Inr r'"
    by (simp add: relay_new_Inr ex_verified_def)
  have b: "vo_binding (ex_verified g) = ex_relay_binding" "ee_state (vo_evidence (ex_verified g)) = EsSucceeded" for g
    by (simp_all add: ex_verified_def)
  have "(4 :: nat) = Suc (Suc (Suc (Suc 0)))" by simp
  then have "le_bytes 4 x = le_bytes (Suc (Suc (Suc (Suc 0)))) x" for x by metis
  then have gens: "u32_to_be_bytes 1 ! 3 = 1" "u32_to_be_bytes 2 ! 3 = 2" by (simp_all add: u32_to_be_bytes_def be_bytes_def)
  let ?p = "\<lambda>g. relay_payload (relay_identity ex_relay_sha ex_relay_binding) (ex_verified g) 1"
  have payloads: "{relay_payload (relay_identity ex_relay_sha (vo_binding w)) w tag | w tag.
      w \<in> {ex_verified 1, ex_verified 2} \<and> state_tag (ee_state (vo_evidence w)) = Some tag} = {?p 1, ?p 2}" (is "?P = _")
    using b by (auto, (metis state_tag.simps(1))+)
  have "inj_on ex_relay_sha {relay_key ex_relay_sha ex_relay_binding, fingerprint_bytes ex_def, ?p 1, ?p 2}"
    unfolding inj_on_def by (simp add: ex_relay_hashes gens)
  moreover have "{relay_key ex_relay_sha (vo_binding (ex_verified 1)), relay_key ex_relay_sha (vo_binding (ex_verified 2)),
      fingerprint_bytes (tb_definition (vo_binding (ex_verified 1))), fingerprint_bytes (tb_definition (vo_binding (ex_verified 2)))} \<union> ?P
      = {relay_key ex_relay_sha ex_relay_binding, fingerprint_bytes ex_def, ?p 1, ?p 2}"
    unfolding payloads b by (simp add: ex_relay_binding_def) blast
  ultimately have inj: "inj_on ex_relay_sha ({relay_key ex_relay_sha (vo_binding (ex_verified 1)), relay_key ex_relay_sha (vo_binding (ex_verified 2)),
      fingerprint_bytes (tb_definition (vo_binding (ex_verified 1))), fingerprint_bytes (tb_definition (vo_binding (ex_verified 2)))} \<union> ?P)"
    by simp
  have "vo_generation (ex_verified 1) \<noteq> vo_generation (ex_verified 2)" by (simp add: ex_verified_def)
  then show ?thesis using relay_identity_pins_result [OF _ _ _ _ r inj] ex_relay_bound ex_relay_wf r unfolding b by blast
qed

end
