(* ===== verification/Canonical_Evidence.thy ===== *)
theory Canonical_Evidence
  imports Process_Properties Task_Contracts
begin

text \<open>
  The adapter between a canonical event store and processes (\<open>penelope-statechronicle\<close>): what a
  committed event must agree with before it counts as evidence for a submitted command, how verified
  evidence is bound to an atomic commit, and how independently verified state is bound to a task
  checkpoint. Where the events and the state evidence come from is outside this code; the verifier
  of checkpoint state is an argument.
\<close>

section \<open>Canonical events\<close>

definition command_validate :: "canonical_command \<Rightarrow> domain_error + unit" where
  "command_validate c = validate_canonical_resource_scope (cc_resource_ids c)"

record canonical_command_expectation =
  cx_scope :: process_scope
  cx_action_id :: action_id
  cx_operation :: operation_id
  cx_resource_ids :: "resource_id list"
  cx_event_payload_digest :: content_digest

record verified_canonical_event =
  vc_scope :: process_scope
  vc_event :: canonical_event

datatype correlation_error =
    InvalidExpectation domain_error
  | CommandScopeMismatch
  | InvalidEvent domain_error
  | TenantMismatch
  | ActionMismatch
  | OperationMismatch
  | ResourceScopeMismatch
  | PayloadDigestMismatch

datatype canonical_commit_binding_error =
    BindInvalidCommit commit_error
  | MissingInput
  | InputKindMismatch
  | InputScopeMismatch
  | InputPayloadDigestMismatch
  | CommitScopeMismatch

definition expectation_validate :: "canonical_command_expectation \<Rightarrow> domain_error + unit" where
  "expectation_validate ex = validate_canonical_resource_scope (cx_resource_ids ex)"

definition from_command ::
  "process_scope \<Rightarrow> canonical_command \<Rightarrow> content_digest \<Rightarrow> correlation_error + canonical_command_expectation" where
  "from_command scope command d =
     bindR (map_err InvalidExpectation (command_validate command)) (\<lambda>_.
     if cc_tenant_id command \<noteq> ps_tenant_id scope then Inl CommandScopeMismatch
     else let expectation = \<lparr> cx_scope = scope, cx_action_id = cc_action_id command,
                cx_operation = cc_operation command, cx_resource_ids = cc_resource_ids command,
                cx_event_payload_digest = d \<rparr>
          in bindR (map_err InvalidExpectation (expectation_validate expectation)) (\<lambda>_. Inr expectation))"

definition verify_committed_event ::
  "canonical_command_expectation \<Rightarrow> canonical_event \<Rightarrow> correlation_error + verified_canonical_event" where
  "verify_committed_event ex event =
     bindR (map_err InvalidExpectation (expectation_validate ex)) (\<lambda>_.
     bindR (map_err InvalidEvent (event_validate event)) (\<lambda>_.
       if ce_tenant_id event \<noteq> ps_tenant_id (cx_scope ex) then Inl TenantMismatch
       else if ce_action_id event \<noteq> cx_action_id ex then Inl ActionMismatch
       else if ce_operation event \<noteq> cx_operation ex then Inl OperationMismatch
       else if ce_resource_ids event \<noteq> cx_resource_ids ex then Inl ResourceScopeMismatch
       else if ce_payload_digest event \<noteq> cx_event_payload_digest ex then Inl PayloadDigestMismatch
       else Inr \<lparr> vc_scope = cx_scope ex, vc_event = event \<rparr>))"

definition bind_verified_event_to_commit ::
  "atomic_process_commit \<Rightarrow> verified_canonical_event \<Rightarrow> canonical_commit_binding_error + atomic_process_commit" where
  "bind_verified_event_to_commit c v =
     bindR (map_err BindInvalidCommit (commit_validate c)) (\<lambda>_.
     bindR (ok_or MissingInput (cm_input c)) (\<lambda>x.
       if pi_kind x \<noteq> IkCanonicalEvent then Inl InputKindMismatch
       else if pi_tenant_id x \<noteq> ps_tenant_id (vc_scope v) \<or> pi_process_id x \<noteq> ps_process_id (vc_scope v)
       then Inl InputScopeMismatch
       else if pi_payload_digest x \<noteq> ce_payload_digest (vc_event v) then Inl InputPayloadDigestMismatch
       else
         (case cm_outcomes c of
            [] \<Rightarrow> Inl CommitScopeMismatch
          | out # _ \<Rightarrow>
              if po_tenant_id out \<noteq> ps_tenant_id (vc_scope v)
                 \<or> po_process_id out \<noteq> ps_process_id (vc_scope v)
                 \<or> po_definition_id out \<noteq> ps_definition_id (vc_scope v)
                 \<or> po_definition_version out \<noteq> ps_definition_version (vc_scope v)
                 \<or> po_definition_digest out \<noteq> ps_definition_digest (vc_scope v)
              then Inl CommitScopeMismatch
              else Inr (with_canonical_source_event c (ce_source_event_id (vc_event v))))))"

section \<open>Checkpoint state\<close>

record checkpoint_state_evidence =
  ck_scope :: task_scope
  ck_generation :: task_generation
  ck_checkpoint :: blob_ref
  ck_state_version :: u64
  ck_state_digest :: digest
  ck_proof_digest :: digest

datatype checkpoint_state_error = NotCheckpoint | BindingMismatch | VerificationFailed

definition checkpoint :: "task_record \<Rightarrow> checkpoint_state_error + blob_ref" where
  "checkpoint r =
     (case r_event r of
        CheckpointCommitted b \<Rightarrow> Inr b
      | CheckpointMigrated _ _ b _ \<Rightarrow> Inr b
      | _ \<Rightarrow> Inl NotCheckpoint)"

definition bind_checkpoint_state ::
  "task_record \<Rightarrow> checkpoint_state_evidence \<Rightarrow> checkpoint_state_error + checkpoint_state_evidence" where
  "bind_checkpoint_state r evidence =
     bindR (checkpoint r) (\<lambda>b.
       if r_version r \<noteq> 1 \<or> ck_scope evidence \<noteq> r_scope r \<or> ck_generation evidence \<noteq> r_generation r
          \<or> ck_checkpoint evidence \<noteq> b
       then Inl BindingMismatch else Inr evidence)"

definition verify_checkpoint_state ::
  "(task_record \<Rightarrow> checkpoint_state_error + checkpoint_state_evidence) \<Rightarrow> task_record \<Rightarrow>
     checkpoint_state_error + checkpoint_state_evidence" where
  "verify_checkpoint_state verify r =
     bindR (checkpoint r) (\<lambda>_.
       if r_version r \<noteq> 1 then Inl BindingMismatch
       else bindR (verify r) (bind_checkpoint_state r))"

section \<open>Properties\<close>

lemma from_command_Inr:
  "from_command scope command d = Inr ex \<longleftrightarrow>
     command_validate command = Inr () \<and> cc_tenant_id command = ps_tenant_id scope
     \<and> ex = \<lparr> cx_scope = scope, cx_action_id = cc_action_id command, cx_operation = cc_operation command,
              cx_resource_ids = cc_resource_ids command, cx_event_payload_digest = d \<rparr>"
  by (auto simp: from_command_def command_validate_def expectation_validate_def result_simps Let_def)

lemma verify_committed_event_Inr:
  "verify_committed_event ex event = Inr v \<longleftrightarrow>
     expectation_validate ex = Inr () \<and> ce_tenant_id event = ps_tenant_id (cx_scope ex)
     \<and> ce_action_id event = cx_action_id ex \<and> ce_operation event = cx_operation ex
     \<and> ce_resource_ids event = cx_resource_ids ex \<and> ce_payload_digest event = cx_event_payload_digest ex
     \<and> v = \<lparr> vc_scope = cx_scope ex, vc_event = event \<rparr>"
  by (auto simp: verify_committed_event_def expectation_validate_def event_validate_def result_simps)

lemma commit_spec_with_source:
  assumes "commit_spec s c" "cm_input c = Some x" "pi_kind x = IkCanonicalEvent"
  shows "commit_spec s (with_canonical_source_event c e)"
  using assms by (simp add: commit_spec_def with_canonical_source_event_def)

lemma bind_verified_event_Inr:
  "bind_verified_event_to_commit c v = Inr c' \<longleftrightarrow>
     commit_spec (vc_scope v) c
     \<and> (\<exists>x. cm_input c = Some x \<and> pi_kind x = IkCanonicalEvent \<and> pi_tenant_id x = ps_tenant_id (vc_scope v)
            \<and> pi_process_id x = ps_process_id (vc_scope v) \<and> pi_payload_digest x = ce_payload_digest (vc_event v))
     \<and> c' = with_canonical_source_event c (ce_source_event_id (vc_event v))"
proof (cases "cm_outcomes c")
  case Nil
  then show ?thesis by (simp add: bind_verified_event_to_commit_def commit_validate_def commit_spec_def)
next
  case (Cons out outs)
  have scope: "(po_tenant_id out = ps_tenant_id s \<and> po_process_id out = ps_process_id s \<and> po_definition_id out = ps_definition_id s
      \<and> po_definition_version out = ps_definition_version s \<and> po_definition_digest out = ps_definition_digest s)
      \<longleftrightarrow> outcome_scope out = s" for s
    by (cases s) (auto simp: outcome_scope_def)
  have "s = outcome_scope out" if "commit_spec s c" for s
    using that Cons numbered_first [of s "unat (cm_expected_sequence c)" "cm_outcomes c"] by (simp add: commit_spec_def)
  then have spec: "commit_spec s c \<longleftrightarrow> commit_validate c = Inr () \<and> outcome_scope out = s" for s
    using commit_validate_scope [OF Cons] by auto
  show ?thesis
    unfolding spec using scope [of "vc_scope v"] Cons
    by (auto simp: bind_verified_event_to_commit_def result_simps split: if_splits)
qed

text \<open>The verifier's word is only accepted for the exact checkpoint it is about.\<close>

lemma verify_checkpoint_state_Inr:
  "verify_checkpoint_state verify r = Inr evidence \<longleftrightarrow>
     verify r = Inr evidence \<and> r_version r = 1 \<and> ck_scope evidence = r_scope r
     \<and> ck_generation evidence = r_generation r \<and> checkpoint r = Inr (ck_checkpoint evidence)"
  by (auto simp: verify_checkpoint_state_def bind_checkpoint_state_def result_simps)

section \<open>Claims\<close>

text \<open>
  C35. Canonical evidence is accepted exactly when everything agrees. Deriving the expectation from a
  command, verifying an event against it and binding the result to a commit succeeds exactly when the
  command's resources are within bounds and without duplicates, the event names the command's tenant,
  action, operation and resources in the same order and the expected payload, and the commit is a valid
  one of the same process scope whose input is a canonical event with that payload. The bound commit is
  the same commit with the source event recorded, and it is valid again.
\<close>
theorem canonical_evidence_accepted_iff:
  "(\<exists>ex v. from_command scope command d = Inr ex \<and> verify_committed_event ex event = Inr v
       \<and> bind_verified_event_to_commit c v = Inr c')
   \<longleftrightarrow> length (cc_resource_ids command) \<le> MAX_CANONICAL_RESOURCE_IDS \<and> distinct (cc_resource_ids command)
     \<and> cc_tenant_id command = ps_tenant_id scope
     \<and> ce_tenant_id event = cc_tenant_id command \<and> ce_action_id event = cc_action_id command
     \<and> ce_operation event = cc_operation command \<and> ce_resource_ids event = cc_resource_ids command
     \<and> ce_payload_digest event = d
     \<and> commit_validate c = Inr () \<and> list_all (\<lambda>out. outcome_scope out = scope) (cm_outcomes c)
     \<and> (\<exists>x. cm_input c = Some x \<and> pi_kind x = IkCanonicalEvent \<and> pi_payload_digest x = d)
     \<and> c' = c\<lparr>cm_canonical_source_event_id := Some (ce_source_event_id event)\<rparr> \<and> commit_validate c' = Inr ()"
  (is "?lhs \<longleftrightarrow> ?rhs")
proof -
  have ids: "command_validate command = Inr () \<longleftrightarrow>
      length (cc_resource_ids command) \<le> MAX_CANONICAL_RESOURCE_IDS \<and> distinct (cc_resource_ids command)"
    by (auto simp: command_validate_def validate_canonical_resource_scope_def has_duplicate_iff)
  have scope: "commit_spec scope c \<longleftrightarrow> commit_validate c = Inr () \<and> list_all (\<lambda>out. outcome_scope out = scope) (cm_outcomes c)"
  proof
    assume "commit_validate c = Inr () \<and> list_all (\<lambda>out. outcome_scope out = scope) (cm_outcomes c)"
    then obtain s where "commit_spec s c" "list_all (\<lambda>out. outcome_scope out = scope) (cm_outcomes c)"
      using commit_validate_spec by blast
    then show "commit_spec scope c"
      using numbered_first [of s "unat (cm_expected_sequence c)" "cm_outcomes c"]
      by (cases "cm_outcomes c") (auto simp: commit_spec_def)
  qed (auto simp: commit_validate_spec commit_spec_def numbered_def list_all_iff)
  have input: "pi_tenant_id x = ps_tenant_id scope \<and> pi_process_id x = ps_process_id scope"
    if "commit_spec scope c" "cm_input c = Some x" for x
    using that by (auto simp: commit_spec_def input_recorded_def)
  have valid: "commit_validate (with_canonical_source_event c e) = Inr ()"
    if "commit_spec scope c" "cm_input c = Some x" "pi_kind x = IkCanonicalEvent" for x e
    using commit_spec_with_source [OF that] commit_validate_spec by blast
  have "?lhs \<longleftrightarrow> command_validate command = Inr () \<and> cc_tenant_id command = ps_tenant_id scope
     \<and> ce_tenant_id event = cc_tenant_id command \<and> ce_action_id event = cc_action_id command
     \<and> ce_operation event = cc_operation command \<and> ce_resource_ids event = cc_resource_ids command \<and> ce_payload_digest event = d
     \<and> commit_spec scope c \<and> (\<exists>x. cm_input c = Some x \<and> pi_kind x = IkCanonicalEvent \<and> pi_payload_digest x = d)
     \<and> c' = with_canonical_source_event c (ce_source_event_id event)"
    using input by (auto simp: from_command_Inr verify_committed_event_Inr bind_verified_event_Inr command_validate_def expectation_validate_def)
  then show ?thesis
    using ids scope valid by (auto simp: with_canonical_source_event_def)
qed

end
