(* ===== verification/Worker_Protocol.thy ===== *)
theory Worker_Protocol
  imports Task_Control
begin

text \<open>
  The byte formats of \<open>penelope-process-runtime\<close>: the start packet and the proposals that cross the
  pipes of a worker (\<open>worker.rs\<close>, the framing functions of \<open>runtime.rs\<close>), the manifest of an
  execution (\<open>registry.rs\<close>) and the check of a worker image (\<open>image.rs\<close>).

  A pipe is read as the bytes that arrive before it ends or fails; \<open>read_exact\<close> reports both the same
  way. SHA-256 and the JSON encoding of the start metadata are arguments. \<open>usize\<close> has 64 bits on the
  only supported target.
\<close>

section \<open>Bytes\<close>

definition u32_from_be_bytes :: "byte list \<Rightarrow> u32" where
  "u32_from_be_bytes bs = of_nat (le_value (rev bs))"

definition u64_from_be_bytes :: "byte list \<Rightarrow> u64" where
  "u64_from_be_bytes bs = of_nat (le_value (rev bs))"

definition u16_from_le_bytes :: "byte list \<Rightarrow> u16" where
  "u16_from_le_bytes bs = of_nat (le_value bs)"

definition u32_from_le_bytes :: "byte list \<Rightarrow> u32" where
  "u32_from_le_bytes bs = of_nat (le_value bs)"

text \<open>\<open>slice.get(from..to)\<close>.\<close>

definition get_range :: "byte list \<Rightarrow> nat \<Rightarrow> nat \<Rightarrow> byte list option" where
  "get_range bs from to = (if from \<le> to \<and> to \<le> length bs then Some (take (to - from) (drop from bs)) else None)"

definition checked_usize :: "nat \<Rightarrow> task_port_error + nat" where
  "checked_usize n = (if n < 2 ^ 64 then Inr n else Inl Corrupt)"

definition raw :: "nat \<Rightarrow> byte list \<Rightarrow> nat \<Rightarrow> task_port_error + byte list" where
  "raw n bytes offset = bindR (checked_usize (offset + n)) (\<lambda>end. ok_or Corrupt (get_range bytes offset end))"

definition number :: "byte list \<Rightarrow> nat \<Rightarrow> task_port_error + u32" where
  "number bytes offset =
     bindR (checked_usize (offset + 4)) (\<lambda>end.
       bindR (ok_or Corrupt (get_range bytes offset end)) (\<lambda>bs. Inr (u32_from_be_bytes bs)))"

definition read_exact :: "nat \<Rightarrow> byte list \<Rightarrow> task_port_error + (byte list \<times> byte list)" where
  "read_exact n bs = (if n \<le> length bs then Inr (take n bs, drop n bs) else Inl Runtime)"

section \<open>The start packet\<close>

definition START_MAGIC :: "byte list" where
  "START_MAGIC = str_bytes ''PNLWRK01''"

definition OBS_MAGIC :: "byte list" where
  "OBS_MAGIC = str_bytes ''PNLOBS01''"

definition OBS_HEADER :: nat where
  "OBS_HEADER = 53"

record worker_metadata =
  wm_scope :: task_scope
  wm_generation :: task_generation
  wm_definition :: task_definition
  wm_execution_deadline :: task_tick
  wm_input_schema :: u32

record worker_request =
  wq_metadata :: worker_metadata
  wq_input :: "byte list"
  wq_checkpoint :: "byte list option"

definition scope_digest :: "sha \<Rightarrow> task_scope \<Rightarrow> digest" where
  "scope_digest sha s =
     digest_of sha (str_bytes ''penelope.linux-worker.scope.v1'' @ [0] @ digest_bytes (scope_tenant s)
       @ digest_bytes (scope_task s) @ digest_bytes (scope_definition s) @ digest_bytes (scope_input s))"

definition execution_id :: "sha \<Rightarrow> task_scope \<Rightarrow> task_generation \<Rightarrow> digest" where
  "execution_id sha s g =
     digest_of sha (str_bytes ''penelope.linux.single-process.v1'' @ [0] @ digest_bytes (scope_digest sha s) @ u32_to_be_bytes g)"

definition start_header :: "sha \<Rightarrow> task_scope \<Rightarrow> task_generation \<Rightarrow> u32 list \<Rightarrow> byte list" where
  "start_header sha s g lengths =
     START_MAGIC @ digest_bytes (scope_digest sha s) @ concat (map u32_to_be_bytes (g # lengths))"

definition u32_try_from :: "nat \<Rightarrow> task_port_error + u32" where
  "u32_try_from n = (if n < 2 ^ 32 then Inr (of_nat n) else Inl Exhausted)"

text \<open>The parts a started worker is sent: header, metadata, input and checkpoint bytes.\<close>

definition start_parts ::
  "sha \<Rightarrow> (worker_metadata \<Rightarrow> byte list option) \<Rightarrow> task_start \<Rightarrow> task_port_error + byte list list" where
  "start_parts sha to_vec rq =
     bindR (ok_or Corrupt (to_vec \<lparr> wm_scope = start_scope rq, wm_generation = start_generation rq,
        wm_definition = start_definition rq, wm_execution_deadline = start_execution_deadline rq,
        wm_input_schema = start_input_schema rq \<rparr>)) (\<lambda>metadata.
     if 8192 < length metadata then Inl Exhausted
     else bindR (u32_try_from (length metadata)) (\<lambda>metadata_len.
       bindR (u32_try_from (length (start_input rq))) (\<lambda>input_len.
       bindR (u32_try_from (case start_checkpoint rq of None \<Rightarrow> 0 | Some c \<Rightarrow> length c)) (\<lambda>checkpoint_len.
         Inr [start_header sha (start_scope rq) (start_generation rq)
                [metadata_len, input_len, checkpoint_len, if start_checkpoint rq = None then 0 else 1],
              metadata, start_input rq, case start_checkpoint rq of None \<Rightarrow> [] | Some c \<Rightarrow> c]))))"

definition read_request ::
  "sha \<Rightarrow> (byte list \<Rightarrow> worker_metadata option) \<Rightarrow> u32 \<Rightarrow> u32 \<Rightarrow> byte list \<Rightarrow> task_port_error + (worker_request \<times> byte list)" where
  "read_request sha from_slice max_input max_checkpoint pipe =
     bindR (read_exact 60 pipe) (\<lambda>(header, pipe).
     if get_range header 0 8 \<noteq> Some START_MAGIC then Inl Corrupt
     else bindR (number header 44) (\<lambda>metadata_len.
       bindR (number header 48) (\<lambda>input_len.
       bindR (number header 52) (\<lambda>checkpoint_len.
       bindR (number header 56) (\<lambda>has_checkpoint.
       if 8192 < metadata_len \<or> max_input < input_len \<or> max_checkpoint < checkpoint_len \<or> 1 < has_checkpoint
          \<or> (has_checkpoint = 0 \<and> checkpoint_len \<noteq> 0)
       then Inl Exhausted
       else bindR (read_exact (unat metadata_len) pipe) (\<lambda>(bytes, pipe).
         bindR (ok_or Corrupt (from_slice bytes)) (\<lambda>metadata.
         if get_range header 8 40 \<noteq> Some (digest_bytes (scope_digest sha (wm_scope metadata))) then Inl Corrupt
         else bindR (number header 40) (\<lambda>generation.
           if generation \<noteq> wm_generation metadata
              \<or> scope_definition (wm_scope metadata) \<noteq> fingerprint sha (wm_definition metadata)
           then Inl Corrupt
           else bindR (map_err (\<lambda>_. Corrupt) (definition_validate (wm_definition metadata))) (\<lambda>_.
             if max_input_bytes (budget (wm_definition metadata)) < input_len
                \<or> max_checkpoint_bytes (recovery (wm_definition metadata)) < checkpoint_len
                \<or> wm_input_schema metadata = 0
             then Inl Corrupt
             else bindR (read_exact (unat input_len) pipe) (\<lambda>(input, pipe).
               if digest_of sha input \<noteq> scope_input (wm_scope metadata) then Inl Corrupt
               else bindR (if has_checkpoint = 1
                      then bindR (read_exact (unat checkpoint_len) pipe) (\<lambda>(c, pipe). Inr (Some c, pipe))
                      else Inr (None, pipe)) (\<lambda>(c, pipe).
                 Inr (\<lparr> wq_metadata = metadata, wq_input = input, wq_checkpoint = c \<rparr>, pipe))))))))))))"

section \<open>Proposals and acknowledgements\<close>

definition proposal_limit :: "task_definition \<Rightarrow> bool \<Rightarrow> u32" where
  "proposal_limit d is_checkpoint = (if is_checkpoint then max_checkpoint_bytes (recovery d) else max_output_bytes (budget d))"

text \<open>The bytes written to the pipe; \<open>write_ok\<close> is whether the pipe accepted all of them.\<close>

definition write_proposal ::
  "sha \<Rightarrow> (byte list \<Rightarrow> bool) \<Rightarrow> worker_metadata \<Rightarrow> bool \<Rightarrow> u32 \<Rightarrow> byte list \<Rightarrow> task_port_error + byte list" where
  "write_proposal sha write_ok m is_checkpoint schema bytes =
     bindR (u32_try_from (length bytes)) (\<lambda>len.
     if proposal_limit (wm_definition m) is_checkpoint < len \<or> schema = 0 then Inl Exhausted
     else let frame = OBS_MAGIC @ digest_bytes (scope_digest sha (wm_scope m)) @ u32_to_be_bytes (wm_generation m)
                @ [if is_checkpoint then 2 else 1] @ u32_to_be_bytes len @ u32_to_be_bytes schema @ bytes
          in if write_ok frame then Inr frame else Inl Runtime)"

record proposal_frame =
  pf_checkpoint :: bool
  pf_length :: u32
  pf_schema :: u32
  pf_bytes :: "byte list"

text \<open>The frame at the front of the bytes received so far, if it is complete.\<close>

definition poll_frame ::
  "sha \<Rightarrow> task_scope \<Rightarrow> task_generation \<Rightarrow> task_definition \<Rightarrow> byte list \<Rightarrow> task_port_error + proposal_frame option" where
  "poll_frame sha scope generation d filled =
     (if length filled < OBS_HEADER then Inr None
      else let header = take OBS_HEADER filled in
        if get_range header 0 8 \<noteq> Some OBS_MAGIC
           \<or> get_range header 8 40 \<noteq> Some (digest_bytes (scope_digest sha scope))
        then Inl Corrupt
        else bindR (number header 40) (\<lambda>g.
          if g \<noteq> generation then Inl Corrupt
          else bindR (if header ! 44 = 1 then Inr False else if header ! 44 = 2 then Inr True else Inl Corrupt) (\<lambda>is_checkpoint.
            bindR (number header 45) (\<lambda>len.
            bindR (number header 49) (\<lambda>schema.
              if proposal_limit d is_checkpoint < len \<or> schema = 0 then Inl Exhausted
              else let end = OBS_HEADER + unat len in
                if length filled < end then Inr None
                else if length filled \<noteq> end then Inl Corrupt
                else Inr (Some \<lparr> pf_checkpoint = is_checkpoint, pf_length = len, pf_schema = schema,
                                 pf_bytes = drop OBS_HEADER filled \<rparr>))))))"

definition ACK_MAGIC :: "byte list" where
  "ACK_MAGIC = str_bytes ''PNLACK01''"

definition ack_bytes :: "digest \<Rightarrow> byte list" where
  "ack_bytes d = ACK_MAGIC @ digest_bytes d"

definition wait_checkpoint_ack :: "digest \<Rightarrow> byte list \<Rightarrow> task_port_error + byte list" where
  "wait_checkpoint_ack d pipe =
     bindR (read_exact 40 pipe) (\<lambda>(bytes, pipe).
       if get_range bytes 0 8 \<noteq> Some ACK_MAGIC \<or> get_range bytes 8 (length bytes) \<noteq> Some (digest_bytes d)
       then Inl Corrupt else Inr pipe)"

section \<open>Reading and writing with partial results\<close>

text \<open>
  One answer of \<open>read\<close> or \<open>write\<close>. \<open>ReadOk []\<close> is \<open>Ok(0)\<close>, the end of the stream. Scripts of answers
  are finite; a file that has no more answers is at its end, a write that has none is still running.
\<close>

datatype read_result = ReadOk "byte list" | ReadInterrupted | ReadWouldBlock | ReadFailed
datatype write_result = Wrote nat | WriteInterrupted | WriteWouldBlock | WriteFailed

text \<open>Each entry: is the deadline over before the write, the answer, is it over after a refusal.\<close>

fun send_until ::
  "(bool \<times> write_result \<times> bool) list \<Rightarrow> bool \<Rightarrow> byte list \<Rightarrow>
     (task_port_error + unit) option \<times> byte list \<times> (bool \<times> write_result \<times> bool) list" where
  "send_until script late [] = (Some (Inr ()), [], script)"
| "send_until [] late (b # bs) = (None, [], [])"
| "send_until ((over, answer, over_after) # script) late (b # bs) =
     (if over then (Some (Inl Runtime), [], script)
      else case answer of
        Wrote n \<Rightarrow>
          if n = 0 then (Some (Inl Runtime), [], script)
          else if drop n (b # bs) = [] then
            (Some (if late then Inl Runtime else Inr ()), take n (b # bs), script)
          else (case send_until script late (drop n (b # bs)) of
                  (res, sent, rest) \<Rightarrow> (res, take n (b # bs) @ sent, rest))
      | WriteInterrupted \<Rightarrow> send_until script late (b # bs)
      | WriteWouldBlock \<Rightarrow>
          if over_after then (Some (Inl Runtime), [], script) else send_until script late (b # bs)
      | WriteFailed \<Rightarrow> (Some (Inl Runtime), [], script))"

text \<open>\<open>lates\<close> says for each part whether its last write finished after the deadline.\<close>

fun send_parts ::
  "(bool \<times> write_result \<times> bool) list \<Rightarrow> (byte list \<times> bool) list \<Rightarrow> (task_port_error + unit) option \<times> byte list" where
  "send_parts script [] = (Some (Inr ()), [])"
| "send_parts script ((part, late) # parts) =
     (case send_until script late part of
        (Some (Inr _), sent, script') \<Rightarrow>
          (case send_parts script' parts of (res, sent') \<Rightarrow> (res, sent @ sent'))
      | (res, sent, _) \<Rightarrow> (res, sent))"

section \<open>The registry of executions\<close>

definition IDENTITY_OFFSET :: nat where
  "IDENTITY_OFFSET = 160"

record process_identity =
  id_pid :: u32
  id_start_ticks :: u64

record saved_execution =
  sv_identity :: "process_identity option"
  sv_boot :: digest

text \<open>The manifest a prepared execution starts with; the last twelve bytes are left for the worker's identity.\<close>

definition manifest_header :: "sha \<Rightarrow> task_scope \<Rightarrow> task_generation \<Rightarrow> digest \<Rightarrow> digest \<Rightarrow> byte list" where
  "manifest_header sha scope generation execution boot =
     (let parts = str_bytes ''PNLREG01'' @ digest_bytes execution @ digest_bytes (scope_digest sha scope)
            @ u32_to_be_bytes generation @ digest_bytes (scope_definition scope) @ digest_bytes boot
      in parts @ replicate (172 - length parts) 0)"

definition write_identity :: "process_identity \<Rightarrow> byte list \<Rightarrow> byte list" where
  "write_identity i file =
     take IDENTITY_OFFSET file @ u32_to_be_bytes (id_pid i) @ u64_to_be_bytes (id_start_ticks i) @ drop (IDENTITY_OFFSET + 12) file"

definition manifest_complete :: "byte list \<Rightarrow> task_port_error + byte list" where
  "manifest_complete acc = (if length acc \<noteq> 172 then Inl Corrupt else raw 172 acc 0)"

fun read_manifest :: "read_result list \<Rightarrow> byte list \<Rightarrow> task_port_error + byte list" where
  "read_manifest [] acc = (if 173 \<le> length acc then Inl Corrupt else manifest_complete acc)"
| "read_manifest (answer # answers) acc =
     (if 173 \<le> length acc then Inl Corrupt
      else case answer of
        ReadOk bs \<Rightarrow> if bs = [] then manifest_complete acc else read_manifest answers (acc @ bs)
      | ReadInterrupted \<Rightarrow> read_manifest answers acc
      | _ \<Rightarrow> Inl Runtime)"

definition load_manifest ::
  "sha \<Rightarrow> task_scope \<Rightarrow> task_generation \<Rightarrow> digest \<Rightarrow> byte list \<Rightarrow> task_port_error + saved_execution" where
  "load_manifest sha scope generation execution bytes =
     bindR (raw 32 bytes 108) (\<lambda>boot_bytes.
     let boot = digest_from_array boot_bytes in
     if get_range bytes 0 IDENTITY_OFFSET \<noteq> get_range (manifest_header sha scope generation execution boot) 0 IDENTITY_OFFSET
     then Inl Corrupt
     else bindR (raw 4 bytes IDENTITY_OFFSET) (\<lambda>pid_bytes.
       bindR (raw 8 bytes (IDENTITY_OFFSET + 4)) (\<lambda>tick_bytes.
       let pid = u32_from_be_bytes pid_bytes; start_ticks = u64_from_be_bytes tick_bytes in
       if pid = 0 \<and> start_ticks = 0 then Inr \<lparr> sv_identity = None, sv_boot = boot \<rparr>
       else if 0 < pid \<and> 0 < start_ticks
       then Inr \<lparr> sv_identity = Some \<lparr> id_pid = pid, id_start_ticks = start_ticks \<rparr>, sv_boot = boot \<rparr>
       else Inl Corrupt)))"

section \<open>Worker images\<close>

fun check_program_headers :: "byte list \<Rightarrow> nat \<Rightarrow> nat \<Rightarrow> nat list \<Rightarrow> task_port_error + unit" where
  "check_program_headers bytes offset entry_size [] = Inr ()"
| "check_program_headers bytes offset entry_size (index # rest) =
     bindR (checked_usize (index * entry_size)) (\<lambda>distance.
     bindR (checked_usize (offset + distance)) (\<lambda>start.
     bindR (checked_usize (start + entry_size)) (\<lambda>end.
     bindR (ok_or Corrupt (get_range bytes start end)) (\<lambda>entry.
     bindR (raw 4 entry 0) (\<lambda>kind.
       if u32_from_le_bytes kind = 3 then Inl Runtime
       else check_program_headers bytes offset entry_size rest)))))"

definition verify_static_elf :: "byte list \<Rightarrow> task_port_error + unit" where
  "verify_static_elf bytes =
     (if get_range bytes 0 7 \<noteq> Some [127, 69, 76, 70, 2, 1, 1] then Inl Corrupt
      else bindR (raw 2 bytes 18) (\<lambda>machine.
      if u16_from_le_bytes machine \<noteq> 62 then Inl Corrupt
      else bindR (raw 2 bytes 16) (\<lambda>kind.
      if u16_from_le_bytes kind \<noteq> 2 \<and> u16_from_le_bytes kind \<noteq> 3 then Inl Corrupt
      else bindR (raw 8 bytes 32) (\<lambda>offset_bytes.
      bindR (raw 2 bytes 54) (\<lambda>size_bytes.
      bindR (raw 2 bytes 56) (\<lambda>count_bytes.
        let offset = unat (u64_from_le_bytes offset_bytes);
            entry_size = unat (u16_from_le_bytes size_bytes);
            count = unat (u16_from_le_bytes count_bytes)
        in if entry_size \<noteq> 56 \<or> count = 0 \<or> 128 < count then Inl Corrupt
           else check_program_headers bytes offset entry_size [0..<count]))))))"

end
