(* ===== verification/Worker_Runtime.thy ===== *)
theory Worker_Runtime
  imports Worker_Protocol
begin

text \<open>
  The task runtime that runs each execution in one sandboxed process
  (\<open>penelope-process-runtime/src/runtime.rs\<close> with the calls it makes into \<open>registry.rs\<close> and
  \<open>sandbox.rs\<close>). The operating system and the durable authority of generations answer through a
  record of functions; an answer may depend on all calls made before, which are the trace. Reading a
  pipe and reaping a child are calls too. An operation that returns an error keeps the changes it has
  made to the table of live workers.
\<close>

section \<open>Configuration and state\<close>

text \<open>Durations in nanoseconds.\<close>

record process_runtime_config =
  pc_max_frame_bytes :: u32
  pc_max_live :: u16
  pc_ticks_per_second :: u64
  pc_address_space_bytes :: u64
  pc_startup_timeout :: nat
  pc_fence_timeout :: nat

definition config_check :: "process_runtime_config \<Rightarrow> task_port_error + unit" where
  "config_check c =
     (if pc_max_live c = 0 \<or> 256 < pc_max_live c
         \<or> pc_max_frame_bytes c = 0 \<or> 16777216 < pc_max_frame_bytes c
         \<or> pc_ticks_per_second c = 0 \<or> pc_address_space_bytes c < 8388608
         \<or> pc_startup_timeout c = 0 \<or> 30 * 10 ^ 9 < pc_startup_timeout c
         \<or> pc_fence_timeout c = 0 \<or> 30 * 10 ^ 9 < pc_fence_timeout c
      then Inl Exhausted else Inr ())"

text \<open>A live worker: the first \<open>filled\<close> bytes of its buffer, and the size of the buffer.\<close>

record active_worker =
  ac_scope :: task_scope
  ac_generation :: task_generation
  ac_pid :: u32
  ac_size :: nat
  ac_filled :: "byte list"
  ac_checkpoint :: "blob_ref option"
  ac_definition :: task_definition

datatype start_reservation = Reserved | AlreadyReserved

datatype child_status = StillRunning | Exited "int option"

datatype wait_error = NoSuchChild | WaitFailed

datatype runtime_call =
    LLock
  | LReserve task_start digest "task_port_error + start_reservation"
  | LPrepare digest "byte list"
  | LSpawn u64 u64 "task_port_error + u32"
  | LNonblocking
  | LSend "byte list list" "task_port_error + unit"
  | LRead nat read_result
  | LBeginFence task_scope task_generation "task_port_error + digest option"
  | LLoad digest "task_port_error + read_result list option"
  | LStop process_identity "task_port_error + unit"
  | LWait u32 "wait_error + child_status"
  | LConfirm task_scope task_generation "digest option" "task_port_error + unit"

type_synonym runtime_trace = "runtime_call list"

record runtime_env =
  re_lock :: "runtime_trace \<Rightarrow> task_port_error + unit"
  re_reserve :: "runtime_trace \<Rightarrow> task_start \<Rightarrow> digest \<Rightarrow> task_port_error + start_reservation"
  re_prepare :: "runtime_trace \<Rightarrow> digest \<Rightarrow> byte list \<Rightarrow> task_port_error + unit"
  re_spawn :: "runtime_trace \<Rightarrow> u64 \<Rightarrow> u64 \<Rightarrow> task_port_error + u32"
  re_nonblocking :: "runtime_trace \<Rightarrow> task_port_error + unit"
  re_send :: "runtime_trace \<Rightarrow> byte list list \<Rightarrow> task_port_error + unit"
  re_read :: "runtime_trace \<Rightarrow> nat \<Rightarrow> read_result"
  re_begin_fence :: "runtime_trace \<Rightarrow> task_scope \<Rightarrow> task_generation \<Rightarrow> task_port_error + digest option"
  re_load :: "runtime_trace \<Rightarrow> digest \<Rightarrow> task_port_error + read_result list option"
  re_stop :: "runtime_trace \<Rightarrow> process_identity \<Rightarrow> task_port_error + unit"
  re_wait :: "runtime_trace \<Rightarrow> u32 \<Rightarrow> wait_error + child_status"
  re_confirm :: "runtime_trace \<Rightarrow> task_scope \<Rightarrow> task_generation \<Rightarrow> digest option \<Rightarrow> task_port_error + unit"

record linux_runtime =
  lx_config :: process_runtime_config
  lx_code :: digest
  lx_boot :: digest
  lx_active :: "active_worker list"
  lx_calls :: runtime_trace

type_synonym 'a lx = "linux_runtime \<Rightarrow> (task_port_error + 'a) \<times> linux_runtime"

definition lx_pure :: "task_port_error + 'a \<Rightarrow> 'a lx" where
  "lx_pure r rt = (r, rt)"

definition lx_bind :: "'a lx \<Rightarrow> ('a \<Rightarrow> 'b lx) \<Rightarrow> 'b lx" where
  "lx_bind m f rt = (case m rt of (Inl e, rt') \<Rightarrow> (Inl e, rt') | (Inr x, rt') \<Rightarrow> f x rt')"

definition lx_call :: "(runtime_trace \<Rightarrow> 'a) \<Rightarrow> ('a \<Rightarrow> runtime_call) \<Rightarrow> ('a \<Rightarrow> task_port_error + 'b) \<Rightarrow> 'b lx" where
  "lx_call answer entry result rt =
     (let r = answer (lx_calls rt) in (result r, rt\<lparr>lx_calls := lx_calls rt @ [entry r]\<rparr>))"

definition is_worker :: "task_scope \<Rightarrow> task_generation \<Rightarrow> active_worker \<Rightarrow> bool" where
  "is_worker scope generation a \<longleftrightarrow> ac_scope a = scope \<and> ac_generation a = generation"

fun position :: "('a \<Rightarrow> bool) \<Rightarrow> 'a list \<Rightarrow> nat option" where
  "position P [] = None"
| "position P (x # xs) = (if P x then Some 0 else map_option Suc (position P xs))"

definition index :: "task_scope \<Rightarrow> task_generation \<Rightarrow> linux_runtime \<Rightarrow> task_port_error + nat" where
  "index scope generation rt = ok_or Conflict (position (is_worker scope generation) (lx_active rt))"

text \<open>
  The answers of the operating system while a runtime is opened: whether process descriptors exist,
  the boot identity read from a usable registry directory, the first bytes of the worker file, one
  more than are allowed, and whether they could be copied into a sealed file.
\<close>

record open_env =
  oe_pidfd :: "task_port_error + unit"
  oe_boot :: "task_port_error + byte list"
  oe_program :: "task_port_error + byte list"
  oe_seal :: "task_port_error + unit"

definition registry_open :: "open_env \<Rightarrow> sha \<Rightarrow> nat \<Rightarrow> task_port_error + digest" where
  "registry_open E sha timeout =
     (if timeout = 0 \<or> 30 * 10 ^ 9 < timeout then Inl Exhausted
      else bindR (oe_boot E) (\<lambda>boot. if length boot \<noteq> 37 then Inl Runtime else Inr (digest_of sha boot)))"

definition image_load :: "open_env \<Rightarrow> sha \<Rightarrow> u64 \<Rightarrow> task_port_error + digest" where
  "image_load E sha max_bytes =
     (if max_bytes = 0 \<or> 64 * 1024 * 1024 < max_bytes then Inl Exhausted
      else bindR (oe_program E) (\<lambda>bytes.
        if unat max_bytes < length bytes then Inl Exhausted
        else bindR (verify_static_elf bytes) (\<lambda>_. bindR (oe_seal E) (\<lambda>_. Inr (digest_of sha bytes)))))"

definition runtime_new :: "open_env \<Rightarrow> sha \<Rightarrow> process_runtime_config \<Rightarrow> u64 \<Rightarrow> task_port_error + linux_runtime" where
  "runtime_new E sha c max_worker_bytes =
     bindR (config_check c) (\<lambda>_.
     bindR (oe_pidfd E) (\<lambda>_.
     bindR (registry_open E sha (pc_fence_timeout c)) (\<lambda>boot.
     bindR (image_load E sha max_worker_bytes) (\<lambda>code.
       Inr \<lparr> lx_config = c, lx_code = code, lx_boot = boot, lx_active = [], lx_calls = [] \<rparr>))))"

section \<open>Starting\<close>

definition start_refused :: "task_start \<Rightarrow> linux_runtime \<Rightarrow> bool" where
  "start_refused rq rt \<longleftrightarrow>
     (let d = start_definition rq; c = lx_config rt in
      code_digest d \<noteq> lx_code rt
      \<or> pc_ticks_per_second c = 0 \<or> cpu_ticks (budget d) mod pc_ticks_per_second c \<noteq> 0
      \<or> cpu_ticks (budget d) < pc_ticks_per_second c
      \<or> pc_max_frame_bytes c < max_input_bytes (budget d)
      \<or> pc_max_frame_bytes c < max_output_bytes (budget d)
      \<or> pc_max_frame_bytes c < max_checkpoint_bytes (recovery d)
      \<or> unat (pc_max_live c) \<le> length (lx_active rt) \<and> isl (index (start_scope rq) (start_generation rq) rt))"

definition spawn_worker :: "runtime_env \<Rightarrow> u64 \<Rightarrow> u64 \<Rightarrow> u32 lx" where
  "spawn_worker E cpu_seconds address_space =
     (if cpu_seconds = 0 \<or> address_space < 8388608 then lx_pure (Inl Exhausted)
      else lx_call (\<lambda>t. re_spawn E t cpu_seconds address_space) (LSpawn cpu_seconds address_space) id)"

definition new_active :: "task_start \<Rightarrow> u32 \<Rightarrow> active_worker" where
  "new_active rq pid =
     (let d = start_definition rq in
      \<lparr> ac_scope = start_scope rq, ac_generation = start_generation rq, ac_pid = pid,
        ac_size = unat (max (max_output_bytes (budget d)) (max_checkpoint_bytes (recovery d))) + OBS_HEADER + 1,
        ac_filled = [], ac_checkpoint = None, ac_definition = d \<rparr>)"

definition push_active :: "active_worker \<Rightarrow> unit lx" where
  "push_active a rt = (Inr (), rt\<lparr>lx_active := lx_active rt @ [a]\<rparr>)"

definition launch :: "runtime_env \<Rightarrow> sha \<Rightarrow> (worker_metadata \<Rightarrow> byte list option) \<Rightarrow> task_start \<Rightarrow> digest \<Rightarrow> unit lx" where
  "launch E sha to_vec rq execution rt =
     (let manifest = manifest_header sha (start_scope rq) (start_generation rq) execution (lx_boot rt);
          c = lx_config rt in
      lx_bind (lx_call (\<lambda>t. re_prepare E t execution manifest) (\<lambda>_. LPrepare execution manifest) id) (\<lambda>_.
      lx_bind (spawn_worker E (cpu_ticks (budget (start_definition rq)) div pc_ticks_per_second c) (pc_address_space_bytes c)) (\<lambda>pid.
      lx_bind (push_active (new_active rq pid)) (\<lambda>_.
      lx_bind (lx_call (re_nonblocking E) (\<lambda>_. LNonblocking) id) (\<lambda>_.
      lx_bind (lx_call (re_nonblocking E) (\<lambda>_. LNonblocking) id) (\<lambda>_.
      lx_bind (lx_pure (start_parts sha to_vec rq)) (\<lambda>parts.
        lx_call (\<lambda>t. re_send E t parts) (LSend parts) id)))))) rt)"

definition runtime_start_worker :: "runtime_env \<Rightarrow> sha \<Rightarrow> (worker_metadata \<Rightarrow> byte list option) \<Rightarrow> task_start \<Rightarrow> unit lx" where
  "runtime_start_worker E sha to_vec rq rt =
     (if start_refused rq rt then (Inl Exhausted, rt)
      else
        lx_bind (lx_call (re_lock E) (\<lambda>_. LLock) id) (\<lambda>_.
        let execution = execution_id sha (start_scope rq) (start_generation rq) in
        lx_bind (lx_call (\<lambda>t. re_reserve E t rq execution) (LReserve rq execution) id) (\<lambda>reservation rt.
          case reservation of
            AlreadyReserved \<Rightarrow>
              (if isl (index (start_scope rq) (start_generation rq) rt) then Inl Conflict else Inr (), rt)
          | Reserved \<Rightarrow> launch E sha to_vec rq execution rt)) rt)"

section \<open>Polling\<close>

definition fault_of :: "int option \<Rightarrow> task_fault" where
  "fault_of signal =
     (if signal = Some 31 then ProtectionViolation
      else if signal = Some 24 then CpuBudgetExceeded
      else if signal \<noteq> None then Crash else ApplicationFailure)"

fun progress_of :: "wait_error + child_status \<Rightarrow> task_port_error + runtime_progress" where
  "progress_of (Inl _) = Inl Runtime"
| "progress_of (Inr StillRunning) = Inr RpPending"
| "progress_of (Inr (Exited signal)) = Inr (RpFault (fault_of signal))"

definition progress_after_read :: "runtime_env \<Rightarrow> bool \<Rightarrow> u32 \<Rightarrow> runtime_progress lx" where
  "progress_after_read E reached_eof pid =
     (if \<not> reached_eof then lx_pure (Inr RpPending)
      else lx_call (\<lambda>t. re_wait E t pid) (LWait pid) progress_of)"

text \<open>What a read leaves in the buffer, and whether the stream has ended.\<close>

fun after_read :: "byte list \<Rightarrow> read_result \<Rightarrow> task_port_error + (bool \<times> byte list)" where
  "after_read filled (ReadOk bs) = Inr (bs = [], filled @ bs)"
| "after_read filled ReadInterrupted = Inr (False, filled)"
| "after_read filled ReadWouldBlock = Inr (False, filled)"
| "after_read filled ReadFailed = Inl Runtime"

definition read_more :: "runtime_env \<Rightarrow> active_worker \<Rightarrow> (bool \<times> byte list) lx" where
  "read_more E a =
     (if ac_size a < length (ac_filled a) then lx_pure (Inl Corrupt)
      else if length (ac_filled a) = ac_size a then lx_pure (Inr (False, ac_filled a))
      else let remaining = ac_size a - length (ac_filled a) in
        lx_call (\<lambda>t. re_read E t remaining) (LRead remaining) (after_read (ac_filled a)))"

definition put_worker :: "nat \<Rightarrow> active_worker \<Rightarrow> linux_runtime \<Rightarrow> linux_runtime" where
  "put_worker i a rt = rt\<lparr>lx_active := (lx_active rt)[i := a]\<rparr>"

definition frame_progress :: "proposal_frame \<Rightarrow> runtime_progress" where
  "frame_progress f = (if pf_checkpoint f then RpCheckpoint (pf_length f) (pf_schema f) else RpComplete (pf_length f) (pf_schema f))"

definition runtime_poll_worker ::
  "runtime_env \<Rightarrow> sha \<Rightarrow> task_scope \<Rightarrow> task_generation \<Rightarrow> byte list \<Rightarrow> linux_runtime \<Rightarrow>
     (task_port_error + task_observation) \<times> byte list \<times> linux_runtime" where
  "runtime_poll_worker E sha scope generation buffer rt =
     (let observe = (\<lambda>p. \<lparr> obs_scope = scope, obs_generation = generation, obs_progress = p \<rparr>) in
      case index scope generation rt of
        Inl e \<Rightarrow> (Inl e, buffer, rt)
      | Inr i \<Rightarrow>
          let a = lx_active rt ! i in
          if ac_checkpoint a \<noteq> None then (Inr (observe RpPending), buffer, rt)
          else
            (case read_more E a rt of
               (Inl e, rt) \<Rightarrow> (Inl e, buffer, rt)
             | (Inr (eof, filled), rt) \<Rightarrow>
                 let a = a\<lparr>ac_filled := filled\<rparr>; rt = put_worker i a rt in
                 (case poll_frame sha scope generation (ac_definition a) filled of
                    Inl e \<Rightarrow> (Inl e, buffer, rt)
                  | Inr (Some f) \<Rightarrow>
                      if length buffer < unat (pf_length f) then (Inl Exhausted, buffer, rt)
                      else
                        (Inr (observe (frame_progress f)), pf_bytes f @ drop (unat (pf_length f)) buffer,
                         put_worker i (a\<lparr>ac_filled := [],
                           ac_checkpoint := if pf_checkpoint f
                             then Some \<lparr> blob_digest = digest_of sha (pf_bytes f), blob_bytes = pf_length f, blob_schema = pf_schema f \<rparr>
                             else ac_checkpoint a\<rparr>) rt)
                  | Inr None \<Rightarrow>
                      (case progress_after_read E eof (ac_pid a) rt of
                         (Inl e, rt) \<Rightarrow> (Inl e, buffer, rt)
                       | (Inr p, rt) \<Rightarrow> (Inr (observe p), buffer, rt)))))"

section \<open>Acknowledging and fencing\<close>

definition acknowledge_worker :: "runtime_env \<Rightarrow> task_scope \<Rightarrow> task_generation \<Rightarrow> blob_ref \<Rightarrow> unit lx" where
  "acknowledge_worker E scope generation b rt =
     (case index scope generation rt of
        Inl e \<Rightarrow> (Inl e, rt)
      | Inr i \<Rightarrow>
          if ac_checkpoint (lx_active rt ! i) \<noteq> Some b then (Inl Conflict, rt)
          else
            lx_bind (lx_call (\<lambda>t. re_send E t [ack_bytes (blob_digest b)]) (LSend [ack_bytes (blob_digest b)]) id) (\<lambda>_ rt.
              (Inr (), put_worker i ((lx_active rt ! i)\<lparr>ac_checkpoint := None\<rparr>) rt)) rt)"

definition swap_remove :: "nat \<Rightarrow> 'a list \<Rightarrow> 'a list" where
  "swap_remove i xs = butlast (xs[i := last xs])"

definition load_saved ::
  "runtime_env \<Rightarrow> sha \<Rightarrow> task_scope \<Rightarrow> task_generation \<Rightarrow> digest \<Rightarrow> saved_execution option lx" where
  "load_saved E sha scope generation execution =
     lx_call (\<lambda>t. re_load E t execution) (LLoad execution) (\<lambda>r.
       bindR r (\<lambda>file.
         case file of
           None \<Rightarrow> Inr None
         | Some answers \<Rightarrow>
             bindR (read_manifest answers []) (\<lambda>bytes.
             bindR (load_manifest sha scope generation execution bytes) (\<lambda>saved. Inr (Some saved)))))"

text \<open>The process that was stopped, if the registry names one of this boot.\<close>

definition stop_saved :: "runtime_env \<Rightarrow> saved_execution option \<Rightarrow> u32 option lx" where
  "stop_saved E saved rt =
     (case saved of
        None \<Rightarrow> (Inr None, rt)
      | Some s \<Rightarrow>
          if sv_boot s \<noteq> lx_boot rt then (Inr None, rt)
          else (case sv_identity s of
                  None \<Rightarrow> (Inr None, rt)
                | Some identity \<Rightarrow>
                    lx_call (\<lambda>t. re_stop E t identity) (LStop identity) (\<lambda>r. bindR r (\<lambda>_. Inr (Some (id_pid identity)))) rt))"

definition stop_execution ::
  "runtime_env \<Rightarrow> sha \<Rightarrow> task_scope \<Rightarrow> task_generation \<Rightarrow> digest option \<Rightarrow> u32 option lx" where
  "stop_execution E sha scope generation execution =
     (case execution of
        None \<Rightarrow> lx_pure (Inr None)
      | Some x \<Rightarrow>
          if x \<noteq> execution_id sha scope generation then lx_pure (Inl Corrupt)
          else lx_bind (load_saved E sha scope generation x) (stop_saved E))"

definition reaped :: "u32 \<Rightarrow> u32 option \<Rightarrow> wait_error + child_status \<Rightarrow> task_port_error + unit" where
  "reaped pid stopped r =
     (case r of
        Inr (Exited _) \<Rightarrow> Inr ()
      | Inl NoSuchChild \<Rightarrow> if stopped = Some pid then Inr () else Inl Runtime
      | _ \<Rightarrow> Inl Runtime)"

definition reap_active :: "runtime_env \<Rightarrow> task_scope \<Rightarrow> task_generation \<Rightarrow> u32 option \<Rightarrow> unit lx" where
  "reap_active E scope generation stopped rt =
     (case index scope generation rt of
        Inl _ \<Rightarrow> (Inr (), rt)
      | Inr i \<Rightarrow>
          let pid = ac_pid (lx_active rt ! i) in
          lx_bind (lx_call (\<lambda>t. re_wait E t pid) (LWait pid) (reaped pid stopped)) (\<lambda>_ rt.
            (Inr (), rt\<lparr>lx_active := swap_remove i (lx_active rt)\<rparr>)) rt)"

definition fence_worker :: "runtime_env \<Rightarrow> sha \<Rightarrow> task_scope \<Rightarrow> task_generation \<Rightarrow> unit lx" where
  "fence_worker E sha scope generation =
     lx_bind (lx_call (re_lock E) (\<lambda>_. LLock) id) (\<lambda>_.
     lx_bind (lx_call (\<lambda>t. re_begin_fence E t scope generation) (LBeginFence scope generation) id) (\<lambda>execution.
     lx_bind (stop_execution E sha scope generation execution) (\<lambda>stopped.
     lx_bind (reap_active E scope generation stopped) (\<lambda>_.
       lx_call (\<lambda>t. re_confirm E t scope generation execution) (LConfirm scope generation execution) id))))"

end
