(* ===== verification/Worker_Properties.thy ===== *)
theory Worker_Properties
  imports Worker_Runtime
begin

text \<open>
  Correctness of the worker runtime: the frames that cross the pipes are read back exactly and in any
  fragmentation, nothing but such a frame is reported, manifests and start packets survive the round
  trip, at most one worker is live for an execution, and a fence is confirmed only for a worker that
  was proved stopped.
\<close>

section \<open>Fields of a byte string\<close>

lemma u32_from_to_be [simp]: "u32_from_be_bytes (u32_to_be_bytes x) = x"
proof -
  have "unat x < 256 ^ 4" using unsigned_less [of x] by simp
  then show ?thesis by (simp add: u32_from_be_bytes_def u32_to_be_bytes_def be_bytes_def le_value_le_bytes)
qed

lemma u64_from_to_be [simp]: "u64_from_be_bytes (u64_to_be_bytes x) = x"
proof -
  have "unat x < 256 ^ 8" using unsigned_less [of x] by simp
  then show ?thesis by (simp add: u64_from_be_bytes_def u64_to_be_bytes_def be_bytes_def le_value_le_bytes)
qed

lemma u32_to_from_be: "length bs = 4 \<Longrightarrow> u32_to_be_bytes (u32_from_be_bytes bs) = bs"
proof -
  assume len: "length bs = 4"
  have "le_value (rev bs) < 2 ^ 32" using le_value_less [of "rev bs"] len by simp
  then have "unat (u32_from_be_bytes bs) = le_value (rev bs)"
    by (simp add: u32_from_be_bytes_def unat_of_nat take_bit_eq_mod)
  then show ?thesis using le_bytes_le_value [of "rev bs"] len by (simp add: u32_to_be_bytes_def be_bytes_def)
qed

lemma get_range_field: "length xs = a \<Longrightarrow> a + length ys = b \<Longrightarrow> get_range (xs @ ys @ zs) a b = Some ys"
  by (auto simp: get_range_def)

lemma get_range_Some: "get_range bs a b = Some ys \<longleftrightarrow> a \<le> b \<and> b \<le> length bs \<and> ys = take (b - a) (drop a bs)"
  by (auto simp: get_range_def)

lemma number_field: "length xs = a \<Longrightarrow> a < 1000 \<Longrightarrow> number (xs @ u32_to_be_bytes x @ zs) a = Inr x"
  using get_range_field [of xs a "u32_to_be_bytes x" "a + 4" zs] by (simp add: number_def checked_usize_def ok_or_def)

lemma number_eq: "a + 4 \<le> length bs \<Longrightarrow> a < 1000 \<Longrightarrow> number bs a = Inr (u32_from_be_bytes (take 4 (drop a bs)))"
  by (simp add: number_def checked_usize_def ok_or_def get_range_def)

lemma raw_field: "length xs = a \<Longrightarrow> a < 1000 \<Longrightarrow> length ys = n \<Longrightarrow> n < 1000 \<Longrightarrow> raw n (xs @ ys @ zs) a = Inr ys"
  using get_range_field [of xs a ys "a + n" zs] by (simp add: raw_def checked_usize_def ok_or_def)

fun cut :: "nat list \<Rightarrow> 'a list \<Rightarrow> 'a list" where
  "cut [] xs = xs"
| "cut (n # ns) xs = take n xs @ cut ns (drop n xs)"

lemma cut_id: "cut ns xs = xs"
  by (induction ns arbitrary: xs) simp_all

lemma read_exact_append [simp]: "n = length xs \<Longrightarrow> read_exact n (xs @ ys) = Inr (xs, ys)"
  by (simp add: read_exact_def)

lemma length_magic [simp]: "length START_MAGIC = 8" "length OBS_MAGIC = 8" "length ACK_MAGIC = 8"
  by (simp_all add: START_MAGIC_def OBS_MAGIC_def ACK_MAGIC_def)

lemma u32_try_from_Inr: "u32_try_from n = Inr x \<longleftrightarrow> n < 2 ^ 32 \<and> unat x = n"
proof -
  have "unat (of_nat n :: u32) = n" if "n < 2 ^ 32" using that by (simp add: unat_of_nat take_bit_eq_mod)
  moreover have "x = of_nat (unat x)" by simp
  ultimately show ?thesis by (auto simp: u32_try_from_def)
qed

section \<open>Proposals\<close>

definition frame_bytes :: "sha \<Rightarrow> task_scope \<Rightarrow> task_generation \<Rightarrow> bool \<Rightarrow> u32 \<Rightarrow> u32 \<Rightarrow> byte list \<Rightarrow> byte list" where
  "frame_bytes sha scope g is_checkpoint len schema bytes =
     OBS_MAGIC @ digest_bytes (scope_digest sha scope) @ u32_to_be_bytes g @ [if is_checkpoint then 2 else 1]
       @ u32_to_be_bytes len @ u32_to_be_bytes schema @ bytes"

lemma length_frame [simp]: "length (frame_bytes sha scope g c len schema bytes) = OBS_HEADER + length bytes"
  by (simp add: frame_bytes_def OBS_HEADER_def)

lemma drop_frame: "drop OBS_HEADER (frame_bytes sha scope g c len schema bytes) = bytes"
  by (simp add: frame_bytes_def OBS_HEADER_def)

lemma write_proposal_Inr:
  "write_proposal sha ok m c schema bytes = Inr frame \<longleftrightarrow>
     (\<exists>len. u32_try_from (length bytes) = Inr len \<and> len \<le> proposal_limit (wm_definition m) c \<and> schema \<noteq> 0
        \<and> frame = frame_bytes sha (wm_scope m) (wm_generation m) c len schema bytes \<and> ok frame)"
  by (auto simp: write_proposal_def frame_bytes_def result_simps Let_def not_less)

text \<open>The header of a frame, field by field.\<close>

lemma frame_fields:
  assumes "OBS_HEADER \<le> n"
  shows "get_range (take OBS_HEADER (take n (frame_bytes sha scope g c len schema bytes))) 0 8 = Some OBS_MAGIC"
    "get_range (take OBS_HEADER (take n (frame_bytes sha scope g c len schema bytes))) 8 40 = Some (digest_bytes (scope_digest sha scope))"
    "number (take OBS_HEADER (take n (frame_bytes sha scope g c len schema bytes))) 40 = Inr g"
    "take OBS_HEADER (take n (frame_bytes sha scope g c len schema bytes)) ! 44 = (if c then 2 else 1)"
    "number (take OBS_HEADER (take n (frame_bytes sha scope g c len schema bytes))) 45 = Inr len"
    "number (take OBS_HEADER (take n (frame_bytes sha scope g c len schema bytes))) 49 = Inr schema"
proof -
  let ?d = "digest_bytes (scope_digest sha scope)" and ?g = "u32_to_be_bytes g" and ?t = "[if c then 2 else 1] :: byte list"
    and ?l = "u32_to_be_bytes len" and ?s = "u32_to_be_bytes schema"
  have h: "take OBS_HEADER (take n (frame_bytes sha scope g c len schema bytes)) = OBS_MAGIC @ ?d @ ?g @ ?t @ ?l @ ?s"
    using assms by (simp add: frame_bytes_def OBS_HEADER_def min_def)
  show "get_range (take OBS_HEADER (take n (frame_bytes sha scope g c len schema bytes))) 0 8 = Some OBS_MAGIC"
    unfolding h using get_range_field [of "[]" 0 OBS_MAGIC 8] by simp
  show "get_range (take OBS_HEADER (take n (frame_bytes sha scope g c len schema bytes))) 8 40 = Some ?d"
    unfolding h by (rule get_range_field) simp_all
  show "number (take OBS_HEADER (take n (frame_bytes sha scope g c len schema bytes))) 40 = Inr g"
    unfolding h using number_field [of "OBS_MAGIC @ ?d" 40 g] by simp
  show "take OBS_HEADER (take n (frame_bytes sha scope g c len schema bytes)) ! 44 = (if c then 2 else 1)"
    unfolding h by (simp add: nth_append)
  show "number (take OBS_HEADER (take n (frame_bytes sha scope g c len schema bytes))) 45 = Inr len"
    unfolding h using number_field [of "OBS_MAGIC @ ?d @ ?g @ ?t" 45 len] by simp
  show "number (take OBS_HEADER (take n (frame_bytes sha scope g c len schema bytes))) 49 = Inr schema"
    unfolding h using number_field [of "OBS_MAGIC @ ?d @ ?g @ ?t @ ?l" 49 schema "[]"] by simp
qed

lemma poll_frame_take:
  assumes "len \<le> proposal_limit d c" "schema \<noteq> 0" "unat len = length bytes"
    and "n \<le> OBS_HEADER + length bytes"
  shows "poll_frame sha scope g d (take n (frame_bytes sha scope g c len schema bytes)) =
    Inr (if n = OBS_HEADER + length bytes
         then Some \<lparr> pf_checkpoint = c, pf_length = len, pf_schema = schema, pf_bytes = bytes \<rparr> else None)"
proof (cases "n < OBS_HEADER")
  case False
  then have n: "OBS_HEADER \<le> n" by simp
  have "drop OBS_HEADER (take n (frame_bytes sha scope g c len schema bytes)) = take (n - OBS_HEADER) bytes"
    using drop_frame [of sha scope g c len schema bytes] by (simp add: drop_take)
  then show ?thesis
    using assms n frame_fields [OF n, of sha scope g c len schema bytes]
    by (cases c) (simp_all add: poll_frame_def Let_def not_less drop_frame)
qed (use assms in \<open>simp add: poll_frame_def\<close>)

text \<open>Nothing else is accepted: bytes that parse as a frame are the frame of what they parse to.\<close>

lemma poll_frame_canonical:
  assumes "poll_frame sha scope g d bs = Inr (Some f)"
  shows "bs = frame_bytes sha scope g (pf_checkpoint f) (pf_length f) (pf_schema f) (pf_bytes f)
    \<and> unat (pf_length f) = length (pf_bytes f) \<and> pf_length f \<le> proposal_limit d (pf_checkpoint f) \<and> pf_schema f \<noteq> 0"
proof -
  have len: "OBS_HEADER \<le> length bs" using assms by (cases "length bs < OBS_HEADER") (auto simp: poll_frame_def)
  let ?h = "take 53 bs"
  have h: "length ?h = 53" using len by (simp add: OBS_HEADER_def)
  define magic scope_bytes G L S where "magic = take 8 ?h" and "scope_bytes = take 32 (drop 8 ?h)"
    and "G = u32_from_be_bytes (take 4 (drop 40 ?h))" and "L = u32_from_be_bytes (take 4 (drop 45 ?h))"
    and "S = u32_from_be_bytes (take 4 (drop 49 ?h))"
  note defs = this
  have ranges: "get_range ?h 0 8 = Some magic" "get_range ?h 8 40 = Some scope_bytes"
    "number ?h 40 = Inr G" "number ?h 45 = Inr L" "number ?h 49 = Inr S"
    using h number_eq [of 40 ?h] number_eq [of 45 ?h] number_eq [of 49 ?h]
    by (simp_all add: get_range_Some defs del: take_take)
  have "magic = OBS_MAGIC \<and> scope_bytes = digest_bytes (scope_digest sha scope) \<and> G = g \<and> L = pf_length f \<and> S = pf_schema f
    \<and> ?h ! 44 = (if pf_checkpoint f then 2 else 1) \<and> length bs = 53 + unat (pf_length f) \<and> pf_bytes f = drop 53 bs
    \<and> pf_length f \<le> proposal_limit d (pf_checkpoint f) \<and> pf_schema f \<noteq> 0"
    using assms len unfolding poll_frame_def Let_def OBS_HEADER_def ranges
    by (auto simp: not_less result_simps split: if_splits)
  then have facts: "take 8 ?h = OBS_MAGIC" "take 32 (drop 8 ?h) = digest_bytes (scope_digest sha scope)"
    "u32_from_be_bytes (take 4 (drop 40 ?h)) = g" "?h ! 44 = (if pf_checkpoint f then 2 else 1)"
    "u32_from_be_bytes (take 4 (drop 45 ?h)) = pf_length f" "u32_from_be_bytes (take 4 (drop 49 ?h)) = pf_schema f"
    "length bs = 53 + unat (pf_length f)" "pf_bytes f = drop 53 bs" "pf_length f \<le> proposal_limit d (pf_checkpoint f)" "pf_schema f \<noteq> 0"
    unfolding defs by blast+
  have fields: "take 4 (drop 40 ?h) = u32_to_be_bytes g" "take 4 (drop 45 ?h) = u32_to_be_bytes (pf_length f)"
    "take 4 (drop 49 ?h) = u32_to_be_bytes (pf_schema f)"
    using facts(3,5,6) u32_to_from_be [of "take 4 (drop 40 ?h)"] u32_to_from_be [of "take 4 (drop 45 ?h)"]
      u32_to_from_be [of "take 4 (drop 49 ?h)"] h by simp_all
  have tag: "take 1 (drop 44 ?h) = [if pf_checkpoint f then 2 else 1]"
    using facts(4) h Cons_nth_drop_Suc [of 44 ?h] by (simp add: take_Suc_Cons flip: Cons_nth_drop_Suc)
  have "?h = take 8 ?h @ take 32 (drop 8 ?h) @ take 4 (drop 40 ?h) @ take 1 (drop 44 ?h) @ take 4 (drop 45 ?h) @ take 4 (drop 49 ?h)"
    using h cut_id [of "[8, 32, 4, 1, 4, 4]" ?h] by simp
  then have "bs = frame_bytes sha scope g (pf_checkpoint f) (pf_length f) (pf_schema f) (pf_bytes f)"
    using facts(1,2,8) fields tag append_take_drop_id [of 53 bs] by (metis append.assoc frame_bytes_def)
  then show ?thesis using facts(7-10) by simp
qed

section \<open>The table of workers\<close>

lemma position_Some: "position P xs = Some i \<Longrightarrow> i < length xs \<and> P (xs ! i)"
  by (induction xs arbitrary: i) (auto split: if_splits)

lemma position_None: "position P xs = None \<longleftrightarrow> (\<forall>x\<in>set xs. \<not> P x)"
  by (induction xs) auto

lemma position_update: "position P xs = Some i \<Longrightarrow> P a \<Longrightarrow> position P (xs[i := a]) = Some i"
  by (induction xs arbitrary: i) (auto split: if_splits)

lemma index_Inr: "index scope g rt = Inr i \<longleftrightarrow> position (is_worker scope g) (lx_active rt) = Some i"
  by (simp add: index_def result_simps)

lemma index_Inl: "index scope g rt = Inl e \<longleftrightarrow> e = Conflict \<and> (\<forall>a\<in>set (lx_active rt). \<not> is_worker scope g a)"
  by (auto simp: index_def result_simps position_None)

lemma index_worker: "index scope g rt = Inr i \<Longrightarrow> i < length (lx_active rt) \<and> is_worker scope g (lx_active rt ! i)"
  by (simp add: index_Inr position_Some)

text \<open>What a worker's entry always satisfies: room for the largest frame and one byte more.\<close>

definition worker_ok :: "active_worker \<Rightarrow> bool" where
  "worker_ok a \<longleftrightarrow>
     ac_size a = unat (max (max_output_bytes (budget (ac_definition a))) (max_checkpoint_bytes (recovery (ac_definition a)))) + OBS_HEADER + 1"

lemma limit_fits: "worker_ok a \<Longrightarrow> unat (proposal_limit (ac_definition a) c) + OBS_HEADER < ac_size a"
  by (auto simp: worker_ok_def proposal_limit_def max_def word_le_nat_alt not_le)

section \<open>A frame in pieces\<close>

fun poll_seq ::
  "sha \<Rightarrow> task_scope \<Rightarrow> task_generation \<Rightarrow> byte list \<Rightarrow> runtime_env list \<Rightarrow> linux_runtime \<Rightarrow>
     (task_port_error + task_observation) list \<times> byte list \<times> linux_runtime" where
  "poll_seq sha scope g buffer [] rt = ([], buffer, rt)"
| "poll_seq sha scope g buffer (E # Es) rt =
     (case runtime_poll_worker E sha scope g buffer rt of
        (r, buffer, rt) \<Rightarrow> (case poll_seq sha scope g buffer Es rt of (rs, buffer, rt) \<Rightarrow> (r # rs, buffer, rt)))"

fun answer_bytes :: "read_result \<Rightarrow> byte list" where
  "answer_bytes (ReadOk bs) = bs"
| "answer_bytes _ = []"

text \<open>An answer of a pipe that has neither ended nor failed.\<close>

definition pipe_open :: "read_result \<Rightarrow> bool" where
  "pipe_open r \<longleftrightarrow> r \<noteq> ReadFailed \<and> r \<noteq> ReadOk []"

lemma after_read_open: "pipe_open r \<Longrightarrow> after_read filled r = Inr (False, filled @ answer_bytes r)"
  by (cases r) (auto simp: pipe_open_def)

lemma poll_step:
  assumes "index scope g rt = Inr i" "ac_checkpoint (lx_active rt ! i) = None"
    and "length (ac_filled (lx_active rt ! i)) < ac_size (lx_active rt ! i)"
    and "\<forall>t n. re_read E t n = r" "pipe_open r"
    and filled: "filled = ac_filled (lx_active rt ! i) @ answer_bytes r"
  shows "\<exists>calls. case poll_frame sha scope g (ac_definition (lx_active rt ! i)) filled of
      Inr None \<Rightarrow> runtime_poll_worker E sha scope g buffer rt =
        (Inr \<lparr> obs_scope = scope, obs_generation = g, obs_progress = RpPending \<rparr>, buffer,
         put_worker i ((lx_active rt ! i)\<lparr>ac_filled := filled\<rparr>) (rt\<lparr>lx_calls := calls\<rparr>))
    | Inr (Some f) \<Rightarrow> unat (pf_length f) \<le> length buffer \<longrightarrow> runtime_poll_worker E sha scope g buffer rt =
        (Inr \<lparr> obs_scope = scope, obs_generation = g, obs_progress = frame_progress f \<rparr>,
         pf_bytes f @ drop (unat (pf_length f)) buffer,
         put_worker i ((lx_active rt ! i)\<lparr>ac_filled := [], ac_checkpoint := if pf_checkpoint f
           then Some \<lparr> blob_digest = digest_of sha (pf_bytes f), blob_bytes = pf_length f, blob_schema = pf_schema f \<rparr> else None\<rparr>)
           (rt\<lparr>lx_calls := calls\<rparr>))
    | Inl _ \<Rightarrow> True"
proof -
  obtain calls where "read_more E (lx_active rt ! i) rt = (Inr (False, filled), rt\<lparr>lx_calls := calls\<rparr>)"
    using assms(3,4) filled after_read_open [OF assms(5)] by (auto simp: read_more_def lx_call_def Let_def)
  then show ?thesis
    using assms(1,2) index_worker [OF assms(1)]
    by (auto simp: runtime_poll_worker_def Let_def progress_after_read_def lx_pure_def put_worker_def
        intro!: exI [of _ calls] split: sum.splits option.splits)
qed

definition pending_at :: "task_scope \<Rightarrow> task_generation \<Rightarrow> task_port_error + task_observation" where
  "pending_at scope g = Inr \<lparr> obs_scope = scope, obs_generation = g, obs_progress = RpPending \<rparr>"

text \<open>What remains of a frame arrives in any pieces, the last of them not empty.\<close>

lemma poll_seq_frame:
  assumes "len \<le> proposal_limit d c" "schema \<noteq> 0" "unat len = length bytes" "length bytes \<le> length buffer"
    and "list_all2 (\<lambda>E r. \<forall>t n. re_read E t n = r) Es rs" "list_all pipe_open rs"
    and "drop k frame = concat (map answer_bytes rs)" "rs \<noteq> []" "answer_bytes (last rs) \<noteq> []"
    and "index scope g rt = Inr i" "lx_active rt ! i = a\<lparr>ac_filled := take k frame\<rparr>" "ac_checkpoint a = None"
    and "worker_ok a" "ac_definition a = d" "frame = frame_bytes sha scope g c len schema bytes"
  shows "\<exists>calls. poll_seq sha scope g buffer Es rt =
    (replicate (length rs - 1) (pending_at scope g)
       @ [Inr \<lparr> obs_scope = scope, obs_generation = g, obs_progress = if c then RpCheckpoint len schema else RpComplete len schema \<rparr>],
     bytes @ drop (length bytes) buffer,
     put_worker i (a\<lparr>ac_filled := [], ac_checkpoint := if c
        then Some \<lparr> blob_digest = digest_of sha bytes, blob_bytes = len, blob_schema = schema \<rparr> else None\<rparr>)
       (rt\<lparr>lx_calls := calls\<rparr>))"
  using assms(5-11)
proof (induction rs arbitrary: Es rt k rule: list.induct)
  case Nil
  then show ?case by simp
next
  case (Cons r rs)
  obtain E Es' where Es: "Es = E # Es'" "\<forall>t n. re_read E t n = r" "list_all2 (\<lambda>E r. \<forall>t n. re_read E t n = r) Es' rs"
    using Cons.prems(1) by (cases Es) auto
  have len_frame: "length frame = OBS_HEADER + length bytes" using assms(15) by simp
  have fits: "OBS_HEADER + length bytes < ac_size a"
    using limit_fits [OF assms(13), of c] assms(1,3,14) by (simp add: word_le_nat_alt)
  let ?n = "k + length (answer_bytes r)"
  have piece: "drop k frame = answer_bytes r @ concat (map answer_bytes rs)" using Cons.prems(3) by simp
  then have filled: "take k frame @ answer_bytes r = take ?n frame" by (simp add: take_add)
  have rest: "drop ?n frame = concat (map answer_bytes rs)"
    using piece by (metis add.commute append_eq_conv_conj drop_drop)
  have lower: "length (ac_filled (lx_active rt ! i)) < ac_size (lx_active rt ! i)"
    using Cons.prems(7) fits len_frame by (auto simp: min_def)
  have step: "ac_checkpoint (lx_active rt ! i) = None" "ac_definition (lx_active rt ! i) = d"
    "take ?n frame = ac_filled (lx_active rt ! i) @ answer_bytes r"
    using Cons.prems(7) assms(12,14) filled by simp_all
  obtain calls where calls: "case poll_frame sha scope g d (take ?n frame) of
      Inr None \<Rightarrow> runtime_poll_worker E sha scope g buffer rt =
        (pending_at scope g, buffer, put_worker i ((lx_active rt ! i)\<lparr>ac_filled := take ?n frame\<rparr>) (rt\<lparr>lx_calls := calls\<rparr>))
    | Inr (Some f) \<Rightarrow> unat (pf_length f) \<le> length buffer \<longrightarrow> runtime_poll_worker E sha scope g buffer rt =
        (Inr \<lparr> obs_scope = scope, obs_generation = g, obs_progress = frame_progress f \<rparr>, pf_bytes f @ drop (unat (pf_length f)) buffer,
         put_worker i ((lx_active rt ! i)\<lparr>ac_filled := [], ac_checkpoint := if pf_checkpoint f
           then Some \<lparr> blob_digest = digest_of sha (pf_bytes f), blob_bytes = pf_length f, blob_schema = pf_schema f \<rparr> else None\<rparr>)
           (rt\<lparr>lx_calls := calls\<rparr>))
    | Inl _ \<Rightarrow> True"
    using poll_step [OF Cons.prems(6) step(1) lower Es(2) _ step(3), of sha buffer] Cons.prems(2) step(2)
    unfolding pending_at_def by auto
  show ?case
  proof (cases "rs = []")
    case True
    then have "length frame \<le> ?n" using rest by simp
    then have all: "take ?n frame = take (OBS_HEADER + length bytes) (frame_bytes sha scope g c len schema bytes)"
      using len_frame assms(15) by simp
    have "poll_frame sha scope g d (take ?n frame) =
        Inr (Some \<lparr> pf_checkpoint = c, pf_length = len, pf_schema = schema, pf_bytes = bytes \<rparr>)"
      unfolding all using poll_frame_take [OF assms(1,2,3), of "OBS_HEADER + length bytes" sha scope g] by simp
    then show ?thesis
      using calls True Es Cons.prems(7) assms(3,4)
      by (auto simp: frame_progress_def intro!: exI [of _ calls])
  next
    case False
    then have "concat (map answer_bytes rs) \<noteq> []" using Cons.prems(5) last_in_set [of rs] by auto
    then have lt: "?n < OBS_HEADER + length bytes" using rest len_frame by (metis drop_eq_Nil2 not_le)
    have "poll_frame sha scope g d (take ?n frame) = Inr None"
      unfolding assms(15) using poll_frame_take [OF assms(1,2,3), of ?n sha scope g] lt by simp
    then have poll: "runtime_poll_worker E sha scope g buffer rt =
        (pending_at scope g, buffer, put_worker i (a\<lparr>ac_filled := take ?n frame\<rparr>) (rt\<lparr>lx_calls := calls\<rparr>))"
      using calls Cons.prems(7) by simp
    let ?rt = "put_worker i (a\<lparr>ac_filled := take ?n frame\<rparr>) (rt\<lparr>lx_calls := calls\<rparr>)"
    have w: "i < length (lx_active rt)" "is_worker scope g (a\<lparr>ac_filled := take ?n frame\<rparr>)"
      using index_worker [OF Cons.prems(6)] Cons.prems(7) by (simp_all add: is_worker_def)
    then have idx: "index scope g ?rt = Inr i" "lx_active ?rt ! i = a\<lparr>ac_filled := take ?n frame\<rparr>"
      using Cons.prems(6) by (simp_all add: index_Inr position_update put_worker_def)
    have "list_all pipe_open rs" "answer_bytes (last rs) \<noteq> []" using Cons.prems(2,5) False by simp_all
    from Cons.IH [OF Es(3) this(1) rest False this(2) idx]
    show ?thesis using poll Es(1) False w(1) by (cases rs) (auto simp: put_worker_def)
  qed
qed

section \<open>Start packets\<close>

lemma start_header_fields:
  fixes sha scope g a b c e
  defines "h \<equiv> start_header sha scope g [a, b, c, e]"
  shows "length h = 60" "get_range h 0 8 = Some START_MAGIC" "get_range h 8 40 = Some (digest_bytes (scope_digest sha scope))"
    "number h 40 = Inr g" "number h 44 = Inr a" "number h 48 = Inr b" "number h 52 = Inr c" "number h 56 = Inr e"
proof -
  let ?m = START_MAGIC and ?d = "digest_bytes (scope_digest sha scope)"
  have h: "h = ?m @ ?d @ u32_to_be_bytes g @ u32_to_be_bytes a @ u32_to_be_bytes b @ u32_to_be_bytes c @ u32_to_be_bytes e"
    by (simp add: h_def start_header_def)
  show "length h = 60" "get_range h 0 8 = Some START_MAGIC"
    using get_range_field [of "[]" 0 ?m 8] by (simp_all add: h)
  show "get_range h 8 40 = Some ?d" unfolding h by (rule get_range_field) simp_all
  show "number h 40 = Inr g" unfolding h using number_field [of "?m @ ?d" 40 g] by simp
  show "number h 44 = Inr a" unfolding h using number_field [of "?m @ ?d @ u32_to_be_bytes g" 44 a] by simp
  show "number h 48 = Inr b" unfolding h using number_field [of "?m @ ?d @ u32_to_be_bytes g @ u32_to_be_bytes a" 48 b] by simp
  show "number h 52 = Inr c"
    unfolding h using number_field [of "?m @ ?d @ u32_to_be_bytes g @ u32_to_be_bytes a @ u32_to_be_bytes b" 52 c] by simp
  show "number h 56 = Inr e"
    unfolding h using number_field [of "?m @ ?d @ u32_to_be_bytes g @ u32_to_be_bytes a @ u32_to_be_bytes b @ u32_to_be_bytes c" 56 e "[]"] by simp
qed

definition metadata_of :: "task_start \<Rightarrow> worker_metadata" where
  "metadata_of rq = \<lparr> wm_scope = start_scope rq, wm_generation = start_generation rq, wm_definition = start_definition rq,
     wm_execution_deadline = start_execution_deadline rq, wm_input_schema = start_input_schema rq \<rparr>"

definition checkpoint_length :: "task_start \<Rightarrow> nat" where
  "checkpoint_length rq = (case start_checkpoint rq of None \<Rightarrow> 0 | Some c \<Rightarrow> length c)"

lemma start_parts_Inr:
  "start_parts sha to_vec rq = Inr parts \<longleftrightarrow>
     (\<exists>m ml il cl. to_vec (metadata_of rq) = Some m \<and> length m \<le> 8192 \<and> u32_try_from (length m) = Inr ml
        \<and> u32_try_from (length (start_input rq)) = Inr il \<and> u32_try_from (checkpoint_length rq) = Inr cl
        \<and> parts = [start_header sha (start_scope rq) (start_generation rq) [ml, il, cl, if start_checkpoint rq = None then 0 else 1],
                    m, start_input rq, case start_checkpoint rq of None \<Rightarrow> [] | Some c \<Rightarrow> c])"
  by (auto simp: start_parts_def metadata_of_def checkpoint_length_def result_simps not_less)

text \<open>A start the supervisor may ask for: what the definition, the scope and the bytes must agree on.\<close>

definition start_fits :: "sha \<Rightarrow> task_start \<Rightarrow> bool" where
  "start_fits sha rq \<longleftrightarrow>
     scope_definition (start_scope rq) = fingerprint sha (start_definition rq)
     \<and> definition_validate (start_definition rq) = Inr ()
     \<and> digest_of sha (start_input rq) = scope_input (start_scope rq)
     \<and> length (start_input rq) \<le> unat (max_input_bytes (budget (start_definition rq)))
     \<and> checkpoint_length rq \<le> unat (max_checkpoint_bytes (recovery (start_definition rq)))
     \<and> start_input_schema rq \<noteq> 0"

lemma read_start_packet:
  assumes parts: "start_parts sha to_vec rq = Inr parts" and codec: "\<And>m bs. to_vec m = Some bs \<Longrightarrow> from_slice bs = Some m"
    and ok: "start_fits sha rq" and caps: "length (start_input rq) \<le> unat max_input" "checkpoint_length rq \<le> unat max_checkpoint"
  shows "read_request sha from_slice max_input max_checkpoint (concat parts @ rest) =
    Inr (\<lparr> wq_metadata = metadata_of rq, wq_input = start_input rq, wq_checkpoint = start_checkpoint rq \<rparr>, rest)"
proof -
  obtain m ml il cl where p: "to_vec (metadata_of rq) = Some m" "length m \<le> 8192" "unat ml = length m"
    "unat il = length (start_input rq)" "unat cl = checkpoint_length rq"
    "parts = [start_header sha (start_scope rq) (start_generation rq) [ml, il, cl, if start_checkpoint rq = None then 0 else 1],
       m, start_input rq, case start_checkpoint rq of None \<Rightarrow> [] | Some c \<Rightarrow> c]"
    using parts by (auto simp: start_parts_Inr u32_try_from_Inr)
  let ?h = "start_header sha (start_scope rq) (start_generation rq) [ml, il, cl, if start_checkpoint rq = None then 0 else 1]"
  note fields = start_header_fields [of sha "start_scope rq" "start_generation rq" ml il cl "if start_checkpoint rq = None then 0 else 1"]
  have bounds: "\<not> 8192 < ml" "\<not> max_input < il" "\<not> max_checkpoint < cl" "start_checkpoint rq = None \<Longrightarrow> cl = 0"
    "\<not> max_input_bytes (budget (start_definition rq)) < il" "\<not> max_checkpoint_bytes (recovery (start_definition rq)) < cl"
    using p caps ok by (auto simp: word_less_nat_alt start_fits_def checkpoint_length_def unat_eq_0)
  have tail: "read_exact 60 (concat parts @ rest) =
      Inr (?h, m @ start_input rq @ (case start_checkpoint rq of None \<Rightarrow> [] | Some c \<Rightarrow> c) @ rest)"
    using p(6) fields(1) by simp
  have meta: "wm_scope (metadata_of rq) = start_scope rq" "wm_generation (metadata_of rq) = start_generation rq"
    "wm_definition (metadata_of rq) = start_definition rq" "wm_input_schema (metadata_of rq) = start_input_schema rq"
    by (simp_all add: metadata_of_def)
  show ?thesis
  proof (cases "start_checkpoint rq")
    case None
    then show ?thesis
      using tail fields bounds codec [OF p(1)] p(3,4) ok meta by (simp add: read_request_def start_fits_def)
  next
    case (Some c)
    then have "unat cl = length c" using p(5) by (simp add: checkpoint_length_def)
    then show ?thesis
      using Some tail fields bounds codec [OF p(1)] p(3,4) ok meta by (simp add: read_request_def start_fits_def)
  qed
qed

section \<open>Manifests\<close>

definition manifest_front :: "sha \<Rightarrow> task_scope \<Rightarrow> task_generation \<Rightarrow> digest \<Rightarrow> byte list" where
  "manifest_front sha s g x = str_bytes ''PNLREG01'' @ digest_bytes x @ digest_bytes (scope_digest sha s)
     @ u32_to_be_bytes g @ digest_bytes (scope_definition s)"

lemma length_manifest_front [simp]: "length (manifest_front sha s g x) = 108"
  by (simp add: manifest_front_def)

lemma manifest_front_inject:
  "manifest_front sha s g x = manifest_front sha s' g' x' \<longleftrightarrow>
     x = x' \<and> scope_digest sha s = scope_digest sha s' \<and> g = g' \<and> scope_definition s = scope_definition s'"
  unfolding manifest_front_def same_append_eq
  by (auto simp: append_eq_append_conv digest_bytes_inject)

lemma manifest_header_eq: "manifest_header sha s g x boot = manifest_front sha s g x @ digest_bytes boot @ replicate 20 0 @ replicate 12 0"
  using replicate_add [of 20 12 "0 :: byte"] by (simp add: manifest_header_def manifest_front_def Let_def)

lemma load_manifest_file:
  "load_manifest sha s' g' x' (manifest_front sha s g x @ digest_bytes boot @ replicate 20 0 @ u32_to_be_bytes pid @ u64_to_be_bytes ticks) =
     (if x = x' \<and> scope_digest sha s = scope_digest sha s' \<and> g = g' \<and> scope_definition s = scope_definition s'
      then if pid = 0 \<and> ticks = 0 then Inr \<lparr> sv_identity = None, sv_boot = boot \<rparr>
           else if 0 < pid \<and> 0 < ticks then Inr \<lparr> sv_identity = Some \<lparr> id_pid = pid, id_start_ticks = ticks \<rparr>, sv_boot = boot \<rparr>
           else Inl Corrupt
      else Inl Corrupt)"
proof -
  let ?f = "manifest_front sha s g x" and ?b = "digest_bytes boot" and ?z = "replicate 20 0 :: byte list"
    and ?p = "u32_to_be_bytes pid" and ?t = "u64_to_be_bytes ticks"
  have r: "raw 32 (?f @ ?b @ ?z @ ?p @ ?t) 108 = Inr ?b" by (rule raw_field) simp_all
  have front: "get_range (?f @ ?b @ ?z @ ?p @ ?t) 0 IDENTITY_OFFSET = Some (?f @ ?b @ ?z)"
    "get_range (manifest_header sha s' g' x' boot) 0 IDENTITY_OFFSET = Some (manifest_front sha s' g' x' @ ?b @ ?z)"
    by (simp_all add: get_range_Some manifest_header_eq IDENTITY_OFFSET_def)
  have p: "raw 4 (?f @ ?b @ ?z @ ?p @ ?t) IDENTITY_OFFSET = Inr ?p"
    using raw_field [of "?f @ ?b @ ?z" 160 ?p 4 ?t] by (simp add: IDENTITY_OFFSET_def)
  have t: "raw 8 (?f @ ?b @ ?z @ ?p @ ?t) (IDENTITY_OFFSET + 4) = Inr ?t"
    using raw_field [of "?f @ ?b @ ?z @ ?p" 164 ?t 8 "[]"] by (simp add: IDENTITY_OFFSET_def)
  show ?thesis
    unfolding load_manifest_def r p t using front by (auto simp: Let_def manifest_front_inject)
qed

lemma write_identity_manifest:
  "write_identity i (manifest_header sha s g x boot) =
     manifest_front sha s g x @ digest_bytes boot @ replicate 20 0 @ u32_to_be_bytes (id_pid i) @ u64_to_be_bytes (id_start_ticks i)"
  by (simp add: write_identity_def manifest_header_eq IDENTITY_OFFSET_def)

lemma zero_bytes: "u32_to_be_bytes 0 @ u64_to_be_bytes 0 = replicate 12 0"
proof -
  have "le_bytes n 0 = replicate n 0" for n by (induction n) simp_all
  then show ?thesis using replicate_add [of 4 8 "0 :: byte"] by (simp add: u32_to_be_bytes_def u64_to_be_bytes_def be_bytes_def)
qed

lemma load_new_manifest:
  "load_manifest sha s g x (manifest_header sha s g x boot) = Inr \<lparr> sv_identity = None, sv_boot = boot \<rparr>"
  using load_manifest_file [of sha s g x s g x boot 0 0] by (simp add: manifest_header_eq zero_bytes)

text \<open>A file is read whole or not at all, however the reads are cut.\<close>

lemma read_manifest_pieces:
  "list_all (\<lambda>r. r = ReadInterrupted \<or> pipe_open r \<and> r \<noteq> ReadWouldBlock) rs \<Longrightarrow>
     length acc + length (concat (map answer_bytes rs)) = 172 \<Longrightarrow>
     read_manifest rs acc = Inr (acc @ concat (map answer_bytes rs))"
proof (induction rs arbitrary: acc)
  case Nil
  then show ?case by (simp add: manifest_complete_def raw_def checked_usize_def ok_or_def get_range_def)
next
  case (Cons r rs)
  then show ?case by (cases r) (auto simp: pipe_open_def)
qed

section \<open>Writing to a pipe\<close>

text \<open>Whatever a pipe accepts is the front of what was to be sent, and success means all of it.\<close>

lemma send_until_prefix:
  "send_until script late bs = (res, sent, script') \<Longrightarrow> (\<exists>rest. bs = sent @ rest) \<and> (res = Some (Inr ()) \<longrightarrow> sent = bs)"
proof (induction script late bs arbitrary: res sent script' rule: send_until.induct)
  case (3 over answer over_after script late b bs)
  show ?case
  proof (cases answer)
    case (Wrote n)
    have split: "b # bs = take n (b # bs) @ drop n (b # bs)" by simp
    show ?thesis
    proof (cases "over \<or> n = 0 \<or> drop n (b # bs) = []")
      case True
      have "take n (b # bs) = b # bs" if "drop n (b # bs) = []" using that by simp
      then show ?thesis using True "3.prems" Wrote split by (auto split: if_splits simp del: take_Suc_Cons drop_Suc_Cons)
    next
      case False
      then obtain sent2 where s: "send_until script late (drop n (b # bs)) = (res, sent2, script')" "sent = take n (b # bs) @ sent2"
        using "3.prems" Wrote by (auto split: prod.splits)
      have "(\<exists>rest. drop n (b # bs) = sent2 @ rest) \<and> (res = Some (Inr ()) \<longrightarrow> sent2 = drop n (b # bs))"
        using "3.IH"(1) [OF _ Wrote _ _ s(1)] False by auto
      then show ?thesis using s(2) split by (metis append.assoc)
    qed
  qed (use "3.prems" "3.IH" in \<open>auto split: if_splits\<close>)
qed auto

lemma send_parts_prefix:
  "send_parts script parts = (res, sent) \<Longrightarrow>
     (\<exists>rest. concat (map fst parts) = sent @ rest) \<and> (res = Some (Inr ()) \<longrightarrow> sent = concat (map fst parts))"
proof (induction script parts arbitrary: res sent rule: send_parts.induct)
  case (2 script part late parts)
  obtain r out script' where u: "send_until script late part = (r, out, script')" by (metis prod.exhaust)
  note p = send_until_prefix [OF u]
  show ?case
  proof (cases "r = Some (Inr ())")
    case True
    obtain r2 sent2 where s2: "send_parts script' parts = (r2, sent2)" by fastforce
    then have s: "send_parts script' parts = (res, sent2)" "sent = out @ sent2"
      using "2.prems" u True by simp_all
    have "(\<exists>rest. concat (map fst parts) = sent2 @ rest) \<and> (res = Some (Inr ()) \<longrightarrow> sent2 = concat (map fst parts))"
      by (rule "2.IH" [OF u [symmetric] True refl refl s(1)])
    then show ?thesis using s(2) p True by auto
  next
    case False
    then have "res = r \<and> sent = out" using "2.prems" u by (auto split: option.splits sum.splits prod.splits)
    then show ?thesis using p False by auto
  qed
qed simp

lemma ack_round_trip: "wait_checkpoint_ack d (ack_bytes d' @ rest) = (if d = d' then Inr rest else Inl Corrupt)"
proof -
  have "get_range (ack_bytes d') 0 8 = Some ACK_MAGIC" "get_range (ack_bytes d') 8 40 = Some (digest_bytes d')"
    by (simp_all add: get_range_Some ack_bytes_def)
  moreover have "length (ack_bytes d') = 40" by (simp add: ack_bytes_def)
  ultimately show ?thesis by (auto simp: wait_checkpoint_ack_def digest_bytes_inject)
qed

section \<open>Worker images\<close>

text \<open>No accepted image names an interpreter, and every program header lies within the file.\<close>

lemma check_program_headers_ok:
  "check_program_headers bytes offset entry_size indices = Inr () \<Longrightarrow> i \<in> set indices \<Longrightarrow>
     offset + i * entry_size + entry_size \<le> length bytes
     \<and> u32_from_le_bytes (take 4 (drop (offset + i * entry_size) bytes)) \<noteq> 3"
proof (induction indices)
  case (Cons j js)
  show ?case
  proof (cases "i = j")
    case True
    obtain entry kind where "get_range bytes (offset + j * entry_size) (offset + j * entry_size + entry_size) = Some entry"
        "raw 4 entry 0 = Inr kind" "u32_from_le_bytes kind \<noteq> 3"
      using Cons.prems(1) by (auto simp: result_simps checked_usize_def split: if_splits)
    then show ?thesis
      using True by (auto simp: get_range_Some raw_def checked_usize_def result_simps split: if_splits)
  next
    case False
    then show ?thesis using Cons by (auto simp: result_simps checked_usize_def split: if_splits)
  qed
qed simp

lemma static_elf_ok:
  assumes "verify_static_elf bytes = Inr ()"
  shows "\<exists>offset count. 0 < count \<and> count \<le> 128 \<and> (\<forall>i<count. offset + i * 56 + 56 \<le> length bytes
    \<and> u32_from_le_bytes (take 4 (drop (offset + i * 56) bytes)) \<noteq> 3)"
proof -
  obtain offset count where "check_program_headers bytes offset 56 [0..<count] = Inr ()" "0 < count" "count \<le> 128"
    using assms by (auto simp: verify_static_elf_def result_simps Let_def not_less split: if_splits)
  then show ?thesis using check_program_headers_ok [of bytes offset 56 "[0..<count]"] by (intro exI [of _ offset] exI [of _ count]) auto
qed

end
