(* ===== verification/Worker_Runtime_Properties.thy ===== *)
theory Worker_Runtime_Properties
  imports Worker_Properties "HOL-Library.Multiset"
begin

text \<open>
  Runs of the worker runtime against an arbitrary operating system: the table of live workers, what a
  fence has proved before it is confirmed, and the properties of the runtime and of its byte formats.
\<close>

section \<open>Calls\<close>

lemma lx_bind_cases:
  "lx_bind m f rt = (res, rt') \<longleftrightarrow>
     (\<exists>e. m rt = (Inl e, rt') \<and> res = Inl e) \<or> (\<exists>x rt1. m rt = (Inr x, rt1) \<and> f x rt1 = (res, rt'))"
  by (auto simp: lx_bind_def split: prod.splits sum.splits)

lemma lx_call_iff:
  "lx_call answer entry result rt = (res, rt') \<longleftrightarrow>
     result (answer (lx_calls rt)) = res \<and> rt' = rt\<lparr>lx_calls := lx_calls rt @ [entry (answer (lx_calls rt))]\<rparr>"
  by (auto simp: lx_call_def Let_def)

text \<open>What no operation changes, and that the trace only grows.\<close>

definition same_host :: "linux_runtime \<Rightarrow> linux_runtime \<Rightarrow> bool" where
  "same_host rt rt' \<longleftrightarrow> lx_config rt' = lx_config rt \<and> lx_code rt' = lx_code rt \<and> lx_boot rt' = lx_boot rt
     \<and> (\<exists>cs. lx_calls rt' = lx_calls rt @ cs)"

lemma same_host_refl [simp]: "same_host rt rt"
  by (simp add: same_host_def)

lemma same_host_trans: "same_host rt rt1 \<Longrightarrow> same_host rt1 rt2 \<Longrightarrow> same_host rt rt2"
  by (auto simp: same_host_def)

lemma same_host_updates [simp]:
  "same_host rt (rt\<lparr>lx_calls := lx_calls rt @ cs\<rparr>)" "same_host rt (rt\<lparr>lx_active := as\<rparr>)" "same_host rt (put_worker i a rt)"
  by (auto simp: same_host_def put_worker_def)

section \<open>Starting\<close>

lemma launch_active:
  assumes "launch E sha to_vec rq x rt = (res, rt')"
  shows "same_host rt rt' \<and> (lx_active rt' = lx_active rt \<or> (\<exists>pid. lx_active rt' = lx_active rt @ [new_active rq pid]))"
  using assms unfolding launch_def Let_def
  by (auto simp: lx_bind_cases lx_call_iff push_active_def lx_pure_def spawn_worker_def same_host_def split: if_splits)

definition reserved :: "runtime_trace \<Rightarrow> task_scope \<Rightarrow> task_generation \<Rightarrow> bool" where
  "reserved t s g \<longleftrightarrow> (\<exists>rq x. LReserve rq x (Inr Reserved) \<in> set t \<and> start_scope rq = s \<and> start_generation rq = g)"

lemma reserved_append: "reserved t s g \<Longrightarrow> reserved (t @ cs) s g"
  unfolding reserved_def by (metis UnI1 set_append)

lemma same_host_reserved: "same_host rt rt' \<Longrightarrow> reserved (lx_calls rt) s g \<Longrightarrow> reserved (lx_calls rt') s g"
  using reserved_append by (auto simp: same_host_def)

text \<open>The contract of the authority: repeating a reservation never authorises a second launch.\<close>

definition reserves_once :: "runtime_env \<Rightarrow> bool" where
  "reserves_once E \<longleftrightarrow>
     (\<forall>t rq x. re_reserve E t rq x = Inr Reserved \<longrightarrow> \<not> reserved t (start_scope rq) (start_generation rq))"

lemma start_cases:
  assumes "runtime_start_worker E sha to_vec rq rt = (res, rt')"
  shows "same_host rt rt' \<and> (lx_active rt' = lx_active rt
    \<or> (\<exists>pid t x. \<not> start_refused rq rt \<and> re_reserve E t rq x = Inr Reserved \<and> (\<forall>s g. reserved t s g \<longleftrightarrow> reserved (lx_calls rt) s g)
         \<and> reserved (lx_calls rt') (start_scope rq) (start_generation rq) \<and> lx_active rt' = lx_active rt @ [new_active rq pid]))"
proof (cases "start_refused rq rt")
  case True
  then show ?thesis using assms by (simp add: runtime_start_worker_def)
next
  case False
  let ?x = "execution_id sha (start_scope rq) (start_generation rq)"
  let ?rt1 = "rt\<lparr>lx_calls := lx_calls rt @ [LLock]\<rparr>"
  let ?r = "re_reserve E (lx_calls ?rt1) rq ?x"
  let ?rt2 = "?rt1\<lparr>lx_calls := lx_calls ?rt1 @ [LReserve rq ?x ?r]\<rparr>"
  have host: "same_host rt ?rt1" "same_host rt ?rt2" by (auto simp: same_host_def)
  have res: "reserved (lx_calls ?rt1) s g \<longleftrightarrow> reserved (lx_calls rt) s g" for s g by (auto simp: reserved_def)
  consider "rt' = ?rt1" | "rt' = ?rt2" | "?r = Inr Reserved" "launch E sha to_vec rq ?x ?rt2 = (res, rt')"
    using assms False
    by (auto simp: runtime_start_worker_def lx_bind_cases lx_call_iff Let_def split: start_reservation.splits) (metis start_reservation.exhaust)
  then show ?thesis
  proof cases
    case 3
    note l = launch_active [OF 3(2)]
    have "reserved (lx_calls ?rt2) (start_scope rq) (start_generation rq)" using 3(1) by (auto simp: reserved_def)
    then have "reserved (lx_calls rt') (start_scope rq) (start_generation rq)"
      using l same_host_reserved by blast
    then show ?thesis
      using False 3(1) res l same_host_trans [OF host(2)] by auto blast
  qed (use host in simp_all)
qed

section \<open>Runs\<close>

inductive lx_run :: "sha \<Rightarrow> (worker_metadata \<Rightarrow> byte list option) \<Rightarrow> linux_runtime \<Rightarrow> bool" for sha to_vec where
  opened: "runtime_new W sha c max_bytes = Inr rt \<Longrightarrow> lx_run sha to_vec rt"
| start: "lx_run sha to_vec rt \<Longrightarrow> reserves_once E \<Longrightarrow> runtime_start_worker E sha to_vec rq rt = (res, rt') \<Longrightarrow> lx_run sha to_vec rt'"
| poll: "lx_run sha to_vec rt \<Longrightarrow> runtime_poll_worker E sha s g buffer rt = (obs, buffer', rt') \<Longrightarrow> lx_run sha to_vec rt'"
| acknowledge: "lx_run sha to_vec rt \<Longrightarrow> acknowledge_worker E s g b rt = (res, rt') \<Longrightarrow> lx_run sha to_vec rt'"
| fence: "lx_run sha to_vec rt \<Longrightarrow> fence_worker E sha s g rt = (res, rt') \<Longrightarrow> lx_run sha to_vec rt'"

definition worker_key :: "active_worker \<Rightarrow> task_scope \<times> task_generation" where
  "worker_key a = (ac_scope a, ac_generation a)"

lemma is_worker_key: "is_worker s g a \<longleftrightarrow> worker_key a = (s, g)"
  by (auto simp: is_worker_def worker_key_def)

text \<open>What an entry of the table is fixed to when it is made.\<close>

definition entry_ok :: "linux_runtime \<Rightarrow> active_worker \<Rightarrow> bool" where
  "entry_ok rt a \<longleftrightarrow> worker_ok a \<and> code_digest (ac_definition a) = lx_code rt
     \<and> max_input_bytes (budget (ac_definition a)) \<le> pc_max_frame_bytes (lx_config rt)
     \<and> max_output_bytes (budget (ac_definition a)) \<le> pc_max_frame_bytes (lx_config rt)
     \<and> max_checkpoint_bytes (recovery (ac_definition a)) \<le> pc_max_frame_bytes (lx_config rt)
     \<and> reserved (lx_calls rt) (ac_scope a) (ac_generation a)"

definition lx_inv :: "linux_runtime \<Rightarrow> bool" where
  "lx_inv rt \<longleftrightarrow> config_check (lx_config rt) = Inr () \<and> distinct (map worker_key (lx_active rt))
     \<and> length (lx_active rt) \<le> unat (pc_max_live (lx_config rt)) \<and> (\<forall>a\<in>set (lx_active rt). entry_ok rt a)"

lemma entry_ok_host: "entry_ok rt a \<Longrightarrow> same_host rt rt' \<Longrightarrow> entry_ok rt' a"
  using reserved_append by (auto simp: entry_ok_def same_host_def)

lemma worker_start_inv:
  assumes inv: "lx_inv rt" and once: "reserves_once E" and run: "runtime_start_worker E sha to_vec rq rt = (res, rt')"
  shows "lx_inv rt'"
proof -
  note c = start_cases [OF run]
  have host: "same_host rt rt'" using c by blast
  have old: "\<forall>a\<in>set (lx_active rt). entry_ok rt' a" using inv host by (auto simp: lx_inv_def intro: entry_ok_host)
  have conf: "lx_config rt' = lx_config rt" "lx_code rt' = lx_code rt" using host by (simp_all add: same_host_def)
  consider "lx_active rt' = lx_active rt"
    | pid t x where "\<not> start_refused rq rt" "re_reserve E t rq x = Inr Reserved" "\<forall>s g. reserved t s g \<longleftrightarrow> reserved (lx_calls rt) s g"
      "reserved (lx_calls rt') (start_scope rq) (start_generation rq)" "lx_active rt' = lx_active rt @ [new_active rq pid]"
    using c by blast
  then show ?thesis
  proof cases
    case 1
    then show ?thesis using inv old conf by (simp add: lx_inv_def)
  next
    case 2
    have "\<not> reserved (lx_calls rt) (start_scope rq) (start_generation rq)"
      using once 2(2,3) by (auto simp: reserves_once_def)
    then have fresh: "\<forall>a\<in>set (lx_active rt). worker_key a \<noteq> (start_scope rq, start_generation rq)"
      using inv by (auto simp: lx_inv_def entry_ok_def worker_key_def)
    then have "isl (index (start_scope rq) (start_generation rq) rt)"
      by (cases "index (start_scope rq) (start_generation rq) rt") (auto dest!: index_worker simp: is_worker_key)
    then have room: "length (lx_active rt) < unat (pc_max_live (lx_config rt))"
      using 2(1) by (auto simp: start_refused_def Let_def)
    have "entry_ok rt' (new_active rq pid)"
      using 2(1,4) conf by (auto simp: entry_ok_def worker_ok_def new_active_def start_refused_def Let_def)
    moreover have "worker_key (new_active rq pid) = (start_scope rq, start_generation rq)"
      by (simp add: worker_key_def new_active_def Let_def)
    ultimately show ?thesis using inv old conf fresh room 2(5) by (auto simp: lx_inv_def)
  qed
qed

definition same_entry :: "active_worker \<Rightarrow> active_worker \<Rightarrow> bool" where
  "same_entry a b \<longleftrightarrow> worker_key b = worker_key a \<and> ac_pid b = ac_pid a \<and> ac_size b = ac_size a \<and> ac_definition b = ac_definition a"

lemma update_inv:
  assumes inv: "lx_inv rt" and host: "same_host rt rt'" and up: "lx_active rt' = (lx_active rt)[i := a]"
    and i: "i < length (lx_active rt)" "same_entry (lx_active rt ! i) a"
  shows "lx_inv rt'"
proof -
  have "map worker_key (lx_active rt') = map worker_key (lx_active rt)"
    using i up by (simp add: map_update same_entry_def) (metis list_update_id nth_map)
  moreover have "entry_ok rt' a"
    using inv i entry_ok_host [OF _ host, of "lx_active rt ! i"]
    by (auto simp: lx_inv_def entry_ok_def worker_ok_def same_entry_def worker_key_def)
  moreover have "set (lx_active rt') \<subseteq> insert a (set (lx_active rt))" using up by (simp add: set_update_subset_insert)
  ultimately show ?thesis
    using inv host up by (auto simp: lx_inv_def same_host_def intro: entry_ok_host [OF _ host])
qed

lemma same_inv: "lx_inv rt \<Longrightarrow> same_host rt rt' \<Longrightarrow> lx_active rt' = lx_active rt \<Longrightarrow> lx_inv rt'"
  using entry_ok_host by (auto simp: lx_inv_def same_host_def)

lemma read_more_frame: "read_more E a rt = (r, rt') \<Longrightarrow> same_host rt rt' \<and> lx_active rt' = lx_active rt"
  by (auto simp: read_more_def lx_call_iff lx_pure_def Let_def split: if_splits)

lemma progress_frame: "progress_after_read E eof pid rt = (r, rt') \<Longrightarrow> same_host rt rt' \<and> lx_active rt' = lx_active rt"
  by (auto simp: progress_after_read_def lx_call_iff lx_pure_def split: if_splits)

lemma poll_cases:
  assumes "runtime_poll_worker E sha s g buffer rt = (obs, buffer', rt')"
  shows "same_host rt rt' \<and> (lx_active rt' = lx_active rt
    \<or> (\<exists>i a. i < length (lx_active rt) \<and> lx_active rt' = (lx_active rt)[i := a] \<and> same_entry (lx_active rt ! i) a))"
proof (cases "index s g rt")
  case (Inl e)
  then show ?thesis using assms by (simp add: runtime_poll_worker_def)
next
  case (Inr i)
  note w = index_worker [OF Inr]
  let ?a = "lx_active rt ! i"
  show ?thesis
  proof (cases "ac_checkpoint ?a")
    case (Some b)
    then show ?thesis using assms Inr by (simp add: runtime_poll_worker_def Let_def)
  next
    case None
    obtain r rt1 where rd: "read_more E ?a rt = (r, rt1)" by fastforce
    note f = read_more_frame [OF rd]
    show ?thesis
    proof (cases r)
      case (Inl e)
      then show ?thesis using assms Inr None rd f by (simp add: runtime_poll_worker_def Let_def)
    next
      case r: (Inr p)
      obtain eof filled where p: "p = (eof, filled)" by fastforce
      let ?b = "?a\<lparr>ac_filled := filled\<rparr>"
      have set1: "same_host rt (put_worker i b rt1)" "lx_active (put_worker i b rt1) = (lx_active rt)[i := b]" for b
        using f same_host_trans [of rt rt1] by (auto simp: put_worker_def same_host_def)
      have set2: "same_host rt (put_worker i c (put_worker i b rt1))"
        "lx_active (put_worker i c (put_worker i b rt1)) = (lx_active rt)[i := c]" for b c
        using set1 by (auto simp: put_worker_def same_host_def)
      have e: "same_entry ?a ?b" "same_entry ?a (?b\<lparr>ac_filled := fs, ac_checkpoint := ck\<rparr>)" for fs ck
        by (simp_all add: same_entry_def worker_key_def)
      obtain q rt2 where pr: "progress_after_read E eof (ac_pid ?a) (put_worker i ?b rt1) = (q, rt2)" by fastforce
      note pf = progress_frame [OF pr]
      consider "rt' = put_worker i ?b rt1" | fs ck where "rt' = put_worker i (?b\<lparr>ac_filled := fs, ac_checkpoint := ck\<rparr>) (put_worker i ?b rt1)" | "rt' = rt2"
        using assms Inr None rd r p pr
        by (auto simp: runtime_poll_worker_def Let_def split: sum.splits option.splits if_splits)
      then show ?thesis
      proof cases
        case 1
        then show ?thesis using set1 [of ?b] e(1) w by blast
      next
        case (2 fs ck)
        then show ?thesis using set2 [of "?b\<lparr>ac_filled := fs, ac_checkpoint := ck\<rparr>" ?b] e(2) w by metis
      next
        case 3
        then show ?thesis using set1 [of ?b] e(1) w pf same_host_trans [of rt "put_worker i ?b rt1" rt2] by auto
      qed
    qed
  qed
qed

lemma acknowledge_cases:
  assumes "acknowledge_worker E s g b rt = (res, rt')"
  shows "same_host rt rt' \<and> (lx_active rt' = lx_active rt
    \<or> (\<exists>i a. i < length (lx_active rt) \<and> lx_active rt' = (lx_active rt)[i := a] \<and> same_entry (lx_active rt ! i) a))"
proof (cases "index s g rt")
  case (Inr i)
  let ?b = "(lx_active rt ! i)\<lparr>ac_checkpoint := None\<rparr>"
  have "same_entry (lx_active rt ! i) ?b" by (simp add: same_entry_def worker_key_def)
  moreover have "same_host rt rt' \<and> (lx_active rt' = lx_active rt \<or> lx_active rt' = (lx_active rt)[i := ?b])"
    using assms Inr by (auto simp: acknowledge_worker_def lx_bind_cases lx_call_iff same_host_def put_worker_def split: if_splits)
  ultimately show ?thesis using index_worker [OF Inr] by blast
qed (use assms in \<open>simp add: acknowledge_worker_def\<close>)

section \<open>Fencing\<close>

text \<open>The calls that stop the recorded process of an execution, and the process they stopped.\<close>

definition stop_evidence ::
  "sha \<Rightarrow> task_scope \<Rightarrow> task_generation \<Rightarrow> digest \<Rightarrow> digest option \<Rightarrow> u32 option \<Rightarrow> runtime_trace \<Rightarrow> bool" where
  "stop_evidence sha s g boot x stopped cs \<longleftrightarrow>
     (case x of
        None \<Rightarrow> stopped = None \<and> cs = []
      | Some d \<Rightarrow> d = execution_id sha s g
          \<and> ((stopped = None \<and> cs = [LLoad d (Inr None)])
             \<or> (\<exists>file bytes saved. read_manifest file [] = Inr bytes \<and> load_manifest sha s g d bytes = Inr saved
                 \<and> (case sv_identity saved of
                      None \<Rightarrow> stopped = None \<and> cs = [LLoad d (Inr (Some file))]
                    | Some identity \<Rightarrow>
                        if sv_boot saved = boot
                        then stopped = Some (id_pid identity) \<and> cs = [LLoad d (Inr (Some file)), LStop identity (Inr ())]
                        else stopped = None \<and> cs = [LLoad d (Inr (Some file))]))))"

lemma stop_execution_Inr:
  assumes "stop_execution E sha s g x rt = (Inr stopped, rt')"
  shows "\<exists>cs. rt' = rt\<lparr>lx_calls := lx_calls rt @ cs\<rparr> \<and> stop_evidence sha s g (lx_boot rt) x stopped cs"
proof (cases x)
  case None
  then show ?thesis using assms by (auto simp: stop_execution_def lx_pure_def stop_evidence_def intro: exI [of _ "[]"])
next
  case (Some d)
  let ?r = "re_load E (lx_calls rt) d"
  let ?rt1 = "rt\<lparr>lx_calls := lx_calls rt @ [LLoad d ?r]\<rparr>"
  obtain saved where d: "d = execution_id sha s g" and ld: "load_saved E sha s g d rt = (Inr saved, ?rt1)" and st: "stop_saved E saved ?rt1 = (Inr stopped, rt')"
    using assms Some by (auto simp: stop_execution_def lx_bind_cases lx_pure_def load_saved_def lx_call_iff split: if_splits)
  show ?thesis
  proof (cases saved)
    case None
    then have "?r = Inr None" using ld by (auto simp: load_saved_def lx_call_iff result_simps split: option.splits)
    then show ?thesis using None st Some d by (auto simp: stop_saved_def stop_evidence_def)
  next
    case sv: (Some v)
    then obtain answers bytes where f: "?r = Inr (Some answers)" "read_manifest answers [] = Inr bytes" "load_manifest sha s g d bytes = Inr v"
      using ld by (auto simp: load_saved_def lx_call_iff result_simps split: option.splits)
    have "\<exists>cs. rt' = rt\<lparr>lx_calls := lx_calls rt @ cs\<rparr> \<and> (case sv_identity v of
          None \<Rightarrow> stopped = None \<and> cs = [LLoad d (Inr (Some answers))]
        | Some identity \<Rightarrow> if sv_boot v = lx_boot rt then stopped = Some (id_pid identity) \<and> cs = [LLoad d (Inr (Some answers)), LStop identity (Inr ())]
            else stopped = None \<and> cs = [LLoad d (Inr (Some answers))])"
      using st f(1) sv by (auto simp: stop_saved_def lx_call_iff result_simps split: option.splits if_splits)
    then show ?thesis unfolding stop_evidence_def Some option.case using f(2,3) d by blast
  qed
qed

lemma stop_saved_frame:
  "stop_saved E saved rt = (res, rt') \<Longrightarrow> \<exists>cs. rt' = rt\<lparr>lx_calls := lx_calls rt @ cs\<rparr> \<and> (\<forall>y r. LConfirm s g y r \<notin> set cs)"
proof (cases saved)
  case (Some v)
  assume "stop_saved E saved rt = (res, rt')"
  then show ?thesis
    using Some by (cases "sv_identity v"; cases "sv_boot v = lx_boot rt")
      (auto simp: stop_saved_def lx_call_iff intro: exI [of _ "[]"])
qed (auto simp: stop_saved_def intro: exI [of _ "[]"])

lemma stop_execution_frame:
  assumes "stop_execution E sha s g x rt = (res, rt')"
  shows "\<exists>cs. rt' = rt\<lparr>lx_calls := lx_calls rt @ cs\<rparr> \<and> (\<forall>y r. LConfirm s g y r \<notin> set cs)"
proof (cases "x = None \<or> x \<noteq> Some (execution_id sha s g)")
  case True
  then show ?thesis using assms by (auto simp: stop_execution_def lx_pure_def split: option.splits if_splits intro: exI [of _ "[]"])
next
  case False
  then obtain d where d: "x = Some d" "d = execution_id sha s g" by auto
  let ?rt1 = "rt\<lparr>lx_calls := lx_calls rt @ [LLoad d (re_load E (lx_calls rt) d)]\<rparr>"
  have ld: "load_saved E sha s g d rt = (r, rt1) \<Longrightarrow> rt1 = ?rt1" for r rt1 by (simp add: load_saved_def lx_call_iff)
  consider "rt' = ?rt1" | saved where "stop_saved E saved ?rt1 = (res, rt')"
    using assms d ld by (auto simp: stop_execution_def lx_bind_cases)
  then show ?thesis
  proof cases
    case (2 saved)
    from stop_saved_frame [OF this, of s g] show ?thesis by auto
  qed (auto intro: exI [of _ "[LLoad d (re_load E (lx_calls rt) d)]"])
qed

definition exit_evidence :: "active_worker list \<Rightarrow> task_scope \<Rightarrow> task_generation \<Rightarrow> u32 option \<Rightarrow> runtime_trace \<Rightarrow> bool" where
  "exit_evidence as s g stopped cs \<longleftrightarrow>
     (cs = [] \<and> (\<forall>a\<in>set as. \<not> is_worker s g a))
     \<or> (\<exists>a\<in>set as. is_worker s g a
          \<and> ((\<exists>signal. cs = [LWait (ac_pid a) (Inr (Exited signal))])
             \<or> (cs = [LWait (ac_pid a) (Inl NoSuchChild)] \<and> stopped = Some (ac_pid a))))"

lemma mset_swap_remove: "i < length xs \<Longrightarrow> mset (swap_remove i xs) = mset xs - {# xs ! i #}"
proof -
  assume i: "i < length xs"
  let ?ys = "xs[i := last xs]"
  have ne: "xs \<noteq> []" "?ys \<noteq> []" using i by auto
  have "last ?ys = last xs" using ne by (cases "i = length xs - 1") (simp_all add: last_conv_nth)
  then have "mset (swap_remove i xs) = mset ?ys - {# last xs #}"
    using ne append_butlast_last_id [of ?ys] by (metis add_diff_cancel_right' mset.simps(1) mset.simps(2) mset_append swap_remove_def)
  then show ?thesis using i by (simp add: mset_update)
qed

lemma reaped_Inr:
  "reaped pid stopped r = Inr () \<longleftrightarrow> (\<exists>signal. r = Inr (Exited signal)) \<or> (r = Inl NoSuchChild \<and> stopped = Some pid)"
  by (auto simp: reaped_def split: sum.splits child_status.splits wait_error.splits)

lemma reap_active_cases:
  assumes "reap_active E s g stopped rt = (res, rt')"
  shows "\<exists>cs. same_host rt rt' \<and> lx_calls rt' = lx_calls rt @ cs \<and> (\<forall>y r. LConfirm s g y r \<notin> set cs)
    \<and> (case res of
         Inl _ \<Rightarrow> lx_active rt' = lx_active rt
       | Inr _ \<Rightarrow> exit_evidence (lx_active rt) s g stopped cs
           \<and> (lx_active rt' = lx_active rt \<and> (\<forall>a\<in>set (lx_active rt). \<not> is_worker s g a)
              \<or> (\<exists>i. i < length (lx_active rt) \<and> is_worker s g (lx_active rt ! i) \<and> lx_active rt' = swap_remove i (lx_active rt))))"
proof (cases "index s g rt")
  case (Inl e)
  then have "\<forall>a\<in>set (lx_active rt). \<not> is_worker s g a" by (simp add: index_Inl)
  then show ?thesis using assms Inl by (auto simp: reap_active_def exit_evidence_def intro: exI [of _ "[]"])
next
  case (Inr i)
  let ?a = "lx_active rt ! i"
  note w = index_worker [OF Inr]
  let ?r = "re_wait E (lx_calls rt) (ac_pid ?a)"
  have c: "same_host rt rt'" "lx_calls rt' = lx_calls rt @ [LWait (ac_pid ?a) ?r]"
    "case res of Inl _ \<Rightarrow> lx_active rt' = lx_active rt
       | Inr _ \<Rightarrow> reaped (ac_pid ?a) stopped ?r = Inr () \<and> lx_active rt' = swap_remove i (lx_active rt)"
    using assms Inr by (auto simp: reap_active_def lx_bind_cases lx_call_iff Let_def same_host_def)
  have "exit_evidence (lx_active rt) s g stopped [LWait (ac_pid ?a) ?r]" if "reaped (ac_pid ?a) stopped ?r = Inr ()"
    using that w nth_mem [of i "lx_active rt"] unfolding reaped_Inr exit_evidence_def by blast
  then show ?thesis using c w by (intro exI [of _ "[LWait (ac_pid ?a) ?r]"]) (auto split: sum.splits)
qed

lemma fence_cases:
  assumes "fence_worker E sha s g rt = (res, rt')"
  shows "\<exists>cs. lx_calls rt' = lx_calls rt @ cs \<and> same_host rt rt'
    \<and> ((\<forall>x r. LConfirm s g x r \<notin> set cs) \<and> res \<noteq> Inr () \<and> lx_active rt' = lx_active rt
       \<or> (\<exists>x stopped stops waits. cs = [LLock, LBeginFence s g (Inr x)] @ stops @ waits @ [LConfirm s g x res]
            \<and> stop_evidence sha s g (lx_boot rt) x stopped stops \<and> exit_evidence (lx_active rt) s g stopped waits
            \<and> (lx_active rt' = lx_active rt \<and> (\<forall>a\<in>set (lx_active rt). \<not> is_worker s g a)
               \<or> (\<exists>i. i < length (lx_active rt) \<and> is_worker s g (lx_active rt ! i) \<and> lx_active rt' = swap_remove i (lx_active rt)))))"
proof -
  let ?rt1 = "rt\<lparr>lx_calls := lx_calls rt @ [LLock]\<rparr>"
  let ?b = "re_begin_fence E (lx_calls ?rt1) s g"
  let ?cs2 = "[LLock, LBeginFence s g ?b]"
  let ?rt2 = "rt\<lparr>lx_calls := lx_calls rt @ ?cs2\<rparr>"
  consider e where "res = Inl e" "rt' = ?rt1" | e where "res = Inl e" "rt' = ?rt2"
    | x e where "?b = Inr x" "res = Inl e" "stop_execution E sha s g x ?rt2 = (Inl e, rt')"
    | x stopped rt3 e where "?b = Inr x" "res = Inl e" "stop_execution E sha s g x ?rt2 = (Inr stopped, rt3)" "reap_active E s g stopped rt3 = (Inl e, rt')"
    | x stopped rt3 rt4 where "?b = Inr x" "stop_execution E sha s g x ?rt2 = (Inr stopped, rt3)" "reap_active E s g stopped rt3 = (Inr (), rt4)"
      "res = re_confirm E (lx_calls rt4) s g x" "rt' = rt4\<lparr>lx_calls := lx_calls rt4 @ [LConfirm s g x res]\<rparr>"
    using assms unfolding fence_worker_def by (auto simp: lx_bind_cases lx_call_iff)
  then show ?thesis
  proof cases
    case (1 e)
    then show ?thesis by (intro exI [of _ "[LLock]"]) simp
  next
    case (2 e)
    then show ?thesis by (intro exI [of _ ?cs2]) simp
  next
    case (3 x e)
    obtain cs where "rt' = ?rt2\<lparr>lx_calls := lx_calls ?rt2 @ cs\<rparr>" "\<forall>y r. LConfirm s g y r \<notin> set cs"
      using stop_execution_frame [OF 3(3)] by blast
    then show ?thesis using 3(2) by (intro exI [of _ "?cs2 @ cs"]) (simp add: same_host_def)
  next
    case (4 x stopped rt3 e)
    obtain cs where cs: "rt3 = ?rt2\<lparr>lx_calls := lx_calls ?rt2 @ cs\<rparr>" "\<forall>y r. LConfirm s g y r \<notin> set cs"
      using stop_execution_frame [OF 4(3)] by blast
    obtain ds where ds: "same_host rt3 rt'" "lx_calls rt' = lx_calls rt3 @ ds" "\<forall>y r. LConfirm s g y r \<notin> set ds" "lx_active rt' = lx_active rt3"
      using reap_active_cases [OF 4(4)] by auto
    then show ?thesis using cs 4(2) by (intro exI [of _ "?cs2 @ cs @ ds"]) (auto simp: same_host_def)
  next
    case (5 x stopped rt3 rt4)
    obtain cs where cs: "rt3 = ?rt2\<lparr>lx_calls := lx_calls ?rt2 @ cs\<rparr>" "stop_evidence sha s g (lx_boot rt) x stopped cs"
      using stop_execution_Inr [OF 5(2)] by auto
    have act: "lx_active rt3 = lx_active rt" "same_host rt rt3" using cs(1) by (simp_all add: same_host_def)
    obtain ds where ds: "same_host rt3 rt4" "lx_calls rt4 = lx_calls rt3 @ ds" "exit_evidence (lx_active rt) s g stopped ds"
      "lx_active rt4 = lx_active rt \<and> (\<forall>a\<in>set (lx_active rt). \<not> is_worker s g a)
         \<or> (\<exists>i. i < length (lx_active rt) \<and> is_worker s g (lx_active rt ! i) \<and> lx_active rt4 = swap_remove i (lx_active rt))"
      using reap_active_cases [OF 5(3)] unfolding act(1) by auto
    have host: "same_host rt rt'" using same_host_trans [OF same_host_trans [OF act(2) ds(1)]] 5(5) by simp
    show ?thesis
    proof (intro exI conjI)
      show "lx_calls rt' = lx_calls rt @ ([LLock, LBeginFence s g (Inr x)] @ cs @ ds @ [LConfirm s g x res])"
        using 5(1,5) cs(1) ds(2) by simp
      show "same_host rt rt'" by (rule host)
    next
      show "(\<forall>y r. LConfirm s g y r \<notin> set ([LLock, LBeginFence s g (Inr x)] @ cs @ ds @ [LConfirm s g x res])) \<and> res \<noteq> Inr () \<and> lx_active rt' = lx_active rt
        \<or> (\<exists>y stopped stops waits. [LLock, LBeginFence s g (Inr x)] @ cs @ ds @ [LConfirm s g x res]
            = [LLock, LBeginFence s g (Inr y)] @ stops @ waits @ [LConfirm s g y res]
            \<and> stop_evidence sha s g (lx_boot rt) y stopped stops \<and> exit_evidence (lx_active rt) s g stopped waits
            \<and> (lx_active rt' = lx_active rt \<and> (\<forall>a\<in>set (lx_active rt). \<not> is_worker s g a)
               \<or> (\<exists>i. i < length (lx_active rt) \<and> is_worker s g (lx_active rt ! i) \<and> lx_active rt' = swap_remove i (lx_active rt))))"
        using cs(2) ds(3,4) 5(5) by (intro disjI2 exI [of _ x] exI [of _ stopped] exI [of _ cs] exI [of _ ds]) simp
    qed
  qed
qed

lemma swap_remove_worker:
  assumes "distinct (map worker_key as)" "i < length as" "is_worker s g (as ! i)"
  shows "\<forall>a\<in>set (swap_remove i as). \<not> is_worker s g a" "distinct (map worker_key (swap_remove i as))"
    "set (swap_remove i as) \<subseteq> set as" "length (swap_remove i as) \<le> length as"
proof -
  have m: "mset as = add_mset (as ! i) (mset (swap_remove i as))" using mset_swap_remove [OF assms(2)] assms(2) by simp
  have "mset (map worker_key as) = add_mset (worker_key (as ! i)) (mset (map worker_key (swap_remove i as)))" using m by simp
  then have "distinct (worker_key (as ! i) # map worker_key (swap_remove i as))"
    using assms(1) by (metis distinct_count_atmost_1 mset.simps(2) mset_eq_imp_distinct_iff)
  then show "distinct (map worker_key (swap_remove i as))" "\<forall>a\<in>set (swap_remove i as). \<not> is_worker s g a"
    using assms(3) by (auto simp: is_worker_key image_iff)
  show "set (swap_remove i as) \<subseteq> set as" using m by (metis set_mset_mset set_mset_add_mset_insert subset_insertI)
  show "length (swap_remove i as) \<le> length as" by (simp add: swap_remove_def)
qed

lemma worker_fence_inv: "lx_inv rt \<Longrightarrow> fence_worker E sha s g rt = (res, rt') \<Longrightarrow> lx_inv rt'"
proof -
  assume inv: "lx_inv rt" and "fence_worker E sha s g rt = (res, rt')"
  from fence_cases [OF this(2)] have host: "same_host rt rt'" and
    c: "lx_active rt' = lx_active rt \<or> (\<exists>i. i < length (lx_active rt) \<and> is_worker s g (lx_active rt ! i) \<and> lx_active rt' = swap_remove i (lx_active rt))"
    by blast+
  show ?thesis
  proof (cases "lx_active rt' = lx_active rt")
    case False
    then obtain i where i: "i < length (lx_active rt)" "is_worker s g (lx_active rt ! i)" "lx_active rt' = swap_remove i (lx_active rt)"
      using c by blast
    have d: "distinct (map worker_key (lx_active rt))" using inv by (simp add: lx_inv_def)
    show ?thesis
      using inv swap_remove_worker [OF d i(1,2)] host entry_ok_host [OF _ host] unfolding lx_inv_def i(3)
      by (auto simp: same_host_def)
  qed (use same_inv [OF inv host] in blast)
qed

lemma worker_run_inv: "lx_run sha to_vec rt \<Longrightarrow> lx_inv rt"
proof (induction rule: lx_run.induct)
  case (opened W c max_bytes rt)
  then show ?case by (auto simp: runtime_new_def lx_inv_def result_simps)
next
  case (start rt E rq res rt')
  then show ?case using worker_start_inv by blast
next
  case (poll rt E s g buffer obs buffer' rt')
  then show ?case using poll_cases [OF poll.hyps(2)] update_inv same_inv by blast
next
  case (acknowledge rt E s g b res rt')
  then show ?case using acknowledge_cases [OF acknowledge.hyps(2)] update_inv same_inv by blast
next
  case (fence rt E s g res rt')
  then show ?case using worker_fence_inv by blast
qed

section \<open>A concrete run\<close>

definition ex_worker_sha :: sha where
  "ex_worker_sha bs = digest_fill 7"

definition ex_elf :: "byte list" where
  "ex_elf = [127, 69, 76, 70, 2, 1, 1] @ replicate 9 0 @ [2, 0, 62, 0] @ replicate 12 0 @ [64, 0, 0, 0, 0, 0, 0, 0]
     @ replicate 14 0 @ [56, 0, 1, 0] @ replicate 6 0 @ [1, 0, 0, 0] @ replicate 52 0"

definition ex_open :: open_env where
  "ex_open = \<lparr> oe_pidfd = Inr (), oe_boot = Inr (replicate 37 0), oe_program = Inr ex_elf, oe_seal = Inr () \<rparr>"

definition ex_config :: process_runtime_config where
  "ex_config = \<lparr> pc_max_frame_bytes = 16, pc_max_live = 1, pc_ticks_per_second = 1, pc_address_space_bytes = 8388608,
     pc_startup_timeout = 1, pc_fence_timeout = 1 \<rparr>"

definition ex_task_definition :: task_definition where
  "ex_task_definition = \<lparr> code_digest = digest_fill 7, checkpoint_schema = 1, effects = PureEffects,
     recovery = \<lparr> mode = RestartFromBeginning, max_attempts = 1, timeout_ticks = 1, restart_delay_ticks = 0, max_checkpoint_bytes = 8 \<rparr>,
     budget = \<lparr> max_input_bytes = 8, max_output_bytes = 8, max_history_records = 4, max_checkpoint_commits = 1, cpu_ticks = 2, deadline_tick = 9 \<rparr> \<rparr>"

definition ex_worker_scope :: task_scope where
  "ex_worker_scope = \<lparr> scope_tenant = digest_fill 1, scope_task = digest_fill 2, scope_definition = digest_fill 7, scope_input = digest_fill 7 \<rparr>"

definition ex_task_start :: task_start where
  "ex_task_start = \<lparr> start_scope = ex_worker_scope, start_generation = 1, start_definition = ex_task_definition,
     start_execution_deadline = 9, start_input_schema = 1, start_input = [1, 2, 3], start_checkpoint = Some [4, 5] \<rparr>"

definition ex_identity :: process_identity where
  "ex_identity = \<lparr> id_pid = 42, id_start_ticks = 5 \<rparr>"

definition ex_manifest :: "byte list" where
  "ex_manifest = write_identity ex_identity (manifest_header ex_worker_sha ex_worker_scope 1 (digest_fill 7) (digest_fill 7))"

definition ex_runtime_env :: runtime_env where
  "ex_runtime_env = \<lparr> re_lock = (\<lambda>_. Inr ()), re_reserve = (\<lambda>t _ _. Inr (if t = [LLock] then Reserved else AlreadyReserved)),
     re_prepare = (\<lambda>_ _ _. Inr ()), re_spawn = (\<lambda>_ _ _. Inr 42), re_nonblocking = (\<lambda>_. Inr ()), re_send = (\<lambda>_ _. Inr ()),
     re_read = (\<lambda>_ _. ReadWouldBlock), re_begin_fence = (\<lambda>_ _ _. Inr (Some (digest_fill 7))),
     re_load = (\<lambda>_ _. Inr (Some [ReadOk ex_manifest])), re_stop = (\<lambda>_ _. Inr ()), re_wait = (\<lambda>_ _. Inr (Exited (Some 9))),
     re_confirm = (\<lambda>_ _ _ _. Inr ()) \<rparr>"

definition ex_empty_runtime :: linux_runtime where
  "ex_empty_runtime = \<lparr> lx_config = ex_config, lx_code = digest_fill 7, lx_boot = digest_fill 7, lx_active = [], lx_calls = [] \<rparr>"

definition ex_to_vec :: "worker_metadata \<Rightarrow> byte list option" where
  "ex_to_vec m = Some [9]"

definition ex_live_runtime :: linux_runtime where
  "ex_live_runtime = snd (runtime_start_worker ex_runtime_env ex_worker_sha ex_to_vec ex_task_start ex_empty_runtime)"

lemma ex_elf_verified: "verify_static_elf ex_elf = Inr ()"
  by (simp add: verify_static_elf_def ex_elf_def raw_def checked_usize_def ok_or_def get_range_def u16_from_le_bytes_def
      u64_from_le_bytes_def u32_from_le_bytes_def Let_def)

lemma ex_opened: "runtime_new ex_open ex_worker_sha ex_config 256 = Inr ex_empty_runtime"
  by (simp add: runtime_new_def config_check_def ex_config_def registry_open_def image_load_def ex_open_def ex_elf_verified
      digest_of_def ex_worker_sha_def ex_empty_runtime_def) (simp add: ex_elf_def)

lemma ex_worker_active: "lx_active ex_live_runtime = [new_active ex_task_start 42]"
  by (simp add: ex_live_runtime_def runtime_start_worker_def start_refused_def ex_empty_runtime_def ex_task_start_def
      ex_task_definition_def ex_config_def ex_runtime_env_def lx_bind_def lx_call_def Let_def launch_def spawn_worker_def
      push_active_def lx_pure_def start_parts_def ex_to_vec_def u32_try_from_def)

lemma ex_reserves_once: "reserves_once ex_runtime_env"
  by (auto simp: reserves_once_def reserved_def ex_runtime_env_def)

lemma ex_worker_run: "lx_run ex_worker_sha ex_to_vec ex_live_runtime"
  by (rule lx_run.start [OF lx_run.opened [OF ex_opened] ex_reserves_once]) (simp add: ex_live_runtime_def prod_eq_iff)

lemma ex_live_index: "index ex_worker_scope 1 ex_live_runtime = Inr 0"
  by (simp add: index_Inr ex_worker_active is_worker_def new_active_def ex_task_start_def Let_def)

lemma ex_live_host: "lx_boot ex_live_runtime = digest_fill 7"
proof -
  have "same_host ex_empty_runtime ex_live_runtime"
    using start_cases [of ex_runtime_env ex_worker_sha ex_to_vec ex_task_start ex_empty_runtime] by (simp add: ex_live_runtime_def prod_eq_iff)
  then show ?thesis by (simp add: same_host_def ex_empty_runtime_def)
qed

lemma ex_manifest_loads:
  "load_manifest ex_worker_sha ex_worker_scope 1 (digest_fill 7) ex_manifest = Inr \<lparr> sv_identity = Some ex_identity, sv_boot = digest_fill 7 \<rparr>"
  "read_manifest [ReadOk ex_manifest] [] = Inr ex_manifest"
proof -
  show "load_manifest ex_worker_sha ex_worker_scope 1 (digest_fill 7) ex_manifest = Inr \<lparr> sv_identity = Some ex_identity, sv_boot = digest_fill 7 \<rparr>"
    unfolding ex_manifest_def write_identity_manifest load_manifest_file by (simp add: ex_identity_def)
  have "length ex_manifest = 172" by (simp add: ex_manifest_def write_identity_manifest)
  then show "read_manifest [ReadOk ex_manifest] [] = Inr ex_manifest"
    using read_manifest_pieces [of "[ReadOk ex_manifest]" "[]"] by (auto simp: pipe_open_def)
qed

lemma ex_fence: "fst (fence_worker ex_runtime_env ex_worker_sha ex_worker_scope 1 ex_live_runtime) = Inr ()"
proof -
  have idx: "index ex_worker_scope 1 (ex_live_runtime\<lparr>lx_calls := cs\<rparr>) = Inr 0" for cs using ex_live_index by (simp add: index_def)
  have env: "re_lock ex_runtime_env t = Inr ()" "re_begin_fence ex_runtime_env t a b = Inr (Some (digest_fill 7))"
    "re_load ex_runtime_env t x = Inr (Some [ReadOk ex_manifest])" "re_stop ex_runtime_env t i = Inr ()"
    "re_wait ex_runtime_env t p = Inr (Exited (Some 9))" "re_confirm ex_runtime_env t a b y = Inr ()" for t a b x i p y
    by (simp_all add: ex_runtime_env_def)
  show ?thesis
    by (simp add: fence_worker_def lx_bind_def lx_call_def Let_def env stop_execution_def execution_id_def digest_of_def
        ex_worker_sha_def [of "str_bytes _ @ _"] load_saved_def ex_manifest_loads stop_saved_def ex_live_host reap_active_def idx
        reaped_def del: read_manifest.simps)
qed

section \<open>Claims\<close>

text \<open>
  C37. A proposal of a worker is received exactly, however the pipe cuts it. For a live worker with an empty
  buffer, when the reads of successive polls bring the frame \<open>write_proposal\<close> has written, in any pieces and
  with any interruptions, every poll but the last reports a pending worker, and the poll that
  reads the last piece reports the checkpoint or completion with its length and schema and
  the payload in the caller's buffer; the worker's buffer is empty again and a checkpoint waits for its
  acknowledgement under the digest of the payload.
\<close>
theorem proposal_survives_chunking:
  assumes "lx_run sha to_vec rt" "write_proposal sha ok m is_checkpoint schema bytes = Inr frame"
    and "index (wm_scope m) (wm_generation m) rt = Inr i" "ac_definition (lx_active rt ! i) = wm_definition m"
    and "ac_filled (lx_active rt ! i) = []" "ac_checkpoint (lx_active rt ! i) = None"
    and "list_all2 (\<lambda>E r. \<forall>t n. re_read E t n = r) Es rs" "list_all pipe_open rs"
    and "concat (map answer_bytes rs) = frame" "answer_bytes (last rs) \<noteq> []" "length bytes \<le> length buffer"
  shows "\<exists>calls len. unat len = length bytes
    \<and> poll_seq sha (wm_scope m) (wm_generation m) buffer Es rt =
      (replicate (length rs - 1) (Inr \<lparr> obs_scope = wm_scope m, obs_generation = wm_generation m, obs_progress = RpPending \<rparr>)
         @ [Inr \<lparr> obs_scope = wm_scope m, obs_generation = wm_generation m,
                  obs_progress = if is_checkpoint then RpCheckpoint len schema else RpComplete len schema \<rparr>],
       bytes @ drop (length bytes) buffer,
       rt\<lparr>lx_calls := calls, lx_active := (lx_active rt)[i := (lx_active rt ! i)\<lparr>ac_checkpoint :=
         if is_checkpoint then Some \<lparr> blob_digest = sha bytes, blob_bytes = len, blob_schema = schema \<rparr> else None\<rparr>]\<rparr>)"
proof -
  obtain len where len: "unat len = length bytes" "len \<le> proposal_limit (wm_definition m) is_checkpoint" "schema \<noteq> 0"
    "frame = frame_bytes sha (wm_scope m) (wm_generation m) is_checkpoint len schema bytes"
    using assms(2) by (auto simp: write_proposal_Inr u32_try_from_Inr)
  let ?a = "lx_active rt ! i"
  have "?a \<in> set (lx_active rt)" using index_worker [OF assms(3)] by simp
  then have ok: "worker_ok ?a" using worker_run_inv [OF assms(1)] by (auto simp: lx_inv_def entry_ok_def)
  have "rs \<noteq> []" using assms(9) len(4) by (auto simp: frame_bytes_def OBS_MAGIC_def)
  moreover have "?a = ?a\<lparr>ac_filled := take 0 frame\<rparr>" using assms(5) by simp
  ultimately obtain calls where
    "poll_seq sha (wm_scope m) (wm_generation m) buffer Es rt =
      (replicate (length rs - 1) (pending_at (wm_scope m) (wm_generation m))
         @ [Inr \<lparr> obs_scope = wm_scope m, obs_generation = wm_generation m,
                  obs_progress = if is_checkpoint then RpCheckpoint len schema else RpComplete len schema \<rparr>],
       bytes @ drop (length bytes) buffer,
       put_worker i (?a\<lparr>ac_filled := [], ac_checkpoint :=
         if is_checkpoint then Some \<lparr> blob_digest = digest_of sha bytes, blob_bytes = len, blob_schema = schema \<rparr> else None\<rparr>)
         (rt\<lparr>lx_calls := calls\<rparr>))"
    using poll_seq_frame [OF len(2,3,1) assms(11,7,8), of 0 frame "wm_scope m" "wm_generation m" rt i ?a sha]
      assms(3,4,6,9,10) ok len(4) by auto
  moreover have "?a\<lparr>ac_filled := [], ac_checkpoint := c\<rparr> = ?a\<lparr>ac_checkpoint := c\<rparr>" for c using assms(5) by simp
  ultimately show ?thesis using len(1) unfolding pending_at_def digest_of_def put_worker_def by auto
qed

theorem proposal_survives_chunking_witness:
  "\<exists>frame rt'. write_proposal ex_worker_sha (\<lambda>_. True) (metadata_of ex_task_start) True 1 [6, 7] = Inr frame
    \<and> poll_seq ex_worker_sha ex_worker_scope 1 [0, 0, 0]
        [ex_runtime_env\<lparr>re_read := \<lambda>_ _. ReadOk (take 20 frame)\<rparr>, ex_runtime_env, ex_runtime_env\<lparr>re_read := \<lambda>_ _. ReadOk (drop 20 frame)\<rparr>]
        ex_live_runtime =
      ([Inr \<lparr> obs_scope = ex_worker_scope, obs_generation = 1, obs_progress = RpPending \<rparr>,
        Inr \<lparr> obs_scope = ex_worker_scope, obs_generation = 1, obs_progress = RpPending \<rparr>,
        Inr \<lparr> obs_scope = ex_worker_scope, obs_generation = 1, obs_progress = RpCheckpoint 2 1 \<rparr>], [6, 7, 0], rt')"
proof -
  let ?m = "metadata_of ex_task_start"
  define frame where "frame = frame_bytes ex_worker_sha ex_worker_scope 1 True 2 1 [6, 7]"
  have m: "wm_scope ?m = ex_worker_scope" "wm_generation ?m = 1" "wm_definition ?m = ex_task_definition"
    by (simp_all add: metadata_of_def ex_task_start_def)
  have len: "length frame = 55" by (simp add: frame_def OBS_HEADER_def)
  have "u32_try_from (length [6, 7 :: byte]) = Inr 2" by (simp add: u32_try_from_Inr)
  then have frame: "write_proposal ex_worker_sha (\<lambda>_. True) ?m True 1 [6, 7] = Inr frame"
    by (simp add: write_proposal_Inr m frame_def proposal_limit_def ex_task_definition_def)
  let ?Es = "[ex_runtime_env\<lparr>re_read := \<lambda>_ _. ReadOk (take 20 frame)\<rparr>, ex_runtime_env, ex_runtime_env\<lparr>re_read := \<lambda>_ _. ReadOk (drop 20 frame)\<rparr>]"
  let ?rs = "[ReadOk (take 20 frame), ReadWouldBlock, ReadOk (drop 20 frame)]"
  have a: "lx_active ex_live_runtime ! 0 = new_active ex_task_start 42" by (simp add: ex_worker_active)
  have reads: "list_all2 (\<lambda>E r. \<forall>t n. re_read E t n = r) ?Es ?rs" by (simp add: ex_runtime_env_def)
  have pieces: "list_all pipe_open ?rs" using len by (auto simp: pipe_open_def)
  have idx: "index (wm_scope ?m) (wm_generation ?m) ex_live_runtime = Inr 0" using ex_live_index by (simp add: m)
  have e: "ac_definition (lx_active ex_live_runtime ! 0) = wm_definition ?m" "ac_filled (lx_active ex_live_runtime ! 0) = []"
    "ac_checkpoint (lx_active ex_live_runtime ! 0) = None"
    unfolding m a by (simp_all add: new_active_def Let_def ex_task_start_def)
  have rest: "concat (map answer_bytes ?rs) = frame" "answer_bytes (last ?rs) \<noteq> []" "length [6, 7 :: byte] \<le> length [0, 0, 0 :: byte]"
    using len by auto
  obtain calls n where "unat (n :: u32) = length [6, 7 :: byte]" and seq: "poll_seq ex_worker_sha (wm_scope ?m) (wm_generation ?m) [0, 0, 0] ?Es ex_live_runtime =
      (replicate (length ?rs - 1) (Inr \<lparr> obs_scope = wm_scope ?m, obs_generation = wm_generation ?m, obs_progress = RpPending \<rparr>)
         @ [Inr \<lparr> obs_scope = wm_scope ?m, obs_generation = wm_generation ?m, obs_progress = if True then RpCheckpoint n 1 else RpComplete n 1 \<rparr>],
       [6, 7] @ drop (length [6, 7 :: byte]) [0, 0, 0], calls)"
    using proposal_survives_chunking [OF ex_worker_run frame idx e reads pieces rest] by blast
  moreover from this have "n = 2" by (simp add: word_unat_eq_iff)
  ultimately show ?thesis using frame by (auto simp: m numeral_2_eq_2)
qed

text \<open>
  C38. A worker can report nothing but a frame. The bytes received for a live worker are taken as a complete
  proposal exactly when they are, byte for byte and without anything behind it, the frame that
  \<open>write_proposal\<close> writes for that scope, generation and definition, with a payload within the limit of
  the definition and a schema.
\<close>
theorem frames_are_canonical:
  "poll_frame sha s g d bs = Inr (Some f) \<longleftrightarrow>
     unat (pf_length f) = length (pf_bytes f)
     \<and> (\<exists>m. wm_scope m = s \<and> wm_generation m = g \<and> wm_definition m = d
          \<and> write_proposal sha (\<lambda>_. True) m (pf_checkpoint f) (pf_schema f) (pf_bytes f) = Inr bs)"
proof
  assume "poll_frame sha s g d bs = Inr (Some f)"
  note c = poll_frame_canonical [OF this]
  have "unat (pf_length f) < 2 ^ 32" using unsigned_less [of "pf_length f"] by simp
  then have "u32_try_from (length (pf_bytes f)) = Inr (pf_length f)" using c by (simp add: u32_try_from_Inr)
  then have "write_proposal sha (\<lambda>_. True) (\<lparr> wm_scope = s, wm_generation = g, wm_definition = d, wm_execution_deadline = 0, wm_input_schema = 0 \<rparr>)
      (pf_checkpoint f) (pf_schema f) (pf_bytes f) = Inr bs"
    using c by (auto simp: write_proposal_Inr)
  then show "unat (pf_length f) = length (pf_bytes f) \<and> (\<exists>m. wm_scope m = s \<and> wm_generation m = g \<and> wm_definition m = d
      \<and> write_proposal sha (\<lambda>_. True) m (pf_checkpoint f) (pf_schema f) (pf_bytes f) = Inr bs)"
    using c by (metis worker_metadata.select_convs(1-3))
next
  assume r: "unat (pf_length f) = length (pf_bytes f) \<and> (\<exists>m. wm_scope m = s \<and> wm_generation m = g \<and> wm_definition m = d
      \<and> write_proposal sha (\<lambda>_. True) m (pf_checkpoint f) (pf_schema f) (pf_bytes f) = Inr bs)"
  then obtain len where l: "unat len = length (pf_bytes f)" "len \<le> proposal_limit d (pf_checkpoint f)" "pf_schema f \<noteq> 0"
    "bs = frame_bytes sha s g (pf_checkpoint f) len (pf_schema f) (pf_bytes f)"
    by (auto simp: write_proposal_Inr u32_try_from_Inr)
  then have "len = pf_length f" using r by (simp add: word_unat_eq_iff)
  then show "poll_frame sha s g d bs = Inr (Some f)"
    using poll_frame_take [OF l(2,3,1), of "OBS_HEADER + length (pf_bytes f)" sha s g] l(4) by simp
qed

text \<open>
  C39. A start packet is read back as it was sent. For a start whose scope fits its definition and input, the
  bytes the runtime sends, header, metadata, input and checkpoint, are read by the worker as the same
  metadata, input and checkpoint, with nothing of what follows consumed. This relies on the JSON decoder
  inverting the encoder.
\<close>
theorem start_packet_round_trip:
  assumes "start_parts sha to_vec rq = Inr parts" "\<forall>m bs. to_vec m = Some bs \<longrightarrow> from_slice bs = Some m"
    and "scope_definition (start_scope rq) = fingerprint sha (start_definition rq)"
    and "definition_validate (start_definition rq) = Inr ()" "sha (start_input rq) = scope_input (start_scope rq)"
    and "length (start_input rq) \<le> unat (max_input_bytes (budget (start_definition rq)))"
    and "checkpoint_length rq \<le> unat (max_checkpoint_bytes (recovery (start_definition rq)))" "start_input_schema rq \<noteq> 0"
    and "length (start_input rq) \<le> unat max_input" "checkpoint_length rq \<le> unat max_checkpoint"
  shows "read_request sha from_slice max_input max_checkpoint (concat parts @ rest) =
    Inr (\<lparr> wq_metadata = \<lparr> wm_scope = start_scope rq, wm_generation = start_generation rq, wm_definition = start_definition rq,
              wm_execution_deadline = start_execution_deadline rq, wm_input_schema = start_input_schema rq \<rparr>,
            wq_input = start_input rq, wq_checkpoint = start_checkpoint rq \<rparr>, rest)"
proof -
  have "start_fits sha rq" using assms(3-8) by (simp add: start_fits_def digest_of_def)
  from read_start_packet [OF assms(1) _ this assms(9,10)] assms(2) show ?thesis by (simp add: metadata_of_def)
qed

definition ex_from_slice :: "byte list \<Rightarrow> worker_metadata option" where
  "ex_from_slice bs = (if bs = [9] then Some (metadata_of ex_task_start) else None)"

definition ex_to_vec_one :: "worker_metadata \<Rightarrow> byte list option" where
  "ex_to_vec_one m = (if m = metadata_of ex_task_start then Some [9] else None)"

theorem start_packet_round_trip_witness:
  "\<exists>parts. start_parts ex_worker_sha ex_to_vec_one ex_task_start = Inr parts
    \<and> read_request ex_worker_sha ex_from_slice 8 8 (concat parts @ [0]) =
      Inr (\<lparr> wq_metadata = metadata_of ex_task_start, wq_input = [1, 2, 3], wq_checkpoint = Some [4, 5] \<rparr>, [0])"
proof -
  obtain parts where parts: "start_parts ex_worker_sha ex_to_vec_one ex_task_start = Inr parts"
    by (simp add: start_parts_Inr ex_to_vec_one_def u32_try_from_def checkpoint_length_def ex_task_start_def)
  have codec: "\<forall>m bs. ex_to_vec_one m = Some bs \<longrightarrow> ex_from_slice bs = Some m" by (simp add: ex_to_vec_one_def ex_from_slice_def)
  have "read_request ex_worker_sha ex_from_slice 8 8 (concat parts @ [0]) =
    Inr (\<lparr> wq_metadata = \<lparr> wm_scope = start_scope ex_task_start, wm_generation = start_generation ex_task_start, wm_definition = start_definition ex_task_start,
              wm_execution_deadline = start_execution_deadline ex_task_start, wm_input_schema = start_input_schema ex_task_start \<rparr>,
            wq_input = start_input ex_task_start, wq_checkpoint = start_checkpoint ex_task_start \<rparr>, [0])"
    by (rule start_packet_round_trip [OF parts codec])
      (simp_all add: ex_task_start_def ex_worker_scope_def ex_task_definition_def fingerprint_def ex_worker_sha_def definition_validate_def checkpoint_length_def)
  then show ?thesis using parts by (simp add: metadata_of_def ex_task_start_def)
qed

text \<open>
  C40. At most one worker lives for an execution. In every state a runtime can reach, whatever the operating
  system answers and as long as the authority grants each reservation once, no two entries of the table
  have the same scope and generation, there are at most \<open>max_live\<close> and so at most 256 of them, and each
  was reserved, runs the pinned image and has frame limits within the configuration, so that a buffer
  never exceeds 16 MiB and 54 bytes.
\<close>
theorem one_worker_per_execution:
  assumes "lx_run sha to_vec rt"
  shows "distinct (map worker_key (lx_active rt))
    \<and> length (lx_active rt) \<le> unat (pc_max_live (lx_config rt)) \<and> unat (pc_max_live (lx_config rt)) \<le> 256
    \<and> list_all (\<lambda>a. code_digest (ac_definition a) = lx_code rt \<and> ac_size a \<le> 16777216 + 54
         \<and> reserved (lx_calls rt) (ac_scope a) (ac_generation a)) (lx_active rt)"
proof -
  note inv = worker_run_inv [OF assms]
  have cfg: "\<not> 256 < pc_max_live (lx_config rt)" "\<not> 16777216 < pc_max_frame_bytes (lx_config rt)"
    using inv by (auto simp: lx_inv_def config_check_def split: if_splits)
  have "ac_size a \<le> 16777216 + 54" if "entry_ok rt a" for a
  proof -
    have "max (max_output_bytes (budget (ac_definition a))) (max_checkpoint_bytes (recovery (ac_definition a))) \<le> 16777216"
      using that cfg(2) by (auto simp: entry_ok_def not_less intro: order_trans)
    then show ?thesis using that by (simp add: entry_ok_def worker_ok_def OBS_HEADER_def word_le_nat_alt)
  qed
  then show ?thesis using inv cfg(1) by (auto simp: lx_inv_def list_all_iff entry_ok_def word_less_nat_alt not_less)
qed

theorem one_worker_per_execution_witness:
  "length (lx_active ex_live_runtime) \<le> 256 \<and> list_all (\<lambda>a. ac_size a \<le> 16777216 + 54) (lx_active ex_live_runtime)"
  using one_worker_per_execution [OF ex_worker_run] by (auto simp: list_all_iff)

text \<open>
  C36. A fence is confirmed only for an execution that was proved stopped. Whatever the operating system and
  the authority answer, a fence of a reachable runtime either never reaches the confirmation, then it
  reports an error and keeps its table, or it ends with it after this evidence: the
  authority named the execution; if it named one, it is the identity derived from scope and generation,
  and the manifest was absent, or was read whole and agrees with the execution, and a process it
  names of this boot was stopped; and the live child, if there is one, was reaped or is gone and is the
  process just stopped. After that no live entry for the execution is left.
\<close>
theorem fence_confirms_only_stopped:
  assumes "lx_run sha to_vec rt" "fence_worker E sha s g rt = (res, rt')"
  shows "\<exists>cs. lx_calls rt' = lx_calls rt @ cs
    \<and> ((\<forall>x r. LConfirm s g x r \<notin> set cs) \<and> res \<noteq> Inr () \<and> lx_active rt' = lx_active rt
       \<or> (\<exists>x stopped stops waits. cs = [LLock, LBeginFence s g (Inr x)] @ stops @ waits @ [LConfirm s g x res]
            \<and> stop_evidence sha s g (lx_boot rt) x stopped stops \<and> exit_evidence (lx_active rt) s g stopped waits
            \<and> list_all (\<lambda>a. \<not> is_worker s g a) (lx_active rt')))"
proof -
  have d: "distinct (map worker_key (lx_active rt))" using worker_run_inv [OF assms(1)] by (simp add: lx_inv_def)
  have "list_all (\<lambda>a. \<not> is_worker s g a) (lx_active rt')"
    if "lx_active rt' = lx_active rt \<and> (\<forall>a\<in>set (lx_active rt). \<not> is_worker s g a)
       \<or> (\<exists>i. i < length (lx_active rt) \<and> is_worker s g (lx_active rt ! i) \<and> lx_active rt' = swap_remove i (lx_active rt))"
    using that swap_remove_worker(1) [OF d] by (auto simp: list_all_iff)
  then show ?thesis using fence_cases [OF assms(2)] by blast
qed

theorem fence_confirms_only_stopped_witness:
  "list_all (\<lambda>a. \<not> is_worker ex_worker_scope 1 a) (lx_active (snd (fence_worker ex_runtime_env ex_worker_sha ex_worker_scope 1 ex_live_runtime)))
   \<and> \<not> list_all (\<lambda>a. \<not> is_worker ex_worker_scope 1 a) (lx_active ex_live_runtime)"
proof -
  obtain rt' where f: "fence_worker ex_runtime_env ex_worker_sha ex_worker_scope 1 ex_live_runtime = (Inr (), rt')"
    using ex_fence by (metis prod.collapse)
  have "is_worker ex_worker_scope 1 (new_active ex_task_start 42)" by (simp add: is_worker_def new_active_def ex_task_start_def Let_def)
  then show ?thesis using fence_confirms_only_stopped [OF ex_worker_run f] f by (auto simp: ex_worker_active)
qed

text \<open>
  A manifest names its execution and no other. The manifest that is written before a worker is spawned,
  completed by the worker's own identity, is accepted for exactly the execution identity, scope,
  generation and definition it was written for, and then gives back the process and the boot it
  was started in; a half-written identity is refused, and a manifest without one reports that no
  process was recorded.
\<close>
theorem manifest_names_its_execution:
  "load_manifest sha s' g' x' (write_identity i (manifest_header sha s g x boot)) =
     (if x = x' \<and> scope_digest sha s = scope_digest sha s' \<and> g = g' \<and> scope_definition s = scope_definition s'
      then if id_pid i = 0 \<and> id_start_ticks i = 0 then Inr \<lparr> sv_identity = None, sv_boot = boot \<rparr>
           else if 0 < id_pid i \<and> 0 < id_start_ticks i then Inr \<lparr> sv_identity = Some i, sv_boot = boot \<rparr>
           else Inl Corrupt
      else Inl Corrupt)
   \<and> load_manifest sha s g x (manifest_header sha s g x boot) = Inr \<lparr> sv_identity = None, sv_boot = boot \<rparr>"
  unfolding write_identity_manifest load_manifest_file load_new_manifest by (cases i) simp

end
