(* ===== verification/Spec2Isabelle.thy ===== *)
theory Spec2Isabelle
  imports Task_Control_Properties Saga_Properties Graph_Properties Timeline_Live_Properties
    Timeline_History_Properties Timeline_Ergonomic_Properties Process_Tasks_Properties Canonical_Evidence
    Worker_Runtime_Properties
begin

text \<open>
  \<^bold>\<open>Penelope\<close> is a Rust library for durable processes: sagas that plan external actions and
  compensate them, supervised tasks that are restarted from checkpoints, and timelines whose past
  can be corrected by replay. Every part is built as a pure decision over a durable log, and a thin
  driver that calls ports (journal, runtime, stores) in a fixed order. This library models the
  decisions and the drivers; ports and consumer code are arguments of the definitions.

  \<^bold>\<open>Tasks\<close> (\<open>crates/penelope-core/src/task\<close>, \<open>crates/penelope-executor/src/task.rs\<close>).
  \<open>Task_Contracts\<close> has identities, definitions, budgets and records (\<open>contracts.rs\<close>,
  \<open>identities.rs\<close>). \<open>Task_Projection\<close> is \<open>TaskProjection\<close>: one function per event, \<open>apply\<close>,
  \<open>propose\<close>, \<open>next\<close> and the replay of a history. \<open>Task_Invariants\<close> shows what every accepted
  record keeps; \<open>Task_Properties\<close> shows what accepted histories are like (authorised restarts,
  generations, deadlines, reserved slots). \<open>Task_Control\<close> models \<open>control.rs\<close> and the hosted
  supervisor as programs over a state with the log of port calls; the ports answer arbitrarily.
  \<open>Task_Control_Properties\<close> proves, by a weakest precondition calculus, an invariant of whole
  sessions: port order, agreement of memory and journal, fail-closed ambiguity, restoring.

  \<^bold>\<open>Sagas\<close> (\<open>crates/penelope-domain\<close>, \<open>crates/penelope-executor/src/engine.rs\<close>, \<open>graph.rs\<close>,
  \<open>graph_outcomes.rs\<close>). \<open>Saga_Domain\<close> has identifiers, actions, outcomes, canonical bytes and
  digests; the hash function is an argument. \<open>Saga_Engine\<close> has retry timing, validation, the
  transitions of \<open>LinearSagaEngine\<close>, replay and outcome batches. \<open>Saga_Invariants\<close> and
  \<open>Saga_Properties\<close> relate live decisions and replay and show order, liveness and the exact
  due times of retries, their 64-bit mixing computed independently on naturals.
  \<open>Graph_Engine\<close>, \<open>Graph_Validation\<close> and \<open>Graph_Properties\<close> do the same for graph-shaped
  definitions, whose validation (binary search, bit masks, worklist) is shown to decide a
  declarative specification. Both logs are instances of one locale of the prelude.

  \<^bold>\<open>Timelines\<close> (\<open>crates/penelope-core/src/timeline\<close>, \<open>crates/penelope-timeline\<close>).
  \<open>Timeline_Core\<close> has heads, replay plans and the projection of branch reservations;
  \<open>Timeline_Wire\<close> the byte format, built from codecs that are instances of a locale;
  \<open>Timeline_Properties\<close> runs of the projection, restarts through checkpoint bytes included.
  \<open>Timeline_Live\<close> has staged effects, replay sessions, live steps, promotion and handoff;
  \<open>Timeline_Live_Effects\<close> shows that the slot buffer refines a list, and
  \<open>Timeline_Live_Properties\<close> the correctness of replay, publication and handoff.
  \<open>Timeline_History\<close> is the bounded history store with branch lineage, and
  \<open>Timeline_History_Invariants\<close> its invariant and the reference meaning of its lookups;
  \<open>Timeline_History_Properties\<close> shows that retained history is complete, exact and immutable, and
  that a materialised branch is a faithful copy.
  \<open>Timeline_Ergonomic\<close> is the convenience layer (captured inputs and snapshots, pinned sessions,
  applied inputs, scoped corrections); \<open>Timeline_Ergonomic_Properties\<close> shows that a scoped
  correction is all or nothing and that an applied input is a prepared step appended.

  \<^bold>\<open>Processes\<close> (\<open>crates/penelope-ports\<close>, \<open>crates/penelope-executor/src/services.rs\<close>,
  \<open>composition.rs\<close>). \<open>Process_Values\<close> has the records that cross the ports with their checks:
  receipts, outbox and timer leases, reconciliation evidence and windows, authorizations, reviews.
  \<open>Process_Commits\<close> has the atomic commit, replay pages and the outcome log, and
  \<open>Process_Properties\<close> the specification its checks decide. \<open>Process_Services\<close> models the bounded
  integration calls over a record of ports whose answers may depend on every earlier call, with the
  batch index and the timer inputs; \<open>Process_Services_Properties\<close> shows, through one locale for both
  delivery loops, that a lease is acknowledged only after its verified delivery. \<open>Process_Tasks\<close>
  joins sagas and tasks: binding, admission, verification and relay. \<open>Process_Tasks_Properties\<close>
  composes it with the sessions of the task supervisor: durable admission, authorized driving,
  independent evidence and stable identities.

  \<open>Canonical_Evidence\<close> is the adapter to a canonical event store (\<open>crates/penelope-statechronicle\<close>)
  and shows that evidence is accepted exactly when command, event and commit agree.

  \<^bold>\<open>Workers\<close> (\<open>crates/penelope-process-runtime\<close>). \<open>Worker_Protocol\<close> has the byte formats between the
  runtime and a worker process, the manifests of executions and the check of a worker image;
  \<open>Worker_Runtime\<close> the runtime's start, poll, acknowledge and fence, with the operating system and the
  authority of generations as functions of all earlier calls. \<open>Worker_Properties\<close> and
  \<open>Worker_Runtime_Properties\<close> show that frames survive any fragmentation and nothing else is accepted,
  that start packets and manifests round-trip, that at most one worker is live for an execution, and
  that a fence is confirmed only after its process was proved stopped.

  \<^bold>\<open>Conventions.\<close> Counters and sizes are machine words and arithmetic is checked or saturating as
  in the source; an error is the left side of a sum; collections with a meaning beyond their
  contents (slots, logs) are lists. Operations that mutate in place also when they fail return the
  new state beside their result. Loops are structural recursions on the remaining budget, on the
  list they scan or, for the depth of a lineage walk, on the number of branch slots; the graph
  search and the binary search carry termination proofs. Where a loop is bounded by a capacity the
  bound is shown to suffice.

  \<^bold>\<open>Not modelled.\<close> The SQL adapters (\<open>penelope-sqlite\<close>), whose behaviour is that of statements run by
  an external engine; the system calls of the sandbox and of stopping a process, which answer through
  the environment of the runtime; serde decoding, JSON encoding and SHA-256, which are arguments where
  a definition needs them; cancellation of futures beyond the trace of calls already made; panics of
  consumer code; and the lock of \<open>penelope-timeline/src/shared.rs\<close>, under which every call is one of the
  modelled live timeline.
\<close>

end
